(* ===== verification/Prelude.thy ===== *)
theory Prelude
  imports Main "HOL-Library.Word" "HOL-Library.Monad_Syntax"
begin

text \<open>
  What every component theory shares: the machine integer types of the C code, the
  collections of rewrite rules, and the generic facts on words (page number and page
  offset of an address, little-endian bytes of a 32-bit word, distances between
  addresses) that carry the component proofs.
\<close>

unbundle bit_operations_syntax

type_synonym u8 = "8 word"
type_synonym u16 = "16 word"
type_synonym u32 = "32 word"
type_synonym u64 = "64 word"

text \<open>
  \<open>mem_simps\<close> holds the read-over-write laws and the facts that a store leaves the address
  translation alone; \<open>pg_simps\<close> the facts about page numbers and page offsets.
\<close>

named_theorems mem_simps
named_theorems pg_simps

text \<open>The bytes of a string literal, without its terminating zero.\<close>

definition lit :: "string \<Rightarrow> u8 list" where
  "lit cs = map of_char cs"

section \<open>Option monad\<close>

lemma bind_eq_SomeD: "Option.bind m f = Some y \<Longrightarrow> \<exists>x. m = Some x \<and> f x = Some y"
  by (cases m) auto

lemma those_Some: "(\<And>k. k < length xs \<Longrightarrow> xs ! k = Some (ys ! k)) \<Longrightarrow> length ys = length xs \<Longrightarrow>
    those xs = Some ys"
proof (induction xs arbitrary: ys)
  case Nil
  then show ?case by simp
next
  case (Cons x xs)
  then obtain y zs where ys: "ys = y # zs" by (cases ys) auto
  have "x = Some y" using Cons.prems(1) [of 0] ys by simp
  moreover have "those xs = Some zs"
    using Cons.prems(1) [of "Suc _"] Cons.prems(2) ys by (intro Cons.IH) auto
  ultimately show ?case using ys by simp
qed

lemma those_nth: "those xs = Some ys \<Longrightarrow> k < length xs \<Longrightarrow> xs ! k = Some (ys ! k)"
proof (induction xs arbitrary: ys k)
  case (Cons x xs)
  then show ?case by (cases k) (auto split: option.splits)
qed simp

section \<open>Counting loops\<close>

text \<open>
  \<open>for_loop i k f s\<close> is the loop \<open>for (j = i; j < i + k; j++) f(j)\<close> over the state \<open>s\<close>; it
  stops at the first step that does not return.
\<close>

fun for_loop :: "nat \<Rightarrow> nat \<Rightarrow> (nat \<Rightarrow> 's \<Rightarrow> 's option) \<Rightarrow> 's \<Rightarrow> 's option" where
  "for_loop i 0 f s = Some s"
| "for_loop i (Suc k) f s =
     (case f i s of None \<Rightarrow> None | Some s' \<Rightarrow> for_loop (Suc i) k f s')"

lemma for_loop_inv:
  assumes "P i s"
    and "\<And>j s. i \<le> j \<Longrightarrow> j < i + k \<Longrightarrow> P j s \<Longrightarrow> \<exists>s'. f j s = Some s' \<and> P (Suc j) s'"
  shows "\<exists>s'. for_loop i k f s = Some s' \<and> P (i + k) s'"
  using assms
proof (induction k arbitrary: i s)
  case 0
  then show ?case by simp
next
  case (Suc k)
  obtain s1 where s1: "f i s = Some s1" "P (Suc i) s1"
    using Suc.prems(1) Suc.prems(2) [of i s] by auto
  have "\<exists>s'. for_loop (Suc i) k f s1 = Some s' \<and> P (Suc i + k) s'"
    using s1(2) by (rule Suc.IH) (rule Suc.prems(2); simp)
  with s1 show ?case by simp
qed

lemma for_loop_rel:
  assumes "\<And>s. R s s" and "\<And>s t u. R s t \<Longrightarrow> R t u \<Longrightarrow> R s u"
    and "\<And>j s s'. f j s = Some s' \<Longrightarrow> R s s'" and "for_loop i k f s = Some s'"
  shows "R s s'"
  using assms(4) by (induction k arbitrary: i s) (auto split: option.splits intro: assms)

section \<open>Bounds and sums of 32-bit words\<close>

lemma u32_less: "unat (a :: u32) < 4294967296"
proof -
  have "unat a < 2 ^ LENGTH(32)" by (rule unsigned_less)
  then show ?thesis by simp
qed

lemma unat_add_small: "unat (a :: u32) + unat b < 4294967296 \<Longrightarrow> unat (a + b) = unat a + unat b"
  by (simp add: unat_word_ariths)

lemma u16_less: "unat (a :: u16) < 65536"
proof -
  have "unat a < 2 ^ LENGTH(16)" by (rule unsigned_less)
  then show ?thesis by simp
qed

lemma unat_ucast16 [simp]: "unat (ucast (a :: u16) :: u32) = unat a"
  using u16_less [of a] by (simp add: unsigned_ucast_eq take_bit_nat_eq_self)

lemma word_of_nat_inj:
  "j < 4294967296 \<Longrightarrow> k < 4294967296 \<Longrightarrow> (word_of_nat j :: u32) = word_of_nat k \<longleftrightarrow> j = k"
  by (simp add: word_unat_eq_iff unat_of_nat)

lemma sint_small: "unat (a :: u32) < 2147483648 \<Longrightarrow> sint a = int (unat a)"
proof -
  assume "unat a < 2147483648"
  then have "int (unat a) < int 2147483648" by (simp only: of_nat_less_iff)
  then have "uint a < 2147483648" by simp
  moreover have "- 2147483648 \<le> uint a" using uint_ge_0 [of a] by (rule order_trans [rotated]) simp
  ultimately show ?thesis by (simp add: sint_uint signed_take_bit_int_eq_self)
qed

section \<open>Page number and page offset of an address\<close>

definition page :: "u32 \<Rightarrow> u32" where
  "page a = drop_bit 12 a"

definition pgoff :: "u32 \<Rightarrow> u32" where
  "pgoff a = take_bit 12 a"

definition mkaddr :: "u32 \<Rightarrow> u32 \<Rightarrow> u32" where
  "mkaddr f off = push_bit 12 f OR off"

lemma unat_page: "unat (page a) = unat a div 4096"
  by (simp add: page_def drop_bit_eq_div unat_div)

lemma unat_pgoff: "unat (pgoff a) = unat a mod 4096"
  by (simp add: pgoff_def take_bit_eq_mod unat_mod)

lemma page_less [simp]: "unat (page a) < 1048576"
proof -
  have "unat a < 4294967296" using unsigned_less [of a] by simp
  then show ?thesis by (simp add: unat_page)
qed

lemma pgoff_less [simp]: "unat (pgoff a) < 4096"
  by (simp add: unat_pgoff)

lemma mkaddr_page_pgoff [simp, pg_simps]: "mkaddr (page a) (pgoff a) = a"
  unfolding mkaddr_def page_def pgoff_def
  by (rule bit_word_eqI) (auto simp: bit_simps)

lemma take_bit_unat_less: "unat (x :: u32) < 2 ^ n \<Longrightarrow> take_bit n x = x"
  by (metis nat_take_bit_eq take_bit_nat_eq_self unat_eq_nat_uint unsigned_word_eqI
      unsigned_take_bit_eq uint_ge_0)

lemma bit_less_exp: "unat (x :: u32) < 2 ^ n \<Longrightarrow> bit x k \<Longrightarrow> k < n"
  by (metis bit_take_bit_iff take_bit_unat_less)

lemma page_mkaddr [simp, pg_simps]: "unat f < 1048576 \<Longrightarrow> unat x < 4096 \<Longrightarrow> page (mkaddr f x) = f"
  unfolding mkaddr_def page_def
  using bit_less_exp [of f 20] bit_less_exp [of x 12]
  by (intro bit_word_eqI) (fastforce simp: bit_simps)

lemma pgoff_mkaddr [simp, pg_simps]: "unat x < 4096 \<Longrightarrow> pgoff (mkaddr f x) = x"
  unfolding mkaddr_def pgoff_def
  using bit_less_exp [of x 12]
  by (intro bit_word_eqI) (fastforce simp: bit_simps)

lemma page_pgoff_add:
  assumes "unat (pgoff a) + unat k < 4096"
  shows "page (a + k) = page a \<and> pgoff (a + k) = pgoff a + k"
proof -
  have "x + j < (q + 1) * 4096" if "q * 4096 + r = x" and "r + j < 4096" for x q r j :: nat
    using that by simp
  then have a: "unat a + unat k < (unat a div 4096 + 1) * 4096"
    using assms by (metis div_mult_mod_eq unat_pgoff)
  moreover have "unat a div 4096 + 1 \<le> 1048576" using page_less [of a] by (simp add: unat_page)
  moreover have "y < 4294967296" if "y < (q + 1) * 4096" and "q + 1 \<le> 1048576" for y q :: nat
    using that by simp
  ultimately have "unat a + unat k < 4294967296" by blast
  then have s: "unat (a + k) = unat a + unat k" by (rule unat_add_small)
  have "(unat a + unat k) div 4096 = unat a div 4096"
    using a by (intro div_nat_eqI) (auto simp: algebra_simps)
  moreover from this have "(unat a + unat k) mod 4096 = unat a mod 4096 + unat k"
    by (simp add: modulo_nat_def)
  ultimately show ?thesis
    using assms
    by (auto simp: word_unat_eq_iff unat_page unat_pgoff s unat_add_small [of "pgoff a"])
qed

lemmas page_add = page_pgoff_add [THEN conjunct1]
lemmas pgoff_add = page_pgoff_add [THEN conjunct2]

lemma mkaddr_eq_add: "unat x < 4096 \<Longrightarrow> mkaddr f x = push_bit 12 f + x"
  unfolding mkaddr_def using bit_less_exp [of x 12]
  by (intro disjunctive_add [symmetric]) (fastforce simp: bit_simps)

lemma mkaddr_add: "unat x + unat k < 4096 \<Longrightarrow> mkaddr f x + k = mkaddr f (x + k)"
  by (simp add: mkaddr_eq_add unat_add_small add.assoc)

lemma page_pgoff_eqI: "page a = page b \<Longrightarrow> pgoff a = pgoff b \<Longrightarrow> a = b"
  by (metis mkaddr_page_pgoff)

lemma mkaddr_inject:
  "unat f < 1048576 \<Longrightarrow> unat g < 1048576 \<Longrightarrow> unat x < 4096 \<Longrightarrow> unat y < 4096 \<Longrightarrow>
    mkaddr f x = mkaddr g y \<longleftrightarrow> f = g \<and> x = y"
  by (metis page_mkaddr pgoff_mkaddr)

section \<open>Distances and separate ranges\<close>

text \<open>Two ranges of addresses that do not wrap around and do not meet.\<close>

definition sep :: "u32 \<Rightarrow> nat \<Rightarrow> u32 \<Rightarrow> nat \<Rightarrow> bool" where
  "sep a n b m \<longleftrightarrow>
     unat a + n \<le> unat b \<and> unat b + m \<le> 4294967296 \<or>
     unat b + m \<le> unat a \<and> unat a + n \<le> 4294967296"

lemma sep_sym: "sep a n b m = sep b m a n"
  by (auto simp: sep_def)

lemma sep_dist:
  assumes "sep a n b m" and "j < m"
  shows "n \<le> unat (b + word_of_nat j - a)"
proof -
  have j: "unat (word_of_nat j :: u32) = j" and b: "unat b + j < 4294967296"
    using assms unsigned_less [of a] by (auto simp: sep_def unat_of_nat)
  then have "unat (b + word_of_nat j) = unat b + j" by (subst unat_add_small) auto
  then show ?thesis using assms unsigned_less [of a]
    by (auto simp: sep_def unat_sub_if')
qed

section \<open>Little-endian bytes of a 32-bit word\<close>

definition cat32 :: "u8 \<Rightarrow> u8 \<Rightarrow> u8 \<Rightarrow> u8 \<Rightarrow> u32" where
  "cat32 b0 b1 b2 b3 =
     ucast b0 OR push_bit 8 (ucast b1) OR push_bit 16 (ucast b2) OR push_bit 24 (ucast b3)"

definition byte_of :: "nat \<Rightarrow> u32 \<Rightarrow> u8" where
  "byte_of k v = ucast (drop_bit (8 * k) v)"

lemma cat32_bytes [simp]: "cat32 (byte_of 0 v) (byte_of 1 v) (byte_of 2 v) (byte_of 3 v) = v"
proof (rule bit_word_eqI)
  fix k :: nat
  assume "k < LENGTH(32)"
  then consider "k < 8" | "8 \<le> k" "k < 16" | "16 \<le> k" "k < 24" | "24 \<le> k" "k < 32"
    by fastforce
  then show "bit (cat32 (byte_of 0 v) (byte_of 1 v) (byte_of 2 v) (byte_of 3 v)) k = bit v k"
    by cases (auto simp: cat32_def byte_of_def bit_simps)
qed

lemmas cat32_bytes_Suc [simp] = cat32_bytes [unfolded One_nat_def]

end
