(* ===== verification/Machine.thy ===== *)
theory Machine
  imports Prelude
begin

text \<open>
  The machine the kernel runs on, as far as the C code relies on it: byte-addressed
  physical memory, the page directory register, the two-level page walk of the i386 with
  4 KiB pages, a translation cache that only \<open>invlpg\<close> empties, and the I/O ports.  The
  C code reads and writes memory through the address translation only (paging is on since
  \<open>boot.s\<close>), so a load or store at an unmapped address is a page fault: \<open>None\<close>.  The state
  of every component extends the record of this theory.
\<close>

section \<open>State\<close>

datatype io_event =
    Out8 u16 u8
  | Out32 u16 u32
  | In8 u16 u8
  | In32 u16 u32

text \<open>
  \<open>tlb\<close> maps a virtual page number to the frame number cached for it.  \<open>io_trace\<close> is the
  port traffic so far, the latest event first; \<open>io_dev\<close> stands for the devices: what an
  \<open>in\<close> instruction returns, given the traffic so far.  \<open>kernel_end\<close> is \<open>__kernel_end\<close> of
  \<open>linker.ld\<close>, the page-aligned virtual address after the loaded image; nothing changes it.
\<close>

record machine =
  ram :: "u32 \<Rightarrow> u8"
  cr3 :: u32
  tlb :: "u32 \<Rightarrow> u32 option"
  io_trace :: "io_event list"
  io_dev :: "io_event list \<Rightarrow> u16 \<Rightarrow> u32"
  kernel_end :: u32

section \<open>Port input and output\<close>

definition outb :: "'a machine_scheme \<Rightarrow> u16 \<Rightarrow> u8 \<Rightarrow> 'a machine_scheme" where
  "outb s port val = s\<lparr>io_trace := Out8 port val # io_trace s\<rparr>"

definition outl :: "'a machine_scheme \<Rightarrow> u16 \<Rightarrow> u32 \<Rightarrow> 'a machine_scheme" where
  "outl s port val = s\<lparr>io_trace := Out32 port val # io_trace s\<rparr>"

definition inb :: "'a machine_scheme \<Rightarrow> u16 \<Rightarrow> u8 \<times> 'a machine_scheme" where
  "inb s port =
     (let ret = ucast (io_dev s (io_trace s) port)
      in (ret, s\<lparr>io_trace := In8 port ret # io_trace s\<rparr>))"

definition inl :: "'a machine_scheme \<Rightarrow> u16 \<Rightarrow> u32 \<times> 'a machine_scheme" where
  "inl s port =
     (let ret = io_dev s (io_trace s) port
      in (ret, s\<lparr>io_trace := In32 port ret # io_trace s\<rparr>))"

definition io_wait :: "'a machine_scheme \<Rightarrow> 'a machine_scheme" where
  "io_wait s = outb s 0x80 0"

section \<open>Address translation\<close>

definition phys32 :: "(u32 \<Rightarrow> u8) \<Rightarrow> u32 \<Rightarrow> u32" where
  "phys32 m p = cat32 (m p) (m (p + 1)) (m (p + 2)) (m (p + 3))"

definition pd_index :: "u32 \<Rightarrow> u32" where
  "pd_index va = drop_bit 22 va"

definition pt_index :: "u32 \<Rightarrow> u32" where
  "pt_index va = take_bit 10 (drop_bit 12 va)"

text \<open>The address of entry \<open>i\<close> of the table in frame \<open>f\<close>, and the entry.\<close>

definition entry_addr :: "u32 \<Rightarrow> u32 \<Rightarrow> u32" where
  "entry_addr f i = mkaddr f (push_bit 2 i)"

definition entry :: "(u32 \<Rightarrow> u8) \<Rightarrow> u32 \<Rightarrow> u32 \<Rightarrow> u32" where
  "entry m f i = phys32 m (entry_addr f i)"

definition present :: "u32 \<Rightarrow> bool" where
  "present e \<longleftrightarrow> e AND 1 = 1"

definition walk_frame :: "(u32 \<Rightarrow> u8) \<Rightarrow> u32 \<Rightarrow> u32 \<Rightarrow> u32 option" where
  "walk_frame m c va =
     (let pde = entry m (page c) (pd_index va) in
      if \<not> present pde then None
      else let pte = entry m (page pde) (pt_index va) in
        if \<not> present pte then None else Some (page pte))"

definition translate :: "'a machine_scheme \<Rightarrow> u32 \<Rightarrow> u32 option" where
  "translate s va =
     (case tlb s (page va) of
        Some f \<Rightarrow> Some (mkaddr f (pgoff va))
      | None \<Rightarrow> map_option (\<lambda>f. mkaddr f (pgoff va)) (walk_frame (ram s) (cr3 s) va))"

definition invlpg :: "'a machine_scheme \<Rightarrow> u32 \<Rightarrow> 'a machine_scheme" where
  "invlpg s va = s\<lparr>tlb := (tlb s)(page va := None)\<rparr>"

definition flush_all_tlb :: "'a machine_scheme \<Rightarrow> 'a machine_scheme" where
  "flush_all_tlb s = s\<lparr>tlb := (\<lambda>_. None)\<rparr>"

section \<open>Loads and stores\<close>

text \<open>
  A store first translates the addresses of all its bytes, as the processor does, and then
  writes them.
\<close>

fun ram_put :: "(u32 \<Rightarrow> u8) \<Rightarrow> (u32 \<times> u8) list \<Rightarrow> (u32 \<Rightarrow> u8)" where
  "ram_put m [] = m"
| "ram_put m ((p, b) # pbs) = ram_put (m(p := b)) pbs"

definition phys_addrs :: "'a machine_scheme \<Rightarrow> u32 \<Rightarrow> nat \<Rightarrow> u32 list option" where
  "phys_addrs s a n = those (map (\<lambda>k. translate s (a + word_of_nat k)) [0..<n])"

definition rdn :: "'a machine_scheme \<Rightarrow> u32 \<Rightarrow> nat \<Rightarrow> u8 list option" where
  "rdn s a n = map_option (map (ram s)) (phys_addrs s a n)"

definition wrn :: "'a machine_scheme \<Rightarrow> u32 \<Rightarrow> u8 list \<Rightarrow> 'a machine_scheme option" where
  "wrn s a bs =
     map_option (\<lambda>ps. s\<lparr>ram := ram_put (ram s) (zip ps bs)\<rparr>) (phys_addrs s a (length bs))"

definition rd8 :: "'a machine_scheme \<Rightarrow> u32 \<Rightarrow> u8 option" where
  "rd8 s a = map_option (ram s) (translate s a)"

definition wr8 :: "'a machine_scheme \<Rightarrow> u32 \<Rightarrow> u8 \<Rightarrow> 'a machine_scheme option" where
  "wr8 s a v = wrn s a [v]"

definition rd16 :: "'a machine_scheme \<Rightarrow> u32 \<Rightarrow> u16 option" where
  "rd16 s a = map_option (\<lambda>bs. ucast (bs ! 0) OR push_bit 8 (ucast (bs ! 1))) (rdn s a 2)"

definition wr16 :: "'a machine_scheme \<Rightarrow> u32 \<Rightarrow> u16 \<Rightarrow> 'a machine_scheme option" where
  "wr16 s a v = wrn s a [ucast v, ucast (drop_bit 8 v)]"

definition rd32 :: "'a machine_scheme \<Rightarrow> u32 \<Rightarrow> u32 option" where
  "rd32 s a = map_option (\<lambda>bs. cat32 (bs ! 0) (bs ! 1) (bs ! 2) (bs ! 3)) (rdn s a 4)"

definition wr32 :: "'a machine_scheme \<Rightarrow> u32 \<Rightarrow> u32 \<Rightarrow> 'a machine_scheme option" where
  "wr32 s a v = wrn s a [byte_of 0 v, byte_of 1 v, byte_of 2 v, byte_of 3 v]"

section \<open>Page tables in memory\<close>

lemma entry_offset: "unat i < 1024 \<Longrightarrow> unat (push_bit 2 (i :: u32)) = 4 * unat i"
proof -
  assume "unat i < 1024"
  then have "4 * unat i < 4294967296" by simp
  then show ?thesis by (simp add: push_bit_eq_mult unat_word_ariths)
qed

lemma page_entry_addr [pg_simps]:
  assumes "unat f < 1048576" and "unat i < 1024" and "unat k < 4"
  shows "page (entry_addr f i + k) = f"
  using assms by (simp add: entry_addr_def entry_offset mkaddr_add unat_add_small)

lemma page_entry_addr0 [pg_simps]:
  "unat f < 1048576 \<Longrightarrow> unat i < 1024 \<Longrightarrow> page (entry_addr f i) = f"
  using page_entry_addr [of f i 0] by simp

lemma entry_cong:
  assumes "unat f < 1048576" and "unat i < 1024" and "\<And>p. page p = f \<Longrightarrow> m p = m' p"
  shows "entry m f i = entry m' f i"
  using assms page_entry_addr0 [OF assms(1,2)] page_entry_addr [OF assms(1,2)]
  by (simp add: entry_def phys32_def)

lemma pd_index_less [simp]: "unat (pd_index va) < 1024"
proof -
  have "unat va < 4294967296" using unsigned_less [of va] by simp
  then show ?thesis by (simp add: pd_index_def drop_bit_eq_div unat_div)
qed

lemma pt_index_less [simp]: "unat (pt_index va) < 1024"
  by (simp add: pt_index_def take_bit_eq_mod unat_mod)

lemma index_page: "pd_index va = drop_bit 10 (page va)" "pt_index va = take_bit 10 (page va)"
  by (simp_all add: pd_index_def pt_index_def page_def)

lemma page_index: "page va = push_bit 10 (pd_index va) OR pt_index va"
  unfolding index_page by (rule bit_word_eqI) (auto simp: bit_simps)

lemma page_eq_iff: "page a = page b \<longleftrightarrow> pd_index a = pd_index b \<and> pt_index a = pt_index b"
  by (metis index_page page_index)

text \<open>The frames that hold the page directory or a page table.\<close>

definition table_frame :: "(u32 \<Rightarrow> u8) \<Rightarrow> u32 \<Rightarrow> u32 \<Rightarrow> bool" where
  "table_frame m c f \<longleftrightarrow>
     f = page c \<or>
     (\<exists>i. unat i < 1024 \<and> present (entry m (page c) i) \<and> f = page (entry m (page c) i))"

lemma table_frame_dir [simp]: "table_frame m c (page c)"
  by (simp add: table_frame_def)

lemma table_frameI:
  "unat i < 1024 \<Longrightarrow> present (entry m (page c) i) \<Longrightarrow> table_frame m c (page (entry m (page c) i))"
  by (auto simp: table_frame_def)

lemma entry_tables_cong:
  assumes "\<And>p. table_frame m c (page p) \<Longrightarrow> m p = m' p" and "unat i < 1024"
  shows "entry m (page c) i = entry m' (page c) i"
  using assms by (intro entry_cong) (auto simp: table_frame_def)

lemma table_frame_cong:
  assumes "\<And>p. table_frame m c (page p) \<Longrightarrow> m p = m' p"
  shows "table_frame m' c = table_frame m c"
proof -
  have "entry m' (page c) i = entry m (page c) i" if "unat i < 1024" for i
    using entry_tables_cong [where i = i, OF assms that] by simp
  then show ?thesis by (auto simp: table_frame_def fun_eq_iff)
qed

lemma walk_frame_cong:
  assumes "\<And>p. table_frame m c (page p) \<Longrightarrow> m p = m' p"
  shows "walk_frame m' c va = walk_frame m c va"
proof -
  let ?e = "entry m (page c) (pd_index va)"
  have pde: "entry m' (page c) (pd_index va) = ?e"
    by (rule entry_tables_cong [symmetric]) (auto intro: assms)
  have "present ?e \<Longrightarrow> entry m' (page ?e) (pt_index va) = entry m (page ?e) (pt_index va)"
    by (rule entry_cong [symmetric]) (auto intro!: assms table_frameI)
  with pde show ?thesis by (simp add: walk_frame_def Let_def)
qed

lemma walk_frame_page: "page a = page b \<Longrightarrow> walk_frame m c a = walk_frame m c b"
  by (auto simp: walk_frame_def page_eq_iff Let_def)

lemma translate_add:
  assumes "translate s a = Some p" and "unat (pgoff a) + unat k < 4096"
  shows "translate s (a + k) = Some (p + k)"
  using assms page_add [OF assms(2)] pgoff_add [OF assms(2)]
    walk_frame_page [of "a + k" a] mkaddr_add [OF assms(2)]
  by (auto simp: translate_def split: option.splits)

section \<open>Data addresses\<close>

text \<open>
  \<open>boot.s\<close> maps the whole of 0xc0100000-0xc03fffff onto the physical memory from 0x100000 on
  (\<open>fill_loop\<close>), far more than the kernel image.  The page at \<open>kernel_end\<close> holds the tables of
  the page frame allocator; the pages of directory slot 768 after it are the \<open>shadow\<close>: no
  object of the program lives there, but the frames that the allocator hands out can be seen
  through them.
\<close>

definition shadow :: "'a machine_scheme \<Rightarrow> u32 \<Rightarrow> bool" where
  "shadow s a \<longleftrightarrow> pd_index a = 768 \<and> page (kernel_end s) < page a"

text \<open>
  A data address is outside the shadow and mapped, to a byte that is in no page table, and no
  other address outside the shadow reaches that byte.  A store there changes what is read there
  and, perhaps, what is read at some address of the shadow, and nothing else: not the address
  translation, not any other address.
\<close>

definition data :: "'a machine_scheme \<Rightarrow> u32 \<Rightarrow> bool" where
  "data s a \<longleftrightarrow> \<not> shadow s a \<and>
     (\<exists>p. translate s a = Some p \<and> \<not> table_frame (ram s) (cr3 s) (page p) \<and>
          (\<forall>b. translate s b = Some p \<longrightarrow> b = a \<or> shadow s b))"

definition data_range :: "'a machine_scheme \<Rightarrow> u32 \<Rightarrow> nat \<Rightarrow> bool" where
  "data_range s a n \<longleftrightarrow> (\<forall>k<n. data s (a + word_of_nat k))"

text \<open>The store as a total function, equal to the code's store on data addresses.\<close>

definition stn :: "'a machine_scheme \<Rightarrow> u32 \<Rightarrow> u8 list \<Rightarrow> 'a machine_scheme" where
  "stn s a bs = s\<lparr>ram := ram_put (ram s)
     (zip (map (\<lambda>k. the (translate s (a + word_of_nat k))) [0..<length bs]) bs)\<rparr>"

lemma data_range_sub: "data_range s a n \<Longrightarrow> m \<le> n \<Longrightarrow> data_range s a m"
  by (simp add: data_range_def)

lemma data_range_add:
  assumes "data_range s a n" and "k + m \<le> n"
  shows "data_range s (a + word_of_nat k) m"
  unfolding data_range_def
proof (intro allI impI)
  fix j assume "j < m"
  then have "data s (a + word_of_nat (k + j))"
    using assms by (simp only: data_range_def)
  then show "data s (a + word_of_nat k + word_of_nat j)"
    by (simp add: add.assoc)
qed

lemma dataI:
  "translate s a = Some p \<Longrightarrow> \<not> table_frame (ram s) (cr3 s) (page p) \<Longrightarrow> \<not> shadow s a \<Longrightarrow>
    (\<And>b. translate s b = Some p \<Longrightarrow> \<not> shadow s b \<Longrightarrow> b = a) \<Longrightarrow> data s a"
  unfolding data_def by blast

lemma dataE:
  assumes "data s a"
  obtains p where "translate s a = Some p" and "\<not> table_frame (ram s) (cr3 s) (page p)"
    and "\<not> shadow s a" and "\<forall>b. translate s b = Some p \<longrightarrow> b = a \<or> shadow s b"
  using assms unfolding data_def by blast

lemma data_trans: "data s a \<Longrightarrow> translate s a = Some (the (translate s a))"
  by (metis data_def option.sel)

lemma data_not_shadow: "data s a \<Longrightarrow> \<not> shadow s a"
  by (simp add: data_def)

lemma data_translate_eq:
  "data s a \<Longrightarrow> translate s b = Some (the (translate s a)) \<Longrightarrow> \<not> shadow s b \<Longrightarrow> b = a"
  by (metis data_def option.sel)

text \<open>Ranges that can be read without going through the shadow.\<close>

definition unshadowed :: "'a machine_scheme \<Rightarrow> u32 \<Rightarrow> nat \<Rightarrow> bool" where
  "unshadowed s a n \<longleftrightarrow> (\<forall>k<n. \<not> shadow s (a + word_of_nat k))"

lemma unshadowedD: "unshadowed s a n \<Longrightarrow> k < n \<Longrightarrow> \<not> shadow s (a + word_of_nat k)"
  by (simp add: unshadowed_def)

lemma unshadowed_part:
  assumes "unshadowed s a n" and "k + m \<le> n"
  shows "unshadowed s (a + word_of_nat k) m"
  unfolding unshadowed_def
proof (intro allI impI)
  fix j assume "j < m"
  then have "k + j < n" using assms(2) by simp
  then have "\<not> shadow s (a + word_of_nat (k + j))" by (rule unshadowedD [OF assms(1)])
  then show "\<not> shadow s (a + word_of_nat k + word_of_nat j)" by (simp add: add.assoc)
qed

lemma shadow_eq:
  fixes s :: "'a machine_scheme" and s' :: "'b machine_scheme"
  assumes "kernel_end s' = kernel_end s"
  shows "shadow s' = shadow s" and "unshadowed s' = unshadowed s"
  using assms by (simp_all add: shadow_def unshadowed_def fun_eq_iff)

lemma data_range_unshadowed [intro, simp]: "data_range s a n \<Longrightarrow> unshadowed s a n"
  by (auto simp: unshadowed_def data_range_def data_not_shadow)

lemma data_not_table: "data s a \<Longrightarrow> \<not> table_frame (ram s) (cr3 s) (page (the (translate s a)))"
  by (metis data_def option.sel)

lemma data_rangeD: "data_range s a n \<Longrightarrow> k < n \<Longrightarrow> data s (a + word_of_nat k)"
  by (simp add: data_range_def)

lemma phys_addrs_data:
  "data_range s a n \<Longrightarrow>
    phys_addrs s a n = Some (map (\<lambda>k. the (translate s (a + word_of_nat k))) [0..<n])"
  unfolding phys_addrs_def by (intro those_Some) (auto intro: data_trans data_rangeD)

lemma wrn_data: "data_range s a (length bs) \<Longrightarrow> wrn s a bs = Some (stn s a bs)"
  by (simp add: wrn_def stn_def phys_addrs_data)

lemma ram_put_other: "p \<notin> set (map fst pbs) \<Longrightarrow> ram_put m pbs p = m p"
  by (induction m pbs rule: ram_put.induct) auto

lemma ram_put_nth:
  "distinct (map fst pbs) \<Longrightarrow> k < length pbs \<Longrightarrow> ram_put m pbs (fst (pbs ! k)) = snd (pbs ! k)"
proof (induction m pbs arbitrary: k rule: ram_put.induct)
  case (2 m p b pbs)
  show ?case
  proof (cases k)
    case 0
    with "2.prems" show ?thesis by (auto simp: ram_put_other)
  next
    case (Suc j)
    with "2.prems" show ?thesis using "2.IH" [of j] by (simp del: fun_upd_apply)
  qed
qed simp

lemma word_of_nat_dist: "j < 4294967296 \<Longrightarrow> unat (a + word_of_nat j - (a :: u32)) = j"
  by (simp add: unat_of_nat)

lemma store_addrs_distinct:
  assumes "data_range s a n" and "n \<le> 4294967296"
  shows "distinct (map (\<lambda>k. the (translate s (a + word_of_nat k))) [0..<n])"
proof (subst distinct_map, intro conjI inj_onI)
  fix j k
  assume jk: "j \<in> set [0..<n]" "k \<in> set [0..<n]"
    and eq: "the (translate s (a + word_of_nat j)) = the (translate s (a + word_of_nat k))"
  have "translate s (a + word_of_nat j) = Some (the (translate s (a + word_of_nat k)))"
    using jk eq data_trans [OF data_rangeD [OF assms(1), of j]] by simp
  moreover have "data s (a + word_of_nat k)" using data_rangeD [OF assms(1)] jk by simp
  moreover have "\<not> shadow s (a + word_of_nat j)"
    using data_rangeD [OF assms(1)] jk by (simp add: data_not_shadow)
  ultimately have w: "a + word_of_nat j = a + word_of_nat k" by (metis data_translate_eq)
  have "j < 4294967296" and "k < 4294967296" using jk assms(2) by simp_all
  then show "j = k" using w by (metis word_of_nat_dist)
qed simp

lemma store_addrs_notin:
  assumes "\<And>k. k < length bs \<Longrightarrow> p \<noteq> the (translate s (a + word_of_nat k))"
  shows "ram (stn s a bs) p = ram s p"
proof -
  let ?ps = "map (\<lambda>k. the (translate s (a + word_of_nat k))) [0..<length bs]"
  have "p \<notin> set ?ps"
  proof
    assume "p \<in> set ?ps"
    then obtain k where "k \<in> {0..<length bs}" and p: "p = the (translate s (a + word_of_nat k))"
      unfolding set_map set_upt by (elim imageE)
    then have "k < length bs" by (simp only: atLeastLessThan_iff)
    from assms [OF this] p show False by (rule notE)
  qed
  moreover have "map fst (zip ?ps bs) = ?ps" by simp
  ultimately have "p \<notin> set (map fst (zip ?ps bs))" by (metis (no_types))
  then have "ram_put (ram s) (zip ?ps bs) p = ram s p" by (rule ram_put_other)
  then show ?thesis by (simp add: stn_def)
qed

lemma ram_stn:
  assumes dr: "data_range s a (length bs)" and len: "length bs \<le> 4294967296"
    and tr: "translate s b = Some p" and ns: "\<not> shadow s b"
  shows "ram (stn s a bs) p =
    (if unat (b - a) < length bs then bs ! unat (b - a) else ram s p)"
proof -
  let ?ps = "map (\<lambda>k. the (translate s (a + word_of_nat k))) [0..<length bs]"
  have d: "distinct (map fst (zip ?ps bs))"
    using store_addrs_distinct [OF dr len] by simp
  show ?thesis
  proof (cases "unat (b - a) < length bs")
    case True
    let ?j = "unat (b - a)"
    have "a + word_of_nat ?j = b" by simp
    then have "fst (zip ?ps bs ! ?j) = p" using True tr by simp
    then show ?thesis
      using ram_put_nth [OF d, of ?j "ram s"] True by (simp add: stn_def)
  next
    case False
    have "p \<noteq> the (translate s (a + word_of_nat k))" if "k < length bs" for k
    proof
      assume "p = the (translate s (a + word_of_nat k))"
      then have "b = a + word_of_nat k"
        using data_translate_eq [OF data_rangeD [OF dr that], of b] tr ns by simp
      then show False using False that len word_of_nat_dist [of k a] by simp
    qed
    then show ?thesis using False store_addrs_notin [of bs p s a] by simp
  qed
qed

lemma ram_stn_table:
  assumes dr: "data_range s a (length bs)" and "table_frame (ram s) (cr3 s) (page p)"
  shows "ram (stn s a bs) p = ram s p"
proof -
  have "p \<noteq> the (translate s (a + word_of_nat k))" if "k < length bs" for k
    using data_not_table [OF data_rangeD [OF dr that]] assms(2) by auto
  then show ?thesis by (rule store_addrs_notin)
qed

section \<open>Stores at data addresses keep the address translation\<close>

lemma stn_fields [simp]:
  "cr3 (stn s a bs) = cr3 s" "tlb (stn s a bs) = tlb s" "io_trace (stn s a bs) = io_trace s"
  "io_dev (stn s a bs) = io_dev s" "kernel_end (stn s a bs) = kernel_end s"
  "machine.more (stn s a bs) = machine.more s"
  by (simp_all add: stn_def)

lemma shadow_stn [simp]: "shadow (stn s a bs) = shadow s"
  by (rule shadow_eq) simp

lemma table_frame_stn:
  "data_range s a (length bs) \<Longrightarrow>
    table_frame (ram (stn s a bs)) (cr3 s) = table_frame (ram s) (cr3 s)"
  by (rule table_frame_cong) (simp add: ram_stn_table)

lemma walk_frame_stn:
  "data_range s a (length bs) \<Longrightarrow>
    walk_frame (ram (stn s a bs)) (cr3 s) va = walk_frame (ram s) (cr3 s) va"
  by (rule walk_frame_cong) (simp add: ram_stn_table)

lemma translate_stn:
  "data_range s a (length bs) \<Longrightarrow> translate (stn s a bs) = translate s"
  by (auto simp: translate_def walk_frame_stn fun_eq_iff split: option.splits)

lemma data_stn: "data_range s a (length bs) \<Longrightarrow> data (stn s a bs) = data s"
  by (simp add: data_def translate_stn table_frame_stn fun_eq_iff)

lemma data_range_stn:
  "data_range s a (length bs) \<Longrightarrow> data_range (stn s a bs) = data_range s"
  by (simp add: data_range_def data_stn fun_eq_iff)

lemma rd8_stn:
  assumes "data_range s a (length bs)" and "length bs \<le> 4294967296" and "\<not> shadow s b"
  shows "rd8 (stn s a bs) b =
    (if unat (b - a) < length bs then Some (bs ! unat (b - a)) else rd8 s b)"
proof (cases "translate s b")
  case None
  have "\<not> unat (b - a) < length bs"
  proof
    assume "unat (b - a) < length bs"
    then have "data s (a + word_of_nat (unat (b - a)))" by (rule data_rangeD [OF assms(1)])
    then have "data s b" by simp
    with None data_trans [of s b] show False by simp
  qed
  with None show ?thesis using assms(1) by (simp add: rd8_def translate_stn)
next
  case (Some p)
  then show ?thesis using ram_stn [OF assms(1,2) Some assms(3)] assms(1) by (simp add: rd8_def translate_stn)
qed

section \<open>The laws of a byte store\<close>

text \<open>
  The interface between the machine and the components that keep data structures in memory:
  a load, a store, the addresses the component owns and those it may read.  The laws are those
  of an array; the 32-bit laws the components use are derived from them once.
\<close>

locale byte_store =
  fixes load :: "'s \<Rightarrow> u32 \<Rightarrow> u8 option"
    and store :: "'s \<Rightarrow> u32 \<Rightarrow> u8 list \<Rightarrow> 's"
    and owned :: "'s \<Rightarrow> u32 \<Rightarrow> nat \<Rightarrow> bool"
    and seen :: "'s \<Rightarrow> u32 \<Rightarrow> nat \<Rightarrow> bool"
  assumes load_store: "owned s a (length bs) \<Longrightarrow> length bs \<le> 4294967296 \<Longrightarrow> seen s b n \<Longrightarrow> j < n \<Longrightarrow>
      load (store s a bs) (b + word_of_nat j) =
        (if unat (b + word_of_nat j - a) < length bs then Some (bs ! unat (b + word_of_nat j - a))
         else load s (b + word_of_nat j))"
    and owned_store: "owned s a (length bs) \<Longrightarrow> owned (store s a bs) b n = owned s b n"
    and owned_seen: "owned s a n \<Longrightarrow> seen s a n"
begin

lemma load_store_sep:
  "owned s a (length bs) \<Longrightarrow> seen s b n \<Longrightarrow> sep a (length bs) b n \<Longrightarrow> j < n \<Longrightarrow>
    load (store s a bs) (b + word_of_nat j) = load s (b + word_of_nat j)"
  using sep_dist [of a "length bs" b n j] by (subst load_store) (auto simp: sep_def)

lemma load_store_in:
  "owned s a (length bs) \<Longrightarrow> length bs \<le> 4294967296 \<Longrightarrow> j < length bs \<Longrightarrow>
    load (store s a bs) (a + word_of_nat j) = Some (bs ! j)"
  using word_of_nat_dist [of j a] owned_seen [of s a "length bs"] by (subst load_store) auto

end

interpretation vm: byte_store rd8 stn data_range unshadowed
  by unfold_locales (simp_all add: rd8_stn data_range_stn unshadowedD data_range_unshadowed)

lemma rdn_rd8: "rdn s a n = those (map (\<lambda>k. rd8 s (a + word_of_nat k)) [0..<n])"
proof -
  have "map_option (map f) (those xs) = those (map (map_option f) xs)" for f :: "u32 \<Rightarrow> u8" and xs
  proof (induction xs)
    case (Cons x xs)
    then show ?case by (cases x; cases "those xs") (auto simp flip: Cons)
  qed simp
  then show ?thesis by (simp add: rdn_def phys_addrs_def rd8_def comp_def)
qed

lemma rdn_stn_sep:
  "data_range s a (length bs) \<Longrightarrow> unshadowed s b n \<Longrightarrow> sep a (length bs) b n \<Longrightarrow>
    rdn (stn s a bs) b n = rdn s b n"
  unfolding rdn_rd8 by (intro arg_cong [of _ _ those] map_cong) (auto simp: vm.load_store_sep)

lemma rdn_stn_same:
  "data_range s a (length bs) \<Longrightarrow> length bs \<le> 4294967296 \<Longrightarrow>
    rdn (stn s a bs) a (length bs) = Some bs"
  unfolding rdn_rd8 by (intro those_Some) (auto simp: vm.load_store_in)

section \<open>Stores of one, two and four bytes\<close>

definition st8 :: "'a machine_scheme \<Rightarrow> u32 \<Rightarrow> u8 \<Rightarrow> 'a machine_scheme" where
  "st8 s a v = stn s a [v]"

definition st16 :: "'a machine_scheme \<Rightarrow> u32 \<Rightarrow> u16 \<Rightarrow> 'a machine_scheme" where
  "st16 s a v = stn s a [ucast v, ucast (drop_bit 8 v)]"

definition st32 :: "'a machine_scheme \<Rightarrow> u32 \<Rightarrow> u32 \<Rightarrow> 'a machine_scheme" where
  "st32 s a v = stn s a [byte_of 0 v, byte_of 1 v, byte_of 2 v, byte_of 3 v]"

lemma wr8_data [mem_simps]: "data_range s a (Suc 0) \<Longrightarrow> wr8 s a v = Some (st8 s a v)"
  by (simp add: wr8_def st8_def wrn_data)

lemma wr16_data [mem_simps]: "data_range s a 2 \<Longrightarrow> wr16 s a v = Some (st16 s a v)"
  by (simp add: wr16_def st16_def wrn_data numeral_eq_Suc)

lemma wr32_data [mem_simps]: "data_range s a 4 \<Longrightarrow> wr32 s a v = Some (st32 s a v)"
  by (simp add: wr32_def st32_def wrn_data numeral_eq_Suc)

lemma data_range_st [mem_simps]:
  "data_range s a (Suc 0) \<Longrightarrow> data_range (st8 s a v) = data_range s"
  "data_range s a 2 \<Longrightarrow> data_range (st16 s a w) = data_range s"
  "data_range s a 4 \<Longrightarrow> data_range (st32 s a x) = data_range s"
  by (simp_all add: st8_def st16_def st32_def data_range_stn numeral_eq_Suc)

lemma translate_st [mem_simps]:
  "data_range s a (Suc 0) \<Longrightarrow> translate (st8 s a v) = translate s"
  "data_range s a 2 \<Longrightarrow> translate (st16 s a w) = translate s"
  "data_range s a 4 \<Longrightarrow> translate (st32 s a x) = translate s"
  by (simp_all add: st8_def st16_def st32_def translate_stn numeral_eq_Suc)

lemma rd8_rdn: "rd8 s a = map_option hd (rdn s a 1)"
  by (auto simp: rdn_rd8 split: option.splits)

lemma rd32_st32 [mem_simps]: "data_range s a 4 \<Longrightarrow> rd32 (st32 s a v) a = Some v"
proof -
  let ?bs = "[byte_of 0 v, byte_of 1 v, byte_of 2 v, byte_of 3 v]"
  assume "data_range s a 4"
  moreover have len: "length ?bs = 4" by simp
  ultimately have "rdn (st32 s a v) a 4 = Some ?bs"
    using rdn_stn_same [of s a ?bs] unfolding len st32_def by simp
  then show ?thesis by (simp add: rd32_def)
qed

lemma rd8_st8 [mem_simps]: "data_range s a (Suc 0) \<Longrightarrow> rd8 (st8 s a v) a = Some v"
  using rdn_stn_same [of s a "[v]"] by (simp add: rd8_rdn st8_def)

lemma rd32_sep [mem_simps]:
  "data_range s a (Suc 0) \<Longrightarrow> unshadowed s b 4 \<Longrightarrow> sep a (Suc 0) b 4 \<Longrightarrow> rd32 (st8 s a v) b = rd32 s b"
  "data_range s a 4 \<Longrightarrow> unshadowed s b 4 \<Longrightarrow> sep a 4 b 4 \<Longrightarrow> rd32 (st32 s a w) b = rd32 s b"
  by (simp_all add: rd32_def st8_def st32_def rdn_stn_sep numeral_eq_Suc)

lemma rd8_sep [mem_simps]:
  "data_range s a (Suc 0) \<Longrightarrow> unshadowed s b (Suc 0) \<Longrightarrow> sep a (Suc 0) b (Suc 0) \<Longrightarrow> rd8 (st8 s a v) b = rd8 s b"
  "data_range s a 4 \<Longrightarrow> unshadowed s b (Suc 0) \<Longrightarrow> sep a 4 b (Suc 0) \<Longrightarrow> rd8 (st32 s a w) b = rd8 s b"
  by (simp_all add: rd8_rdn st8_def st32_def rdn_stn_sep numeral_eq_Suc)

lemma st_fields [simp]:
  "cr3 (st8 s a v) = cr3 s" "tlb (st8 s a v) = tlb s" "io_trace (st8 s a v) = io_trace s"
  "io_dev (st8 s a v) = io_dev s" "kernel_end (st8 s a v) = kernel_end s"
  "cr3 (st16 s a w) = cr3 s" "tlb (st16 s a w) = tlb s" "io_trace (st16 s a w) = io_trace s"
  "io_dev (st16 s a w) = io_dev s" "kernel_end (st16 s a w) = kernel_end s"
  "cr3 (st32 s a x) = cr3 s" "tlb (st32 s a x) = tlb s" "io_trace (st32 s a x) = io_trace s"
  "io_dev (st32 s a x) = io_dev s" "kernel_end (st32 s a x) = kernel_end s"
  by (simp_all add: st8_def st16_def st32_def)

lemma shadow_st [simp]:
  "shadow (st8 s a v) = shadow s" "shadow (st16 s a w) = shadow s" "shadow (st32 s a x) = shadow s"
  by (simp_all add: st8_def st16_def st32_def)

lemma unshadowed_st [simp]:
  "unshadowed (stn s a bs) = unshadowed s" "unshadowed (st8 s a v) = unshadowed s"
  "unshadowed (st16 s a w) = unshadowed s" "unshadowed (st32 s a x) = unshadowed s"
  by (simp_all add: unshadowed_def fun_eq_iff)

lemma data_rd8: "data s a \<Longrightarrow> \<exists>v. rd8 s a = Some v"
  using data_trans [of s a] by (auto simp: rd8_def)

lemma data_rdn: "data_range s a n \<Longrightarrow> \<exists>bs. rdn s a n = Some bs \<and> length bs = n"
  by (simp add: rdn_def phys_addrs_data)

lemma data_rd32: "data_range s a 4 \<Longrightarrow> \<exists>v. rd32 s a = Some v"
  using data_rdn [of s a 4] by (auto simp: rd32_def)

end
