(* ===== verification/KernelDefs.thy ===== *)
theory KernelDefs
  imports Prelude
begin

text \<open>
  The constants of \<open>include/kernel.h\<close> that the components share: status codes and the
  virtual memory map.
\<close>

type_synonym status_t = u8

definition STATUS_OK :: status_t where "STATUS_OK = 0"
definition STATUS_BORKD_MEM :: status_t where "STATUS_BORKD_MEM = 0xFF"
definition STATUS_DOUBLE_FREE :: status_t where "STATUS_DOUBLE_FREE = 0xFE"
definition STATUS_INVALID_MEM :: status_t where "STATUS_INVALID_MEM = 0xFD"
definition STATUS_FAILED_INIT :: status_t where "STATUS_FAILED_INIT = 0xFC"
definition STATUS_OUT_OF_MEM :: status_t where "STATUS_OUT_OF_MEM = 0xFB"
definition STATUS_INVALID_FREE :: status_t where "STATUS_INVALID_FREE = 0xFA"
definition STATUS_NO_DRIVER :: status_t where "STATUS_NO_DRIVER = 0xF9"
definition STATUS_DRIVER_ERROR :: status_t where "STATUS_DRIVER_ERROR = 0xF8"

lemmas status_defs =
  STATUS_OK_def STATUS_BORKD_MEM_def STATUS_DOUBLE_FREE_def STATUS_INVALID_MEM_def
  STATUS_FAILED_INIT_def STATUS_OUT_OF_MEM_def STATUS_INVALID_FREE_def STATUS_NO_DRIVER_def
  STATUS_DRIVER_ERROR_def

definition logical_pde_base :: u32 where "logical_pde_base = 0xffc00000"
definition kheap_start :: u32 where "kheap_start = 0xd0000000"
definition kheap_min_size :: u32 where "kheap_min_size = 4096 * 1"
definition kheap_max_size :: u32 where "kheap_max_size = 0x0fffffff"
definition driver_space_start :: u32 where "driver_space_start = 0xe0000000"
definition driver_space_size :: u32 where "driver_space_size = 0x0fffffff"

end
