(* ===== verification/Console.thy ===== *)
theory Console
  imports Machine KernelDefs
begin

text \<open>
  The serial port, \<open>kernel/debug/serial.c\<close>, and the state of the text screen
  (\<open>kernel/vga/vga.c\<close>), whose operations need the heap and so follow in theory \<open>Vga\<close>.  A string
  literal is the list of its bytes without the terminating zero.
\<close>

record console = machine +
  vga_cursor_r :: u8
  vga_cursor_c :: u8

section \<open>The serial port\<close>

definition COM1PORT :: u16 where "COM1PORT = 0x3f8"

definition init_serial :: "'a console_scheme \<Rightarrow> status_t \<times> 'a console_scheme" where
  "init_serial s =
     (let s1 = outb s (COM1PORT + 1) 0x00;
          s2 = outb s1 (COM1PORT + 3) 0x80;
          s3 = outb s2 (COM1PORT + 0) 0x03;
          s4 = outb s3 (COM1PORT + 1) 0x00;
          s5 = outb s4 (COM1PORT + 3) 0x03;
          s6 = outb s5 (COM1PORT + 2) 0xC7;
          s7 = outb s6 (COM1PORT + 4) 0x0B;
          s8 = outb s7 (COM1PORT + 4) 0x1E;
          s9 = outb s8 (COM1PORT + 0) 0xAE;
          (r, s10) = inb s9 (COM1PORT + 0)
      in if r \<noteq> 0xAE then (STATUS_FAILED_INIT, s10)
         else (STATUS_OK, outb s10 (COM1PORT + 4) 0x0F))"

definition is_transmit_empty :: "'a console_scheme \<Rightarrow> u8 \<times> 'a console_scheme" where
  "is_transmit_empty s = (let (r, s1) = inb s (COM1PORT + 5) in (r AND 0x20, s1))"

text \<open>The polling loop of \<open>serial_putchar\<close>; it does not return while the port is busy.\<close>

partial_function (option) serial_wait :: "'a console_scheme \<Rightarrow> 'a console_scheme option" where
  "serial_wait s =
     (let (e, s1) = is_transmit_empty s in if e = 0 then serial_wait s1 else Some s1)"

definition serial_putchar :: "'a console_scheme \<Rightarrow> u8 \<Rightarrow> 'a console_scheme option" where
  "serial_putchar s a = do { s1 \<leftarrow> serial_wait s; Some (outb s1 COM1PORT a) }"

text \<open>
  \<open>serial_print\<close> on a literal: \<open>strlen\<close> of \<open>klibc/kstring.c\<close> counts the terminating zero, and
  the result is cut to eight bits.
\<close>

definition serial_print :: "'a console_scheme \<Rightarrow> u8 list \<Rightarrow> 'a console_scheme option" where
  "serial_print s str = do {
     let len = (word_of_nat (length str + 1) :: u8);
     for_loop 0 (unat len) (\<lambda>i t. serial_putchar t ((str @ [0]) ! i)) s
   }"

end
