(* ===== verification/PhyMM.thy ===== *)
theory PhyMM
  imports Console "HOL-Library.Signed_Division"
begin

text \<open>
  The page frame allocator, \<open>kernel/mm/phy-mm.c\<close> and \<open>include/phy-mm.h\<close>: a stack of frame
  addresses that starts at the end of the kernel image, and a bitmap with one bit for each
  frame on the stack.  The stack and the bitmap live in memory and are read and written
  through the address translation; the C globals are fields of the record.
\<close>

section \<open>State\<close>

record phymm = console +
  bios_mmap_addr :: u32
  bios_mmap_len :: u32
  phymm_end :: u32
  hwa_mmstart :: u32
  hwa_inu_bitmap :: u32
  hwas_bp :: u32
  hwas_sp :: u32
  hwas_ssize :: u32

definition PGUSE :: u32 where "PGUSE = 1"
definition PGFREE :: u32 where "PGFREE = 0"

section \<open>The bitmap\<close>

text \<open>
  The page index of a frame address: the pointer difference is a signed 32-bit integer, and
  the division truncates towards zero.
\<close>

definition hwa_pgidx :: "'a phymm_scheme \<Rightarrow> u32 \<Rightarrow> u32" where
  "hwa_pgidx s hwaddr = word_of_int (sint (hwaddr - hwa_mmstart s) sdiv 4096)"

definition hwa_inubm_get :: "'a phymm_scheme \<Rightarrow> u32 \<Rightarrow> u32 option" where
  "hwa_inubm_get s hwaddr = do {
     let pgidx = hwa_pgidx s hwaddr;
     b \<leftarrow> rd8 s (hwa_inu_bitmap s + pgidx div 8);
     Some (drop_bit (unat (pgidx mod 8)) (ucast b AND push_bit (unat (pgidx mod 8)) 1))
   }"

definition hwa_inubm_set :: "'a phymm_scheme \<Rightarrow> u32 \<Rightarrow> u32 \<Rightarrow> 'a phymm_scheme option" where
  "hwa_inubm_set s hwaddr in_use = do {
     let pgidx = hwa_pgidx s hwaddr;
     let a = hwa_inu_bitmap s + pgidx div 8;
     b \<leftarrow> rd8 s a;
     if in_use \<noteq> 0 then wr8 s a (ucast ((ucast b :: u32) OR push_bit (unat (pgidx mod 8)) 1))
     else wr8 s a (ucast ((ucast b :: u32) AND NOT (push_bit (unat (pgidx mod 8)) 1)))
   }"

section \<open>Allocation\<close>

text \<open>
  The \<open>do ... while\<close> loop of the single-frame case: nothing stops it at the bottom of the
  stack, so it may not return.
\<close>

partial_function (option) hwpalloc_pop :: "'a phymm_scheme \<Rightarrow> (u32 \<times> 'a phymm_scheme) option" where
  "hwpalloc_pop s = do {
     addr \<leftarrow> rd32 s (hwas_sp s);
     let s1 = s\<lparr>hwas_sp := hwas_sp s - 4\<rparr>;
     u \<leftarrow> hwa_inubm_get s1 addr;
     if u = PGUSE then hwpalloc_pop s1 else Some (addr, s1)
   }"

lemma word_inc_less: "(i :: u32) < k \<Longrightarrow> unat (i + 1) = unat i + 1"
  using u32_less [of k] by (subst unat_add_small) (auto simp: word_less_nat_alt)

text \<open>The search for \<open>n\<close> consecutive free frames, with the loop variables \<open>i\<close> and \<open>cons\<close>.\<close>

function hwpalloc_scan :: "'a phymm_scheme \<Rightarrow> u16 \<Rightarrow> u32 \<Rightarrow> u32 \<Rightarrow> (u32 \<times> u32) option" where
  "hwpalloc_scan s n i cons =
     (if i < hwas_ssize s then
        if cons = ucast n then Some (i, cons)
        else do {
          hw \<leftarrow> rd32 s (hwas_bp s + 4 * i);
          u \<leftarrow> hwa_inubm_get s hw;
          if u = PGFREE then hwpalloc_scan s n (i + 1) (cons + 1)
          else hwpalloc_scan s n (i + 1) 0
        }
      else Some (i, cons))"
  by pat_completeness auto

termination
  by (relation "measure (\<lambda>(s, n, i, cons). unat (hwas_ssize s) - unat i)")
     (auto simp: word_inc_less word_less_nat_alt)

declare hwpalloc_scan.simps [simp del]

definition hwpalloc :: "'a phymm_scheme \<Rightarrow> u16 \<Rightarrow> (u32 \<times> 'a phymm_scheme) option" where
  "hwpalloc s n =
     (if hwas_sp s = hwas_bp s then Some (0, s)
      else if n = 1 then do {
        (addr, s1) \<leftarrow> hwpalloc_pop s;
        s2 \<leftarrow> hwa_inubm_set s1 addr PGUSE;
        Some (addr, s2)
      }
      else do {
        (i, cons) \<leftarrow> hwpalloc_scan s n 0 0;
        addr \<leftarrow> rd32 s (hwas_bp s + 4 * (i - cons));
        s1 \<leftarrow> for_loop 0 (unat n)
                (\<lambda>j t. hwa_inubm_set t (addr + word_of_nat j * 4096) PGUSE) s;
        Some (addr, s1)
      })"

section \<open>Release\<close>

definition hwpfree :: "'a phymm_scheme \<Rightarrow> u32 \<Rightarrow> u16 \<Rightarrow> (status_t \<times> 'a phymm_scheme) option" where
  "hwpfree s hwaddr n =
     (if hwaddr < hwa_mmstart s \<or> hwa_mmstart s + hwas_ssize s * 4096 \<le> hwaddr
      then Some (STATUS_INVALID_MEM, s)
      else do {
        u \<leftarrow> hwa_inubm_get s hwaddr;
        if u = PGFREE then Some (STATUS_DOUBLE_FREE, s)
        else if n = 1 then
          if hwas_sp s < hwas_bp s + 4 * hwas_ssize s then Some (STATUS_BORKD_MEM, s)
          else do {
            s1 \<leftarrow> hwa_inubm_set s hwaddr PGFREE;
            let s2 = s1\<lparr>hwas_sp := hwas_sp s1 + 4\<rparr>;
            s3 \<leftarrow> wr32 s2 (hwas_sp s2) hwaddr;
            Some (STATUS_OK, s3)
          }
        else do {
          (_, s1) \<leftarrow> for_loop 0 (unat n)
                      (\<lambda>_ (addr, t). do {
                         t1 \<leftarrow> hwa_inubm_set t addr PGFREE;
                         Some (addr + 4096, t1) }) (hwaddr, s);
          Some (STATUS_OK, s1)
        }
      })"

section \<open>The fields the allocator changes\<close>

text \<open>Whatever state it starts from, and on every path: memory and its stack pointer only.\<close>

definition ram_sp_only :: "'a phymm_scheme \<Rightarrow> 'a phymm_scheme \<Rightarrow> bool" where
  "ram_sp_only s s' \<longleftrightarrow> (\<exists>r x. s' = s\<lparr>ram := r, hwas_sp := x\<rparr>)"

lemma ram_sp_onlyI: "s' = s\<lparr>ram := r, hwas_sp := x\<rparr> \<Longrightarrow> ram_sp_only s s'"
  unfolding ram_sp_only_def by (intro exI)

lemma ram_sp_only_refl: "ram_sp_only s s"
  by (rule ram_sp_onlyI [where r = "ram s" and x = "hwas_sp s"]) simp

lemma ram_sp_only_trans: "ram_sp_only s t \<Longrightarrow> ram_sp_only t u \<Longrightarrow> ram_sp_only s u"
  unfolding ram_sp_only_def by (elim exE, rule_tac x = ra in exI, rule_tac x = xa in exI) simp

lemma ram_sp_only_sp: "ram_sp_only s (s\<lparr>hwas_sp := x\<rparr>)"
  by (rule ram_sp_onlyI [where r = "ram s" and x = x]) simp

lemma ram_sp_only_wrn: "wrn s a bs = Some s' \<Longrightarrow> ram_sp_only s s'"
  unfolding wrn_def by (auto intro: ram_sp_onlyI [where x = "hwas_sp s"])

lemma ram_sp_only_set: "hwa_inubm_set s a u = Some s' \<Longrightarrow> ram_sp_only s s'"
  by (auto simp: hwa_inubm_set_def wr8_def Let_def dest: ram_sp_only_wrn split: bind_splits if_splits)

lemma hwpalloc_pop_only: "hwpalloc_pop s = Some r \<Longrightarrow> ram_sp_only s (snd r)"
proof (rule hwpalloc_pop.raw_induct [where P = "\<lambda>s r. ram_sp_only s (snd r)"])
  fix f :: "'a phymm_scheme \<Rightarrow> (u32 \<times> 'a phymm_scheme) option" and s r
  assume IH: "\<And>s r. f s = Some r \<Longrightarrow> ram_sp_only s (snd r)"
    and step: "rd32 s (hwas_sp s) \<bind>
        (\<lambda>addr. let s1 = s\<lparr>hwas_sp := hwas_sp s - 4\<rparr>
                in hwa_inubm_get s1 addr \<bind> (\<lambda>u. if u = PGUSE then f s1 else Some (addr, s1))) = Some r"
  show "ram_sp_only s (snd r)"
    using step by (auto simp: Let_def ram_sp_only_sp split: bind_splits if_splits
        dest: IH intro: ram_sp_only_trans [OF ram_sp_only_sp])
qed

lemma mark_only:
  "for_loop i k (\<lambda>j t. hwa_inubm_set t (g j) u) s = Some s' \<Longrightarrow> ram_sp_only s s'"
  by (rule for_loop_rel [of ram_sp_only, OF ram_sp_only_refl ram_sp_only_trans ram_sp_only_set])

lemma hwpalloc_only: "hwpalloc s n = Some (a, s') \<Longrightarrow> ram_sp_only s s'"
  by (auto simp: hwpalloc_def ram_sp_only_refl split: bind_splits if_splits prod.splits
      dest!: hwpalloc_pop_only ram_sp_only_set mark_only intro: ram_sp_only_trans)

section \<open>Well-formed allocator states\<close>

definition nframes :: "'a phymm_scheme \<Rightarrow> nat" where
  "nframes s = unat (hwas_ssize s)"

definition frame_addr :: "'a phymm_scheme \<Rightarrow> nat \<Rightarrow> u32" where
  "frame_addr s i = hwa_mmstart s + 4096 * word_of_nat i"

definition stack_top :: "'a phymm_scheme \<Rightarrow> nat" where
  "stack_top s = unat (hwas_sp s - hwas_bp s) div 4"

definition bm_bytes :: "'a phymm_scheme \<Rightarrow> nat" where
  "bm_bytes s = (nframes s + 7) div 8"

definition used :: "'a phymm_scheme \<Rightarrow> nat \<Rightarrow> bool" where
  "used s i = (case rd8 s (hwa_inu_bitmap s + word_of_nat (i div 8)) of
     Some b \<Rightarrow> bit b (i mod 8) | None \<Rightarrow> False)"

text \<open>
  The frames of the allocator lie in memory without wrap-around, page aligned; the stack
  slots and the bitmap bytes are data addresses and do not overlap; slot \<open>i\<close> holds the
  address of frame \<open>i\<close> (what \<open>init_phymm\<close> fills in).  The cap of 128 frames is the one of
  \<open>init_phymm\<close>.
\<close>

definition phymm_static :: "'a phymm_scheme \<Rightarrow> bool" where
  "phymm_static s \<longleftrightarrow>
     nframes s \<le> 128 \<and>
     unat (hwa_mmstart s) + 4096 * nframes s < 4294967296 \<and>
     pgoff (hwa_mmstart s) = 0 \<and>
     data_range s (hwas_bp s) (4 * nframes s) \<and>
     data_range s (hwa_inu_bitmap s) (bm_bytes s) \<and>
     unat (hwas_bp s) + 4 * nframes s < 4294967296 \<and>
     sep (hwas_bp s) (4 * nframes s) (hwa_inu_bitmap s) (bm_bytes s) \<and>
     (\<forall>i<nframes s. rd32 s (hwas_bp s + 4 * word_of_nat i) = Some (frame_addr s i))"

definition phymm_wf :: "'a phymm_scheme \<Rightarrow> bool" where
  "phymm_wf s \<longleftrightarrow>
     phymm_static s \<and> stack_top s < nframes s \<and>
     hwas_sp s = hwas_bp s + 4 * word_of_nat (stack_top s)"

lemma unat_frame_addr:
  assumes "phymm_static s" and "i < nframes s"
  shows "unat (frame_addr s i) = unat (hwa_mmstart s) + 4096 * i"
proof -
  have i: "i < 128" using assms by (auto simp: phymm_static_def)
  have "4096 * (word_of_nat i :: u32) = word_of_nat (4096 * i)" by simp
  moreover have "unat (word_of_nat (4096 * i) :: u32) = 4096 * i"
    using i by (simp add: unat_of_nat del: of_nat_mult)
  moreover have "unat (hwa_mmstart s) + 4096 * i < 4294967296"
    using assms by (auto simp: phymm_static_def)
  ultimately show ?thesis unfolding frame_addr_def by (simp only: unat_add_small)
qed

lemma hwa_pgidx_frame:
  assumes "phymm_static s" and "i < nframes s"
  shows "hwa_pgidx s (frame_addr s i) = word_of_nat i"
proof -
  have i: "i < 128" using assms by (auto simp: phymm_static_def)
  have d: "frame_addr s i - hwa_mmstart s = word_of_nat (4096 * i)"
    by (simp add: frame_addr_def)
  have "sint (word_of_nat (4096 * i) :: u32) = int (4096 * i)"
    using i by (subst sint_small) (simp_all add: unat_of_nat del: of_nat_mult)
  then show ?thesis
    unfolding hwa_pgidx_def d by (cases "i = 0") (simp_all add: signed_divide_int_def)
qed

lemma small_word_div_mod:
  "i < 128 \<Longrightarrow> (word_of_nat i :: u32) div 8 = word_of_nat (i div 8)"
  "i < 128 \<Longrightarrow> unat ((word_of_nat i :: u32) mod 8) = i mod 8"
  by (simp_all add: word_unat_eq_iff unat_div unat_mod unat_of_nat)

lemma drop_and_bit:
  assumes "k < 8"
  shows "drop_bit k (ucast (b :: u8) AND push_bit k 1) = (if bit b k then PGUSE else PGFREE)"
proof (rule bit_word_eqI)
  fix n
  show "bit (drop_bit k (ucast b AND push_bit k 1) :: u32) n = bit (if bit b k then PGUSE else PGFREE) n"
    using assms by (cases "n = 0") (auto simp: bit_simps PGUSE_def PGFREE_def)
qed

lemma bit_set_bit:
  assumes "k < 8"
  shows "bit (ucast ((ucast (b :: u8) :: u32) OR push_bit k 1) :: u8) j \<longleftrightarrow> bit b j \<or> j = k"
  using assms bit_imp_le_length [of b j] by (auto simp: bit_simps)

lemma bit_clear_bit:
  assumes "k < 8"
  shows "bit (ucast ((ucast (b :: u8) :: u32) AND NOT (push_bit k 1)) :: u8) j \<longleftrightarrow> bit b j \<and> j \<noteq> k"
  using assms bit_imp_le_length [of b j] by (auto simp: bit_simps)

section \<open>The bitmap operations on frames of the allocator\<close>

text \<open>Address translation and memory do not depend on the allocator's globals.\<close>

lemma translate_sp [simp]: "translate (s\<lparr>hwas_sp := x\<rparr>) = translate s"
  by (auto simp: translate_def fun_eq_iff split: option.split)

lemma mem_sp [simp]:
  "shadow (s\<lparr>hwas_sp := x\<rparr>) = shadow s"
  "unshadowed (s\<lparr>hwas_sp := x\<rparr>) = unshadowed s"
  "rd8 (s\<lparr>hwas_sp := x\<rparr>) = rd8 s"
  "rdn (s\<lparr>hwas_sp := x\<rparr>) = rdn s"
  "rd32 (s\<lparr>hwas_sp := x\<rparr>) = rd32 s"
  "data_range (s\<lparr>hwas_sp := x\<rparr>) = data_range s"
  by (simp_all add: rd8_def rdn_def phys_addrs_def rd32_def data_range_def data_def shadow_def
      unshadowed_def fun_eq_iff)

lemma sp_globals [simp]:
  "nframes (s\<lparr>hwas_sp := x\<rparr>) = nframes s"
  "frame_addr (s\<lparr>hwas_sp := x\<rparr>) = frame_addr s"
  "bm_bytes (s\<lparr>hwas_sp := x\<rparr>) = bm_bytes s"
  "used (s\<lparr>hwas_sp := x\<rparr>) = used s"
  "hwa_pgidx (s\<lparr>hwas_sp := x\<rparr>) = hwa_pgidx s"
  "hwa_inubm_get (s\<lparr>hwas_sp := x\<rparr>) = hwa_inubm_get s"
  "phymm_static (s\<lparr>hwas_sp := x\<rparr>) = phymm_static s"
  by (simp_all add: nframes_def frame_addr_def bm_bytes_def used_def hwa_pgidx_def
      hwa_inubm_get_def phymm_static_def fun_eq_iff)

definition bm_addr :: "'a phymm_scheme \<Rightarrow> nat \<Rightarrow> u32" where
  "bm_addr s i = hwa_inu_bitmap s + word_of_nat (i div 8)"

lemma bm_addr_data:
  "phymm_static s \<Longrightarrow> i < nframes s \<Longrightarrow> data_range s (bm_addr s i) (Suc 0)"
  unfolding bm_addr_def
  by (rule data_range_add [where n = "bm_bytes s"]) (auto simp: phymm_static_def bm_bytes_def)

lemma bm_byte:
  assumes "phymm_static s" and "i < nframes s"
  obtains b where "rd8 s (bm_addr s i) = Some b" and "used s i = bit b (i mod 8)"
proof -
  have "data s (bm_addr s i)" using bm_addr_data [OF assms] by (simp add: data_range_def)
  then obtain b where "rd8 s (bm_addr s i) = Some b" using data_rd8 by blast
  then show ?thesis using that by (simp add: used_def bm_addr_def)
qed

lemma hwa_inubm_get_frame:
  assumes "phymm_static s" and "i < nframes s"
  shows "hwa_inubm_get s (frame_addr s i) = Some (if used s i then PGUSE else PGFREE)"
proof -
  have i: "i < 128" using assms by (auto simp: phymm_static_def)
  obtain b where b: "rd8 s (bm_addr s i) = Some b" "used s i = bit b (i mod 8)"
    using assms by (rule bm_byte)
  have "hwa_inubm_get s (frame_addr s i) =
      Some (drop_bit (i mod 8) (ucast b AND push_bit (i mod 8) 1))"
    unfolding hwa_inubm_get_def hwa_pgidx_frame [OF assms] Let_def small_word_div_mod [OF i]
    using b(1) by (simp only: bm_addr_def bind.bind_lunit)
  also have "\<dots> = Some (if bit b (i mod 8) then PGUSE else PGFREE)"
    by (rule arg_cong [where f = Some], rule drop_and_bit) simp
  finally show ?thesis using b(2) by simp
qed

lemma hwa_inubm_set_frame:
  assumes "phymm_static s" and "i < nframes s"
  obtains v where "hwa_inubm_set s (frame_addr s i) u = Some (st8 s (bm_addr s i) v)"
    and "\<forall>j<8. bit v j = (if j = i mod 8 then u \<noteq> 0 else used s (8 * (i div 8) + j))"
proof -
  have i: "i < 128" using assms by (auto simp: phymm_static_def)
  obtain b where b: "rd8 s (bm_addr s i) = Some b" "used s i = bit b (i mod 8)"
    using assms by (rule bm_byte)
  have w: "wr8 s (bm_addr s i) x = Some (st8 s (bm_addr s i) x)" for x
    by (rule wr8_data [OF bm_addr_data [OF assms]])
  have ub: "used s (8 * (i div 8) + j) = bit b j" if "j < 8" for j
    using that b(1) by (simp add: used_def bm_addr_def)
  define v :: u8 where "v = (if u \<noteq> 0 then ucast ((ucast b :: u32) OR push_bit (i mod 8) 1)
      else ucast ((ucast b :: u32) AND NOT (push_bit (i mod 8) 1)))"
  have "hwa_inubm_set s (frame_addr s i) u = Some (st8 s (bm_addr s i) v)"
    unfolding hwa_inubm_set_def hwa_pgidx_frame [OF assms] Let_def small_word_div_mod [OF i] v_def
    using b(1) w by (cases "u = 0")
      (simp_all only: bm_addr_def bind.bind_lunit if_True if_False simp_thms)
  moreover have "bit v j = (if j = i mod 8 then u \<noteq> 0 else used s (8 * (i div 8) + j))" if "j < 8" for j
    using ub [OF that] bit_set_bit [of "i mod 8" b j] bit_clear_bit [of "i mod 8" b j]
    by (auto simp only: v_def if_True if_False split: if_splits)
  ultimately show ?thesis using that by blast
qed

section \<open>What the allocator writes\<close>

text \<open>
  The allocator changes the bitmap bytes and its stack pointer only: \<open>bm_only s s'\<close>.  So it
  changes no address translation, and no memory outside its bitmap.
\<close>

definition bm_phys :: "'a phymm_scheme \<Rightarrow> u32 \<Rightarrow> bool" where
  "bm_phys s p \<longleftrightarrow>
     (\<exists>k<bm_bytes s. translate s (hwa_inu_bitmap s + word_of_nat k) = Some p)"

definition bm_only :: "'a phymm_scheme \<Rightarrow> 'a phymm_scheme \<Rightarrow> bool" where
  "bm_only s s' \<longleftrightarrow>
     (\<exists>r x. s' = s\<lparr>ram := r, hwas_sp := x\<rparr> \<and> (\<forall>p. \<not> bm_phys s p \<longrightarrow> r p = ram s p))"

lemma bm_phys_not_table:
  "phymm_static s \<Longrightarrow> bm_phys s p \<Longrightarrow> \<not> table_frame (ram s) (cr3 s) (page p)"
  unfolding bm_phys_def phymm_static_def by (metis data_rangeD data_not_table option.sel)

lemma bm_only_fields:
  assumes "bm_only s s'"
  shows "cr3 s' = cr3 s" "tlb s' = tlb s" "io_trace s' = io_trace s" "io_dev s' = io_dev s"
    "kernel_end s' = kernel_end s" "bios_mmap_addr s' = bios_mmap_addr s"
    "bios_mmap_len s' = bios_mmap_len s" "phymm_end s' = phymm_end s"
    "hwa_mmstart s' = hwa_mmstart s" "hwa_inu_bitmap s' = hwa_inu_bitmap s"
    "hwas_bp s' = hwas_bp s" "hwas_ssize s' = hwas_ssize s" "phymm.more s' = phymm.more s"
  using assms by (auto simp: bm_only_def)

lemma bm_only_ram: "bm_only s s' \<Longrightarrow> \<not> bm_phys s p \<Longrightarrow> ram s' p = ram s p"
  by (auto simp: bm_only_def)

lemma bm_onlyI:
  "s' = s\<lparr>ram := r, hwas_sp := x\<rparr> \<Longrightarrow> (\<And>p. \<not> bm_phys s p \<Longrightarrow> r p = ram s p) \<Longrightarrow> bm_only s s'"
  unfolding bm_only_def by (intro exI [of _ r] exI [of _ x]) simp

lemma bm_only_refl [simp]: "bm_only s s"
  by (rule bm_onlyI [where r = "ram s" and x = "hwas_sp s"]) simp_all

lemma bm_only_sp [simp]: "bm_only s (s\<lparr>hwas_sp := x\<rparr>)"
  by (rule bm_onlyI [where r = "ram s" and x = x]) simp_all

lemma bm_only_walk:
  assumes "phymm_static s" and "bm_only s s'"
  shows "walk_frame (ram s') (cr3 s') va = walk_frame (ram s) (cr3 s) va"
    and "table_frame (ram s') (cr3 s') = table_frame (ram s) (cr3 s)"
proof -
  have "ram s p = ram s' p" if "table_frame (ram s) (cr3 s) (page p)" for p
    using bm_only_ram [OF assms(2)] bm_phys_not_table [OF assms(1)] that by metis
  then show "walk_frame (ram s') (cr3 s') va = walk_frame (ram s) (cr3 s) va"
    and "table_frame (ram s') (cr3 s') = table_frame (ram s) (cr3 s)"
    using walk_frame_cong [of "ram s" "cr3 s" "ram s'"] table_frame_cong [of "ram s" "cr3 s" "ram s'"]
      bm_only_fields(1) [OF assms(2)] by simp_all
qed

lemma bm_only_mem:
  assumes "phymm_static s" and "bm_only s s'"
  shows "translate s' = translate s" "data s' = data s" "data_range s' = data_range s"
    "nframes s' = nframes s" "frame_addr s' = frame_addr s" "bm_bytes s' = bm_bytes s"
    "bm_addr s' = bm_addr s" "bm_phys s' = bm_phys s" "shadow s' = shadow s"
    "unshadowed s' = unshadowed s"
proof -
  show sh: "shadow s' = shadow s" "unshadowed s' = unshadowed s"
    by (rule shadow_eq [OF bm_only_fields(5) [OF assms(2)]])+
  show t: "translate s' = translate s"
    using bm_only_walk [OF assms] bm_only_fields [OF assms(2)]
    by (auto simp: translate_def fun_eq_iff split: option.split)
  show "data s' = data s" using t sh bm_only_walk [OF assms] by (simp add: data_def fun_eq_iff)
  then show "data_range s' = data_range s" by (simp add: data_range_def fun_eq_iff)
  show "nframes s' = nframes s" "frame_addr s' = frame_addr s" "bm_addr s' = bm_addr s"
    using bm_only_fields [OF assms(2)] by (simp_all add: nframes_def frame_addr_def bm_addr_def fun_eq_iff)
  then show b: "bm_bytes s' = bm_bytes s" by (simp add: bm_bytes_def)
  show "bm_phys s' = bm_phys s"
    using bm_only_fields [OF assms(2)] t b by (simp add: bm_phys_def fun_eq_iff)
qed

lemma bm_only_trans:
  assumes "phymm_static s" and "bm_only s s1" and "bm_only s1 s2"
  shows "bm_only s s2"
proof -
  have b: "bm_phys s1 = bm_phys s" using bm_only_mem [OF assms(1,2)] by simp
  obtain r x where "s2 = s1\<lparr>ram := r, hwas_sp := x\<rparr>" and r: "\<And>p. \<not> bm_phys s1 p \<Longrightarrow> r p = ram s1 p"
    using assms(3) by (auto simp: bm_only_def)
  then have "s2 = s\<lparr>ram := r, hwas_sp := x\<rparr>" using assms(2) by (auto simp: bm_only_def)
  then show ?thesis by (rule bm_onlyI) (metis b r bm_only_ram [OF assms(2)])
qed

lemma bm_only_rdn:
  assumes "phymm_static s" and "bm_only s s'"
    and "sep (hwa_inu_bitmap s) (bm_bytes s) b n" and "unshadowed s b n"
  shows "rdn s' b n = rdn s b n"
proof -
  have "rd8 s' (b + word_of_nat j) = rd8 s (b + word_of_nat j)" if j: "j < n" for j
  proof (cases "translate s (b + word_of_nat j)")
    case None
    then show ?thesis by (simp add: rd8_def bm_only_mem [OF assms(1,2)])
  next
    case (Some p)
    have "\<not> bm_phys s p"
    proof
      assume "bm_phys s p"
      then obtain k where k: "k < bm_bytes s" "translate s (hwa_inu_bitmap s + word_of_nat k) = Some p"
        by (auto simp: bm_phys_def)
      have "data s (hwa_inu_bitmap s + word_of_nat k)"
        using assms(1) k(1) by (auto simp: phymm_static_def intro: data_rangeD)
      then have "b + word_of_nat j = hwa_inu_bitmap s + word_of_nat k"
        using k(2) Some unshadowedD [OF assms(4) j] by (intro data_translate_eq) auto
      then show False
        using sep_dist [OF assms(3) j] k(1) assms(3) u32_less [of b]
          word_of_nat_dist [of k "hwa_inu_bitmap s"] by (auto simp: sep_def)
    qed
    then show ?thesis
      using Some bm_only_ram [OF assms(2)] by (simp add: rd8_def bm_only_mem [OF assms(1,2)])
  qed
  then have "map (\<lambda>k. rd8 s' (b + word_of_nat k)) [0..<n] = map (\<lambda>k. rd8 s (b + word_of_nat k)) [0..<n]"
    by (intro map_cong) auto
  then show ?thesis by (simp only: rdn_rd8)
qed

lemma bm_only_rd32:
  "phymm_static s \<Longrightarrow> bm_only s s' \<Longrightarrow> sep (hwa_inu_bitmap s) (bm_bytes s) b 4 \<Longrightarrow>
    unshadowed s b 4 \<Longrightarrow> rd32 s' b = rd32 s b"
  unfolding rd32_def by (rule arg_cong [where f = "map_option _"], rule bm_only_rdn)

lemma slot_data:
  assumes "phymm_static s" and "i < nframes s"
  shows "data_range s (hwas_bp s + 4 * word_of_nat i) 4"
proof -
  have "data_range s (hwas_bp s + word_of_nat (4 * i)) 4"
    using assms by (intro data_range_add [where n = "4 * nframes s"]) (auto simp: phymm_static_def)
  then show ?thesis by simp
qed

lemma slot_sep:
  assumes "phymm_static s" and "i < nframes s"
  shows "sep (hwa_inu_bitmap s) (bm_bytes s) (hwas_bp s + 4 * word_of_nat i) 4"
    and "unat (hwas_bp s + 4 * word_of_nat i) = unat (hwas_bp s) + 4 * i"
proof -
  have st: "nframes s \<le> 128" "unat (hwas_bp s) + 4 * nframes s < 4294967296"
    "sep (hwas_bp s) (4 * nframes s) (hwa_inu_bitmap s) (bm_bytes s)"
    using assms(1) by (auto simp: phymm_static_def)
  have "(4 * word_of_nat i :: u32) = word_of_nat (4 * i)" by simp
  moreover have "unat (word_of_nat (4 * i) :: u32) = 4 * i"
    using assms(2) st(1) by (simp add: unat_of_nat del: of_nat_mult)
  ultimately show u: "unat (hwas_bp s + 4 * word_of_nat i) = unat (hwas_bp s) + 4 * i"
    using st(2) assms(2) by (simp only: unat_add_small)
  show "sep (hwa_inu_bitmap s) (bm_bytes s) (hwas_bp s + 4 * word_of_nat i) 4"
    using st assms(2) unfolding sep_def u by auto
qed

lemma bm_only_static:
  assumes "phymm_static s" and "bm_only s s'"
  shows "phymm_static s'"
  using assms(1) slot_sep(1) [OF assms(1)] bm_only_rd32 [OF assms] slot_data [OF assms(1)]
  unfolding phymm_static_def
  by (simp add: bm_only_mem [OF assms] bm_only_fields [OF assms(2)])

lemma hwa_inubm_set_spec:
  assumes "phymm_static s" and "i < nframes s"
  obtains s' where "hwa_inubm_set s (frame_addr s i) u = Some s'"
    and "bm_only s s'" and "hwas_sp s' = hwas_sp s"
    and "\<forall>j<nframes s. used s' j = (if j = i then u \<noteq> 0 else used s j)"
proof -
  obtain v where v: "hwa_inubm_set s (frame_addr s i) u = Some (st8 s (bm_addr s i) v)"
      "\<forall>j<8. bit v j = (if j = i mod 8 then u \<noteq> 0 else used s (8 * (i div 8) + j))"
    by (rule hwa_inubm_set_frame [OF assms, where u = u])
  let ?s = "st8 s (bm_addr s i) v"
  have d: "data_range s (bm_addr s i) (length [v])" using bm_addr_data [OF assms] by simp
  have ib: "i div 8 < bm_bytes s" using assms(2) by (auto simp: bm_bytes_def)
  have "?s = s\<lparr>ram := ram ?s, hwas_sp := hwas_sp s\<rparr>"
    by (simp add: st8_def stn_def)
  moreover have "ram ?s p = ram s p" if "\<not> bm_phys s p" for p
  proof -
    have "translate s (bm_addr s i) = Some (the (translate s (bm_addr s i)))"
      using d by (intro data_trans) (simp add: data_range_def)
    then have "p \<noteq> the (translate s (bm_addr s i))"
      using that ib by (auto simp: bm_phys_def bm_addr_def)
    then show ?thesis unfolding st8_def by (intro store_addrs_notin) simp
  qed
  ultimately have "bm_only s ?s" by (rule bm_onlyI)
  moreover have "hwas_sp ?s = hwas_sp s" by (simp add: st8_def stn_def)
  moreover have "used ?s j = (if j = i then u \<noteq> 0 else used s j)" if j: "j < nframes s" for j
  proof -
    have n: "i < 128" "j < 128" using assms j by (auto simp: phymm_static_def)
    have "unat (bm_addr s j - bm_addr s i) < 1 \<longleftrightarrow> i div 8 = j div 8"
      using n word_of_nat_inj [of "j div 8" "i div 8"] by (auto simp: bm_addr_def unat_0_iff)
    moreover have "\<not> shadow s (bm_addr s j)"
      using bm_addr_data [OF assms(1) j] by (simp add: data_range_def data_not_shadow)
    ultimately have r: "rd8 ?s (bm_addr s j) = (if i div 8 = j div 8 then Some v else rd8 s (bm_addr s j))"
      using rd8_stn [OF d, of "bm_addr s j"] by (auto simp: st8_def)
    have e: "i div 8 = j div 8 \<Longrightarrow> 8 * (i div 8) + j mod 8 = j" by simp
    have e2: "i div 8 = j div 8 \<Longrightarrow> j mod 8 = i mod 8 \<longleftrightarrow> j = i" by (metis div_mod_decomp)
    have "used ?s j = (case rd8 ?s (bm_addr s j) of Some b \<Rightarrow> bit b (j mod 8) | None \<Rightarrow> False)"
      by (simp add: used_def bm_addr_def st8_def stn_def)
    also have "\<dots> = (if j = i then u \<noteq> 0 else used s j)"
      using r v(2) [rule_format, of "j mod 8"] e e2
      by (cases "i div 8 = j div 8") (auto simp: used_def bm_addr_def)
    finally show ?thesis .
  qed
  ultimately show ?thesis using v(1) that by blast
qed

section \<open>Single frames\<close>

text \<open>The frame a single allocation takes: the topmost free one.\<close>

fun last_free :: "(nat \<Rightarrow> bool) \<Rightarrow> nat \<Rightarrow> nat option" where
  "last_free U 0 = (if U 0 then None else Some 0)"
| "last_free U (Suc t) = (if U (Suc t) then last_free U t else Some (Suc t))"

lemma last_free_SomeD:
  "last_free U t = Some m \<Longrightarrow> m \<le> t \<and> \<not> U m \<and> (\<forall>j. m < j \<and> j \<le> t \<longrightarrow> U j)"
  by (induction t) (auto split: if_splits simp: le_Suc_eq)

lemma last_free_None: "last_free U t = None \<longleftrightarrow> (\<forall>j\<le>t. U j)"
  by (induction t) (auto simp: le_Suc_eq)

lemma hwpalloc_pop_step:
  assumes "phymm_static s" and "t < nframes s" and "hwas_sp s = hwas_bp s + 4 * word_of_nat t"
  shows "hwpalloc_pop s =
    (let s1 = s\<lparr>hwas_sp := hwas_sp s - 4\<rparr>
     in if used s t then hwpalloc_pop s1 else Some (frame_addr s t, s1))"
proof -
  have "rd32 s (hwas_sp s) = Some (frame_addr s t)"
    using assms by (simp add: phymm_static_def)
  then show ?thesis
    using hwa_inubm_get_frame [OF assms(1,2)]
    by (subst hwpalloc_pop.simps) (simp add: Let_def PGUSE_def PGFREE_def)
qed

lemma hwpalloc_pop_free:
  assumes "phymm_static s" and "t < nframes s" and "hwas_sp s = hwas_bp s + 4 * word_of_nat t"
    and "last_free (used s) t = Some m"
  shows "hwpalloc_pop s = Some (frame_addr s m, s\<lparr>hwas_sp := hwas_bp s + 4 * word_of_nat m - 4\<rparr>)"
  using assms
proof (induction t arbitrary: s)
  case 0
  then show ?case using hwpalloc_pop_step [of s 0] by (simp add: Let_def split: if_splits)
next
  case (Suc t)
  show ?case
  proof (cases "used s (Suc t)")
    case True
    let ?s = "s\<lparr>hwas_sp := hwas_sp s - 4\<rparr>"
    have "hwpalloc_pop s = hwpalloc_pop ?s"
      using hwpalloc_pop_step [OF Suc.prems(1,2,3)] True by (simp add: Let_def)
    also have "\<dots> = Some (frame_addr ?s m, ?s\<lparr>hwas_sp := hwas_bp ?s + 4 * word_of_nat m - 4\<rparr>)"
      using Suc.prems True by (intro Suc.IH) (auto simp: algebra_simps)
    finally show ?thesis by simp
  next
    case False
    then show ?thesis
      using hwpalloc_pop_step [OF Suc.prems(1,2,3)] Suc.prems by (auto simp: Let_def)
  qed
qed

lemma hwpalloc_pop_exhausted:
  assumes "phymm_static s" and "t < nframes s" and "hwas_sp s = hwas_bp s + 4 * word_of_nat t"
    and "last_free (used s) t = None"
  shows "hwpalloc_pop s = hwpalloc_pop (s\<lparr>hwas_sp := hwas_bp s - 4\<rparr>)"
  using assms
proof (induction t arbitrary: s)
  case 0
  then show ?case using hwpalloc_pop_step [of s 0] by (simp add: Let_def split: if_splits)
next
  case (Suc t)
  let ?s = "s\<lparr>hwas_sp := hwas_sp s - 4\<rparr>"
  have "hwpalloc_pop s = hwpalloc_pop ?s"
    using hwpalloc_pop_step [OF Suc.prems(1,2,3)] Suc.prems(4) by (simp add: Let_def split: if_splits)
  also have "\<dots> = hwpalloc_pop (?s\<lparr>hwas_sp := hwas_bp ?s - 4\<rparr>)"
    using Suc.prems by (intro Suc.IH) (auto simp: algebra_simps split: if_splits)
  finally show ?case by simp
qed

lemma stack_top_eq:
  assumes "hwas_sp s = hwas_bp s + 4 * word_of_nat t" and "t < 128"
  shows "stack_top s = t"
proof -
  have "hwas_sp s - hwas_bp s = word_of_nat (4 * t)" using assms(1) by simp
  then show ?thesis using assms(2) by (simp add: stack_top_def unat_of_nat del: of_nat_mult)
qed

lemma hwas_sp_eq_bp:
  assumes "phymm_wf s"
  shows "hwas_sp s = hwas_bp s \<longleftrightarrow> stack_top s = 0"
proof
  assume "stack_top s = 0"
  then show "hwas_sp s = hwas_bp s" using assms by (auto simp: phymm_wf_def)
qed (simp add: stack_top_def)

lemma hwpalloc_one_spec:
  assumes wf: "phymm_wf s" and m: "last_free (used s) (stack_top s) = Some m" "0 < m"
  obtains s' where "hwpalloc s 1 = Some (frame_addr s m, s')"
    and "phymm_wf s'" and "stack_top s' = m - 1" and "bm_only s s'"
    and "\<forall>j<nframes s. used s' j = (used s j \<or> j = m)"
proof -
  have st: "phymm_static s" and t: "stack_top s < nframes s"
    and sp: "hwas_sp s = hwas_bp s + 4 * word_of_nat (stack_top s)"
    using wf by (auto simp: phymm_wf_def)
  have mt: "m \<le> stack_top s" "\<not> used s m" using last_free_SomeD [OF m(1)] by auto
  then have mn: "m < nframes s" "m < 128" using t st by (auto simp: phymm_static_def)
  let ?s1 = "s\<lparr>hwas_sp := hwas_bp s + 4 * word_of_nat m - 4\<rparr>"
  have pop: "hwpalloc_pop s = Some (frame_addr s m, ?s1)"
    using st t sp m(1) by (rule hwpalloc_pop_free)
  obtain s' where s': "hwa_inubm_set ?s1 (frame_addr ?s1 m) PGUSE = Some s'" "bm_only ?s1 s'"
    "hwas_sp s' = hwas_sp ?s1"
    "\<forall>j<nframes ?s1. used s' j = (if j = m then PGUSE \<noteq> 0 else used ?s1 j)"
    by (rule hwa_inubm_set_spec [of ?s1 m PGUSE]) (use st mn in auto)
  have b: "bm_only s s'" by (rule bm_only_trans [OF st bm_only_sp s'(2)])
  have "hwas_sp s' = hwas_bp s' + 4 * word_of_nat (m - 1)"
  proof -
    have "(word_of_nat (m - 1) :: u32) = word_of_nat m - 1" using m(2) by (simp add: of_nat_diff)
    then show ?thesis using s'(3) bm_only_fields(11) [OF b] by (simp add: right_diff_distrib)
  qed
  moreover from this have top: "stack_top s' = m - 1" using mn by (intro stack_top_eq) auto
  moreover have "phymm_static s'" using st b by (rule bm_only_static)
  moreover have "nframes s' = nframes s" using bm_only_mem [OF st b] by simp
  ultimately have "phymm_wf s'" using mn by (auto simp: phymm_wf_def)
  moreover have "hwpalloc s 1 = Some (frame_addr s m, s')"
    using pop s'(1) hwas_sp_eq_bp [OF wf] mt(1) m(2) by (simp add: hwpalloc_def)
  moreover have "\<forall>j<nframes s. used s' j = (used s j \<or> j = m)"
    using s'(4) by (auto simp: PGUSE_def)
  ultimately show ?thesis using top b that by blast
qed

section \<open>Runs of frames\<close>

definition window :: "(nat \<Rightarrow> bool) \<Rightarrow> nat \<Rightarrow> nat \<Rightarrow> bool" where
  "window U w n \<longleftrightarrow> (\<forall>k<n. \<not> U (w + k))"

text \<open>The run a multi-frame allocation takes: the lowest run of \<open>n\<close> free frames.\<close>

definition first_window :: "(nat \<Rightarrow> bool) \<Rightarrow> nat \<Rightarrow> nat \<Rightarrow> nat option" where
  "first_window U n sz = List.find (\<lambda>w. window U w n) [0..<Suc sz - n]"

lemma find_upt_SomeD: "List.find P [0..<b] = Some w \<Longrightarrow> w < b \<and> P w \<and> (\<forall>v<w. \<not> P v)"
  by (auto simp: find_Some_iff)

lemma first_window_SomeD:
  "first_window U n sz = Some w \<Longrightarrow> w + n \<le> sz \<and> window U w n \<and> (\<forall>v<w. \<not> window U v n)"
  unfolding first_window_def using find_upt_SomeD by fastforce

text \<open>The invariant of the search: \<open>c\<close> is the length of the free run that ends before \<open>i\<close>.\<close>

definition scan_inv :: "(nat \<Rightarrow> bool) \<Rightarrow> nat \<Rightarrow> nat \<Rightarrow> bool" where
  "scan_inv U i c \<longleftrightarrow> c \<le> i \<and> window U (i - c) c \<and> (c < i \<longrightarrow> U (i - c - 1))"

lemma scan_inv_free: "scan_inv U i c \<Longrightarrow> \<not> U i \<Longrightarrow> scan_inv U (Suc i) (Suc c)"
  by (auto simp: scan_inv_def window_def less_Suc_eq Suc_diff_le)

lemma scan_inv_used: "U i \<Longrightarrow> scan_inv U (Suc i) 0"
  by (auto simp: scan_inv_def window_def)

lemma scan_inv_window:
  assumes "scan_inv U i c" and "window U v n" and "i \<le> v + n" and "0 < n" and "v < i"
  shows "i - c \<le> v"
proof (rule ccontr)
  assume "\<not> i - c \<le> v"
  then have "c < i" and "i - c - 1 - v < n" and "v + (i - c - 1 - v) = i - c - 1"
    using assms(3,4) by (auto simp: scan_inv_def)
  then show False using assms(1,2) unfolding scan_inv_def window_def by metis
qed

lemma hwpalloc_scan_step:
  assumes "phymm_static s" and "i < nframes s" and "c \<le> i"
  shows "hwpalloc_scan s n (word_of_nat i) (word_of_nat c) =
    (if c = unat n then Some (word_of_nat i, word_of_nat c)
     else if used s i then hwpalloc_scan s n (word_of_nat (Suc i)) 0
     else hwpalloc_scan s n (word_of_nat (Suc i)) (word_of_nat (Suc c)))"
proof -
  have i: "i < 128" using assms by (auto simp: phymm_static_def)
  have lt: "(word_of_nat i :: u32) < hwas_ssize s"
    using assms(2) i by (simp add: word_less_nat_alt nframes_def unat_of_nat)
  have c: "(word_of_nat c :: u32) = ucast n \<longleftrightarrow> c = unat n"
    using i assms(3) by (simp add: word_unat_eq_iff unat_of_nat)
  have "rd32 s (hwas_bp s + 4 * word_of_nat i) = Some (frame_addr s i)"
    using assms by (simp add: phymm_static_def)
  then show ?thesis
    using lt c hwa_inubm_get_frame [OF assms(1,2)]
    by (subst hwpalloc_scan.simps) (simp add: PGUSE_def PGFREE_def add.commute)
qed

lemma hwpalloc_scan_spec:
  assumes "phymm_static s" and "scan_inv (used s) i c" and "i \<le> nframes s" and "c \<le> unat n"
    and "0 < unat n" and "first_window (used s) (unat n) (nframes s) = Some w" and "i \<le> w + unat n"
  shows "hwpalloc_scan s n (word_of_nat i) (word_of_nat c) =
    Some (word_of_nat (w + unat n), word_of_nat (unat n))"
  using assms
proof (induction "nframes s - i" arbitrary: i c)
  case 0
  have w: "w + unat n \<le> nframes s" "window (used s) w (unat n)"
    using first_window_SomeD [OF 0(7)] by auto
  have i: "i = nframes s" "w + unat n = i" using 0 w by auto
  then have "i - c \<le> w" using 0 w by (intro scan_inv_window [of "used s" i c w "unat n"]) auto
  then have c: "c = unat n" using i 0 by (auto simp: scan_inv_def)
  have "\<not> (word_of_nat i :: u32) < hwas_ssize s"
    by (simp add: i(1) word_less_nat_alt nframes_def unat_of_nat)
  then show ?case using i(2) c by (subst hwpalloc_scan.simps) simp
next
  case (Suc k)
  have i: "i < nframes s" using Suc(2) by simp
  have w: "window (used s) w (unat n)" "\<forall>v<w. \<not> window (used s) v (unat n)"
    using first_window_SomeD [OF Suc(8)] by auto
  have ci: "c \<le> i" using Suc(4) by (simp add: scan_inv_def)
  note step = hwpalloc_scan_step [OF Suc(3) i ci, of n]
  show ?case
  proof (cases "c = unat n")
    case True
    then have "\<not> i - c < w" using Suc(4) w(2) by (auto simp: scan_inv_def)
    then have "w + unat n = i" using True Suc(9) ci by simp
    then show ?thesis using True step by (simp only: if_True simp_thms)
  next
    case False
    have iw: "Suc i \<le> w + unat n"
    proof (rule ccontr)
      assume "\<not> Suc i \<le> w + unat n"
      then have "i = w + unat n" using Suc(9) by simp
      then have "i - c \<le> w" using Suc(4,7) w(1)
        by (intro scan_inv_window [of "used s" i c w "unat n"]) auto
      then show False using False Suc(6) \<open>i = w + unat n\<close> by simp
    qed
    show ?thesis
    proof (cases "used s i")
      case True
      then have "hwpalloc_scan s n (word_of_nat (Suc i)) (word_of_nat 0) =
          Some (word_of_nat (w + unat n), word_of_nat (unat n))"
        using Suc(2-) i iw by (intro Suc(1) scan_inv_used) auto
      then show ?thesis using step True False by simp
    next
      case unused: False
      then have "hwpalloc_scan s n (word_of_nat (Suc i)) (word_of_nat (Suc c)) =
          Some (word_of_nat (w + unat n), word_of_nat (unat n))"
        using Suc(2-) i iw False by (intro Suc(1) scan_inv_free) auto
      then show ?thesis using step unused False by simp
    qed
  qed
qed

text \<open>Marking a run of frames, as used or as free.\<close>

lemma mark_run:
  assumes st: "phymm_static s" and "w + n \<le> nframes s"
  shows "\<exists>s'. for_loop 0 n (\<lambda>j t. hwa_inubm_set t (frame_addr s w + word_of_nat j * 4096) u) s = Some s' \<and>
    bm_only s s' \<and> hwas_sp s' = hwas_sp s \<and>
    (\<forall>j<nframes s. used s' j = (if w \<le> j \<and> j < w + n then u \<noteq> 0 else used s j))"
proof -
  let ?P = "\<lambda>k t. bm_only s t \<and> hwas_sp t = hwas_sp s \<and>
    (\<forall>j<nframes s. used t j = (if w \<le> j \<and> j < w + k then u \<noteq> 0 else used s j))"
  have "\<exists>s'. for_loop 0 n (\<lambda>j t. hwa_inubm_set t (frame_addr s w + word_of_nat j * 4096) u) s =
      Some s' \<and> ?P (0 + n) s'"
  proof (rule for_loop_inv)
    show "?P 0 s" by auto
    fix k t
    assume k: "k < 0 + n" and P: "?P k t"
    have tst: "phymm_static t" using bm_only_static [OF st] P by blast
    have kn: "w + k < nframes t" using k assms(2) bm_only_mem(4) [OF st, of t] P by simp
    have fs: "frame_addr t = frame_addr s" using bm_only_mem(5) [OF st] P by blast
    have fa: "frame_addr s w + word_of_nat k * 4096 = frame_addr t (w + k)"
      unfolding fs by (simp add: frame_addr_def algebra_simps)
    obtain t' where t': "hwa_inubm_set t (frame_addr t (w + k)) u = Some t'" "bm_only t t'"
      "hwas_sp t' = hwas_sp t"
      "\<forall>j<nframes t. used t' j = (if j = w + k then u \<noteq> 0 else used t j)"
      by (rule hwa_inubm_set_spec [OF tst kn, where u = u])
    have "?P (Suc k) t'"
      using P t' bm_only_trans [OF st, of t t'] bm_only_mem(4) [OF st, of t] by auto
    then show "\<exists>t'. hwa_inubm_set t (frame_addr s w + word_of_nat k * 4096) u = Some t' \<and> ?P (Suc k) t'"
      using t'(1) fa by auto
  qed
  then show ?thesis by simp
qed

lemma hwpalloc_many_spec:
  assumes wf: "phymm_wf s" and top: "0 < stack_top s" and n: "n \<noteq> 1" "n \<noteq> 0"
    and w: "first_window (used s) (unat n) (nframes s) = Some w"
  obtains s' where "hwpalloc s n = Some (frame_addr s w, s')"
    and "phymm_wf s'" and "stack_top s' = stack_top s" and "bm_only s s'"
    and "\<forall>j<nframes s. used s' j = (used s j \<or> (w \<le> j \<and> j < w + unat n))"
proof -
  have st: "phymm_static s" and t: "stack_top s < nframes s"
    and sp: "hwas_sp s = hwas_bp s + 4 * word_of_nat (stack_top s)"
    using wf by (auto simp: phymm_wf_def)
  have n0: "0 < unat n" using n by (simp add: unat_gt_0)
  have wn: "w + unat n \<le> nframes s" using first_window_SomeD [OF w] by simp
  have scan: "hwpalloc_scan s n 0 0 = Some (word_of_nat (w + unat n), word_of_nat (unat n))"
    using hwpalloc_scan_spec [OF st, of 0 0 n w] n0 w
    by (simp add: scan_inv_def window_def)
  have slot: "rd32 s (hwas_bp s + 4 * word_of_nat w) = Some (frame_addr s w)"
    using st wn n0 by (auto simp: phymm_static_def)
  obtain s' where s': "for_loop 0 (unat n)
      (\<lambda>j t. hwa_inubm_set t (frame_addr s w + word_of_nat j * 4096) PGUSE) s = Some s'"
    "bm_only s s'" "hwas_sp s' = hwas_sp s"
    "\<forall>j<nframes s. used s' j = (if w \<le> j \<and> j < w + unat n then PGUSE \<noteq> 0 else used s j)"
    using mark_run [OF st wn, of PGUSE] by blast
  have "hwpalloc s n = Some (frame_addr s w, s')"
    using top n scan slot s'(1) hwas_sp_eq_bp [OF wf] by (simp add: hwpalloc_def)
  moreover have "stack_top s' = stack_top s"
    using s'(3) bm_only_fields(11) [OF s'(2)] by (simp add: stack_top_def)
  moreover from this have "phymm_wf s'"
    using bm_only_static [OF st s'(2)] t sp s'(3) bm_only_fields(11) [OF s'(2)]
      bm_only_mem(4) [OF st s'(2)] by (simp add: phymm_wf_def)
  moreover have "\<forall>j<nframes s. used s' j = (used s j \<or> (w \<le> j \<and> j < w + unat n))"
    using s'(4) by (auto simp: PGUSE_def)
  ultimately show ?thesis using s'(2) that by blast
qed

section \<open>Release\<close>

lemma frame_addr_in_range:
  assumes "phymm_static s" and "i < nframes s"
  shows "\<not> (frame_addr s i < hwa_mmstart s \<or>
    hwa_mmstart s + hwas_ssize s * 4096 \<le> frame_addr s i)"
proof -
  have b: "nframes s \<le> 128" "unat (hwa_mmstart s) + 4096 * nframes s < 4294967296"
    using assms by (auto simp: phymm_static_def)
  have "unat (hwas_ssize s * 4096) = 4096 * nframes s"
    using b by (simp add: unat_word_ariths nframes_def)
  then have "unat (hwa_mmstart s + hwas_ssize s * 4096) = unat (hwa_mmstart s) + 4096 * nframes s"
    using b by (subst unat_add_small) auto
  then show ?thesis
    using unat_frame_addr [OF assms] assms(2) by (simp add: word_less_nat_alt word_le_nat_alt)
qed

lemma sp_below_limit:
  assumes "phymm_wf s"
  shows "hwas_sp s < hwas_bp s + 4 * hwas_ssize s"
proof -
  have st: "phymm_static s" and t: "stack_top s < nframes s"
    and sp: "hwas_sp s = hwas_bp s + 4 * word_of_nat (stack_top s)"
    using assms by (auto simp: phymm_wf_def)
  have u: "unat (hwas_sp s) = unat (hwas_bp s) + 4 * stack_top s"
    unfolding sp by (rule slot_sep(2) [OF st t])
  have b: "nframes s \<le> 128" "unat (hwas_bp s) + 4 * nframes s < 4294967296"
    using st by (auto simp: phymm_static_def)
  have "unat (4 * hwas_ssize s) = 4 * nframes s"
    using b by (simp add: unat_word_ariths nframes_def)
  then have "unat (hwas_bp s + 4 * hwas_ssize s) = unat (hwas_bp s) + 4 * nframes s"
    using b by (subst unat_add_small) auto
  then show ?thesis using u t by (simp add: word_less_nat_alt)
qed

text \<open>The release loop, which carries the address along.\<close>

lemma release_run:
  assumes st: "phymm_static s" and "w + n \<le> nframes s"
  shows "\<exists>a s'. for_loop 0 n (\<lambda>_ (addr, t). do {
        t1 \<leftarrow> hwa_inubm_set t addr PGFREE;
        Some (addr + 4096, t1) }) (frame_addr s w, s) = Some (a, s') \<and>
    bm_only s s' \<and> hwas_sp s' = hwas_sp s \<and>
    (\<forall>j<nframes s. used s' j = (used s j \<and> \<not> (w \<le> j \<and> j < w + n)))"
proof -
  let ?P = "\<lambda>k (a, t). a = frame_addr s (w + k) \<and> bm_only s t \<and> hwas_sp t = hwas_sp s \<and>
    (\<forall>j<nframes s. used t j = (used s j \<and> \<not> (w \<le> j \<and> j < w + k)))"
  let ?f = "\<lambda>_ (addr, t). do {
        t1 \<leftarrow> hwa_inubm_set t addr PGFREE;
        Some (addr + 4096, t1) }"
  have "\<exists>s'. for_loop 0 n ?f (frame_addr s w, s) = Some s' \<and> ?P (0 + n) s'"
  proof (rule for_loop_inv)
    show "?P 0 (frame_addr s w, s)" by auto
    fix k at
    assume k: "k < 0 + n" and P': "?P k at"
    obtain a t where at: "at = (a, t)" by (cases at)
    have P: "a = frame_addr s (w + k)" "bm_only s t" "hwas_sp t = hwas_sp s"
      "\<forall>j<nframes s. used t j = (used s j \<and> \<not> (w \<le> j \<and> j < w + k))"
      using P' at by auto
    have tst: "phymm_static t" using st P(2) by (rule bm_only_static)
    note mem = bm_only_mem(4,5) [OF st P(2)]
    have kn: "w + k < nframes t" using k assms(2) mem(1) by simp
    obtain t' where t': "hwa_inubm_set t (frame_addr t (w + k)) PGFREE = Some t'" "bm_only t t'"
      "hwas_sp t' = hwas_sp t"
      "\<forall>j<nframes t. used t' j = (if j = w + k then PGFREE \<noteq> 0 else used t j)"
      by (rule hwa_inubm_set_spec [OF tst kn, where u = PGFREE])
    have "bm_only s t'" using st P(2) t'(2) by (rule bm_only_trans)
    moreover have "frame_addr s (w + k) + 4096 = frame_addr s (w + Suc k)"
      by (simp add: frame_addr_def algebra_simps)
    moreover have "\<forall>j<nframes s. used t' j = (used s j \<and> \<not> (w \<le> j \<and> j < w + Suc k))"
      using t'(4) P(4) mem(1) by (auto simp: PGFREE_def)
    ultimately have "?P (Suc k) (a + 4096, t')" using P(1,3) t'(3) by simp
    moreover have "?f k at = Some (a + 4096, t')" using t'(1) P(1) at mem(2) by simp
    ultimately show "\<exists>s'. ?f k at = Some s' \<and> ?P (Suc k) s'" by blast
  qed
  then show ?thesis by auto
qed

lemma hwpfree_many_spec:
  assumes wf: "phymm_wf s" and n: "n \<noteq> 1" and i: "i < nframes s" "i + unat n \<le> nframes s"
    and u: "used s i"
  obtains s' where "hwpfree s (frame_addr s i) n = Some (STATUS_OK, s')"
    and "phymm_wf s'" and "stack_top s' = stack_top s" and "bm_only s s'"
    and "\<forall>j<nframes s. used s' j = (used s j \<and> \<not> (i \<le> j \<and> j < i + unat n))"
proof -
  have st: "phymm_static s" and t: "stack_top s < nframes s"
    and sp: "hwas_sp s = hwas_bp s + 4 * word_of_nat (stack_top s)"
    using wf by (auto simp: phymm_wf_def)
  obtain a s' where s': "for_loop 0 (unat n) (\<lambda>_ (addr, t). do {
        t1 \<leftarrow> hwa_inubm_set t addr PGFREE;
        Some (addr + 4096, t1) }) (frame_addr s i, s) = Some (a, s')"
    "bm_only s s'" "hwas_sp s' = hwas_sp s"
    "\<forall>j<nframes s. used s' j = (used s j \<and> \<not> (i \<le> j \<and> j < i + unat n))"
    using release_run [OF st i(2)] by blast
  have "hwpfree s (frame_addr s i) n = Some (STATUS_OK, s')"
    using frame_addr_in_range [OF st i(1)] hwa_inubm_get_frame [OF st i(1)] u n s'(1)
    by (simp add: hwpfree_def PGUSE_def PGFREE_def)
  moreover have top: "stack_top s' = stack_top s"
    using s'(3) bm_only_fields(11) [OF s'(2)] by (simp add: stack_top_def)
  moreover have "phymm_wf s'"
    using bm_only_static [OF st s'(2)] t sp s'(3) top bm_only_fields(11) [OF s'(2)]
      bm_only_mem(4) [OF st s'(2)] by (simp add: phymm_wf_def)
  ultimately show ?thesis using s'(2,4) that by blast
qed

section \<open>The abstract allocator\<close>

text \<open>
  What the allocator promises, on the set \<open>U\<close> of frames in use and the height \<open>t\<close> of the
  stack: which frame a request gets, and the set and height afterwards; \<open>None\<close> where the
  promise ends (an empty stack, or no suitable free frames above the lowest one).
\<close>

definition alloc_spec :: "nat \<Rightarrow> nat set \<Rightarrow> nat \<Rightarrow> nat \<Rightarrow> (nat \<times> nat set \<times> nat) option" where
  "alloc_spec sz U t n =
     (if t = 0 \<or> n = 0 then None
      else if n = 1 then
        (case last_free (\<lambda>j. j \<in> U) t of
           Some m \<Rightarrow> if m = 0 then None else Some (m, insert m U, m - 1)
         | None \<Rightarrow> None)
      else
        (case first_window (\<lambda>j. j \<in> U) n sz of
           Some w \<Rightarrow> Some (w, U \<union> {w..<w + n}, t)
         | None \<Rightarrow> None))"

definition used_set :: "'a phymm_scheme \<Rightarrow> nat set" where
  "used_set s = {j. j < nframes s \<and> used s j}"

lemma last_free_cong: "(\<And>j. j \<le> t \<Longrightarrow> U j = V j) \<Longrightarrow> last_free U t = last_free V t"
  by (induction t) auto

lemma first_window_cong:
  assumes "\<And>j. j < sz \<Longrightarrow> U j = V j"
  shows "first_window U n sz = first_window V n sz"
proof -
  have "window U w n = window V w n" if "w \<in> set [0..<Suc sz - n]" for w
    using that assms by (auto simp: window_def)
  then show ?thesis unfolding first_window_def by (intro find_cong) auto
qed

lemma alloc_spec_window:
  assumes "alloc_spec sz U t n = Some (w, V, t')" and "t < sz"
  shows "0 < n" "w + n \<le> sz" "{w..<w + n} \<inter> U = {}" "V = U \<union> {w..<w + n}" "t' \<le> t"
proof -
  have "0 < n \<and> w + n \<le> sz \<and> {w..<w + n} \<inter> U = {} \<and> V = U \<union> {w..<w + n} \<and> t' \<le> t"
  proof (cases "n = 1")
    case True
    then show ?thesis using assms
      by (auto simp: alloc_spec_def dest!: last_free_SomeD split: if_splits option.splits)
  next
    case False
    then obtain fw: "first_window (\<lambda>j. j \<in> U) n sz = Some w"
      and v: "V = U \<union> {w..<w + n}" "t' = t" "0 < n"
      using assms(1) by (auto simp: alloc_spec_def split: if_splits option.splits)
    have "w + n \<le> sz" and "window (\<lambda>j. j \<in> U) w n" using first_window_SomeD [OF fw] by auto
    moreover from this have "{w..<w + n} \<inter> U = {}"
      by (auto simp: window_def) (metis add_diff_inverse_nat add_less_cancel_left not_le)
    ultimately show ?thesis using v by simp
  qed
  then show "0 < n" "w + n \<le> sz" "{w..<w + n} \<inter> U = {}" "V = U \<union> {w..<w + n}" "t' \<le> t"
    by auto
qed

text \<open>The code implements the abstract allocator.\<close>

lemma hwpalloc_refines:
  assumes wf: "phymm_wf s"
    and spec: "alloc_spec (nframes s) (used_set s) (stack_top s) (unat n) = Some (w, U', t')"
  shows "\<exists>s'. hwpalloc s n = Some (frame_addr s w, s') \<and> phymm_wf s' \<and> bm_only s s' \<and>
    used_set s' = U' \<and> stack_top s' = t'"
proof -
  have st: "phymm_static s" and t: "stack_top s < nframes s" using wf by (auto simp: phymm_wf_def)
  have t0: "0 < stack_top s" and n0: "0 < unat n"
    using spec by (auto simp: alloc_spec_def split: if_splits)
  show ?thesis
  proof (cases "n = 1")
    case True
    have "last_free (\<lambda>j. j \<in> used_set s) (stack_top s) = last_free (used s) (stack_top s)"
      using t by (intro last_free_cong) (auto simp: used_set_def)
    then have m: "last_free (used s) (stack_top s) = Some w" "0 < w" "U' = insert w (used_set s)" "t' = w - 1"
      using spec True by (auto simp: alloc_spec_def split: if_splits option.splits)
    obtain s' where s': "hwpalloc s 1 = Some (frame_addr s w, s')" "phymm_wf s'" "stack_top s' = w - 1"
      "bm_only s s'" "\<forall>j<nframes s. used s' j = (used s j \<or> j = w)"
      by (rule hwpalloc_one_spec [OF wf m(1,2)])
    have "w < nframes s" using last_free_SomeD [OF m(1)] t by simp
    then have "used_set s' = insert w (used_set s)"
      using s'(5) bm_only_mem(4) [OF st s'(4)] by (auto simp: used_set_def)
    then show ?thesis using s' m True by auto
  next
    case False
    then have n1: "unat n \<noteq> 1" by (auto simp: word_unat_eq_iff)
    have "first_window (\<lambda>j. j \<in> used_set s) (unat n) (nframes s) = first_window (used s) (unat n) (nframes s)"
      by (intro first_window_cong) (auto simp: used_set_def)
    then have m: "first_window (used s) (unat n) (nframes s) = Some w"
      "U' = used_set s \<union> {w..<w + unat n}" "t' = stack_top s"
      using spec n1 n0 by (auto simp: alloc_spec_def split: if_splits option.splits)
    have nz: "n \<noteq> 0" using n0 by auto
    obtain s' where s': "hwpalloc s n = Some (frame_addr s w, s')" "phymm_wf s'"
      "stack_top s' = stack_top s" "bm_only s s'"
      "\<forall>j<nframes s. used s' j = (used s j \<or> (w \<le> j \<and> j < w + unat n))"
      by (rule hwpalloc_many_spec [OF wf t0 False nz m(1)])
    have "used_set s' = used_set s \<union> {w..<w + unat n}"
      using s'(5) bm_only_mem(4) [OF st s'(4)] first_window_SomeD [OF m(1)] by (auto simp: used_set_def)
    then show ?thesis using s' m by auto
  qed
qed

end
