(* ===== verification/PageTables.thy ===== *)
theory PageTables
  imports Machine
begin

text \<open>
  What one store into a page table or into the page directory does to the address
  translation.  The kernel reaches its tables through the last directory entry, which
  points back to the directory (\<open>boot.s\<close>); \<open>pt_wf\<close> is that arrangement, with every table in a
  frame of its own.
\<close>

section \<open>Storing a table entry\<close>

definition put_entry :: "(u32 \<Rightarrow> u8) \<Rightarrow> u32 \<Rightarrow> u32 \<Rightarrow> u32 \<Rightarrow> (u32 \<Rightarrow> u8)" where
  "put_entry m f i v =
     (let e = entry_addr f i
      in ram_put m [(e, byte_of 0 v), (e + 1, byte_of 1 v), (e + 2, byte_of 2 v), (e + 3, byte_of 3 v)])"

lemma unat_entry_addr:
  assumes "unat f < 1048576" and "unat i < 1024"
  shows "unat (entry_addr f i) = 4096 * unat f + 4 * unat i"
proof -
  have "unat (page (entry_addr f i)) = unat f" and "pgoff (entry_addr f i) = push_bit 2 i"
    using assms by (simp_all add: page_entry_addr0 entry_addr_def entry_offset)
  then have "unat (entry_addr f i) div 4096 = unat f" and "unat (entry_addr f i) mod 4096 = 4 * unat i"
    using assms by (simp_all flip: unat_page unat_pgoff add: entry_offset)
  then show ?thesis by (metis mult_div_mod_eq)
qed

lemma entry_addr_byte:
  assumes "unat f < 1048576" and "unat i < 1024" and "k < 4"
  shows "unat (entry_addr f i + word_of_nat k) = 4096 * unat f + 4 * unat i + k"
proof -
  have k: "unat (word_of_nat k :: u32) = k" using assms(3) by (simp add: unat_of_nat)
  show ?thesis
    using assms by (subst unat_add_small) (simp_all add: unat_entry_addr k)
qed

lemma entry_bytes_inject:
  fixes a b i j k l :: nat
  assumes "i < 1024" and "j < 1024" and "k < 4" and "l < 4"
  shows "4096 * a + 4 * i + k = 4096 * b + 4 * j + l \<longleftrightarrow> a = b \<and> i = j \<and> k = l"
proof
  assume eq: "4096 * a + 4 * i + k = 4096 * b + 4 * j + l"
  have "(4096 * a + 4 * i + k) div 4096 = a" "(4096 * b + 4 * j + l) div 4096 = b"
    using assms by simp_all
  then have "a = b" using eq by simp
  moreover from this have "4 * i + k = 4 * j + l" using eq by simp
  moreover from this have "(4 * i + k) div 4 = (4 * j + l) div 4" by simp
  then have "i = j" using assms(3,4) by simp
  ultimately show "a = b \<and> i = j \<and> k = l" by simp
qed simp

lemma put_entry_other:
  assumes "unat f < 1048576" and "unat i < 1024" and "page p \<noteq> f"
  shows "put_entry m f i v p = m p"
proof -
  have "p \<noteq> entry_addr f i" "p \<noteq> entry_addr f i + 1" "p \<noteq> entry_addr f i + 2" "p \<noteq> entry_addr f i + 3"
    using assms page_entry_addr [OF assms(1,2)] page_entry_addr0 [OF assms(1,2)] by auto
  then show ?thesis by (simp add: put_entry_def Let_def)
qed

lemma put_entry_byte:
  assumes f: "unat f < 1048576" "unat g < 1048576" and i: "unat i < 1024" "unat j < 1024" and k: "k < 4"
  shows "put_entry m f i v (entry_addr g j + word_of_nat k) =
    (if g = f \<and> j = i then byte_of k v else m (entry_addr g j + word_of_nat k))"
proof -
  have w: "(entry_addr g j + word_of_nat k = entry_addr f i + word_of_nat l) \<longleftrightarrow>
      g = f \<and> j = i \<and> k = l" if "l < 4" for l
    using entry_bytes_inject [OF i(2,1) k that, of "unat g" "unat f"]
      entry_addr_byte [OF f(2) i(2) k] entry_addr_byte [OF f(1) i(1) that]
    by (simp add: word_unat_eq_iff)
  have w4: "(entry_addr g j + word_of_nat k = entry_addr f i) \<longleftrightarrow> g = f \<and> j = i \<and> k = 0"
    "(entry_addr g j + word_of_nat k = entry_addr f i + 1) \<longleftrightarrow> g = f \<and> j = i \<and> k = 1"
    "(entry_addr g j + word_of_nat k = entry_addr f i + 2) \<longleftrightarrow> g = f \<and> j = i \<and> k = 2"
    "(entry_addr g j + word_of_nat k = entry_addr f i + 3) \<longleftrightarrow> g = f \<and> j = i \<and> k = 3"
    using w [of 0] w [of 1] w [of 2] w [of 3] by simp_all
  have "k = 0 \<or> k = 1 \<or> k = 2 \<or> k = 3" using k by auto
  then show ?thesis
    unfolding put_entry_def Let_def ram_put.simps fun_upd_apply w4 by auto
qed

lemma entry_put_entry:
  assumes "unat f < 1048576" "unat g < 1048576" "unat i < 1024" "unat j < 1024"
  shows "entry (put_entry m f i v) g j = (if g = f \<and> j = i then v else entry m g j)"
  using put_entry_byte [OF assms, of 0 m v] put_entry_byte [OF assms, of 1 m v]
    put_entry_byte [OF assms, of 2 m v] put_entry_byte [OF assms, of 3 m v]
  by (auto simp: entry_def phys32_def)

text \<open>The code's 32-bit store, at a virtual address that leads to a table entry.\<close>

lemma phys_addrs_entry:
  assumes "translate s a = Some (entry_addr f i)" and "unat (pgoff a) + 3 < 4096"
  shows "phys_addrs s a 4 =
    Some [entry_addr f i, entry_addr f i + 1, entry_addr f i + 2, entry_addr f i + 3]"
proof -
  have t: "translate s (a + k) = Some (entry_addr f i + k)" if "unat k \<le> 3" for k
    using assms that by (intro translate_add) auto
  have t3: "translate s (a + 1) = Some (entry_addr f i + 1)"
    "translate s (a + 2) = Some (entry_addr f i + 2)" "translate s (a + 3) = Some (entry_addr f i + 3)"
    by (rule t; simp)+
  have "[0..<4] = [0, 1, 2, 3 :: nat]" by (simp add: upt_rec)
  then show ?thesis using t3 assms(1) by (simp add: phys_addrs_def)
qed

lemma wr32_entry:
  assumes "translate s a = Some (entry_addr f i)" and "unat (pgoff a) + 3 < 4096"
  shows "wr32 s a v = Some (s\<lparr>ram := put_entry (ram s) f i v\<rparr>)"
proof -
  have "length [byte_of 0 v, byte_of 1 v, byte_of 2 v, byte_of 3 v] = 4" by simp
  then show ?thesis using phys_addrs_entry [OF assms]
    unfolding wr32_def wrn_def by (simp only:) (simp add: put_entry_def Let_def)
qed

lemma rd32_entry:
  assumes "translate s a = Some (entry_addr f i)" and "unat (pgoff a) + 3 < 4096"
  shows "rd32 s a = Some (entry (ram s) f i)"
  using phys_addrs_entry [OF assms] by (simp add: rd32_def rdn_def entry_def phys32_def)

section \<open>Well-formed page tables\<close>

definition pt_wf :: "(u32 \<Rightarrow> u8) \<Rightarrow> u32 \<Rightarrow> bool" where
  "pt_wf m c \<longleftrightarrow>
     present (entry m (page c) 1023) \<and> page (entry m (page c) 1023) = page c \<and>
     (\<forall>i. unat i < 1023 \<and> present (entry m (page c) i) \<longrightarrow>
        page (entry m (page c) i) \<noteq> page c \<and>
        (\<forall>j. unat j < 1023 \<and> present (entry m (page c) j) \<and>
             page (entry m (page c) j) = page (entry m (page c) i) \<longrightarrow> j = i))"

text \<open>Directory slot 1023 is the window onto the tables themselves.\<close>

definition in_window :: "u32 \<Rightarrow> bool" where
  "in_window a \<longleftrightarrow> pd_index a = 1023"

lemma not_window_less: "\<not> in_window a \<Longrightarrow> unat (pd_index a) < 1023"
proof -
  assume "\<not> in_window a"
  then have "unat (pd_index a) \<noteq> 1023" by (simp add: in_window_def word_unat_eq_iff)
  then show ?thesis using pd_index_less [of a] by linarith
qed

text \<open>The address the code computes for entry \<open>j\<close> of table \<open>i\<close>: page \<open>i\<close> of the window.\<close>

definition pte_vaddr :: "u32 \<Rightarrow> u32 \<Rightarrow> u32" where
  "pte_vaddr i j = (0xffc00000 OR push_bit 12 i) + 4 * j"

lemma pte_vaddr_mkaddr:
  assumes "unat i < 1024" and "unat j < 1024"
  shows "pte_vaddr i j = mkaddr (0xffc00 OR i) (push_bit 2 j)"
proof -
  have "(0xffc00000 OR push_bit 12 i :: u32) = push_bit 12 (0xffc00 OR i)"
    by (rule bit_word_eqI) (auto simp: bit_simps)
  moreover have "4 * j = push_bit 2 j" by (simp add: push_bit_eq_mult)
  ultimately show ?thesis
    using assms by (simp add: pte_vaddr_def mkaddr_eq_add entry_offset)
qed

lemma ffc00_or:
  assumes "unat (i :: u32) < 1024"
  shows "drop_bit 10 (0xffc00 OR i) = 1023" and "take_bit 10 (0xffc00 OR i) = i"
    and "unat (0xffc00 OR i) < 1048576"
proof -
  have b: "bit i k \<Longrightarrow> k < 10" for k using assms bit_less_exp [of i 10 k] by simp
  have "drop_bit 10 i = 0" using b by (intro bit_word_eqI) (fastforce simp: bit_simps)
  then show "drop_bit 10 (0xffc00 OR i) = 1023" by simp
  have "take_bit 10 i = i" using assms by (intro take_bit_unat_less) simp
  then show "take_bit 10 (0xffc00 OR i) = i" by simp
  have "take_bit 20 i = i" using assms by (intro take_bit_unat_less) simp
  then have "take_bit 20 (0xffc00 OR i) = 0xffc00 OR i" by simp
  then have "unat (0xffc00 OR i) = take_bit 20 (unat (0xffc00 OR i))"
    by (metis unsigned_take_bit_eq)
  then show "unat (0xffc00 OR i) < 1048576"
    using take_bit_nat_less_exp [of 20 "unat (0xffc00 OR i)"] by simp
qed

lemma pte_vaddr_index:
  assumes "unat i < 1024" and "unat j < 1024"
  shows "pd_index (pte_vaddr i j) = 1023" and "pt_index (pte_vaddr i j) = i"
    and "pgoff (pte_vaddr i j) = push_bit 2 j" and "unat (pgoff (pte_vaddr i j)) + 3 < 4096"
  using assms ffc00_or [OF assms(1)]
  by (simp_all add: index_page pte_vaddr_mkaddr entry_offset)

lemma walk_window:
  assumes "pt_wf m c" and "unat i < 1024" and "unat j < 1024"
  shows "walk_frame m c (pte_vaddr i j) =
    (if present (entry m (page c) i) then Some (page (entry m (page c) i)) else None)"
  using assms by (simp add: walk_frame_def pte_vaddr_index pt_wf_def Let_def)

lemma page_or_3: "page (v OR 3) = page v"
  unfolding page_def by (simp add: drop_bit_or)

lemma present_or_3 [simp]: "present (v OR 3)"
proof -
  have "(v OR 3) AND 1 = 1" by (rule bit_word_eqI) (auto simp: bit_simps bit_1_iff)
  then show ?thesis by (simp add: present_def)
qed

lemma not_present_0 [simp]: "\<not> present 0"
  by (simp add: present_def)

section \<open>Writing an entry of a table\<close>

lemma set_pte:
  fixes v :: u32
  assumes wf: "pt_wf m c" and i: "unat i < 1023" and j: "unat j < 1024"
    and p: "present (entry m (page c) i)"
  defines "m' \<equiv> put_entry m (page (entry m (page c) i)) j v"
  shows "pt_wf m' c" and "table_frame m' c = table_frame m c"
    and "walk_frame m' c a =
      (if pd_index a = i \<and> pt_index a = j then (if present v then Some (page v) else None)
       else walk_frame m c a)"
proof -
  let ?f = "page (entry m (page c) i)"
  have f: "?f \<noteq> page c" using wf i p by (auto simp: pt_wf_def)
  have dir: "entry m' (page c) x = entry m (page c) x" if "unat x < 1024" for x
    using f that j by (simp add: m'_def entry_put_entry)
  have dir2: "entry m' (page c) x = entry m (page c) x" if "unat x < 1023" for x
    using dir [of x] that by simp
  show "pt_wf m' c" using wf unfolding pt_wf_def by (simp add: dir dir2 cong: conj_cong)
  show "table_frame m' c = table_frame m c" by (auto simp: table_frame_def dir fun_eq_iff)
  have x: "page (entry m (page c) (pd_index a)) = ?f \<longleftrightarrow> pd_index a = i"
    if "present (entry m (page c) (pd_index a))"
  proof (cases "pd_index a = 1023")
    case True
    then show ?thesis using wf f i by (auto simp: pt_wf_def)
  next
    case False
    then have "unat (pd_index a) < 1023" using not_window_less by (simp add: in_window_def)
    then show ?thesis using wf i p that unfolding pt_wf_def by blast
  qed
  show "walk_frame m' c a =
      (if pd_index a = i \<and> pt_index a = j then (if present v then Some (page v) else None)
       else walk_frame m c a)"
    using x p j by (auto simp: walk_frame_def dir Let_def) (auto simp: m'_def entry_put_entry split: if_splits)
qed

section \<open>Adding a table to the directory\<close>

lemma entry_zero: "(\<And>p. page p = f \<Longrightarrow> m p = 0) \<Longrightarrow> unat f < 1048576 \<Longrightarrow> unat i < 1024 \<Longrightarrow> entry m f i = 0"
  using page_entry_addr0 [of f i] page_entry_addr [of f i 1] page_entry_addr [of f i 2]
    page_entry_addr [of f i 3]
  by (simp add: entry_def phys32_def cat32_def)

lemma add_table:
  fixes t :: u32
  assumes wf: "pt_wf m c" and i: "unat i < 1023"
    and absent: "\<not> present (entry m (page c) i)"
    and f: "\<not> table_frame m c (page t)" and zero: "\<And>p. page p = page t \<Longrightarrow> m p = 0"
  defines "m' \<equiv> put_entry m (page c) i (t OR 3)"
  shows "pt_wf m' c" and "table_frame m' c g \<longleftrightarrow> table_frame m c g \<or> g = page t"
    and "entry m' (page c) i = t OR 3"
    and "walk_frame m' c a =
      (if pd_index a = 1023 \<and> pt_index a = i then Some (page t) else walk_frame m c a)"
proof -
  have dir: "entry m' (page c) x = (if x = i then t OR 3 else entry m (page c) x)"
    if "unat x < 1024" for x
    using that i by (simp add: m'_def entry_put_entry)
  have other: "entry m' g x = entry m g x" if "g \<noteq> page c" "unat g < 1048576" "unat x < 1024" for g x
    using that i by (simp add: m'_def entry_put_entry)
  have i1023: "i \<noteq> 1023" and i1024: "unat i < 1024" using i by auto
  have tc: "page t \<noteq> page c" using f by auto
  have old: "page (entry m (page c) x) \<noteq> page t" if "unat x < 1024" "present (entry m (page c) x)" for x
    using f that table_frameI by metis
  show e: "entry m' (page c) i = t OR 3" using dir [of i] i by simp
  show "pt_wf m' c"
    using wf i i1023 tc old unfolding pt_wf_def
    by (auto simp: dir page_or_3 dest: sym split: if_splits)
  show "table_frame m' c g \<longleftrightarrow> table_frame m c g \<or> g = page t"
    using absent i unfolding table_frame_def by (auto simp: dir page_or_3 split: if_splits)
  show "walk_frame m' c a =
      (if pd_index a = 1023 \<and> pt_index a = i then Some (page t) else walk_frame m c a)"
  proof (cases "pd_index a = 1023")
    case True
    then show ?thesis using wf i i1023 absent
      by (auto simp: walk_frame_def dir Let_def pt_wf_def page_or_3)
  next
    case False
    then have lt: "unat (pd_index a) < 1023" using not_window_less by (simp add: in_window_def)
    show ?thesis
    proof (cases "pd_index a = i")
      case True
      then show ?thesis using False absent tc zero
        by (simp add: walk_frame_def dir i1024 Let_def page_or_3 other entry_zero)
    next
      case ni: False
      then show ?thesis using False lt wf
        by (auto simp: walk_frame_def dir Let_def other pt_wf_def)
    qed
  qed
qed

end
