(* ===== verification/VirtMM.thy ===== *)
theory VirtMM
  imports PhyMM PageTables
begin

text \<open>
  The paging service, \<open>kernel/mm/virt-mm.c\<close> and \<open>include/virt-mm.h\<close>: mapping and unmapping
  of single pages through the recursive page tables, \<open>mmap\<close> and \<open>munmap\<close> on top of the page
  frame allocator, and the mapping of device memory.
\<close>

section \<open>State\<close>

text \<open>\<open>pde_table\<close> is the linker symbol of \<open>boot.s\<close>.\<close>

record virtmm = phymm +
  pde_table :: u32
  driver_space_head :: u32

section \<open>Logical to physical\<close>

definition lpa :: "'a virtmm_scheme \<Rightarrow> u32 \<Rightarrow> u32 option" where
  "lpa s lgaddr = do {
     e \<leftarrow> rd32 s ((logical_pde_base OR push_bit 12 (drop_bit 22 lgaddr))
                  + 4 * (drop_bit 12 lgaddr AND 0x3ff));
     Some ((e AND NOT 0x3ff) + (lgaddr AND 0x3ff))
   }"

section \<open>Mapping and unmapping a page\<close>

definition mapfr :: "'a virtmm_scheme \<Rightarrow> u32 \<Rightarrow> u32 \<Rightarrow> 'a virtmm_scheme option" where
  "mapfr s hwaddr lgaddr = do {
     let pde_index = drop_bit 22 lgaddr;
     let pte_index = drop_bit 12 lgaddr AND 0x3ff;
     let pte_table = logical_pde_base OR push_bit 12 pde_index;
     e \<leftarrow> rd32 s (pde_table s + 4 * pde_index);
     s1 \<leftarrow> (if e AND 1 = 0 then do {
             (new_hw_table, t) \<leftarrow> hwpalloc s 1;
             t1 \<leftarrow> wr32 t (pde_table t + 4 * pde_index) (new_hw_table OR 3);
             Some (invlpg t1 pte_table)
           } else Some s);
     s2 \<leftarrow> wr32 s1 (pte_table + 4 * pte_index) (hwaddr OR 3);
     Some (invlpg s2 (pte_table + pte_index * 4))
   }"

definition umapfr :: "'a virtmm_scheme \<Rightarrow> u32 \<Rightarrow> 'a virtmm_scheme option" where
  "umapfr s lgaddr = do {
     let pde_index = drop_bit 22 lgaddr;
     let pte_index = drop_bit 12 lgaddr AND 0x3ff;
     let pte_table = logical_pde_base OR push_bit 12 pde_index;
     e \<leftarrow> rd32 s (pde_table s + 4 * pde_index);
     if e AND 1 = 0 then Some s
     else do {
       s1 \<leftarrow> wr32 s (pte_table + 4 * pte_index) 0;
       Some (invlpg s1 (pte_table + pte_index * 4))
     }
   }"

section \<open>Ranges of pages\<close>

definition mmap :: "'a virtmm_scheme \<Rightarrow> u32 \<Rightarrow> u32 \<Rightarrow> (status_t \<times> 'a virtmm_scheme) option" where
  "mmap s addr len = do {
     let pages = (len + 4095) div 4096;
     (hwaddr, s1) \<leftarrow> hwpalloc s (ucast pages);
     s2 \<leftarrow> for_loop 0 (unat pages)
             (\<lambda>i t. mapfr t (hwaddr + 4096 * word_of_nat i) (addr + 4096 * word_of_nat i)) s1;
     Some (STATUS_OK, s2)
   }"

definition munmap :: "'a virtmm_scheme \<Rightarrow> u32 \<Rightarrow> u32 \<Rightarrow> (status_t \<times> 'a virtmm_scheme) option" where
  "munmap s addr len = do {
     let pages = (len + 4095) div 4096;
     hwaddr \<leftarrow> lpa s addr;
     s1 \<leftarrow> for_loop 1 (unat pages - 1) (\<lambda>i t. umapfr t (addr + 4096 * word_of_nat i)) s;
     hwpfree s1 hwaddr (ucast pages)
   }"

definition maphwdev :: "'a virtmm_scheme \<Rightarrow> u32 \<Rightarrow> u32 \<Rightarrow> (u32 \<times> 'a virtmm_scheme) option" where
  "maphwdev s hwaddr pages = do {
     let s0 = (if driver_space_head s = 0
               then s\<lparr>driver_space_head := driver_space_start\<rparr> else s);
     let lspace = driver_space_head s0;
     let s1 = s0\<lparr>driver_space_head := driver_space_head s0 + pages\<rparr>;
     s2 \<leftarrow> for_loop 0 (unat pages)
             (\<lambda>p t. mapfr t (hwaddr + 4096 * word_of_nat p) (lspace + 4096 * word_of_nat p)) s1;
     Some (lspace, s2)
   }"

section \<open>The page map\<close>

text \<open>The frame a virtual address leads to, by the tables.\<close>

definition walk :: "'a machine_scheme \<Rightarrow> u32 \<Rightarrow> u32 option" where
  "walk s a = walk_frame (ram s) (cr3 s) a"

definition pde :: "'a machine_scheme \<Rightarrow> u32 \<Rightarrow> u32" where
  "pde s i = entry (ram s) (page (cr3 s)) i"

definition pte :: "'a machine_scheme \<Rightarrow> u32 \<Rightarrow> u32" where
  "pte s a = entry (ram s) (page (pde s (pd_index a))) (pt_index a)"

definition tlb_ok :: "'a machine_scheme \<Rightarrow> bool" where
  "tlb_ok s \<longleftrightarrow> (\<forall>a f. tlb s (page a) = Some f \<longrightarrow> walk s a = Some f)"

definition is_table :: "'a machine_scheme \<Rightarrow> u32 \<Rightarrow> bool" where
  "is_table s f \<longleftrightarrow> table_frame (ram s) (cr3 s) f"

lemma translate_walk:
  "tlb_ok s \<Longrightarrow> translate s a = map_option (\<lambda>f. mkaddr f (pgoff a)) (walk s a)"
  by (auto simp: translate_def tlb_ok_def walk_def split: option.splits)

text \<open>
  The frames the allocator may still hand out hold zeros, hold no table, and only addresses of
  the shadow lead to them.  (The kernel relies on the zeros: \<open>mapfr\<close> does not clear a frame
  before it uses it as a page table.)
\<close>

definition frame_no :: "'a phymm_scheme \<Rightarrow> nat \<Rightarrow> u32" where
  "frame_no s k = page (frame_addr s k)"

definition free_frames_ok :: "'a phymm_scheme \<Rightarrow> bool" where
  "free_frames_ok s \<longleftrightarrow>
     (\<forall>k<nframes s. \<not> used s k \<longrightarrow>
        \<not> is_table s (frame_no s k) \<and>
        (\<forall>a. walk s a = Some (frame_no s k) \<longrightarrow> shadow s a) \<and>
        (\<forall>p. page p = frame_no s k \<longrightarrow> ram s p = 0))"

text \<open>Every page of the shadow is mapped, so \<open>mmap\<close> and \<open>mapfr\<close> give none of them a frame.\<close>

definition shadow_mapped :: "'a machine_scheme \<Rightarrow> bool" where
  "shadow_mapped s \<longleftrightarrow> (\<forall>a. shadow s a \<longrightarrow> walk s a \<noteq> None)"

definition vm_wf :: "'a virtmm_scheme \<Rightarrow> bool" where
  "vm_wf s \<longleftrightarrow>
     phymm_wf s \<and> pt_wf (ram s) (cr3 s) \<and> tlb_ok s \<and> free_frames_ok s \<and>
     pgoff (pde_table s) = 0 \<and> \<not> in_window (pde_table s) \<and>
     walk s (pde_table s) = Some (page (cr3 s)) \<and> shadow_mapped s"

section \<open>Stores into the tables\<close>

text \<open>
  The effect of one store into the tables that gives the page of \<open>x\<close>, not mapped so far, the
  frame \<open>F\<close>, to which nothing outside the shadow led: both stores of \<open>mapfr\<close> are of this kind (the first makes the
  new table visible in the window).  All data addresses keep their translation and contents.
\<close>

definition fresh_frame :: "'a machine_scheme \<Rightarrow> u32 \<Rightarrow> bool" where
  "fresh_frame s F \<longleftrightarrow> \<not> is_table s F \<and> (\<forall>a. walk s a = Some F \<longrightarrow> shadow s a)"

definition maps_page :: "'a machine_scheme \<Rightarrow> 'a machine_scheme \<Rightarrow> u32 \<Rightarrow> u32 \<Rightarrow> bool" where
  "maps_page s s' x F \<longleftrightarrow>
     (\<exists>r t. s' = s\<lparr>ram := r, tlb := t\<rparr>) \<and>
     (\<forall>p. \<not> is_table s (page p) \<longrightarrow> ram s' p = ram s p) \<and>
     (\<forall>a. walk s' a = (if page a = page x then Some F else walk s a)) \<and>
     (\<forall>f. is_table s' f \<longrightarrow> is_table s f \<or> f = F) \<and>
     walk s x = None \<and> \<not> shadow s x \<and> fresh_frame s F \<and> tlb_ok s \<and> tlb_ok s'"

lemma maps_page_walk: "maps_page s s' x F \<Longrightarrow> walk s' a = (if page a = page x then Some F else walk s a)"
  unfolding maps_page_def by blast

lemma maps_page_fresh: "maps_page s s' x F \<Longrightarrow> walk s a = Some F \<Longrightarrow> shadow s a"
  unfolding maps_page_def fresh_frame_def by blast

lemma maps_page_shadow: "maps_page s s' x F \<Longrightarrow> shadow s' = shadow s"
  unfolding maps_page_def by (intro shadow_eq(1)) auto

lemma shadow_page: "page a = page b \<Longrightarrow> shadow s a = shadow s b"
  by (simp add: shadow_def index_page)

lemma maps_page_translate:
  assumes "maps_page s s' x F" and "translate s b = Some p"
  shows "translate s' b = Some p"
proof -
  obtain f where f: "walk s b = Some f"
    using assms by (auto simp: maps_page_def translate_walk)
  have "walk s x = walk s b" if "page b = page x"
    unfolding walk_def by (rule walk_frame_page) (simp add: that)
  then have "page b \<noteq> page x" using f assms(1) by (auto simp: maps_page_def)
  then show ?thesis using assms by (auto simp: maps_page_def translate_walk)
qed

lemma walk_lt: "walk s a = Some f \<Longrightarrow> unat f < 1048576"
  by (auto simp: walk_def walk_frame_def Let_def split: if_splits)

lemma maps_page_data:
  assumes m: "maps_page s s' x F" and d: "data s b"
  shows "data s' b" and "rd8 s' b = rd8 s b"
proof -
  have ok: "tlb_ok s" "tlb_ok s'" using m by (auto simp: maps_page_def)
  obtain p where p: "translate s b = Some p" and nt: "\<not> is_table s (page p)"
    and ns: "\<not> shadow s b" and u: "\<forall>y. translate s y = Some p \<longrightarrow> y = b \<or> shadow s y"
    using d unfolding is_table_def by (rule dataE)
  obtain f where f: "walk s b = Some f" "p = mkaddr f (pgoff b)"
    using p ok by (auto simp: translate_walk)
  have pf: "page p = f" "f \<noteq> F"
    using f walk_lt [OF f(1)] maps_page_fresh [OF m, of b] ns by auto
  have p': "translate s' b = Some p" by (rule maps_page_translate [OF m p])
  have uq: "y = b" if y: "translate s' y = Some p" and ny: "\<not> shadow s' y" for y
  proof -
    obtain g where g: "walk s' y = Some g" "p = mkaddr g (pgoff y)"
      using y ok by (auto simp: translate_walk)
    then have "g = f" using walk_lt [OF g(1)] pf(1) by auto
    then have "walk s y = Some f" using g(1) pf(2) m by (auto simp: maps_page_def split: if_splits)
    then have "translate s y = Some p" using g(2) \<open>g = f\<close> ok by (simp add: translate_walk)
    then show ?thesis using u ny maps_page_shadow [OF m] by auto
  qed
  have "\<not> shadow s' b" using ns maps_page_shadow [OF m] by simp
  moreover have "\<not> is_table s' (page p)" using nt pf m by (auto simp: maps_page_def)
  ultimately show "data s' b" unfolding is_table_def by (intro dataI [OF p' _ _ uq])
  have "ram s' p = ram s p" using nt m by (auto simp: maps_page_def)
  then show "rd8 s' b = rd8 s b" by (simp add: rd8_def p p')
qed

lemma maps_page_new_data:
  assumes m: "maps_page s s' x F" and a: "page a = page x" and nt: "\<not> is_table s' F"
  shows "data s' a"
proof -
  have ok: "tlb_ok s" "tlb_ok s'" using m by (auto simp: maps_page_def)
  have w: "walk s' a = Some F" using m a by (auto simp: maps_page_def)
  have t: "translate s' a = Some (mkaddr F (pgoff a))" using w ok by (simp add: translate_walk)
  have F: "unat F < 1048576" by (rule walk_lt [OF w])
  have uq: "y = a" if y: "translate s' y = Some (mkaddr F (pgoff a))" and ny: "\<not> shadow s' y" for y
  proof -
    obtain g where g: "walk s' y = Some g" "mkaddr F (pgoff a) = mkaddr g (pgoff y)"
      using y ok by (auto simp: translate_walk)
    have gf: "F = g" "pgoff a = pgoff y"
      using iffD1 [OF mkaddr_inject [OF F walk_lt [OF g(1)] pgoff_less pgoff_less] g(2)] by blast+
    have "page y = page x"
      using maps_page_walk [OF m, of y] maps_page_fresh [OF m, of y] maps_page_shadow [OF m] g(1) gf(1) ny by metis
    then have "page y = page a" by (simp only: a)
    then show ?thesis by (rule page_pgoff_eqI) (simp only: gf(2))
  qed
  have "\<not> table_frame (ram s') (cr3 s') (page (mkaddr F (pgoff a)))"
    using nt F by (simp add: is_table_def)
  moreover have "\<not> shadow s' a" using m shadow_page [OF a, of s] maps_page_shadow [OF m] by (auto simp: maps_page_def)
  ultimately show ?thesis by (intro dataI [OF t _ _ uq])
qed

lemma maps_page_range:
  assumes "maps_page s s' x F" and "data_range s b n"
  shows "data_range s' b n" and "rdn s' b n = rdn s b n"
proof -
  show "data_range s' b n"
    using assms maps_page_data(1) unfolding data_range_def by blast
  have "rd8 s' (b + word_of_nat k) = rd8 s (b + word_of_nat k)" if "k < n" for k
    using assms that by (intro maps_page_data(2)) (auto dest: data_rangeD)
  then have "map (\<lambda>k. rd8 s' (b + word_of_nat k)) [0..<n] = map (\<lambda>k. rd8 s (b + word_of_nat k)) [0..<n]"
    by (intro map_cong) auto
  then show "rdn s' b n = rdn s b n" by (simp only: rdn_rd8)
qed

text \<open>So such a store keeps the allocator and the whole of \<open>vm_wf\<close>.\<close>

lemma maps_page_fields:
  fixes s s' :: "'a virtmm_scheme"
  assumes "maps_page s s' x F"
  shows "cr3 s' = cr3 s" "io_trace s' = io_trace s" "io_dev s' = io_dev s" "kernel_end s' = kernel_end s"
    "hwa_mmstart s' = hwa_mmstart s" "hwa_inu_bitmap s' = hwa_inu_bitmap s"
    "hwas_bp s' = hwas_bp s" "hwas_sp s' = hwas_sp s" "hwas_ssize s' = hwas_ssize s"
    "nframes s' = nframes s" "frame_addr s' = frame_addr s" "frame_no s' = frame_no s"
    "bm_bytes s' = bm_bytes s" "bm_addr s' = bm_addr s" "stack_top s' = stack_top s"
    "pde_table s' = pde_table s"
  using assms by (auto simp: maps_page_def nframes_def frame_addr_def frame_no_def bm_bytes_def
      bm_addr_def stack_top_def fun_eq_iff)

lemma maps_page_phymm:
  fixes s s' :: "'a virtmm_scheme"
  assumes m: "maps_page s s' x F" and wf: "phymm_wf s"
  shows "phymm_wf s'" and "\<And>j. j < nframes s \<Longrightarrow> used s' j = used s j" and "used_set s' = used_set s"
proof -
  note fl = maps_page_fields [OF m]
  have st: "phymm_static s" using wf by (simp add: phymm_wf_def)
  have slots: "rd32 s' (hwas_bp s + 4 * word_of_nat i) = rd32 s (hwas_bp s + 4 * word_of_nat i)"
    if "i < nframes s" for i
  proof -
    have "data_range s (hwas_bp s + word_of_nat (4 * i)) 4"
      using st that by (intro data_range_add [where n = "4 * nframes s"]) (auto simp: phymm_static_def)
    then have "rdn s' (hwas_bp s + 4 * word_of_nat i) 4 = rdn s (hwas_bp s + 4 * word_of_nat i) 4"
      by (intro maps_page_range(2) [OF m]) simp
    then show ?thesis by (simp add: rd32_def)
  qed
  have "data_range s' (hwas_bp s) (4 * nframes s)" "data_range s' (hwa_inu_bitmap s) (bm_bytes s)"
    using st maps_page_range(1) [OF m] by (auto simp: phymm_static_def)
  then have "phymm_static s'"
    using st slots by (simp add: phymm_static_def fl)
  then show "phymm_wf s'" using wf by (simp add: phymm_wf_def fl)
  show u: "used s' j = used s j" if "j < nframes s" for j
  proof -
    have "data s (bm_addr s j)" using bm_addr_data [OF st that] by (simp add: data_range_def)
    then have "rd8 s' (bm_addr s j) = rd8 s (bm_addr s j)" by (rule maps_page_data(2) [OF m])
    then show ?thesis by (simp add: used_def bm_addr_def fl)
  qed
  show "used_set s' = used_set s" using u by (auto simp: used_set_def fl)
qed

lemma maps_page_vm_wf:
  fixes s s' :: "'a virtmm_scheme"
  assumes m: "maps_page s s' x F" and wf: "vm_wf s" and pt: "pt_wf (ram s') (cr3 s)"
    and nf: "\<forall>k<nframes s. \<not> used s k \<longrightarrow> frame_no s k \<noteq> F"
  shows "vm_wf s'"
proof -
  note fl = maps_page_fields [OF m]
  have phy: "phymm_wf s" using wf by (simp add: vm_wf_def)
  note ph = maps_page_phymm [OF m phy]
  have free: "\<not> is_table s (frame_no s k)" "\<forall>a. walk s a = Some (frame_no s k) \<longrightarrow> shadow s a"
    "\<forall>p. page p = frame_no s k \<longrightarrow> ram s p = 0" if "k < nframes s" "\<not> used s k" for k
    using wf that by (auto simp: vm_wf_def free_frames_ok_def)
  have "free_frames_ok s'"
    unfolding free_frames_ok_def fl
  proof (intro allI impI conjI)
    fix k assume k: "k < nframes s" "\<not> used s' k"
    then have u: "\<not> used s k" using ph(2) by simp
    have Fk: "frame_no s k \<noteq> F" using nf k(1) u by blast
    show "\<not> is_table s' (frame_no s k)"
      using free(1) [OF k(1) u] m Fk by (auto simp: maps_page_def)
    show "shadow s' a" if "walk s' a = Some (frame_no s k)" for a
      using free(2) [OF k(1) u] that Fk by (auto simp: maps_page_walk [OF m] maps_page_shadow [OF m] split: if_splits)
    show "ram s' p = 0" if "page p = frame_no s k" for p
      using free(1,3) [OF k(1) u] m that by (auto simp: maps_page_def)
  qed
  moreover have "walk s' (pde_table s) = Some (page (cr3 s))"
  proof -
    have w: "walk s (pde_table s) = Some (page (cr3 s))" using wf by (simp add: vm_wf_def)
    have "walk s x = walk s (pde_table s)" if "page (pde_table s) = page x"
      unfolding walk_def by (rule walk_frame_page) (simp add: that)
    then have "page (pde_table s) \<noteq> page x" using w m by (auto simp: maps_page_def)
    then show ?thesis using w m by (auto simp: maps_page_def)
  qed
  moreover have "shadow_mapped s'"
    using wf by (auto simp: vm_wf_def shadow_mapped_def maps_page_walk [OF m] maps_page_shadow [OF m])
  ultimately show ?thesis
    using wf ph(1) pt m by (simp add: vm_wf_def fl maps_page_def)
qed

section \<open>What an operation of the paging service keeps\<close>

text \<open>
  \<open>vm_keep s s'\<close>: only memory, the translation cache and the allocator's stack pointer have
  changed; data addresses are still data addresses and, outside the allocator's bitmap,
  have their contents; what was mapped is mapped as before.
\<close>

definition bm_vaddr :: "'a phymm_scheme \<Rightarrow> u32 \<Rightarrow> bool" where
  "bm_vaddr s b \<longleftrightarrow> (\<exists>k<bm_bytes s. b = hwa_inu_bitmap s + word_of_nat k)"

definition vm_only :: "'a virtmm_scheme \<Rightarrow> 'a virtmm_scheme \<Rightarrow> bool" where
  "vm_only s s' \<longleftrightarrow> (\<exists>r t x. s' = s\<lparr>ram := r, tlb := t, hwas_sp := x\<rparr>)"

definition vm_keep :: "'a virtmm_scheme \<Rightarrow> 'a virtmm_scheme \<Rightarrow> bool" where
  "vm_keep s s' \<longleftrightarrow>
     vm_only s s' \<and>
     (\<forall>b. data s b \<longrightarrow> data s' b) \<and>
     (\<forall>b. data s b \<and> \<not> bm_vaddr s b \<longrightarrow> rd8 s' b = rd8 s b) \<and>
     (\<forall>a f. walk s a = Some f \<longrightarrow> walk s' a = Some f) \<and>
     (\<forall>i. unat i < 1024 \<and> present (pde s i) \<longrightarrow> present (pde s' i))"

lemma vm_only_fields:
  fixes s s' :: "'a virtmm_scheme"
  assumes "vm_only s s'"
  shows "cr3 s' = cr3 s" "io_trace s' = io_trace s" "io_dev s' = io_dev s"
    "kernel_end s' = kernel_end s" "bios_mmap_addr s' = bios_mmap_addr s"
    "bios_mmap_len s' = bios_mmap_len s" "phymm_end s' = phymm_end s"
    "hwa_mmstart s' = hwa_mmstart s" "hwa_inu_bitmap s' = hwa_inu_bitmap s"
    "hwas_bp s' = hwas_bp s" "hwas_ssize s' = hwas_ssize s"
    "nframes s' = nframes s" "frame_addr s' = frame_addr s" "frame_no s' = frame_no s"
    "bm_bytes s' = bm_bytes s" "bm_vaddr s' = bm_vaddr s" "pde_table s' = pde_table s"
    "driver_space_head s' = driver_space_head s" "virtmm.more s' = virtmm.more s"
  using assms by (auto simp: vm_only_def nframes_def frame_addr_def frame_no_def bm_bytes_def
      bm_vaddr_def fun_eq_iff)

lemma vm_only_trans: "vm_only s s1 \<Longrightarrow> vm_only s1 s2 \<Longrightarrow> vm_only s s2"
  unfolding vm_only_def
  by (elim exE, rule_tac x = ra in exI, rule_tac x = ta in exI, rule_tac x = xa in exI) simp

lemma vm_onlyI: "s' = s\<lparr>ram := r, tlb := t, hwas_sp := x\<rparr> \<Longrightarrow> vm_only s s'"
  unfolding vm_only_def by (intro exI)

lemma vm_keep_refl: "vm_keep s s"
  unfolding vm_keep_def
  by (intro conjI vm_onlyI [where r = "ram s" and t = "tlb s" and x = "hwas_sp s"]) auto

lemma vm_keep_trans: "vm_keep s s1 \<Longrightarrow> vm_keep s1 s2 \<Longrightarrow> vm_keep s s2"
  unfolding vm_keep_def using vm_only_trans [of s s1 s2] vm_only_fields(16) [of s s1] by simp

lemma vm_keep_range: "vm_keep s s' \<Longrightarrow> data_range s a n \<Longrightarrow> data_range s' a n"
  by (auto simp: vm_keep_def data_range_def)

lemma vm_keep_rdn:
  assumes "vm_keep s s'" and "data_range s a n" and "\<And>k. k < n \<Longrightarrow> \<not> bm_vaddr s (a + word_of_nat k)"
  shows "rdn s' a n = rdn s a n"
proof -
  have "map (\<lambda>k. rd8 s' (a + word_of_nat k)) [0..<n] = map (\<lambda>k. rd8 s (a + word_of_nat k)) [0..<n]"
    using assms by (intro map_cong) (auto simp: vm_keep_def data_range_def)
  then show ?thesis by (simp only: rdn_rd8)
qed

lemma bm_only_tables:
  fixes s s' :: "'a virtmm_scheme"
  assumes st: "phymm_static s" and b: "bm_only s s'"
  shows "walk s' = walk s" and "is_table s' = is_table s"
    and "\<And>i. unat i < 1024 \<Longrightarrow> pde s' i = pde s i" and "tlb_ok s' = tlb_ok s"
    and "shadow s' = shadow s"
proof -
  show "shadow s' = shadow s" by (rule bm_only_mem(9) [OF st b])
  show w: "walk s' = walk s" using bm_only_walk(1) [OF st b] by (simp add: walk_def fun_eq_iff)
  show "is_table s' = is_table s" using bm_only_walk(2) [OF st b] by (simp add: is_table_def fun_eq_iff)
  show "pde s' i = pde s i" if "unat i < 1024" for i
  proof -
    have "ram s' p = ram s p" if "page p = page (cr3 s)" for p
      using bm_only_ram [OF b, of p] bm_phys_not_table [OF st, of p] that by auto
    then show ?thesis unfolding pde_def bm_only_fields(1) [OF b]
      using \<open>unat i < 1024\<close> by (intro entry_cong) auto
  qed
  show "tlb_ok s' = tlb_ok s" using w bm_only_fields(2) [OF b] by (simp add: tlb_ok_def)
qed

lemma bm_only_vm_keep:
  fixes s s' :: "'a virtmm_scheme"
  assumes st: "phymm_static s" and b: "bm_only s s'"
  shows "vm_keep s s'"
proof -
  have "\<exists>r x. s' = s\<lparr>ram := r, hwas_sp := x\<rparr>" using b by (auto simp: bm_only_def)
  then obtain r x where "s' = s\<lparr>ram := r, tlb := tlb s, hwas_sp := x\<rparr>" by auto
  then have "vm_only s s'" by (rule vm_onlyI)
  moreover have "rd8 s' a = rd8 s a" if d: "data s a" and nb: "\<not> bm_vaddr s a" for a
  proof -
    obtain p where p: "translate s a = Some p" "\<forall>y. translate s y = Some p \<longrightarrow> y = a \<or> shadow s y"
      using d by (rule dataE)
    have "\<not> shadow s (hwa_inu_bitmap s + word_of_nat k)" if "k < bm_bytes s" for k
      using st that data_rangeD data_not_shadow unfolding phymm_static_def by blast
    then have "\<not> bm_phys s p" using p(2) nb unfolding bm_phys_def bm_vaddr_def by blast
    then show ?thesis using bm_only_ram [OF b] p(1) bm_only_mem(1) [OF st b] by (simp add: rd8_def)
  qed
  ultimately show "vm_keep s s'"
    unfolding vm_keep_def using bm_only_tables [OF st b] bm_only_mem(2) [OF st b] by simp
qed

lemma unat_frame_no:
  assumes "phymm_static s" and "j < nframes s"
  shows "unat (frame_no s j) = (unat (hwa_mmstart s) + 4096 * j) div 4096"
  unfolding frame_no_def unat_page unat_frame_addr [OF assms] by (rule refl)

lemma frame_no_inj:
  assumes "phymm_static s" and "j < nframes s" and "k < nframes s"
  shows "frame_no s j = frame_no s k \<longleftrightarrow> j = k"
proof
  assume "frame_no s j = frame_no s k"
  then have "(unat (hwa_mmstart s) + 4096 * j) div 4096 = (unat (hwa_mmstart s) + 4096 * k) div 4096"
    by (simp only: unat_frame_no [OF assms(1,2), symmetric] unat_frame_no [OF assms(1,3), symmetric])
  moreover have "(x + 4096 * i) div 4096 = i + x div 4096" for x i :: nat
    by (rule div_mult_self2) simp
  ultimately show "j = k" by (metis add_right_cancel)
qed simp

lemma bm_only_free_zero:
  fixes s s' :: "'a virtmm_scheme"
  assumes wf: "vm_wf s" and b: "bm_only s s'" and k: "k < nframes s" "\<not> used s k"
    and p: "page p = frame_no s k"
  shows "ram s' p = 0"
proof -
  have f: "\<forall>a. walk s a = Some (frame_no s k) \<longrightarrow> shadow s a" "\<forall>p. page p = frame_no s k \<longrightarrow> ram s p = 0"
    using wf k by (auto simp: vm_wf_def free_frames_ok_def)
  have bm: "data_range s (hwa_inu_bitmap s) (bm_bytes s)" using wf by (simp add: vm_wf_def phymm_wf_def phymm_static_def)
  have "\<not> bm_phys s p"
  proof
    assume "bm_phys s p"
    then obtain x where "translate s x = Some p" and x: "\<not> shadow s x"
      using data_rangeD [OF bm] data_not_shadow [of s] unfolding bm_phys_def by blast
    then obtain g where g: "walk s x = Some g" "p = mkaddr g (pgoff x)"
      using wf by (auto simp: vm_wf_def translate_walk)
    then have "page p = g" using walk_lt [OF g(1)] by simp
    then show False using f(1) g(1) p x by auto
  qed
  then show ?thesis using bm_only_ram [OF b] f(2) p by auto
qed

lemma bm_only_vm_wf:
  fixes s s' :: "'a virtmm_scheme"
  assumes wf: "vm_wf s" and b: "bm_only s s'" and phy: "phymm_wf s'"
    and u: "used_set s \<subseteq> used_set s'"
  shows "vm_wf s'"
proof -
  have st: "phymm_static s" using wf by (simp add: vm_wf_def phymm_wf_def)
  note tb = bm_only_tables [OF st b]
  have fl: "pde_table s' = pde_table s" using b by (auto simp: bm_only_def)
  have n: "nframes s' = nframes s" "frame_no s' = frame_no s"
    using bm_only_mem [OF st b] by (auto simp: frame_no_def fun_eq_iff)
  have pt: "pt_wf (ram s') (cr3 s')"
  proof -
    have e: "entry (ram s') (page (cr3 s)) i = entry (ram s) (page (cr3 s)) i" if "unat i < 1024" for i
      using tb(3) [OF that] bm_only_fields(1) [OF b] by (simp add: pde_def)
    have e2: "entry (ram s') (page (cr3 s)) i = entry (ram s) (page (cr3 s)) i" if "unat i < 1023" for i
      using e [of i] that by simp
    have "pt_wf (ram s) (cr3 s)" using wf by (simp add: vm_wf_def)
    then show ?thesis
      unfolding pt_wf_def bm_only_fields(1) [OF b] by (simp add: e e2 cong: conj_cong)
  qed
  have "free_frames_ok s'"
    unfolding free_frames_ok_def n tb
  proof (intro allI impI)
    fix k assume k: "k < nframes s" "\<not> used s' k"
    then have "\<not> used s k" using u n by (auto simp: used_set_def)
    then have f: "\<not> is_table s (frame_no s k)" "\<forall>a. walk s a = Some (frame_no s k) \<longrightarrow> shadow s a"
      "\<forall>p. page p = frame_no s k \<longrightarrow> ram s p = 0"
      using wf k(1) by (auto simp: vm_wf_def free_frames_ok_def)
    have "ram s' p = 0" if p: "page p = frame_no s k" for p
      by (rule bm_only_free_zero [OF wf b k(1) \<open>\<not> used s k\<close> p])
    then show "\<not> is_table s (frame_no s k) \<and> (\<forall>a. walk s a = Some (frame_no s k) \<longrightarrow> shadow s a) \<and>
      (\<forall>p. page p = frame_no s k \<longrightarrow> ram s' p = 0)" using f by blast
  qed
  moreover have "shadow_mapped s'" using wf by (simp add: vm_wf_def shadow_mapped_def tb)
  ultimately show ?thesis
    using wf phy pt by (simp add: vm_wf_def fl tb bm_only_fields(1) [OF b])
qed

section \<open>Mapping one page\<close>

text \<open>
  A frame that may be mapped: nothing outside the shadow leads to it, it holds no table, and the allocator does
  not hold it as free.
\<close>

definition spare :: "'a phymm_scheme \<Rightarrow> u32 \<Rightarrow> bool" where
  "spare s f \<longleftrightarrow> fresh_frame s f \<and> (\<forall>k<nframes s. \<not> used s k \<longrightarrow> frame_no s k \<noteq> f)"

text \<open>The addresses of the directory and of the tables, as the code computes them.\<close>

lemma dir_addr:
  assumes wf: "vm_wf s" and i: "unat i < 1024"
  shows "translate s (pde_table s + 4 * i) = Some (entry_addr (page (cr3 s)) i)"
    and "unat (pgoff (pde_table s + 4 * i)) + 3 < 4096"
proof -
  have w: "tlb_ok s" "walk s (pde_table s) = Some (page (cr3 s))" "pgoff (pde_table s) = 0"
    using wf by (auto simp: vm_wf_def)
  have i4: "4 * i = push_bit 2 i" by (simp add: push_bit_eq_mult)
  have o: "unat (pgoff (pde_table s)) + unat (4 * i) < 4096"
    unfolding i4 using i w(3) by (simp add: entry_offset)
  have t: "translate s (pde_table s) = Some (mkaddr (page (cr3 s)) 0)"
    using w by (simp add: translate_walk)
  have "mkaddr (page (cr3 s)) 0 + 4 * i = entry_addr (page (cr3 s)) i"
    using i by (simp add: entry_addr_def mkaddr_eq_add entry_offset i4)
  then show "translate s (pde_table s + 4 * i) = Some (entry_addr (page (cr3 s)) i)"
    using translate_add [OF t o] by simp
  have "pgoff (pde_table s + 4 * i) = push_bit 2 i" 
    using pgoff_add [OF o] w(3) i4 by simp
  then have "unat (pgoff (pde_table s + 4 * i)) = 4 * unat i" using i by (simp only: entry_offset)
  then show "unat (pgoff (pde_table s + 4 * i)) + 3 < 4096" using i by simp
qed

lemma rd_pde: "vm_wf s \<Longrightarrow> unat i < 1024 \<Longrightarrow> rd32 s (pde_table s + 4 * i) = Some (pde s i)"
  unfolding pde_def by (rule rd32_entry [OF dir_addr])

lemma wr_pde:
  "vm_wf s \<Longrightarrow> unat i < 1024 \<Longrightarrow>
    wr32 s (pde_table s + 4 * i) v = Some (s\<lparr>ram := put_entry (ram s) (page (cr3 s)) i v\<rparr>)"
  by (rule wr32_entry [OF dir_addr])

lemma window_addr:
  assumes "vm_wf s" and "unat i < 1024" and "unat j < 1024" and "present (pde s i)"
  shows "translate s (pte_vaddr i j) = Some (entry_addr (page (pde s i)) j)"
proof -
  have "walk s (pte_vaddr i j) = Some (page (pde s i))"
    using assms walk_window [of "ram s" "cr3 s" i j] by (simp add: vm_wf_def walk_def pde_def)
  then show ?thesis
    using assms pte_vaddr_index(3) [of i j] by (simp add: vm_wf_def translate_walk entry_addr_def)
qed

lemma rd_pte:
  "vm_wf s \<Longrightarrow> unat i < 1024 \<Longrightarrow> unat j < 1024 \<Longrightarrow> present (pde s i) \<Longrightarrow>
    rd32 s (pte_vaddr i j) = Some (entry (ram s) (page (pde s i)) j)"
  by (rule rd32_entry [OF window_addr pte_vaddr_index(4)])

lemma wr_pte:
  "vm_wf s \<Longrightarrow> unat i < 1024 \<Longrightarrow> unat j < 1024 \<Longrightarrow> present (pde s i) \<Longrightarrow>
    wr32 s (pte_vaddr i j) v = Some (s\<lparr>ram := put_entry (ram s) (page (pde s i)) j v\<rparr>)"
  by (rule wr32_entry [OF window_addr pte_vaddr_index(4)])

text \<open>The index computations of the code.\<close>

lemma code_index:
  "drop_bit 22 a = pd_index a" "drop_bit 12 a AND 0x3ff = pt_index a"
  "(logical_pde_base OR push_bit 12 i) + 4 * j = pte_vaddr i j"
  "(logical_pde_base OR push_bit 12 i) + j * 4 = pte_vaddr i j"
proof -
  have "(0x3ff :: u32) = mask 10" by (simp add: mask_eq_exp_minus_1)
  then show "drop_bit 12 a AND 0x3ff = pt_index a" by (simp add: pt_index_def take_bit_eq_mask)
qed (simp_all add: pd_index_def pte_vaddr_def logical_pde_base_def mult.commute)

lemma code_present: "(e AND 1 = 0) = (\<not> present e)" for e :: u32
proof -
  have "e AND 1 = 0 \<or> e AND 1 = 1" by (simp add: and_one_eq mod_2_eq_odd)
  then show ?thesis by (auto simp: present_def)
qed

lemma dir_page_window: "page a = page (pte_vaddr i j) \<longleftrightarrow> pd_index a = 1023 \<and> pt_index a = i"
  if "unat i < 1024" "unat j < 1024"
  using that by (simp add: page_eq_iff pte_vaddr_index)

lemma shadow_present:
  "vm_wf s \<Longrightarrow> walk s x = None \<Longrightarrow> \<not> shadow s x"
  by (auto simp: vm_wf_def shadow_mapped_def)

lemma pte_vaddr_not_shadow: "unat i < 1024 \<Longrightarrow> unat j < 1024 \<Longrightarrow> \<not> shadow s (pte_vaddr i j)"
  by (simp add: shadow_def pte_vaddr_index)

lemma tlb_ok_store:
  assumes "tlb_ok s" and "walk s x = None"
    and "\<And>a. walk s' a = (if page a = page x then Some F else walk s a)"
    and "\<And>n f. tlb s' n = Some f \<Longrightarrow> tlb s n = Some f"
  shows "tlb_ok s'"
  unfolding tlb_ok_def
proof (intro allI impI)
  fix a f assume "tlb s' (page a) = Some f"
  then have w: "walk s a = Some f" using assms(1,4) by (auto simp: tlb_ok_def)
  have "walk s x = walk s a" if "page a = page x"
    unfolding walk_def by (rule walk_frame_page) (simp add: that)
  then show "walk s' a = Some f" using w assms(2,3) by auto
qed

lemma set_pte_maps_page:
  fixes v b :: u32
  assumes wf: "vm_wf s" and x: "\<not> in_window x" and p: "present (pde s (pd_index x))"
    and free: "walk s x = None" and F: "fresh_frame s (page v)" and v: "present v"
  defines "s' \<equiv> invlpg (s\<lparr>ram := put_entry (ram s) (page (pde s (pd_index x))) (pt_index x) v\<rparr>) b"
  shows "maps_page s s' x (page v)" and "pt_wf (ram s') (cr3 s)" and "is_table s' = is_table s"
    and "\<And>i. unat i < 1024 \<Longrightarrow> pde s' i = pde s i"
proof -
  have pt: "pt_wf (ram s) (cr3 s)" and tlb: "tlb_ok s" using wf by (auto simp: vm_wf_def)
  note sp = set_pte [OF pt not_window_less [OF x] pt_index_less, of x, folded pde_def, OF p]
  have flds: "ram s' = put_entry (ram s) (page (pde s (pd_index x))) (pt_index x) v" "cr3 s' = cr3 s"
    by (simp_all add: s'_def invlpg_def)
  show "pt_wf (ram s') (cr3 s)" using sp(1) by (simp add: flds)
  show tb: "is_table s' = is_table s" using sp(2) by (simp add: is_table_def flds fun_eq_iff)
  have w: "walk s' a = (if page a = page x then Some (page v) else walk s a)" for a
    using sp(3) [of v a] v by (simp add: walk_def flds page_eq_iff)
  have t: "tlb s' n = Some f \<Longrightarrow> tlb s n = Some f" for n f
    by (auto simp: s'_def invlpg_def split: if_splits)
  have tab: "is_table s (page (pde s (pd_index x)))"
    unfolding is_table_def pde_def by (rule table_frameI) (use p in \<open>simp_all add: pde_def\<close>)
  have "ram s' q = ram s q" if "\<not> is_table s (page q)" for q
    unfolding flds by (rule put_entry_other) (use that tab in auto)
  moreover have "\<exists>r t. s' = s\<lparr>ram := r, tlb := t\<rparr>" by (auto simp: s'_def invlpg_def)
  ultimately show "maps_page s s' x (page v)"
    unfolding maps_page_def using w tb free F tlb tlb_ok_store [OF tlb free w t] shadow_present [OF wf free] by simp
  have "page (pde s (pd_index x)) \<noteq> page (cr3 s)"
    using pt p not_window_less [OF x] by (auto simp: pt_wf_def pde_def)
  then show "pde s' i = pde s i" if "unat i < 1024" for i
    using that by (simp add: pde_def flds entry_put_entry)
qed

lemma add_table_maps_page:
  fixes t b :: u32
  assumes wf: "vm_wf s" and i: "unat i < 1023" and p: "\<not> present (pde s i)"
    and F: "fresh_frame s (page t)" and zero: "\<forall>q. page q = page t \<longrightarrow> ram s q = 0"
  defines "s' \<equiv> invlpg (s\<lparr>ram := put_entry (ram s) (page (cr3 s)) i (t OR 3)\<rparr>) b"
  shows "maps_page s s' (pte_vaddr i 0) (page t)" and "pt_wf (ram s') (cr3 s)"
    and "pde s' i = t OR 3" and "\<And>j. unat j < 1024 \<Longrightarrow> pde s' j = (if j = i then t OR 3 else pde s j)"
proof -
  have pt: "pt_wf (ram s) (cr3 s)" and tlb: "tlb_ok s" using wf by (auto simp: vm_wf_def)
  have i': "unat i < 1024" using i by simp
  have ntab: "\<not> table_frame (ram s) (cr3 s) (page t)" using F by (simp add: fresh_frame_def is_table_def)
  note at = add_table [OF pt i, folded pde_def, OF p ntab, OF zero [rule_format]]
  have flds: "ram s' = put_entry (ram s) (page (cr3 s)) i (t OR 3)" "cr3 s' = cr3 s"
    by (simp_all add: s'_def invlpg_def)
  show "pt_wf (ram s') (cr3 s)" using at(1) by (simp add: flds)
  show "pde s' i = t OR 3" using at(3) by (simp add: pde_def flds)
  show "pde s' j = (if j = i then t OR 3 else pde s j)" if "unat j < 1024" for j
    using that i' by (simp add: pde_def flds entry_put_entry)
  have w: "walk s' a = (if page a = page (pte_vaddr i 0) then Some (page t) else walk s a)" for a
    using at(4) [of a] dir_page_window [of i 0 a] i' by (simp add: walk_def flds)
  have free: "walk s (pte_vaddr i 0) = None"
    using walk_window [OF pt i', of 0] p by (simp add: walk_def pde_def)
  have tt: "tlb s' n = Some f \<Longrightarrow> tlb s n = Some f" for n f
    by (auto simp: s'_def invlpg_def split: if_splits)
  have tb: "is_table s' f \<longleftrightarrow> is_table s f \<or> f = page t" for f
    using at(2) [of f] by (simp add: is_table_def flds)
  have "ram s' q = ram s q" if "\<not> is_table s (page q)" for q
    unfolding flds by (rule put_entry_other) (use that i' in \<open>auto simp: is_table_def\<close>)
  moreover have "\<exists>r t. s' = s\<lparr>ram := r, tlb := t\<rparr>" by (auto simp: s'_def invlpg_def)
  ultimately show "maps_page s s' (pte_vaddr i 0) (page t)"
    unfolding maps_page_def
    using w tb free F tlb tlb_ok_store [OF tlb free w tt] pte_vaddr_not_shadow [OF i', of 0] by simp
qed

lemma maps_page_vm_keep:
  fixes s s' :: "'a virtmm_scheme"
  assumes m: "maps_page s s' x F"
    and p: "\<And>i. unat i < 1024 \<Longrightarrow> present (pde s i) \<Longrightarrow> present (pde s' i)"
  shows "vm_keep s s'"
proof -
  have "\<exists>r t. s' = s\<lparr>ram := r, tlb := t\<rparr>" using m by (auto simp: maps_page_def)
  then obtain r t where "s' = s\<lparr>ram := r, tlb := t, hwas_sp := hwas_sp s\<rparr>" by auto
  then have "vm_only s s'" by (rule vm_onlyI)
  moreover have "walk s' a = Some f" if w: "walk s a = Some f" for a f
  proof -
    have "walk s x = walk s a" if "page a = page x"
      unfolding walk_def by (rule walk_frame_page) (simp add: that)
    then show ?thesis using w m by (auto simp: maps_page_def)
  qed
  ultimately show ?thesis
    unfolding vm_keep_def using maps_page_data [OF m] p by blast
qed

text \<open>The first half of \<open>mapfr\<close>: after it the directory has a table for slot \<open>i\<close>.\<close>

lemma spare_bm_only:
  fixes s s' :: "'a virtmm_scheme"
  assumes "phymm_static s" and "bm_only s s'" and "used_set s \<subseteq> used_set s'" and "spare s f"
  shows "spare s' f"
proof -
  have n: "nframes s' = nframes s" "frame_no s' = frame_no s"
    using bm_only_mem [OF assms(1,2)] by (auto simp: frame_no_def fun_eq_iff)
  have "used s' k" if "k < nframes s" "used s k" for k
    using assms(3) that n by (auto simp: used_set_def)
  then show ?thesis
    using assms(4) unfolding spare_def fresh_frame_def n bm_only_tables [OF assms(1,2)] by auto
qed

lemma spare_maps_page:
  fixes s s' :: "'a virtmm_scheme"
  assumes m: "maps_page s s' x F" and wf: "phymm_wf s" and f: "spare s f" "f \<noteq> F"
  shows "spare s' f"
proof -
  note u = maps_page_phymm(2) [OF m wf]
  have "\<not> is_table s' f" using f m by (auto simp: spare_def fresh_frame_def maps_page_def)
  moreover have "shadow s' a" if "walk s' a = Some f" for a
    using f that by (auto simp: spare_def fresh_frame_def maps_page_walk [OF m] maps_page_shadow [OF m] split: if_splits)
  ultimately show ?thesis
    using f u by (auto simp: spare_def fresh_frame_def maps_page_fields [OF m])
qed

definition table_ok :: "'a virtmm_scheme \<Rightarrow> u32 \<Rightarrow> nat set \<Rightarrow> nat \<Rightarrow> bool" where
  "table_ok s i U t \<longleftrightarrow>
     (if present (pde s i) then U = used_set s \<and> t = stack_top s
      else \<exists>m. alloc_spec (nframes s) (used_set s) (stack_top s) 1 = Some (m, U, t))"

text \<open>Every frame that becomes a page table on the way from \<open>s\<close> to \<open>s'\<close> is one the allocator granted on that way.\<close>

definition tables_from :: "'a virtmm_scheme \<Rightarrow> nat set \<Rightarrow> 'a virtmm_scheme \<Rightarrow> bool" where
  "tables_from s U s' \<longleftrightarrow> used_set s \<subseteq> used_set s' \<and>
     (\<forall>f. is_table s' f \<longrightarrow> is_table s f \<or> f \<in> frame_no s ` (U - used_set s))"

lemma tables_from_same: "used_set s \<subseteq> used_set s' \<Longrightarrow> is_table s' = is_table s \<Longrightarrow> tables_from s U s'"
  by (simp add: tables_from_def)

lemma tables_from_trans:
  assumes "tables_from s U s1" and "tables_from s1 U s2" and "frame_no s1 = frame_no s"
  shows "tables_from s U s2"
proof -
  have "frame_no s ` (U - used_set s1) \<subseteq> frame_no s ` (U - used_set s)"
    using assms(1) by (intro image_mono) (auto simp: tables_from_def)
  then show ?thesis using assms unfolding tables_from_def by (metis (no_types, lifting) subset_iff)
qed

lemma map_table:
  fixes s :: "'a virtmm_scheme"
  assumes wf: "vm_wf s" and i: "unat i < 1023" and ok: "table_ok s i U t"
  obtains s1 where
    "(if \<not> present (pde s i) then do {
        (new_hw_table, t) \<leftarrow> hwpalloc s 1;
        t1 \<leftarrow> wr32 t (pde_table t + 4 * i) (new_hw_table OR 3);
        Some (invlpg t1 b)
      } else Some s) = Some s1"
    and "vm_wf s1" and "vm_keep s s1" and "present (pde s1 i)"
    and "used_set s1 = U" and "stack_top s1 = t"
    and "\<forall>a. \<not> in_window a \<longrightarrow> walk s1 a = walk s a" and "\<forall>f. spare s f \<longrightarrow> spare s1 f"
    and "tables_from s U s1"
proof (cases "present (pde s i)")
  case True
  then show ?thesis using that [of s] wf ok vm_keep_refl [of s] tables_from_same [of s s] by (simp add: table_ok_def)
next
  case False
  have phy: "phymm_wf s" and st: "phymm_static s" using wf by (auto simp: vm_wf_def phymm_wf_def)
  obtain m where sp: "alloc_spec (nframes s) (used_set s) (stack_top s) (unat (1 :: u16)) = Some (m, U, t)"
    using ok False by (auto simp: table_ok_def)
  obtain sa where sa: "hwpalloc s 1 = Some (frame_addr s m, sa)" "phymm_wf sa" "bm_only s sa"
      "used_set sa = U" "stack_top sa = t"
    using hwpalloc_refines [OF phy sp] by blast
  have top: "stack_top s < nframes s" using phy by (simp add: phymm_wf_def)
  note aw = alloc_spec_window [OF sp top]
  have m: "m < nframes s" "\<not> used s m" and U: "U = insert m (used_set s)"
    using aw by (auto simp: used_set_def)
  have wfa: "vm_wf sa" by (rule bm_only_vm_wf [OF wf sa(3,2)]) (use U sa(4) in auto)
  note tb = bm_only_tables [OF st sa(3)]
  have n: "nframes sa = nframes s" "frame_no sa = frame_no s"
    using bm_only_mem [OF st sa(3)] by (auto simp: frame_no_def fun_eq_iff)
  have pa: "\<not> present (pde sa i)" using False tb(3) [of i] i by simp
  have fr: "fresh_frame sa (page (frame_addr s m))"
    using wf m by (auto simp: fresh_frame_def tb vm_wf_def free_frames_ok_def simp flip: frame_no_def)
  have zero: "\<forall>q. page q = page (frame_addr s m) \<longrightarrow> ram sa q = 0"
    using bm_only_free_zero [OF wf sa(3) m] by (simp add: frame_no_def)
  define s1 where "s1 = invlpg (sa\<lparr>ram := put_entry (ram sa) (page (cr3 sa)) i (frame_addr s m OR 3)\<rparr>) b"
  note am = add_table_maps_page [where b = b, OF wfa i pa fr zero, folded s1_def]
  note fl = maps_page_fields [OF am(1)]
  have wr: "wr32 sa (pde_table sa + 4 * i) (frame_addr s m OR 3) =
      Some (sa\<lparr>ram := put_entry (ram sa) (page (cr3 sa)) i (frame_addr s m OR 3)\<rparr>)"
    using i by (intro wr_pde [OF wfa]) simp
  have used_m: "used sa m" using sa(4) U m n by (auto simp: used_set_def)
  have nf: "\<forall>k<nframes sa. \<not> used sa k \<longrightarrow> frame_no sa k \<noteq> page (frame_addr s m)"
    using frame_no_inj [OF st _ m(1)] used_m n by (auto simp flip: frame_no_def)
  have "vm_wf s1" by (rule maps_page_vm_wf [OF am(1) wfa am(2) nf])
  moreover have "present (pde s1 j)" if "unat j < 1024" "present (pde sa j)" for j
    using am(4) [OF that(1)] that(2) by simp
  then have "vm_keep s s1"
    by (rule vm_keep_trans [OF bm_only_vm_keep [OF st sa(3)] maps_page_vm_keep [OF am(1)]])
  moreover have "present (pde s1 i)" by (simp add: am(3))
  moreover have "used_set s1 = U" "stack_top s1 = t"
    using maps_page_phymm(3) [OF am(1) sa(2)] sa(4,5) fl by simp_all
  moreover have "\<forall>a. \<not> in_window a \<longrightarrow> walk s1 a = walk s a"
    using i by (auto simp: maps_page_walk [OF am(1)] dir_page_window in_window_def tb)
  moreover have "spare s1 f" if f: "spare s f" for f
  proof -
    have "f \<noteq> page (frame_addr s m)" using f m by (auto simp: spare_def frame_no_def)
    moreover have "spare sa f" by (rule spare_bm_only [OF st sa(3) _ f]) (use U sa(4) in auto)
    ultimately show ?thesis using spare_maps_page [OF am(1) sa(2)] by blast
  qed
  moreover have "tables_from s U s1"
  proof -
    have "used_set s1 = U" using maps_page_phymm(3) [OF am(1) sa(2)] sa(4) by simp
    moreover have "is_table s f \<or> f = frame_no s m" if "is_table s1 f" for f
      using am(1) that by (auto simp: maps_page_def tb frame_no_def)
    moreover have "m \<in> U - used_set s" using aw m by (auto simp: used_set_def)
    ultimately show ?thesis using U unfolding tables_from_def by blast
  qed
  ultimately show ?thesis using that [of s1] sa(1) wr False by (simp add: s1_def)
qed

text \<open>The whole of \<open>mapfr\<close>, on a page outside the window that is not mapped yet.\<close>

lemma mapfr_spec:
  fixes s :: "'a virtmm_scheme"
  assumes wf: "vm_wf s" and x: "\<not> in_window lg" and free: "walk s lg = None"
    and F: "spare s (page hw)" and ok: "table_ok s (pd_index lg) U t"
  obtains s' where "mapfr s hw lg = Some s'" and "vm_wf s'" and "vm_keep s s'"
    and "\<forall>a. \<not> in_window a \<longrightarrow> walk s' a = (if page a = page lg then Some (page hw) else walk s a)"
    and "\<forall>a. page a = page lg \<longrightarrow> data s' a"
    and "present (pde s' (pd_index lg))" and "used_set s' = U" and "stack_top s' = t"
    and "\<forall>f. spare s f \<and> f \<noteq> page hw \<longrightarrow> spare s' f" and "pte s' lg = hw OR 3"
    and "tables_from s U s'"
proof -
  obtain s1 where s1: "(if \<not> present (pde s (pd_index lg)) then do {
        (new_hw_table, t) \<leftarrow> hwpalloc s 1;
        t1 \<leftarrow> wr32 t (pde_table t + 4 * pd_index lg) (new_hw_table OR 3);
        Some (invlpg t1 (logical_pde_base OR push_bit 12 (pd_index lg)))
      } else Some s) = Some s1"
    "vm_wf s1" "vm_keep s s1" "present (pde s1 (pd_index lg))" "used_set s1 = U" "stack_top s1 = t"
    "\<forall>a. \<not> in_window a \<longrightarrow> walk s1 a = walk s a" "\<forall>f. spare s f \<longrightarrow> spare s1 f"
    "tables_from s U s1"
    by (rule map_table [OF wf not_window_less [OF x] ok])
  have phy1: "phymm_wf s1" using s1(2) by (simp add: vm_wf_def)
  have free1: "walk s1 lg = None" using s1(7) x free by simp
  have F1: "spare s1 (page hw)" using s1(8) F by blast
  then have fr: "fresh_frame s1 (page (hw OR 3))" by (simp add: spare_def page_or_3)
  define s' where "s' = invlpg (s1\<lparr>ram := put_entry (ram s1) (page (pde s1 (pd_index lg))) (pt_index lg) (hw OR 3)\<rparr>)
      (pte_vaddr (pd_index lg) (pt_index lg))"
  note mp = set_pte_maps_page [where b = "pte_vaddr (pd_index lg) (pt_index lg)",
      OF s1(2) x s1(4) free1 fr present_or_3, folded s'_def, unfolded page_or_3]
  have wr: "wr32 s1 (pte_vaddr (pd_index lg) (pt_index lg)) (hw OR 3) =
      Some (s1\<lparr>ram := put_entry (ram s1) (page (pde s1 (pd_index lg))) (pt_index lg) (hw OR 3)\<rparr>)"
    by (rule wr_pte [OF s1(2) _ _ s1(4)]) simp_all
  have "mapfr s hw lg = Some s'"
    unfolding mapfr_def code_index code_present Let_def
      bind.bind_lunit rd_pde [OF wf pd_index_less] s1(1) wr
    by (simp add: s'_def)
  moreover have "vm_wf s'"
    by (rule maps_page_vm_wf [OF mp(1) s1(2) mp(2)]) (use F1 in \<open>auto simp: spare_def\<close>)
  moreover have "present (pde s' j)" if "unat j < 1024" "present (pde s1 j)" for j
    using mp(4) [OF that(1)] that(2) by simp
  then have "vm_keep s s'"
    by (rule vm_keep_trans [OF s1(3) maps_page_vm_keep [OF mp(1)]])
  moreover have "\<forall>a. \<not> in_window a \<longrightarrow> walk s' a = (if page a = page lg then Some (page hw) else walk s a)"
    using s1(7) by (simp add: maps_page_walk [OF mp(1)])
  moreover have "data s' a" if "page a = page lg" for a
    by (rule maps_page_new_data [OF mp(1) that]) (use fr in \<open>simp add: mp(3) fresh_frame_def page_or_3\<close>)
  moreover have "present (pde s' (pd_index lg))" using s1(4) mp(4) [OF pd_index_less] by simp
  moreover have "used_set s' = U" "stack_top s' = t"
    using maps_page_phymm(3) [OF mp(1) phy1] maps_page_fields [OF mp(1)] s1(5,6) by simp_all
  moreover have "spare s' f" if "spare s f" "f \<noteq> page hw" for f
    using spare_maps_page [OF mp(1) phy1 _ that(2)] s1(8) that(1) by blast
  moreover have "ram s' = put_entry (ram s1) (page (pde s1 (pd_index lg))) (pt_index lg) (hw OR 3)"
    by (simp add: s'_def invlpg_def)
  then have "pte s' lg = hw OR 3" by (simp add: pte_def mp(4) entry_put_entry)
  moreover have "used_set s1 \<subseteq> used_set s'"
    using maps_page_phymm(3) [OF mp(1) phy1] by simp
  then have "tables_from s U s'"
    using s1(9) mp(3) by (auto simp: tables_from_def)
  ultimately show ?thesis using that [of s'] by blast
qed

section \<open>Mapping a range\<close>

definition npages :: "u32 \<Rightarrow> nat" where
  "npages len = unat ((len + 4095) div 4096)"

definition nth_page :: "u32 \<Rightarrow> nat \<Rightarrow> u32" where
  "nth_page a k = a + 4096 * word_of_nat k"

lemma pgoff_nth_page: "pgoff (nth_page a k) = pgoff a"
proof -
  let ?w = "word_of_nat k :: u32"
  have m: "x mod 4294967296 mod 4096 = x mod 4096" for x :: nat by (rule mod_mod_cancel) simp
  have "unat (a + 4096 * ?w) mod 4096 = (unat a + unat (4096 * ?w)) mod 4096"
    unfolding unat_word_ariths by (simp add: m)
  moreover have "unat (4096 * ?w) mod 4096 = 0"
    unfolding unat_word_ariths by (simp add: m)
  ultimately have "unat (a + 4096 * ?w) mod 4096 = unat a mod 4096"
    by (metis add.right_neutral mod_add_right_eq)
  then have "unat (pgoff (nth_page a k)) = unat (pgoff a)" by (simp only: unat_pgoff nth_page_def)
  then show ?thesis by (simp add: word_unat_eq_iff)
qed

lemma nth_page_inj:
  assumes "j < 1048576" and "k < 1048576"
  shows "page (nth_page a j) = page (nth_page a k) \<longleftrightarrow> j = k"
proof
  assume "page (nth_page a j) = page (nth_page a k)"
  then have "nth_page a j = nth_page a k" by (rule page_pgoff_eqI) (simp add: pgoff_nth_page)
  then have "(word_of_nat (4096 * j) :: u32) = word_of_nat (4096 * k)" by (simp add: nth_page_def)
  then have "4096 * j = 4096 * k" using assms by (intro iffD1 [OF word_of_nat_inj]) simp_all
  then show "j = k" by simp
qed simp

text \<open>
  What \<open>mmap\<close> expects of its caller: the range lies under one directory slot, outside the
  window and is not mapped, and there are enough frames for it and, where the slot has no
  table, for the table.  \<open>w\<close> is the first frame it gets.
\<close>

definition mmap_ok :: "'a virtmm_scheme \<Rightarrow> u32 \<Rightarrow> u32 \<Rightarrow> nat \<Rightarrow> nat set \<Rightarrow> nat \<Rightarrow> bool" where
  "mmap_ok s addr len w U t \<longleftrightarrow>
     npages len < 65536 \<and>
     (\<forall>k<npages len. \<not> in_window (nth_page addr k) \<and> walk s (nth_page addr k) = None \<and>
        pd_index (nth_page addr k) = pd_index addr) \<and>
     (\<exists>U1 t1. alloc_spec (nframes s) (used_set s) (stack_top s) (npages len) = Some (w, U1, t1) \<and>
        (if present (pde s (pd_index addr)) then U = U1 \<and> t = t1
         else \<exists>m. alloc_spec (nframes s) U1 t1 1 = Some (m, U, t)))"

text \<open>The loop of \<open>mmap\<close> and \<open>maphwdev\<close>, after \<open>k\<close> of \<open>n\<close> pages; page \<open>j\<close> gets the frame \<open>F j\<close>.\<close>

definition map_inv :: "'a virtmm_scheme \<Rightarrow> u32 \<Rightarrow> nat \<Rightarrow> (nat \<Rightarrow> u32) \<Rightarrow> nat set \<Rightarrow> nat \<Rightarrow> nat \<Rightarrow> 'a virtmm_scheme \<Rightarrow> bool" where
  "map_inv s addr n F U t k s' \<longleftrightarrow>
     vm_wf s' \<and> vm_keep s s' \<and> table_ok s' (pd_index addr) U t \<and>
     (0 < k \<longrightarrow> present (pde s' (pd_index addr))) \<and>
     (\<forall>j<k. \<forall>a. page a = page (nth_page addr j) \<longrightarrow> walk s' a = Some (F j) \<and> data s' a) \<and>
     (\<forall>a. \<not> in_window a \<and> (\<forall>j<k. page a \<noteq> page (nth_page addr j)) \<longrightarrow> walk s' a = walk s a) \<and>
     (\<forall>j. k \<le> j \<and> j < n \<longrightarrow> spare s' (F j)) \<and> tables_from s U s'"

lemma map_step:
  fixes s :: "'a virtmm_scheme"
  assumes inv: "map_inv s addr n F U t k s1" and k: "k < n" and n: "n < 1048576"
    and inj: "\<forall>j<n. j \<noteq> k \<longrightarrow> F j \<noteq> F k" and hw: "page hw = F k"
    and reg: "\<not> in_window (nth_page addr k)" "walk s (nth_page addr k) = None"
      "pd_index (nth_page addr k) = pd_index addr"
  shows "\<exists>s2. mapfr s1 hw (nth_page addr k) = Some s2 \<and> map_inv s addr n F U t (Suc k) s2"
proof -
  let ?a = "nth_page addr k"
  have i: "vm_wf s1" "vm_keep s s1" "table_ok s1 (pd_index addr) U t"
    "\<forall>j<k. \<forall>a. page a = page (nth_page addr j) \<longrightarrow> walk s1 a = Some (F j) \<and> data s1 a"
    "\<forall>a. \<not> in_window a \<and> (\<forall>j<k. page a \<noteq> page (nth_page addr j)) \<longrightarrow> walk s1 a = walk s a"
    "\<forall>j. k \<le> j \<and> j < n \<longrightarrow> spare s1 (F j)" "tables_from s U s1"
    using inv by (simp_all add: map_inv_def)
  have ne: "page ?a \<noteq> page (nth_page addr j)" if "j < k" for j
    using nth_page_inj [of j k addr] that k n by auto
  have free: "walk s1 ?a = None" using i(5) reg(1,2) ne by simp
  have Fk: "spare s1 (page hw)" using i(6) k hw by simp
  have ok: "table_ok s1 (pd_index ?a) U t" using i(3) reg(3) by simp
  obtain s2 where m: "mapfr s1 hw ?a = Some s2" and s2: "vm_wf s2" "vm_keep s1 s2"
    "\<forall>a. \<not> in_window a \<longrightarrow> walk s2 a = (if page a = page ?a then Some (page hw) else walk s1 a)"
    "\<forall>a. page a = page ?a \<longrightarrow> data s2 a"
    "present (pde s2 (pd_index ?a))" "used_set s2 = U" "stack_top s2 = t"
    "\<forall>f. spare s1 f \<and> f \<noteq> page hw \<longrightarrow> spare s2 f" "pte s2 ?a = hw OR 3"
    "tables_from s1 U s2"
    by (rule mapfr_spec [OF i(1) reg(1) free Fk ok])
  have win: "\<not> in_window a" if "page a = page ?a" for a
    using reg(1) that by (simp add: in_window_def page_eq_iff)
  have "walk s2 a = Some (F j) \<and> data s2 a"
    if "j < Suc k" and a: "page a = page (nth_page addr j)" for j a
  proof (cases "j = k")
    case True
    then show ?thesis using a s2(3,4) win hw by simp
  next
    case False
    then have "j < k" using that(1) by simp
    then have "walk s1 a = Some (F j) \<and> data s1 a" using i(4) a by blast
    then show ?thesis using s2(2) by (auto simp: vm_keep_def)
  qed
  moreover have "walk s2 a = walk s a" if "\<not> in_window a" "\<forall>j<Suc k. page a \<noteq> page (nth_page addr j)" for a
    using that s2(3) i(5) by simp
  moreover have "spare s2 (F j)" if "Suc k \<le> j" "j < n" for j
    using inj s2(8) i(6) that hw by simp
  moreover have "vm_keep s s2" by (rule vm_keep_trans [OF i(2) s2(2)])
  moreover have "table_ok s2 (pd_index addr) U t" "present (pde s2 (pd_index addr))"
    using s2(5-7) reg(3) by (simp_all add: table_ok_def)
  moreover have "tables_from s U s2"
    using tables_from_trans [OF i(7) s2(10)] i(2) vm_only_fields(14) [of s s1] by (simp add: vm_keep_def)
  ultimately have "map_inv s addr n F U t (Suc k) s2"
    using s2(1) unfolding map_inv_def by simp
  then show ?thesis using m by blast
qed

lemma map_run:
  fixes s :: "'a virtmm_scheme"
  assumes inv: "map_inv s addr n F U t 0 s1" and n: "n < 1048576"
    and inj: "\<forall>j<n. \<forall>k<n. j \<noteq> k \<longrightarrow> F j \<noteq> F k" and hw: "\<forall>k<n. page (nth_page hw k) = F k"
    and reg: "\<forall>k<n. \<not> in_window (nth_page addr k) \<and> walk s (nth_page addr k) = None \<and>
        pd_index (nth_page addr k) = pd_index addr"
  obtains s2 where
    "for_loop 0 n (\<lambda>i t. mapfr t (hw + 4096 * word_of_nat i) (addr + 4096 * word_of_nat i)) s1 = Some s2"
    and "map_inv s addr n F U t n s2"
proof -
  have "\<exists>s2. for_loop 0 n (\<lambda>i t. mapfr t (nth_page hw i) (nth_page addr i)) s1
      = Some s2 \<and> map_inv s addr n F U t (0 + n) s2"
  proof (rule for_loop_inv [where P = "\<lambda>k x. map_inv s addr n F U t k x"])
    fix j x assume "j < 0 + n" and "map_inv s addr n F U t j x"
    then show "\<exists>s'. mapfr x (nth_page hw j) (nth_page addr j) = Some s' \<and> map_inv s addr n F U t (Suc j) s'"
      using n inj hw reg by (intro map_step) simp_all
  qed (rule inv)
  then show ?thesis using that by (auto simp: nth_page_def)
qed

lemma mmap_spec:
  fixes s :: "'a virtmm_scheme"
  assumes wf: "vm_wf s" and ok: "mmap_ok s addr len w U t"
  obtains s' where "mmap s addr len = Some (STATUS_OK, s')" and "vm_wf s'" and "vm_keep s s'"
    and "used_set s' = U" and "stack_top s' = t"
    and "\<forall>k<npages len. \<forall>a. page a = page (nth_page addr k) \<longrightarrow> walk s' a = Some (frame_no s (w + k)) \<and> data s' a"
    and "\<forall>a. \<not> in_window a \<and> (\<forall>k<npages len. page a \<noteq> page (nth_page addr k)) \<longrightarrow> walk s' a = walk s a"
    and "tables_from s U s'"
proof -
  let ?n = "npages len"
  have phy: "phymm_wf s" and st: "phymm_static s" and top: "stack_top s < nframes s"
    using wf by (auto simp: vm_wf_def phymm_wf_def)
  obtain U1 t1 where o: "?n < 65536"
    "\<forall>k<?n. \<not> in_window (nth_page addr k) \<and> walk s (nth_page addr k) = None \<and>
        pd_index (nth_page addr k) = pd_index addr"
    "alloc_spec (nframes s) (used_set s) (stack_top s) ?n = Some (w, U1, t1)"
    and tab: "if present (pde s (pd_index addr)) then U = U1 \<and> t = t1
         else \<exists>m. alloc_spec (nframes s) U1 t1 1 = Some (m, U, t)"
    using ok unfolding mmap_ok_def by blast
  have u16: "unat (ucast ((len + 4095) div 4096) :: u16) = ?n"
    using o(1) by (simp add: npages_def unsigned_ucast_eq take_bit_nat_eq_self)
  note aw = alloc_spec_window [OF o(3) top]
  obtain sa where sa: "hwpalloc s (ucast ((len + 4095) div 4096)) = Some (frame_addr s w, sa)"
      "phymm_wf sa" "bm_only s sa" "used_set sa = U1" "stack_top sa = t1"
    using hwpalloc_refines [OF phy o(3) [folded u16]] by blast
  have wfa: "vm_wf sa" by (rule bm_only_vm_wf [OF wf sa(3,2)]) (use aw sa(4) in auto)
  note tb = bm_only_tables [OF st sa(3)]
  have n: "nframes sa = nframes s" "frame_no sa = frame_no s"
    using bm_only_mem [OF st sa(3)] by (auto simp: frame_no_def fun_eq_iff)
  have sp: "spare sa (frame_no s (w + j))" if j: "j < ?n" for j
  proof -
    have wj: "w + j < nframes s" "\<not> used s (w + j)" "used sa (w + j)"
      using aw j sa(4) n by (auto simp: used_set_def set_eq_iff)
    then have "fresh_frame sa (frame_no s (w + j))"
      using wf by (auto simp: fresh_frame_def tb vm_wf_def free_frames_ok_def)
    then show ?thesis
      using frame_no_inj [OF st _ wj(1)] wj(3) unfolding spare_def n by auto
  qed
  have tok: "table_ok sa (pd_index addr) U t"
    using tab sa(4,5) n tb(3) [OF pd_index_less] by (auto simp: table_ok_def)
  have inv0: "map_inv s addr ?n (\<lambda>j. frame_no s (w + j)) U t 0 sa"
    using wfa tok sp bm_only_vm_keep [OF st sa(3)] tables_from_same [of s sa U] aw(4) sa(4)
    by (simp add: map_inv_def tb)
  have hw: "\<forall>k<?n. page (nth_page (frame_addr s w) k) = frame_no s (w + k)"
    by (simp add: nth_page_def frame_addr_def frame_no_def algebra_simps)
  have inj: "\<forall>j<?n. \<forall>k<?n. j \<noteq> k \<longrightarrow> frame_no s (w + j) \<noteq> frame_no s (w + k)"
    using frame_no_inj [OF st, of "w + _" "w + _"] aw(2) by simp
  have n20: "?n < 1048576" using o(1) by simp
  obtain s' where s': "for_loop 0 ?n (\<lambda>i t. mapfr t (frame_addr s w + 4096 * word_of_nat i)
      (addr + 4096 * word_of_nat i)) sa = Some s'"
    and inv: "map_inv s addr ?n (\<lambda>j. frame_no s (w + j)) U t ?n s'"
    by (rule map_run [OF inv0 n20 inj hw o(2)])
  have "mmap s addr len = Some (STATUS_OK, s')"
    unfolding mmap_def Let_def sa(1) using s' by (simp add: npages_def)
  moreover have "used_set s' = U" "stack_top s' = t"
    using inv aw(1) by (auto simp: map_inv_def table_ok_def)
  ultimately show ?thesis
    using that [of s'] inv unfolding map_inv_def by blast
qed

section \<open>The fields the paging service changes\<close>

lemma vm_only_refl: "vm_only s s"
  using vm_keep_refl by (auto simp: vm_keep_def)

lemma vm_only_ram_sp: "ram_sp_only s s' \<Longrightarrow> vm_only s s'" for s s' :: "'a virtmm_scheme"
  by (auto simp: ram_sp_only_def intro: vm_onlyI [where t = "tlb s"])

lemma vm_only_invlpg: "vm_only s (invlpg s a)"
  by (rule vm_onlyI [where r = "ram s" and x = "hwas_sp s"]) (simp add: invlpg_def)

lemma vm_only_wr32: "wr32 s a v = Some s' \<Longrightarrow> vm_only s s'" for s s' :: "'a virtmm_scheme"
  unfolding wr32_def by (rule vm_only_ram_sp [OF ram_sp_only_wrn])

lemma mapfr_only: "mapfr s hw lg = Some s' \<Longrightarrow> vm_only s s'"
  by (auto simp: mapfr_def Let_def split: bind_splits if_splits prod.splits
      dest!: vm_only_ram_sp [OF hwpalloc_only] vm_only_wr32)
     (blast intro: vm_only_trans vm_only_invlpg)+

text \<open>
  Two states that agree on memory, translation and the globals of this and the lower
  components agree on every predicate above; so an update of a field of a component built
  on top keeps them all.
\<close>

definition vm_same :: "'a virtmm_scheme \<Rightarrow> 'b virtmm_scheme \<Rightarrow> bool" where
  "vm_same s s' \<longleftrightarrow>
     ram s' = ram s \<and> cr3 s' = cr3 s \<and> tlb s' = tlb s \<and> hwa_mmstart s' = hwa_mmstart s \<and>
     hwa_inu_bitmap s' = hwa_inu_bitmap s \<and> hwas_bp s' = hwas_bp s \<and> hwas_sp s' = hwas_sp s \<and>
     hwas_ssize s' = hwas_ssize s \<and> pde_table s' = pde_table s \<and> kernel_end s' = kernel_end s"

lemma vm_same_mem:
  fixes s :: "'a virtmm_scheme" and s' :: "'b virtmm_scheme"
  assumes "vm_same s s'"
  shows "translate s' = translate s" "rd8 s' = rd8 s" "rdn s' = rdn s" "rd32 s' = rd32 s"
    "data s' = data s" "data_range s' = data_range s" "walk s' = walk s" "pde s' = pde s"
    "is_table s' = is_table s" "shadow s' = shadow s" "unshadowed s' = unshadowed s"
proof -
  have k: "kernel_end s' = kernel_end s" using assms by (simp add: vm_same_def)
  show sh: "shadow s' = shadow s" "unshadowed s' = unshadowed s" by (rule shadow_eq [OF k])+
  show t: "translate s' = translate s"
    using assms by (intro ext) (simp add: vm_same_def translate_def split: option.split)
  then show "rd8 s' = rd8 s" and r: "rdn s' = rdn s"
    using assms by (intro ext, simp add: vm_same_def rd8_def rdn_def phys_addrs_def)+
  from r show "rd32 s' = rd32 s" by (intro ext) (simp add: rd32_def)
  show d: "data s' = data s" using assms t sh by (intro ext) (simp add: vm_same_def data_def)
  then show "data_range s' = data_range s" by (intro ext) (simp add: data_range_def)
  show "walk s' = walk s" "pde s' = pde s" "is_table s' = is_table s"
    using assms by (intro ext, simp add: vm_same_def walk_def pde_def is_table_def)+
qed

lemma vm_same_wf:
  fixes s :: "'a virtmm_scheme" and s' :: "'b virtmm_scheme"
  assumes "vm_same s s'"
  shows "nframes s' = nframes s" "frame_addr s' = frame_addr s" "frame_no s' = frame_no s"
    "bm_vaddr s' = bm_vaddr s" "bm_bytes s' = bm_bytes s" "used s' = used s"
    "used_set s' = used_set s" "stack_top s' = stack_top s" "phymm_wf s' = phymm_wf s"
    "spare s' = spare s" "vm_wf s' = vm_wf s" "mmap_ok s' = mmap_ok s" "table_ok s' = table_ok s"
proof -
  note m = vm_same_mem [OF assms]
  show n: "nframes s' = nframes s" and t: "stack_top s' = stack_top s"
    using assms by (simp_all add: vm_same_def nframes_def stack_top_def)
  show f: "frame_addr s' = frame_addr s" using assms by (intro ext) (simp add: vm_same_def frame_addr_def)
  show fn: "frame_no s' = frame_no s" using f by (simp add: frame_no_def fun_eq_iff)
  show b: "bm_bytes s' = bm_bytes s" using n by (simp add: bm_bytes_def)
  then show "bm_vaddr s' = bm_vaddr s"
    using assms by (intro ext) (simp add: bm_vaddr_def vm_same_def)
  show u: "used s' = used s" using assms m by (intro ext) (simp add: vm_same_def used_def)
  then show us: "used_set s' = used_set s" using n by (simp add: used_set_def)
  have "phymm_static s' = phymm_static s"
    using assms by (simp add: phymm_static_def m n f b vm_same_def)
  then show p: "phymm_wf s' = phymm_wf s"
    using assms by (simp add: phymm_wf_def n t vm_same_def)
  show "spare s' = spare s" by (simp add: spare_def fresh_frame_def m n u fn fun_eq_iff)
  have "free_frames_ok s' = free_frames_ok s" "tlb_ok s' = tlb_ok s" "shadow_mapped s' = shadow_mapped s"
    using assms by (simp_all add: free_frames_ok_def tlb_ok_def shadow_mapped_def m n u fn vm_same_def)
  then show "vm_wf s' = vm_wf s"
    using assms by (simp add: vm_wf_def p m vm_same_def)
  show "mmap_ok s' = mmap_ok s" "table_ok s' = table_ok s"
    by (simp_all add: mmap_ok_def table_ok_def m n us t fun_eq_iff)
qed

section \<open>Logical to physical, and unmapping\<close>

lemma walk_SomeE:
  assumes "walk s a = Some f"
  obtains e where "present (pde s (pd_index a))" and "e = entry (ram s) (page (pde s (pd_index a))) (pt_index a)"
    and "present e" and "f = page e"
  using assms by (auto simp: walk_def walk_frame_def pde_def Let_def split: if_splits)

lemma lpa_entry:
  assumes "vm_wf s" and "present (pde s (pd_index a))"
  shows "lpa s a = Some ((entry (ram s) (page (pde s (pd_index a))) (pt_index a) AND NOT 0x3ff) + (a AND 0x3ff))"
  using assms unfolding lpa_def code_index by (simp add: rd_pte)

text \<open>
  An entry whose bits 10 and 11 are clear (as every entry \<open>mapfr\<close> writes for an aligned
  frame address).
\<close>

definition plain_entry :: "u32 \<Rightarrow> bool" where
  "plain_entry e \<longleftrightarrow> \<not> bit e 10 \<and> \<not> bit e 11"

lemma plain_entry_sum:
  fixes e a :: u32
  assumes "plain_entry e"
  shows "(e AND NOT 0x3ff) + (a AND 0x3ff) = mkaddr (page e) (a AND 0x3ff)"
proof -
  have m: "(0x3ff :: u32) = mask 10" by (simp add: mask_eq_exp_minus_1)
  have "(e AND NOT 0x3ff) + (a AND 0x3ff) = (e AND NOT 0x3ff) OR (a AND 0x3ff)"
    by (rule disjunctive_add) (auto simp: m bit_simps)
  also have "\<dots> = mkaddr (page e) (a AND 0x3ff)"
    unfolding mkaddr_def page_def m
  proof (rule bit_word_eqI)
    fix n
    assume "n < LENGTH(32)"
    have "n < 10 \<or> n = 10 \<or> n = 11 \<or> 12 \<le> n" by auto
    then show "bit (e AND NOT (mask 10) OR a AND mask 10) n = bit (push_bit 12 (drop_bit 12 e) OR a AND mask 10) n"
      using assms by (auto simp: plain_entry_def bit_simps)
  qed
  finally show ?thesis .
qed

lemma umapfr_effect:
  fixes s :: "'a virtmm_scheme"
  assumes wf: "vm_wf s" and x: "\<not> in_window lg" and p: "present (pde s (pd_index lg))"
  obtains s' where "umapfr s lg = Some s'" and "vm_only s s'"
    and "\<forall>a. walk s' a = (if page a = page lg then None else walk s a)"
    and "tlb s' (page lg) = tlb s (page lg)"
proof -
  let ?b = "pte_vaddr (pd_index lg) (pt_index lg)"
  define s' where "s' = invlpg (s\<lparr>ram := put_entry (ram s) (page (pde s (pd_index lg))) (pt_index lg) 0\<rparr>) ?b"
  have pt: "pt_wf (ram s) (cr3 s)" using wf by (simp add: vm_wf_def)
  note sp = set_pte [OF pt not_window_less [OF x] pt_index_less, of lg, folded pde_def, OF p]
  have wr: "wr32 s ?b 0 =
      Some (s\<lparr>ram := put_entry (ram s) (page (pde s (pd_index lg))) (pt_index lg) 0\<rparr>)"
    by (rule wr_pte [OF wf _ _ p]) simp_all
  have "umapfr s lg = Some s'"
    unfolding umapfr_def code_index code_present Let_def bind.bind_lunit rd_pde [OF wf pd_index_less] wr
    using p by (simp add: s'_def)
  moreover have "vm_only s s'"
    by (rule vm_onlyI [where x = "hwas_sp s"]) (simp add: s'_def invlpg_def)
  moreover have "walk s' a = (if page a = page lg then None else walk s a)" for a
    using sp(3) [of 0 a] by (simp add: walk_def s'_def invlpg_def page_eq_iff)
  moreover have "page ?b \<noteq> page lg"
    using x by (simp add: page_eq_iff pte_vaddr_index in_window_def)
  then have "tlb s' (page lg) = tlb s (page lg)" by (simp add: s'_def invlpg_def)
  ultimately show ?thesis using that by blast
qed

end
