(* ===== verification/KMalloc.thy ===== *)
theory KMalloc
  imports VirtMM
begin

text \<open>
  The kernel heap, \<open>kernel/mm/kmalloc.c\<close> and \<open>include/kmalloc.h\<close>: a doubly linked list of blocks
  in memory, each a 20-byte header (\<open>free\<close>, \<open>magic\<close>, \<open>next_block\<close>, \<open>prev_block\<close>, \<open>size\<close>, four
  bytes each) followed by its data; the heap grows at its end through \<open>mmap\<close>.  This is the
  kernel's build of the file (\<open>LINUX_MALLOC\<close> and \<open>DEBUG_MALLOC\<close> undefined).
\<close>

section \<open>State\<close>

record kheap = virtmm +
  first_blk :: u32
  heap_start :: u32
  heap_size :: u32
  min_heap_size :: u32

definition MBLKFREE :: u32 where "MBLKFREE = 1"
definition MBLKINUSE :: u32 where "MBLKINUSE = 0"

text \<open>The header of a block (\<open>struct _malloc_h\<close>), as the addresses of its fields.\<close>

definition hdr_size :: u32 where "hdr_size = 20"
definition blk_free :: "u32 \<Rightarrow> u32" where "blk_free b = b"
definition blk_magic :: "u32 \<Rightarrow> u32" where "blk_magic b = b + 4"
definition blk_next :: "u32 \<Rightarrow> u32" where "blk_next b = b + 8"
definition blk_prev :: "u32 \<Rightarrow> u32" where "blk_prev b = b + 12"
definition blk_size :: "u32 \<Rightarrow> u32" where "blk_size b = b + 16"

lemmas blk_field_defs = blk_free_def blk_magic_def blk_next_def blk_prev_def blk_size_def

definition mblk_valid :: "'a kheap_scheme \<Rightarrow> u32 \<Rightarrow> bool option" where
  "mblk_valid s blk = do {
     m \<leftarrow> rd32 s (blk_magic blk);
     Some (m = 0xdeadbeef \<or> m = 0xb00bbabe)
   }"

section \<open>Search and growth\<close>

text \<open>
  The loop of \<open>__find_free_block\<close>, with its two pointers \<open>current\<close> and \<open>*last\<close>; the heap is only
  read.  On a cyclic list it does not return.
\<close>

partial_function (option) find_free_loop ::
  "'a kheap_scheme \<Rightarrow> u32 \<Rightarrow> u32 \<Rightarrow> u32 \<Rightarrow> (u32 \<times> u32) option" where
  "find_free_loop s sz current lst =
     (if current = 0 then Some (current, lst)
      else do {
        f \<leftarrow> rd32 s (blk_free current);
        fits \<leftarrow> (if f = MBLKFREE then do { z \<leftarrow> rd32 s (blk_size current); Some (sz \<le> z) }
                 else Some False);
        if fits then Some (current, lst)
        else do {
          n \<leftarrow> rd32 s (blk_next current);
          find_free_loop s sz n current
        }
      })"

definition find_free_block :: "'a kheap_scheme \<Rightarrow> u32 \<Rightarrow> u32 \<Rightarrow> (u32 \<times> u32) option" where
  "find_free_block s lst sz = find_free_loop s sz (first_blk s) lst"

definition new_blockspace :: "'a kheap_scheme \<Rightarrow> u32 \<Rightarrow> u32 \<Rightarrow> (u32 \<times> 'a kheap_scheme) option" where
  "new_blockspace s lst sz = do {
     let nbytes = (sz + hdr_size + 0x1000) AND NOT 0xfff;
     let block = heap_start s + heap_size s;
     (_, s1) \<leftarrow> mmap s block nbytes;
     let s2 = s1\<lparr>heap_size := heap_size s1 + nbytes\<rparr>;
     if block = 0xffffffff \<or> block = 0 then Some (0, s2)
     else do {
       s3 \<leftarrow> (if lst \<noteq> 0 then do {
                t \<leftarrow> wr32 s2 (blk_next lst) block;
                wr32 t (blk_prev block) lst
              } else wr32 s2 (blk_prev block) 0);
       s4 \<leftarrow> wr32 s3 (blk_size block) (nbytes - hdr_size);
       s5 \<leftarrow> wr32 s4 (blk_next block) 0;
       s6 \<leftarrow> wr32 s5 (blk_free block) MBLKFREE;
       s7 \<leftarrow> wr32 s6 (blk_magic block) 0xdeadbeef;
       Some (block, s7)
     }
   }"

section \<open>Allocation\<close>

text \<open>The part of \<open>kmalloc\<close> that cuts a block which is large enough in two.\<close>

definition split_block :: "'a kheap_scheme \<Rightarrow> u32 \<Rightarrow> u32 \<Rightarrow> 'a kheap_scheme option" where
  "split_block s block len = do {
     z \<leftarrow> rd32 s (blk_size block);
     if 256 + len + hdr_size < z then do {
       let squeeze = block + hdr_size + len;
       z0 \<leftarrow> rd32 s (blk_size block);
       s1 \<leftarrow> wr32 s (blk_size squeeze) (z0 - hdr_size - len);
       s2 \<leftarrow> wr32 s1 (blk_free squeeze) MBLKFREE;
       s3 \<leftarrow> wr32 s2 (blk_magic squeeze) 0xb00bbabe;
       n \<leftarrow> rd32 s3 (blk_next block);
       s4 \<leftarrow> wr32 s3 (blk_next squeeze) n;
       s5 \<leftarrow> wr32 s4 (blk_prev squeeze) block;
       n1 \<leftarrow> rd32 s5 (blk_next block);
       s6 \<leftarrow> (if n1 \<noteq> 0 then do {
                n2 \<leftarrow> rd32 s5 (blk_next block);
                wr32 s5 (blk_prev n2) squeeze
              } else Some s5);
       s7 \<leftarrow> wr32 s6 (blk_next block) squeeze;
       wr32 s7 (blk_size block) len
     } else Some s
   }"

partial_function (option) kmalloc :: "'a kheap_scheme \<Rightarrow> u32 \<Rightarrow> (u32 \<times> 'a kheap_scheme) option" where
  "kmalloc s length0 = do {
     let len = (length0 + 0xf) AND NOT 0xf;
     if first_blk s = 0 then do {
       let s1 = (if min_heap_size s < len then s\<lparr>min_heap_size := len\<rparr> else s);
       (block, s2) \<leftarrow> new_blockspace s1 0 (min_heap_size s1);
       kmalloc (s2\<lparr>first_blk := block\<rparr>) len
     }
     else do {
       (block, lst) \<leftarrow> find_free_block s (first_blk s) len;
       (block', s1) \<leftarrow> (if block = 0 then new_blockspace s lst len
                      else do { t \<leftarrow> split_block s block len; Some (block, t) });
       s2 \<leftarrow> wr32 s1 (blk_free block') MBLKINUSE;
       Some (block' + hdr_size, s2)
     }
   }"

definition kcalloc :: "'a kheap_scheme \<Rightarrow> u32 \<Rightarrow> u32 \<Rightarrow> (u32 \<times> 'a kheap_scheme) option" where
  "kcalloc s nmemb sz = do {
     let len = nmemb * sz;
     (dst, s1) \<leftarrow> kmalloc s len;
     s2 \<leftarrow> for_loop 0 (unat len) (\<lambda>i t. wr8 t (dst + word_of_nat i) 0) s1;
     Some (dst, s2)
   }"

section \<open>Release\<close>

text \<open>The part of \<open>kfree\<close> after the checks: join with the next block, with the previous one, link.\<close>

definition blk_is_free :: "'a kheap_scheme \<Rightarrow> u32 \<Rightarrow> bool option" where
  "blk_is_free s b =
     (if b \<noteq> 0 then do { f \<leftarrow> rd32 s (blk_free b); Some (f = MBLKFREE) } else Some False)"

definition join_next :: "'a kheap_scheme \<Rightarrow> u32 \<Rightarrow> u32 \<Rightarrow> 'a kheap_scheme option" where
  "join_next s block nxt = do {
     nfree \<leftarrow> blk_is_free s nxt;
     if nfree then do {
       z \<leftarrow> rd32 s (blk_size block);
       zn \<leftarrow> rd32 s (blk_size nxt);
       nn \<leftarrow> rd32 s (blk_next nxt);
       t \<leftarrow> wr32 s (blk_next block) nn;
       wr32 t (blk_size block) (z + zn)
     } else Some s
   }"

definition join_prev :: "'a kheap_scheme \<Rightarrow> u32 \<Rightarrow> u32 \<Rightarrow> (u32 \<times> 'a kheap_scheme) option" where
  "join_prev s block prev = do {
     pfree \<leftarrow> blk_is_free s prev;
     if pfree then do {
       z \<leftarrow> rd32 s (blk_size block);
       zp \<leftarrow> rd32 s (blk_size prev);
       n \<leftarrow> rd32 s (blk_next block);
       t \<leftarrow> wr32 s (blk_next prev) n;
       t2 \<leftarrow> wr32 t (blk_size prev) (z + zp);
       Some (prev, t2)
     } else Some (block, s)
   }"

definition relink :: "'a kheap_scheme \<Rightarrow> u32 \<Rightarrow> 'a kheap_scheme option" where
  "relink s block = do {
     n \<leftarrow> rd32 s (blk_next block);
     s1 \<leftarrow> (if n \<noteq> 0 then wr32 s (blk_prev n) block else Some s);
     p \<leftarrow> rd32 s1 (blk_prev block);
     s2 \<leftarrow> (if p \<noteq> 0 then wr32 s1 (blk_next p) block else Some s1);
     wr32 s2 (blk_free block) MBLKFREE
   }"

definition release_block :: "'a kheap_scheme \<Rightarrow> u32 \<Rightarrow> 'a kheap_scheme option" where
  "release_block s block = do {
     nxt \<leftarrow> rd32 s (blk_next block);
     prev \<leftarrow> rd32 s (blk_prev block);
     s1 \<leftarrow> join_next s block nxt;
     (block', s2) \<leftarrow> join_prev s1 block prev;
     relink s2 block'
   }"

text \<open>
  \<open>kfree\<close> and \<open>krealloc\<close> print on an invalid block, and printing may use the heap
  (\<open>vga_scrolldown\<close> calls \<open>memmove\<close>, which calls \<open>kmalloc\<close> and \<open>kfree\<close>).  So they take the message
  they print as an argument here; theory \<open>Vga\<close> ties the knot.
\<close>

definition kfree_with :: "('a kheap_scheme \<Rightarrow> u32 \<Rightarrow> 'a kheap_scheme option) \<Rightarrow>
    'a kheap_scheme \<Rightarrow> u32 \<Rightarrow> (status_t \<times> 'a kheap_scheme) option" where
  "kfree_with complain s addr =
     (if addr = 0 then Some (STATUS_OK, s)
      else do {
        let block = addr - hdr_size;
        v \<leftarrow> mblk_valid s block;
        if \<not> v then do {
          s1 \<leftarrow> complain s addr;
          Some (STATUS_INVALID_FREE, s1)
        }
        else do {
          s1 \<leftarrow> release_block s block;
          Some (STATUS_OK, s1)
        }
      })"

text \<open>The copying loop of \<open>krealloc\<close>, which reads the old block's size in every round.\<close>

partial_function (option) krealloc_copy ::
  "'a kheap_scheme \<Rightarrow> u32 \<Rightarrow> u32 \<Rightarrow> u32 \<Rightarrow> u32 \<Rightarrow> 'a kheap_scheme option" where
  "krealloc_copy s block old_data new_data i = do {
     z \<leftarrow> rd32 s (blk_size block);
     if i < z then do {
       b \<leftarrow> rd8 s (old_data + i);
       t \<leftarrow> wr8 s (new_data + i) b;
       krealloc_copy t block old_data new_data (i + 1)
     } else Some s
   }"

definition krealloc_with :: "('a kheap_scheme \<Rightarrow> 'a kheap_scheme option) \<Rightarrow>
    ('a kheap_scheme \<Rightarrow> u32 \<Rightarrow> 'a kheap_scheme option) \<Rightarrow>
    'a kheap_scheme \<Rightarrow> u32 \<Rightarrow> u32 \<Rightarrow> (u32 \<times> 'a kheap_scheme) option" where
  "krealloc_with invalid complain s ptr sz =
     (if ptr = 0 then kmalloc s sz
      else do {
        let block = ptr - hdr_size;
        v \<leftarrow> mblk_valid s block;
        if \<not> v then do { s1 \<leftarrow> invalid s; Some (0, s1) }
        else do {
          z \<leftarrow> rd32 s (blk_size block);
          if sz \<le> z then Some (ptr, s)
          else do {
            (new_data, s1) \<leftarrow> kmalloc s sz;
            if new_data = 0 then Some (0, s1)
            else do {
              s2 \<leftarrow> krealloc_copy s1 block ptr new_data 0;
              (_, s3) \<leftarrow> kfree_with complain s2 ptr;
              Some (new_data, s3)
            }
          }
        }
      })"

definition init_kmalloc_with :: "('a kheap_scheme \<Rightarrow> u32 \<Rightarrow> 'a kheap_scheme option) \<Rightarrow>
    'a kheap_scheme \<Rightarrow> u32 \<Rightarrow> u32 \<Rightarrow> (status_t \<times> 'a kheap_scheme) option" where
  "init_kmalloc_with complain s start sz = do {
     let s0 = s\<lparr>heap_start := start, min_heap_size := sz, heap_size := 0\<rparr>;
     (a, s1) \<leftarrow> kmalloc s0 11000;
     (_, s2) \<leftarrow> kfree_with complain s1 a;
     Some (STATUS_OK, s2)
   }"

end
