(* ===== verification/KHeap.thy ===== *)
theory KHeap
  imports KMalloc
begin

text \<open>
  What the kernel heap promises: an abstract heap is the list of its blocks in address order,
  allocation is first fit with a cut, release joins neighbours.  \<open>heap_inv\<close> relates the list to
  the headers in memory; the operations of \<open>kmalloc.c\<close> keep it and compute the abstract
  operations.
\<close>

section \<open>Stores outside the allocator's memory\<close>

definition alloc_vaddr :: "'a phymm_scheme \<Rightarrow> u32 \<Rightarrow> bool" where
  "alloc_vaddr s b \<longleftrightarrow>
     (\<exists>k<4 * nframes s. b = hwas_bp s + word_of_nat k) \<or>
     (\<exists>k<bm_bytes s. b = hwa_inu_bitmap s + word_of_nat k)"

text \<open>\<open>clear_range s a n\<close>: the \<open>n\<close> bytes from \<open>a\<close> on are data addresses and none of them the allocator's.\<close>

definition clear_range :: "'a virtmm_scheme \<Rightarrow> u32 \<Rightarrow> nat \<Rightarrow> bool" where
  "clear_range s a n \<longleftrightarrow> data_range s a n \<and> (\<forall>k<n. \<not> alloc_vaddr s (a + word_of_nat k))"

lemma clear_range_sub:
  assumes "clear_range s a n" and "k + m \<le> n"
  shows "clear_range s (a + word_of_nat k) m"
proof -
  have "\<not> alloc_vaddr s (a + word_of_nat k + word_of_nat j)" if "j < m" for j
  proof -
    have "k + j < n" using assms(2) that by simp
    then have "\<not> alloc_vaddr s (a + word_of_nat (k + j))" using assms(1) unfolding clear_range_def by blast
    then show ?thesis by (simp add: add.assoc)
  qed
  moreover have "data_range s (a + word_of_nat k) m"
    using assms by (intro data_range_add [where n = n]) (simp_all add: clear_range_def)
  ultimately show ?thesis by (simp add: clear_range_def)
qed

lemma alloc_vaddr_data: "phymm_static s \<Longrightarrow> alloc_vaddr s b \<Longrightarrow> data s b"
  by (auto simp: phymm_static_def alloc_vaddr_def dest: data_rangeD)

lemma stn_other:
  assumes "clear_range s a (length bs)" and "length bs \<le> 4294967296" and "alloc_vaddr s b"
    and "phymm_static s"
  shows "rd8 (stn s a bs) b = rd8 s b"
proof -
  have "\<not> unat (b - a) < length bs"
  proof
    assume "unat (b - a) < length bs"
    then have "\<not> alloc_vaddr s (a + word_of_nat (unat (b - a)))"
      using assms(1) unfolding clear_range_def by blast
    then show False using assms(3) by simp
  qed
  then show ?thesis using assms(1,2) data_not_shadow [OF alloc_vaddr_data [OF assms(4,3)]]
    by (simp add: clear_range_def rd8_stn)
qed

lemma stn_vm_fields [simp]:
  fixes s :: "'a virtmm_scheme"
  shows "nframes (stn s a bs) = nframes s" "frame_addr (stn s a bs) = frame_addr s"
    "bm_bytes (stn s a bs) = bm_bytes s" "frame_no (stn s a bs) = frame_no s"
    "stack_top (stn s a bs) = stack_top s" "hwa_mmstart (stn s a bs) = hwa_mmstart s"
    "hwa_inu_bitmap (stn s a bs) = hwa_inu_bitmap s" "hwas_bp (stn s a bs) = hwas_bp s"
    "hwas_sp (stn s a bs) = hwas_sp s" "pde_table (stn s a bs) = pde_table s"
    "hwas_ssize (stn s a bs) = hwas_ssize s" "driver_space_head (stn s a bs) = driver_space_head s"
    "alloc_vaddr (stn s a bs) = alloc_vaddr s"
  by (auto simp: stn_def nframes_def frame_addr_def bm_bytes_def frame_no_def stack_top_def
      alloc_vaddr_def fun_eq_iff)

lemma stn_tables:
  fixes s :: "'a virtmm_scheme"
  assumes "data_range s a (length bs)"
  shows "walk (stn s a bs) = walk s" "is_table (stn s a bs) = is_table s" "tlb_ok (stn s a bs) = tlb_ok s"
    "\<And>i. unat i < 1024 \<Longrightarrow> pde (stn s a bs) i = pde s i"
proof -
  show w: "walk (stn s a bs) = walk s"
    using walk_frame_stn [OF assms] by (intro ext) (simp add: walk_def)
  show "is_table (stn s a bs) = is_table s"
    using table_frame_stn [OF assms] by (intro ext) (simp add: is_table_def)
  show "tlb_ok (stn s a bs) = tlb_ok s" by (simp add: tlb_ok_def w)
  show "pde (stn s a bs) i = pde s i" if "unat i < 1024" for i
    unfolding pde_def stn_fields
    by (rule entry_cong) (use that ram_stn_table [OF assms] in auto)
qed

lemma clear_range_stn:
  "data_range s a (length bs) \<Longrightarrow> clear_range (stn s a bs) = clear_range s" for s :: "'a virtmm_scheme"
  by (intro ext) (simp add: clear_range_def data_range_stn)

lemma stn_vm_wf:
  fixes s :: "'a virtmm_scheme"
  assumes wf: "vm_wf s" and c: "clear_range s a (length bs)" and len: "length bs \<le> 4294967296"
  shows "vm_wf (stn s a bs)" and "used_set (stn s a bs) = used_set s"
proof -
  have d: "data_range s a (length bs)" using c by (simp add: clear_range_def)
  have st: "phymm_static s" and phy: "phymm_wf s" using wf by (auto simp: vm_wf_def phymm_wf_def)
  note tb = stn_tables [OF d]
  have slot: "rd32 (stn s a bs) (hwas_bp s + 4 * word_of_nat i) = rd32 s (hwas_bp s + 4 * word_of_nat i)"
    if i: "i < nframes s" for i
  proof -
    have "alloc_vaddr s (hwas_bp s + 4 * word_of_nat i + word_of_nat k)" if k: "k < 4" for k
      unfolding alloc_vaddr_def
      by (rule disjI1, rule exI [of _ "4 * i + k"]) (use i k in \<open>simp add: add.assoc\<close>)
    then have "map (\<lambda>k. rd8 (stn s a bs) (hwas_bp s + 4 * word_of_nat i + word_of_nat k)) [0..<4] =
        map (\<lambda>k. rd8 s (hwas_bp s + 4 * word_of_nat i + word_of_nat k)) [0..<4]"
      by (intro map_cong refl stn_other [OF c len _ st]) auto
    then have "rdn (stn s a bs) (hwas_bp s + 4 * word_of_nat i) 4 = rdn s (hwas_bp s + 4 * word_of_nat i) 4"
      by (simp only: rdn_rd8)
    then show ?thesis by (simp only: rd32_def)
  qed
  have "phymm_static (stn s a bs)"
    using st slot unfolding phymm_static_def by (simp add: data_range_stn [OF d])
  then have p: "phymm_wf (stn s a bs)" using phy by (simp add: phymm_wf_def)
  have u: "used (stn s a bs) j = used s j" if "j < nframes s" for j
  proof -
    have "alloc_vaddr s (hwa_inu_bitmap s + word_of_nat (j div 8))"
      unfolding alloc_vaddr_def
      by (rule disjI2, rule exI [of _ "j div 8"]) (use that in \<open>auto simp: bm_bytes_def\<close>)
    then show ?thesis using stn_other [OF c len _ st] by (simp add: used_def)
  qed
  then show us: "used_set (stn s a bs) = used_set s" by (auto simp: used_set_def)
  have e: "entry (ram (stn s a bs)) (page (cr3 s)) i = entry (ram s) (page (cr3 s)) i" if "unat i < 1024" for i
    using tb(4) [OF that] by (simp add: pde_def)
  have e2: "entry (ram (stn s a bs)) (page (cr3 s)) i = entry (ram s) (page (cr3 s)) i" if "unat i < 1023" for i
    using e [of i] that by simp
  have pt: "pt_wf (ram (stn s a bs)) (cr3 s)"
    using wf unfolding vm_wf_def pt_wf_def by (simp add: e e2 cong: conj_cong)
  have "free_frames_ok (stn s a bs)"
    unfolding free_frames_ok_def tb stn_vm_fields
  proof (intro allI impI)
    fix k assume k: "k < nframes s" "\<not> used (stn s a bs) k"
    then have "\<not> used s k" using u by simp
    then have f: "\<not> is_table s (frame_no s k)" "\<forall>a. walk s a = Some (frame_no s k) \<longrightarrow> shadow s a"
      "\<forall>p. page p = frame_no s k \<longrightarrow> ram s p = 0"
      using wf k(1) by (auto simp: vm_wf_def free_frames_ok_def)
    have "ram (stn s a bs) p = ram s p" if p: "page p = frame_no s k" for p
    proof (rule store_addrs_notin)
      fix j assume "j < length bs"
      then have da: "data s (a + word_of_nat j)" using d by (simp add: data_range_def)
      then have t: "translate s (a + word_of_nat j) = Some (the (translate s (a + word_of_nat j)))"
        by (rule data_trans)
      obtain g where g: "walk s (a + word_of_nat j) = Some g"
        "the (translate s (a + word_of_nat j)) = mkaddr g (pgoff (a + word_of_nat j))"
        using t wf by (auto simp: vm_wf_def translate_walk)
      have "page (the (translate s (a + word_of_nat j))) = g" using g walk_lt [OF g(1)] by simp
      then show "p \<noteq> the (translate s (a + word_of_nat j))" using f(2) g(1) p data_not_shadow [OF da] by auto
    qed
    then show "\<not> is_table s (frame_no s k) \<and> (\<forall>x. walk s x = Some (frame_no s k) \<longrightarrow> shadow (stn s a bs) x) \<and>
      (\<forall>p. page p = frame_no s k \<longrightarrow> ram (stn s a bs) p = 0)" using f by simp
  qed
  then show "vm_wf (stn s a bs)"
    using wf p pt by (simp add: vm_wf_def shadow_mapped_def tb)
qed

section \<open>Header fields\<close>

datatype field = FFree | FMagic | FNext | FPrev | FSize

fun foff :: "field \<Rightarrow> nat" where
  "foff FFree = 0" | "foff FMagic = 4" | "foff FNext = 8" | "foff FPrev = 12" | "foff FSize = 16"

definition faddr :: "u32 \<Rightarrow> field \<Rightarrow> u32" where
  "faddr b f = b + word_of_nat (foff f)"

lemma blk_faddr:
  "blk_free b = faddr b FFree" "blk_magic b = faddr b FMagic" "blk_next b = faddr b FNext"
  "blk_prev b = faddr b FPrev" "blk_size b = faddr b FSize"
  by (simp_all add: blk_field_defs faddr_def)

lemma foff_less: "foff f + 4 \<le> 20"
  by (cases f) simp_all

lemma foff_sep: "f \<noteq> g \<Longrightarrow> foff f + 4 \<le> foff g \<or> foff g + 4 \<le> foff f"
  by (cases f; cases g) simp_all

definition fget :: "'a kheap_scheme \<Rightarrow> u32 \<Rightarrow> field \<Rightarrow> u32 option" where
  "fget s b f = rd32 s (faddr b f)"

definition fset :: "'a kheap_scheme \<Rightarrow> u32 \<Rightarrow> field \<Rightarrow> u32 \<Rightarrow> 'a kheap_scheme" where
  "fset s b f v = st32 s (faddr b f) v"

text \<open>The heap region, and the headers that lie in it.\<close>

definition heap_end :: "'a kheap_scheme \<Rightarrow> nat" where
  "heap_end s = unat (heap_start s) + unat (heap_size s)"

definition heap_ok :: "'a kheap_scheme \<Rightarrow> bool" where
  "heap_ok s \<longleftrightarrow> vm_wf s \<and> heap_end s < 4294967296 \<and> 4096 \<le> unat (heap_start s) \<and>
     clear_range s (heap_start s) (unat (heap_size s))"

definition hin :: "'a kheap_scheme \<Rightarrow> u32 \<Rightarrow> bool" where
  "hin s b \<longleftrightarrow> unat (heap_start s) \<le> unat b \<and> unat b + 20 \<le> heap_end s"

definition headers :: "'a kheap_scheme \<Rightarrow> u32 set \<Rightarrow> bool" where
  "headers s H \<longleftrightarrow> (\<forall>b\<in>H. hin s b \<and> (\<forall>c\<in>H. c \<noteq> b \<longrightarrow> sep b 20 c 20))"

lemma clear_sub:
  assumes "heap_ok s" and "unat (heap_start s) \<le> unat b" and "unat b + n \<le> heap_end s"
  shows "clear_range s b n"
proof -
  have "clear_range s (heap_start s + word_of_nat (unat b - unat (heap_start s))) n"
    by (rule clear_range_sub [where n = "unat (heap_size s)"])
       (use assms in \<open>auto simp: heap_ok_def heap_end_def\<close>)
  moreover have "heap_start s + word_of_nat (unat b - unat (heap_start s)) = b"
    using assms(2) by (simp add: of_nat_diff)
  ultimately show ?thesis by simp
qed

lemma unat_faddr:
  assumes "heap_ok s" and "hin s b"
  shows "unat (faddr b f) = unat b + foff f"
proof -
  have k: "unat (word_of_nat (foff f) :: u32) = foff f" by (cases f) simp_all
  have "unat b + foff f < 4294967296" using assms foff_less [of f] by (simp add: heap_ok_def hin_def)
  then show ?thesis unfolding faddr_def using k by (simp add: unat_add_small)
qed

lemma field_range:
  assumes "heap_ok s" and "hin s b"
  shows "clear_range s (faddr b f) 4"
  using assms unat_faddr [OF assms, of f] foff_less [of f]
  by (intro clear_sub) (simp_all add: hin_def)

lemma fset_stn: "fset s b f v = stn s (faddr b f) [byte_of 0 v, byte_of 1 v, byte_of 2 v, byte_of 3 v]"
  by (simp add: fset_def st32_def)

lemma fset_fields [simp]:
  "heap_start (fset s b f v) = heap_start s" "heap_size (fset s b f v) = heap_size s"
  "first_blk (fset s b f v) = first_blk s" "min_heap_size (fset s b f v) = min_heap_size s"
  "heap_end (fset s b f v) = heap_end s" "hin (fset s b f v) = hin s"
  "headers (fset s b f v) = headers s"
  by (simp_all add: fset_stn stn_def heap_end_def hin_def headers_def fun_eq_iff)

text \<open>The laws of header fields: loads and stores work, and are those of a record.\<close>

lemma fset_ok:
  assumes "heap_ok s" and "hin s b"
  shows "heap_ok (fset s b f v)" and "used_set (fset s b f v) = used_set s"
    and "stack_top (fset s b f v) = stack_top s"
proof -
  let ?bs = "[byte_of 0 v, byte_of 1 v, byte_of 2 v, byte_of 3 v]"
  have c: "clear_range s (faddr b f) (length ?bs)"
    using field_range [OF assms, of f] by (simp add: numeral_eq_Suc)
  have d: "data_range s (faddr b f) (length ?bs)" using c by (simp add: clear_range_def)
  have wf: "vm_wf s" using assms(1) by (simp add: heap_ok_def)
  note w = stn_vm_wf [OF wf c]
  show "heap_ok (fset s b f v)"
    using assms(1) w(1) clear_range_stn [OF d] unfolding heap_ok_def fset_fields
    by (simp add: fset_stn)
  show "used_set (fset s b f v) = used_set s" using w(2) by (simp add: fset_stn)
  show "stack_top (fset s b f v) = stack_top s" by (simp add: fset_stn)
qed

lemma wr_field:
  "heap_ok s \<Longrightarrow> hin s b \<Longrightarrow> wr32 s (faddr b f) v = Some (fset s b f v)"
  using field_range [of s b f] by (simp add: fset_def clear_range_def wr32_data)

lemma fget_fset:
  assumes ok: "heap_ok s" and H: "headers s H" "b \<in> H" "c \<in> H"
  shows "fget (fset s b f v) c g = (if c = b \<and> g = f then Some v else fget s c g)"
proof -
  have h: "hin s b" "hin s c" using H by (auto simp: headers_def)
  note u = unat_faddr [OF ok h(1), of f] unat_faddr [OF ok h(2), of g]
  have d: "data_range s (faddr b f) 4" using field_range [OF ok h(1)] by (simp add: clear_range_def)
  have e: "unat b + 20 < 4294967296" "unat c + 20 < 4294967296"
    using h ok by (auto simp: hin_def heap_ok_def)
  show ?thesis
  proof (cases "c = b \<and> g = f")
    case True
    then show ?thesis using d by (simp add: fget_def fset_def rd32_st32)
  next
    case False
    have "sep (faddr b f) 4 (faddr c g) 4"
    proof (cases "c = b")
      case True
      then have "g \<noteq> f" using False by simp
      then show ?thesis using foff_sep [of g f] True u e foff_less [of f] foff_less [of g]
        unfolding sep_def u by auto
    next
      case cb: False
      then have "sep b 20 c 20" using H by (auto simp: headers_def)
      then show ?thesis using foff_less [of f] foff_less [of g] unfolding sep_def u by auto
    qed
    moreover have "unshadowed s (faddr c g) 4"
      using field_range [OF ok h(2)] by (simp add: clear_range_def)
    ultimately have "rd32 (st32 s (faddr b f) v) (faddr c g) = rd32 s (faddr c g)" by (intro rd32_sep(2) [OF d])
    then show ?thesis using False unfolding fget_def fset_def by (simp only: if_False)
  qed
qed

text \<open>What a sequence of header stores leaves alone.\<close>

definition only_hdrs :: "'a kheap_scheme \<Rightarrow> u32 set \<Rightarrow> 'a kheap_scheme \<Rightarrow> bool" where
  "only_hdrs s H s' \<longleftrightarrow>
     (\<exists>r. s' = s\<lparr>ram := r\<rparr>) \<and> heap_ok s' \<and> used_set s' = used_set s \<and> data_range s' = data_range s \<and>
     (\<forall>b. \<not> shadow s b \<and> (\<forall>h\<in>H. 20 \<le> unat (b - h)) \<longrightarrow> rd8 s' b = rd8 s b)"

lemma only_hdrs_refl: "heap_ok s \<Longrightarrow> only_hdrs s H s"
  unfolding only_hdrs_def by (intro conjI exI [of _ "ram s"]) simp_all

lemma only_hdrs_fset:
  assumes o: "only_hdrs s H s1" and h: "headers s H" "b \<in> H"
  shows "only_hdrs s H (fset s1 b f v)"
proof -
  have ok: "heap_ok s1" and r1: "\<exists>r. s1 = s\<lparr>ram := r\<rparr>" using o by (auto simp: only_hdrs_def)
  have hi: "hin s1 b" using h r1 by (auto simp: headers_def hin_def heap_end_def)
  let ?bs = "[byte_of 0 v, byte_of 1 v, byte_of 2 v, byte_of 3 v]"
  have c: "clear_range s1 (faddr b f) (length ?bs)" "data_range s1 (faddr b f) (length ?bs)"
    using field_range [OF ok hi, of f] by (simp_all add: clear_range_def numeral_eq_Suc)
  have sh: "shadow s1 = shadow s" using r1 by (auto intro: shadow_eq)
  have "rd8 (fset s1 b f v) x = rd8 s1 x" if x: "\<not> shadow s x" "\<forall>h\<in>H. 20 \<le> unat (x - h)" for x
  proof -
    have "20 \<le> unat (x - b)" using x(2) h(2) by blast
    moreover have "unat (x - b) = unat (x - faddr b f) + foff f" if "unat (x - faddr b f) < 4"
    proof -
      have k: "unat (word_of_nat (foff f) :: u32) = foff f" by (cases f) simp_all
      have "unat (x - b) = unat ((x - faddr b f) + word_of_nat (foff f))" by (simp add: faddr_def)
      also have "\<dots> = unat (x - faddr b f) + unat (word_of_nat (foff f) :: u32)"
        using that foff_less [of f] k by (intro unat_add_small) simp
      finally show ?thesis by (simp only: k)
    qed
    ultimately have "\<not> unat (x - faddr b f) < length ?bs" using foff_less [of f] by force
    then show ?thesis unfolding fset_stn using c x(1) sh by (subst rd8_stn) simp_all
  qed
  moreover have "\<exists>r. fset s1 b f v = s\<lparr>ram := r\<rparr>" using r1 by (auto simp: fset_stn stn_def)
  moreover have "data_range (fset s1 b f v) = data_range s1" unfolding fset_stn by (rule data_range_stn [OF c(2)])
  ultimately show ?thesis
    using o fset_ok [OF ok hi, of f v] unfolding only_hdrs_def by simp
qed

lemma only_hdrs_fields:
  assumes "only_hdrs s H s'"
  shows "heap_ok s'" "headers s' = headers s" "hin s' = hin s" "heap_start s' = heap_start s"
    "heap_size s' = heap_size s" "heap_end s' = heap_end s" "first_blk s' = first_blk s"
    "min_heap_size s' = min_heap_size s"
  using assms by (auto simp: only_hdrs_def headers_def hin_def heap_end_def fun_eq_iff)

text \<open>The laws in the form the component proofs rewrite with, for a state that differs in headers only.\<close>

lemma hdr_laws:
  assumes "only_hdrs s H s1" and "headers s H" and "b \<in> H"
  shows "rd32 s1 (faddr b f) = fget s1 b f"
    and "wr32 s1 (faddr b f) v = Some (fset s1 b f v)"
    and "c \<in> H \<Longrightarrow> fget (fset s1 c g v) b f = (if b = c \<and> f = g then Some v else fget s1 b f)"
    and "only_hdrs s H (fset s1 b f v)"
proof -
  note fl = only_hdrs_fields [OF assms(1)]
  have H: "headers s1 H" using assms(2) fl(2) by simp
  show "rd32 s1 (faddr b f) = fget s1 b f" by (simp add: fget_def)
  show "wr32 s1 (faddr b f) v = Some (fset s1 b f v)"
    using assms(2,3) fl by (intro wr_field) (auto simp: headers_def)
  show "c \<in> H \<Longrightarrow> fget (fset s1 c g v) b f = (if b = c \<and> f = g then Some v else fget s1 b f)"
    using fget_fset [OF fl(1) H] assms(3) by blast
  show "only_hdrs s H (fset s1 b f v)" by (rule only_hdrs_fset [OF assms])
qed

section \<open>The block list\<close>

type_synonym blk = "u32 \<times> u32 \<times> bool"

fun fst_addr :: "blk list \<Rightarrow> u32 \<Rightarrow> u32" where
  "fst_addr [] n = n"
| "fst_addr ((a, z, f) # bs) n = a"

fun lst_addr :: "u32 \<Rightarrow> blk list \<Rightarrow> u32" where
  "lst_addr p [] = p"
| "lst_addr p ((a, z, f) # bs) = lst_addr a bs"

definition addrs :: "blk list \<Rightarrow> u32 set" where
  "addrs bs = fst ` set bs"

definition hdr :: "'a kheap_scheme \<Rightarrow> u32 \<Rightarrow> bool \<Rightarrow> u32 \<Rightarrow> u32 \<Rightarrow> u32 \<Rightarrow> bool" where
  "hdr s a f n p z \<longleftrightarrow>
     fget s a FFree = Some (if f then MBLKFREE else MBLKINUSE) \<and>
     (fget s a FMagic = Some 0xdeadbeef \<or> fget s a FMagic = Some 0xb00bbabe) \<and>
     fget s a FNext = Some n \<and> fget s a FPrev = Some p \<and> fget s a FSize = Some z"

text \<open>The linked list from the block after \<open>p\<close> up to \<open>n\<close>.\<close>

fun seg :: "'a kheap_scheme \<Rightarrow> u32 \<Rightarrow> blk list \<Rightarrow> u32 \<Rightarrow> bool" where
  "seg s p [] n \<longleftrightarrow> True"
| "seg s p ((a, z, f) # bs) n \<longleftrightarrow> hdr s a f (fst_addr bs n) p z \<and> seg s a bs n"

text \<open>The blocks in address order, without overlap (there may be gaps), between \<open>lo\<close> and \<open>hi\<close>.\<close>

fun laid :: "nat \<Rightarrow> blk list \<Rightarrow> nat \<Rightarrow> bool" where
  "laid lo [] hi \<longleftrightarrow> lo \<le> hi"
| "laid lo ((a, z, f) # bs) hi \<longleftrightarrow> lo \<le> unat a \<and> laid (unat a + 20 + unat z) bs hi"

fun stop :: "nat \<Rightarrow> blk list \<Rightarrow> nat" where
  "stop lo [] = lo"
| "stop lo ((a, z, f) # bs) = stop (unat a + 20 + unat z) bs"

definition heap_inv :: "'a kheap_scheme \<Rightarrow> blk list \<Rightarrow> bool" where
  "heap_inv s bs \<longleftrightarrow>
     heap_ok s \<and> pgoff (heap_start s) = 0 \<and> pgoff (heap_size s) = 0 \<and>
     laid (unat (heap_start s)) bs (heap_end s) \<and> seg s 0 bs 0 \<and> first_blk s = fst_addr bs 0"

lemma fst_addr_append: "fst_addr (xs @ ys) n = fst_addr xs (fst_addr ys n)"
  by (cases xs) auto

lemma lst_addr_append [simp]: "lst_addr p (xs @ [(a, z, f)]) = a"
  by (induction p xs rule: lst_addr.induct) auto

lemma seg_append: "seg s p (xs @ ys) n \<longleftrightarrow> seg s p xs (fst_addr ys n) \<and> seg s (lst_addr p xs) ys n"
  by (induction s p xs n rule: seg.induct) (auto simp: fst_addr_append)

lemma laid_append: "laid lo (xs @ ys) hi \<longleftrightarrow> laid lo xs (stop lo xs) \<and> laid (stop lo xs) ys hi"
  by (induction lo xs hi rule: laid.induct) auto

lemma laid_le: "laid lo bs hi \<Longrightarrow> lo \<le> hi"
  by (induction lo bs hi rule: laid.induct) auto

lemma laid_mono: "laid lo bs hi \<Longrightarrow> lo' \<le> lo \<Longrightarrow> hi \<le> hi' \<Longrightarrow> laid lo' bs hi'"
  by (induction lo bs hi arbitrary: lo' rule: laid.induct) auto

lemma laid_bounds: "laid lo bs hi \<Longrightarrow> (a, z, f) \<in> set bs \<Longrightarrow> lo \<le> unat a \<and> unat a + 20 + unat z \<le> hi"
  by (induction lo bs hi rule: laid.induct) (auto dest: laid_le)

lemma laid_sep:
  "laid lo bs hi \<Longrightarrow> (a, z, f) \<in> set bs \<Longrightarrow> (b, y, g) \<in> set bs \<Longrightarrow>
    (a, z, f) = (b, y, g) \<or> unat a + 20 + unat z \<le> unat b \<or> unat b + 20 + unat y \<le> unat a"
proof (induction lo bs hi rule: laid.induct)
  case (2 lo a' z' f' bs hi)
  have "unat a' + 20 + unat z' \<le> unat c" if "(c, w, h) \<in> set bs" for c w h
    using "2.prems"(1) laid_bounds [OF _ that] by auto
  then show ?case using 2 by fastforce
qed simp

lemma laid_headers:
  assumes "laid (unat (heap_start s)) bs (heap_end s)" and "heap_end s < 4294967296"
  shows "headers s (addrs bs)"
  unfolding headers_def
proof (intro ballI conjI impI)
  fix b assume "b \<in> addrs bs"
  then obtain z f where b: "(b, z, f) \<in> set bs" by (auto simp: addrs_def)
  note bb = laid_bounds [OF assms(1) b]
  show "hin s b" using bb by (simp add: hin_def)
  fix c assume "c \<in> addrs bs" "c \<noteq> b"
  then obtain y g where c: "(c, y, g) \<in> set bs" by (auto simp: addrs_def)
  show "sep b 20 c 20"
    using laid_sep [OF assms(1) b c] \<open>c \<noteq> b\<close> bb laid_bounds [OF assms(1) c] assms(2)
    by (auto simp: sep_def)
qed

lemma seg_cong:
  "(\<And>b g. b \<in> addrs bs \<Longrightarrow> fget s' b g = fget s b g) \<Longrightarrow> seg s' p bs n = seg s p bs n"
  by (induction s p bs n rule: seg.induct) (auto simp: hdr_def addrs_def)

end
