(* ===== verification/KHeapOps.thy ===== *)
theory KHeapOps
  imports KHeap
begin

text \<open>
  The heap operations against the abstract heap: cutting a block, first fit, joining on
  release, and growth.
\<close>

section \<open>Cutting a block\<close>

text \<open>What becomes of a free block of size \<open>z\<close> at \<open>a\<close> that is given away for \<open>len\<close> bytes.\<close>

definition carve :: "u32 \<Rightarrow> u32 \<Rightarrow> u32 \<Rightarrow> blk list" where
  "carve a z len =
     (if 256 + unat len + 20 < unat z
      then [(a, len, False), (a + 20 + len, z - 20 - len, True)] else [(a, z, False)])"

lemma split_fields:
  fixes s :: "'a kheap_scheme"
  assumes ok: "heap_ok s" and hs: "headers s H" and mem: "a \<in> H" "sq \<in> H" "n \<noteq> 0 \<Longrightarrow> n \<in> H"
    and d: "sq = a + 20 + len" "a \<noteq> sq" "n \<noteq> a" "n \<noteq> sq" and h: "hdr s a f n p z"
    and big: "256 + len + 20 < z"
  obtains s' where "split_block s a len = Some s'" and "only_hdrs s H s'"
    and "\<And>b g. b \<in> H \<Longrightarrow> fget s' b g =
      (if b = sq then Some (case g of FFree \<Rightarrow> MBLKFREE | FMagic \<Rightarrow> 0xb00bbabe | FNext \<Rightarrow> n
          | FPrev \<Rightarrow> a | FSize \<Rightarrow> z - 20 - len)
       else if b = a \<and> g = FNext then Some sq else if b = a \<and> g = FSize then Some len
       else if n \<noteq> 0 \<and> b = n \<and> g = FPrev then Some sq else fget s b g)"
proof -
  define s5 where "s5 = fset (fset (fset (fset (fset s sq FSize (z - 20 - len)) sq FFree MBLKFREE)
      sq FMagic 0xb00bbabe) sq FNext n) sq FPrev a"
  define s6 where "s6 = (if n \<noteq> 0 then fset s5 n FPrev sq else s5)"
  define s' where "s' = fset (fset s6 a FNext sq) a FSize len"
  note L = hdr_laws [where s = s and H = H, OF _ hs]
  have o0: "only_hdrs s H s" by (rule only_hdrs_refl [OF ok])
  have o5: "only_hdrs s H s5" unfolding s5_def by (intro L(4) o0 mem)
  have o6: "only_hdrs s H s6" unfolding s6_def using o5 mem(3) by (simp add: L(4))
  have o': "only_hdrs s H s'" unfolding s'_def by (intro L(4) o6 mem)
  have f5: "fget s5 b g = (if b = sq then Some (case g of FFree \<Rightarrow> MBLKFREE | FMagic \<Rightarrow> 0xb00bbabe | FNext \<Rightarrow> n
          | FPrev \<Rightarrow> a | FSize \<Rightarrow> z - 20 - len) else fget s b g)" if b: "b \<in> H" for b g
    unfolding s5_def using mem(2) by (cases g) (simp_all add: L(3) L(4) o0 b)
  have f6: "fget s6 b g = (if n \<noteq> 0 \<and> b = n \<and> g = FPrev then Some sq else fget s5 b g)" if b: "b \<in> H" for b g
    unfolding s6_def using mem(3) by (simp add: L(3) o5 b)
  have f': "fget s' b g = (if b = a \<and> g = FNext then Some sq else if b = a \<and> g = FSize then Some len
      else fget s6 b g)" if b: "b \<in> H" for b g
    unfolding s'_def using mem(1) by (simp add: L(3) L(4) o6 b)
  have hz: "fget s a FSize = Some z" "fget s a FNext = Some n" using h by (simp_all add: hdr_def)
  have a5: "fget s5 a FNext = Some n" using f5 [OF mem(1)] d(2) hz by simp
  have a3: "fget (fset (fset (fset s sq FSize (z - 20 - len)) sq FFree MBLKFREE) sq FMagic 0xb00bbabe) a FNext = Some n"
    using d(2) hz mem by (simp add: L(3) L(4) o0)
  have r: "rd32 s (faddr a FSize) = Some z" using hz(1) by (simp add: fget_def)
  have w: "wr32 s1 (faddr b g) v = Some (fset s1 b g v)" if "only_hdrs s H s1" "b \<in> H" for s1 b g v
    using L(2) that by blast
  have "split_block s a len = Some s'"
    unfolding split_block_def blk_faddr hdr_size_def Let_def r bind.bind_lunit
    using big o5 o6 o0 mem a3 a5 L(4) d(1)
    by (simp add: w fget_def s5_def s6_def s'_def)
  moreover have "fget s' b g =
      (if b = sq then Some (case g of FFree \<Rightarrow> MBLKFREE | FMagic \<Rightarrow> 0xb00bbabe | FNext \<Rightarrow> n
          | FPrev \<Rightarrow> a | FSize \<Rightarrow> z - 20 - len)
       else if b = a \<and> g = FNext then Some sq else if b = a \<and> g = FSize then Some len
       else if n \<noteq> 0 \<and> b = n \<and> g = FPrev then Some sq else fget s b g)" if "b \<in> H" for b g
    unfolding f' [OF that] f6 [OF that] f5 [OF that] using d(2-4) by auto
  ultimately show ?thesis using o' that by blast
qed

lemma addrs_append [simp]: "addrs (xs @ ys) = addrs xs \<union> addrs ys"
  by (auto simp: addrs_def)

lemma addrs_Cons [simp]: "addrs ((a, z, f) # bs) = insert a (addrs bs)"
  by (auto simp: addrs_def)

lemma addrs_Nil [simp]: "addrs [] = {}"
  by (simp add: addrs_def)

lemma fst_addr_in: "bs \<noteq> [] \<Longrightarrow> fst_addr bs n \<in> addrs bs"
  by (cases bs) auto

lemma lst_addr_in: "bs \<noteq> [] \<Longrightarrow> lst_addr p bs \<in> addrs bs"
  by (induction p bs rule: lst_addr.induct) (auto, (case_tac bs; auto))

lemma laid_stop: "laid lo bs hi \<Longrightarrow> stop lo bs \<le> hi \<and> lo \<le> stop lo bs"
  by (induction lo bs rule: stop.induct) auto

text \<open>In a laid out list each address occurs once.\<close>

lemma laid_distinct: "laid lo bs hi \<Longrightarrow> distinct (map fst bs)"
proof (induction lo bs hi rule: laid.induct)
  case (2 lo a z f bs hi)
  then show ?case by (auto dest!: laid_bounds)
qed simp

lemma laid_pos: "laid lo bs hi \<Longrightarrow> 0 < lo \<Longrightarrow> 0 \<notin> addrs bs"
proof
  assume l: "laid lo bs hi" "0 < lo" and "0 \<in> addrs bs"
  then obtain z f where "(0, z, f) \<in> set bs" by (auto simp: addrs_def)
  then have "lo \<le> unat (0 :: u32)" using laid_bounds [OF l(1)] by blast
  then show False using l(2) by simp
qed

lemma laid_carve:
  assumes l: "laid lo (pre @ (a, z, f) # post) hi" and hi: "hi < 4294967296" and fit: "len \<le> z"
  shows "laid lo (pre @ carve a z len @ post) hi"
proof (cases "256 + unat len + 20 < unat z")
  case True
  have b: "unat a + 20 + unat z \<le> hi" using laid_bounds [OF l, of a z f] by simp
  have sq: "unat (a + 20 + len) = unat a + 20 + unat len"
    using b hi True by (simp add: unat_add_small)
  have sz: "unat (z - 20 - len) = unat z - 20 - unat len"
  proof -
    have z20: "unat (z - 20) = unat z - 20" using True by (simp add: unat_sub word_le_nat_alt)
    then show ?thesis using True by (simp add: unat_sub word_le_nat_alt)
  qed
  have "unat (a + 20 + len) + 20 + unat (z - 20 - len) = unat a + 20 + unat z"
    using True by (simp add: sq sz)
  then have "laid (unat (a + 20 + len) + 20 + unat (z - 20 - len)) post hi"
    using l by (simp only: laid_append laid.simps)
  moreover have "unat a + 20 + unat len \<le> unat (a + 20 + len)" by (simp add: sq)
  ultimately show ?thesis
    using l True by (simp only: carve_def if_True laid_append laid.simps append.simps)
next
  case False
  then show ?thesis using l by (simp add: carve_def laid_append)
qed

text \<open>The cut, on the block list; the block is then marked as in use.\<close>

lemma carve_spec:
  fixes s :: "'a kheap_scheme"
  assumes inv: "heap_inv s (pre @ (a, z, f) # post)" and fit: "len \<le> z"
  obtains s1 where "split_block s a len = Some s1"
    and "wr32 s1 (blk_free a) MBLKINUSE = Some (fset s1 a FFree MBLKINUSE)"
    and "heap_inv (fset s1 a FFree MBLKINUSE) (pre @ carve a z len @ post)"
    and "only_hdrs s (addrs (pre @ carve a z len @ post)) (fset s1 a FFree MBLKINUSE)"
proof -
  let ?bs = "pre @ (a, z, f) # post" and ?bs' = "pre @ carve a z len @ post"
  let ?H = "addrs ?bs'"
  have ok: "heap_ok s" and l: "laid (unat (heap_start s)) ?bs (heap_end s)" and hi: "heap_end s < 4294967296"
    and sg: "seg s 0 ?bs 0" and fb: "first_blk s = fst_addr ?bs 0" and lo: "0 < unat (heap_start s)"
    using inv by (auto simp: heap_inv_def heap_ok_def)
  have l': "laid (unat (heap_start s)) ?bs' (heap_end s)" by (rule laid_carve [OF l hi fit])
  have hs: "headers s ?H" by (rule laid_headers [OF l' hi])
  have aH: "a \<in> ?H" by (simp add: carve_def)
  define n where "n = fst_addr post 0"
  define p where "p = lst_addr 0 pre"
  have seg: "seg s 0 pre a" "hdr s a f n p z" "seg s a post 0"
    using sg by (auto simp: seg_append n_def p_def)
  have dist: "distinct (map fst ?bs')" by (rule laid_distinct [OF l'])
  have z0: "0 \<notin> ?H" by (rule laid_pos [OF l' lo])
  note L = hdr_laws [where s = s and H = ?H, OF _ hs]
  note result = that
  have fin: thesis if sp: "split_block s a len = Some s1" and o1: "only_hdrs s ?H s1"
    and sg1: "seg (fset s1 a FFree MBLKINUSE) 0 ?bs' 0" for s1
  proof -
    have o2: "only_hdrs s ?H (fset s1 a FFree MBLKINUSE)" by (rule L(4) [OF o1 aH])
    have "first_blk s = fst_addr ?bs' 0" using fb by (cases pre) (auto simp: carve_def)
    then have "heap_inv (fset s1 a FFree MBLKINUSE) ?bs'"
      using inv l' sg1 only_hdrs_fields [OF o2] unfolding heap_inv_def by simp
    then show thesis
      using result [OF sp] o2 L(2) [OF o1 aH, of FFree MBLKINUSE] by (simp only: blk_faddr)
  qed
  show ?thesis
  proof (cases "256 + unat len + 20 < unat z")
    case False
    have z32: "unat z + 4096 < 4294967296"
      using laid_bounds [OF l, of a z f] hi ok by (simp add: heap_ok_def)
    have "\<not> 256 + len + 20 < z"
    proof -
      have "unat len \<le> unat z" using fit by (simp add: word_le_nat_alt)
      then have "unat (256 + len + 20) = 256 + unat len + 20" using z32 by (simp add: unat_add_small)
      then show ?thesis using False by (simp add: word_less_nat_alt)
    qed
    then have sp: "split_block s a len = Some s"
      using seg(2) by (simp add: split_block_def blk_faddr hdr_def fget_def hdr_size_def)
    have c: "carve a z len = [(a, z, False)]" using False by (simp add: carve_def)
    have o0: "only_hdrs s ?H s" by (rule only_hdrs_refl [OF ok])
    let ?s = "fset s a FFree MBLKINUSE"
    have fg: "fget ?s b g = (if b = a \<and> g = FFree then Some MBLKINUSE else fget s b g)" if "b \<in> ?H" for b g
      using L(3) [OF o0 that aH] by simp
    have na: "a \<notin> addrs pre" "a \<notin> addrs post" using dist c by (auto simp: addrs_def)
    have "seg ?s 0 pre a"
      using seg(1) na(1) by (subst seg_cong [where s = s]) (auto simp: fg)
    moreover have "seg ?s a post 0"
      using seg(3) na(2) by (subst seg_cong [where s = s]) (auto simp: fg)
    moreover have "hdr ?s a False n p z" using seg(2) by (simp add: hdr_def fg [OF aH])
    ultimately have "seg ?s 0 ?bs' 0" by (simp add: seg_append c n_def p_def)
    then show ?thesis by (rule fin [OF sp o0])
  next
    case True
    let ?sq = "a + 20 + len"
    have c: "carve a z len = [(a, len, False), (?sq, z - 20 - len, True)]" using True by (simp add: carve_def)
    have big: "256 + len + 20 < z"
    proof -
      have "unat (256 + len + 20) = 256 + unat len + 20" using True u32_less [of z] by (simp add: unat_add_small)
      then show ?thesis using True by (simp add: word_less_nat_alt)
    qed
    have mem: "?sq \<in> ?H" by (simp add: c)
    have nH: "n \<in> addrs post" if "n \<noteq> 0" using that fst_addr_in [of post 0] by (cases post) (auto simp: n_def)
    have na: "a \<notin> addrs pre" "a \<notin> addrs post" "?sq \<notin> addrs pre" "?sq \<notin> addrs post" "a \<noteq> ?sq"
      "addrs pre \<inter> addrs post = {}"
      using dist c by (auto simp: addrs_def)
    have d: "n \<noteq> a" "n \<noteq> ?sq"
      using nH na z0 aH mem by (cases "n = 0", auto)+
    obtain s1 where s1: "split_block s a len = Some s1" "only_hdrs s ?H s1"
      and f1: "\<And>b g. b \<in> ?H \<Longrightarrow> fget s1 b g =
      (if b = ?sq then Some (case g of FFree \<Rightarrow> MBLKFREE | FMagic \<Rightarrow> 0xb00bbabe | FNext \<Rightarrow> n
          | FPrev \<Rightarrow> a | FSize \<Rightarrow> z - 20 - len)
       else if b = a \<and> g = FNext then Some ?sq else if b = a \<and> g = FSize then Some len
       else if n \<noteq> 0 \<and> b = n \<and> g = FPrev then Some ?sq else fget s b g)"
      using split_fields [OF ok hs aH mem _ refl na(5) d seg(2) big] nH by auto
    let ?s = "fset s1 a FFree MBLKINUSE"
    have fg: "fget ?s b g = (if b = a \<and> g = FFree then Some MBLKINUSE else fget s1 b g)" if "b \<in> ?H" for b g
      using L(3) [OF s1(2) that aH] by simp
    have "seg ?s 0 pre a"
      using seg(1) na nH by (subst seg_cong [where s = s]) (auto simp: fg f1)
    moreover have "hdr ?s a False ?sq p len"
      using seg(2) na(5) d by (simp add: hdr_def fg [OF aH] f1 [OF aH])
    moreover have "hdr ?s ?sq True n a (z - 20 - len)"
      using na(5) by (simp add: hdr_def fg [OF mem] f1 [OF mem])
    moreover have "seg ?s ?sq post 0"
    proof (cases post)
      case (Cons x post')
      obtain b y g where x: "x = (b, y, g)" by (cases x)
      have nb: "n = b" by (simp add: n_def Cons x)
      have bH: "b \<in> ?H" "b \<noteq> 0" "b \<noteq> a" "b \<noteq> ?sq" using Cons x na z0 by auto
      have "b \<notin> addrs post'" using dist Cons x by (auto simp: addrs_def)
      then have "seg ?s b post' 0"
        using seg(3) na Cons x nb by (subst seg_cong [where s = s]) (auto simp: fg f1)
      moreover have "hdr ?s b g (fst_addr post' 0) ?sq y"
        using seg(3) Cons x bH nb by (simp add: hdr_def fg [OF bH(1)] f1 [OF bH(1)])
      ultimately show ?thesis by (simp add: Cons x)
    qed simp
    ultimately have "seg ?s 0 ?bs' 0" by (simp add: seg_append c n_def p_def)
    then show ?thesis by (rule fin [OF s1])
  qed
qed

section \<open>First fit\<close>

text \<open>The abstract allocation: the first free block that is large enough is cut.\<close>

fun fit :: "u32 \<Rightarrow> blk list \<Rightarrow> (u32 \<times> blk list) option" where
  "fit len [] = None"
| "fit len ((a, z, f) # bs) =
     (if f \<and> len \<le> z then Some (a, carve a z len @ bs)
      else map_option (\<lambda>(b, bs'). (b, (a, z, f) # bs')) (fit len bs))"

lemma fit_SomeD:
  "fit len bs = Some (a, bs') \<Longrightarrow>
    \<exists>pre z post. bs = pre @ (a, z, True) # post \<and> bs' = pre @ carve a z len @ post \<and> len \<le> z"
proof (induction len bs arbitrary: bs' rule: fit.induct)
  case (2 len b z f bs)
  show ?case
  proof (cases "f \<and> len \<le> z")
    case True
    then have "(b, z, f) # bs = [] @ (a, z, True) # bs \<and> bs' = [] @ carve a z len @ bs \<and> len \<le> z"
      using 2(2) by auto
    then show ?thesis by blast
  next
    case False
    then obtain bs1 where b: "fit len bs = Some (a, bs1)" "bs' = (b, z, f) # bs1"
      using 2(2) by auto
    then obtain pre y post where "bs = pre @ (a, y, True) # post" "bs1 = pre @ carve a y len @ post" "len \<le> y"
      using 2(1) False by blast
    then have "(b, z, f) # bs = ((b, z, f) # pre) @ (a, y, True) # post \<and>
        bs' = ((b, z, f) # pre) @ carve a y len @ post \<and> len \<le> y"
      using b(2) by simp
    then show ?thesis by blast
  qed
qed simp

lemma find_free_spec:
  assumes "seg s p bs 0" and "0 \<notin> addrs bs"
  shows "case fit len bs of
       Some (a, bs') \<Rightarrow> \<exists>q. find_free_loop s len (fst_addr bs 0) lst = Some (a, q)
     | None \<Rightarrow> find_free_loop s len (fst_addr bs 0) lst = Some (0, lst_addr lst bs)"
  using assms
proof (induction bs arbitrary: p lst)
  case Nil
  show ?case by (simp add: find_free_loop.simps)
next
  case (Cons x bs)
  obtain a z f where x: "x = (a, z, f)" by (cases x)
  have h: "rd32 s (faddr a FFree) = Some (if f then MBLKFREE else MBLKINUSE)"
    "rd32 s (faddr a FSize) = Some z" "rd32 s (faddr a FNext) = Some (fst_addr bs 0)"
    using Cons.prems(1) by (simp_all add: x hdr_def fget_def)
  have a0: "a \<noteq> 0" using Cons.prems(2) by (auto simp: x)
  have IH: "case fit len bs of
       Some (b, bs') \<Rightarrow> \<exists>q. find_free_loop s len (fst_addr bs 0) a = Some (b, q)
     | None \<Rightarrow> find_free_loop s len (fst_addr bs 0) a = Some (0, lst_addr a bs)"
    using Cons.prems by (intro Cons.IH) (auto simp: x)
  have step: "find_free_loop s len a lst =
      (if f \<and> len \<le> z then Some (a, lst) else find_free_loop s len (fst_addr bs 0) a)"
    using h a0 by (subst find_free_loop.simps) (simp add: blk_faddr MBLKFREE_def MBLKINUSE_def)
  show ?case
    using IH by (auto simp: x step split: option.splits)
qed

lemma kmalloc_fit:
  fixes s :: "'a kheap_scheme"
  assumes inv: "heap_inv s bs" and ne: "bs \<noteq> []" and fit: "fit ((l + 0xf) AND NOT 0xf) bs = Some (a, bs')"
  obtains s' where "kmalloc s l = Some (a + 20, s')" and "heap_inv s' bs'" and "only_hdrs s (addrs bs') s'"
proof -
  let ?len = "(l + 0xf) AND NOT 0xf"
  have sg: "seg s 0 bs 0" and fb: "first_blk s = fst_addr bs 0" and lo: "0 < unat (heap_start s)"
    and l: "laid (unat (heap_start s)) bs (heap_end s)"
    using inv by (auto simp: heap_inv_def heap_ok_def)
  have z0: "0 \<notin> addrs bs" by (rule laid_pos [OF l lo])
  have f0: "first_blk s \<noteq> 0" using fb fst_addr_in [OF ne, of 0] z0 by auto
  obtain pre z post where b: "bs = pre @ (a, z, True) # post" "bs' = pre @ carve a z ?len @ post" "?len \<le> z"
    using fit_SomeD [OF fit] by blast
  obtain q where ff: "find_free_loop s ?len (fst_addr bs 0) (first_blk s) = Some (a, q)"
    using find_free_spec [OF sg z0, of ?len "first_blk s"] fit by auto
  have a0: "a \<noteq> 0" using z0 b(1) by auto
  obtain s1 where s1: "split_block s a ?len = Some s1"
    "wr32 s1 (blk_free a) MBLKINUSE = Some (fset s1 a FFree MBLKINUSE)"
    "heap_inv (fset s1 a FFree MBLKINUSE) bs'" "only_hdrs s (addrs bs') (fset s1 a FFree MBLKINUSE)"
    using carve_spec [OF inv [unfolded b(1)] b(3)] unfolding b(2) by blast
  have "kmalloc s l = Some (a + 20, fset s1 a FFree MBLKINUSE)"
    using f0 ff a0 s1(1,2)
    by (subst kmalloc.simps) (simp add: Let_def find_free_block_def fb hdr_size_def)
  then show ?thesis using s1(3,4) that by blast
qed

text \<open>The data of a block is no part of a header.\<close>

lemma data_not_header:
  assumes l: "laid lo bs hi" and hi: "hi < 4294967296" and b: "(b, z, f) \<in> set bs" and h: "h \<in> addrs bs"
    and k: "k < unat z"
  shows "20 \<le> unat (b + 20 + word_of_nat k - h)"
proof -
  obtain y g where y: "(h, y, g) \<in> set bs" using h by (auto simp: addrs_def)
  note bb = laid_bounds [OF l b] laid_bounds [OF l y]
  have uk: "unat (word_of_nat k :: u32) = k"
    using k u32_less [of z] by (simp add: unat_of_nat)
  have u20: "unat (b + 20) = unat b + 20" using bb hi by (simp add: unat_add_small)
  have u: "unat (b + 20 + word_of_nat k) = unat b + 20 + k"
    using bb hi k uk u20 by (simp add: unat_add_small)
  show ?thesis
  proof (cases "unat h \<le> unat b")
    case True
    then show ?thesis unfolding unat_sub_if' u by simp
  next
    case False
    then have "(b, z, f) \<noteq> (h, y, g)" by auto
    then have "unat b + 20 + unat z \<le> unat h"
      using laid_sep [OF l b y] False by auto
    then show ?thesis unfolding unat_sub_if' u using k bb hi by simp
  qed
qed

lemma only_hdrs_data:
  assumes o: "only_hdrs s (addrs bs) s'" and l: "laid (unat (heap_start s')) bs (heap_end s')"
    and hi: "heap_end s' < 4294967296" and b: "(b, z, f) \<in> set bs"
  shows "rdn s' (b + 20) (unat z) = rdn s (b + 20) (unat z)"
proof -
  have "unat (heap_start s') \<le> unat (b + 20)" "unat (b + 20) + unat z \<le> heap_end s'"
    using laid_bounds [OF l b] hi by (auto simp: unat_add_small)
  then have "clear_range s' (b + 20) (unat z)" using only_hdrs_fields(1) [OF o] by (intro clear_sub)
  then have "data_range s (b + 20) (unat z)" using o by (simp add: only_hdrs_def clear_range_def)
  then have ns: "\<not> shadow s (b + 20 + word_of_nat k)" if "k < unat z" for k
    using that data_rangeD data_not_shadow by blast
  have "map (\<lambda>k. rd8 s' (b + 20 + word_of_nat k)) [0..<unat z] =
      map (\<lambda>k. rd8 s (b + 20 + word_of_nat k)) [0..<unat z]"
  proof (intro map_cong refl)
    fix k assume "k \<in> set [0..<unat z]"
    then have "\<forall>h\<in>addrs bs. 20 \<le> unat (b + 20 + word_of_nat k - h)"
      using data_not_header [OF l hi b] by auto
    moreover have "\<not> shadow s (b + 20 + word_of_nat k)" using ns \<open>k \<in> set [0..<unat z]\<close> by simp
    ultimately show "rd8 s' (b + 20 + word_of_nat k) = rd8 s (b + 20 + word_of_nat k)"
      using o unfolding only_hdrs_def by blast
  qed
  then show ?thesis by (simp only: rdn_rd8)
qed

lemma only_hdrs_data_pre:
  assumes o: "only_hdrs s (addrs bs) s'" and l: "laid (unat (heap_start s)) bs (heap_end s)"
    and hi: "heap_end s < 4294967296" and b: "(b, z, f) \<in> set bs"
  shows "rdn s' (b + 20) (unat z) = rdn s (b + 20) (unat z)"
  by (rule only_hdrs_data [OF o _ _ b]) (use l hi in \<open>simp_all add: only_hdrs_fields [OF o]\<close>)

end
