(* ===== verification/KHeapFree.thy ===== *)
theory KHeapFree
  imports KHeapOps
begin

text \<open>
  Release on the abstract heap: \<open>kfree\<close> joins the block with its free neighbours and keeps the
  heap invariant.
\<close>

section \<open>The abstract release\<close>

text \<open>
  A join adds the sizes of the data only: the twenty bytes of the header that disappears
  belong to no block afterwards.
\<close>

definition absorb_next :: "u32 \<Rightarrow> blk list \<Rightarrow> u32 \<times> blk list" where
  "absorb_next z post = (case post of (b, y, True) # post' \<Rightarrow> (z + y, post') | _ \<Rightarrow> (z, post))"

definition release_abs :: "blk list \<Rightarrow> u32 \<Rightarrow> u32 \<Rightarrow> blk list \<Rightarrow> blk list" where
  "release_abs pre a z post =
     (let (z1, post1) = absorb_next z post in
      if pre \<noteq> [] \<and> snd (snd (last pre))
      then butlast pre @ (fst (last pre), z1 + fst (snd (last pre)), True) # post1
      else pre @ (a, z1, True) # post1)"

section \<open>The steps of the code\<close>

text \<open>
  The state between the joins and the relinking: the list is linked, but for the back pointer
  of the block after \<open>c\<close>.
\<close>

definition half :: "'a kheap_scheme \<Rightarrow> blk list \<Rightarrow> u32 \<Rightarrow> u32 \<Rightarrow> bool \<Rightarrow> blk list \<Rightarrow> bool" where
  "half s pre c z f post \<longleftrightarrow>
     seg s 0 pre c \<and> hdr s c f (fst_addr post 0) (lst_addr 0 pre) z \<and> (\<exists>q. seg s q post 0)"

lemma half_seg: "half s pre c z f post \<longleftrightarrow>
    seg s 0 pre c \<and> hdr s c f (fst_addr post 0) (lst_addr 0 pre) z \<and>
    (case post of [] \<Rightarrow> True | (b, y, g) # post' \<Rightarrow> \<exists>q. hdr s b g (fst_addr post' 0) q y \<and> seg s b post' 0)"
  by (auto simp: half_def split: list.splits)

lemma seg_half: "seg s 0 (pre @ (a, z, f) # post) 0 \<Longrightarrow> half s pre a z f post"
  by (auto simp: half_def seg_append)

lemma relink_spec:
  assumes o: "only_hdrs s H s2" and hs: "headers s H"
    and sub: "addrs (pre @ (c, z, f) # post) \<subseteq> H" and z0: "0 \<notin> H"
    and dist: "distinct (map fst (pre @ (c, z, f) # post))" and half: "half s2 pre c z f post"
  obtains s' where "relink s2 c = Some s'" and "only_hdrs s H s'"
    and "seg s' 0 (pre @ (c, z, True) # post) 0"
proof -
  define n where "n = fst_addr post 0"
  define p where "p = lst_addr 0 pre"
  have cH: "c \<in> H" using sub by auto
  have nH: "n \<noteq> 0 \<Longrightarrow> n \<in> addrs post" using fst_addr_in [of post 0] by (cases post) (auto simp: n_def)
  have pH: "p \<noteq> 0 \<Longrightarrow> p \<in> addrs pre" using lst_addr_in [of pre 0] by (cases pre) (auto simp: p_def)
  have H: "n \<noteq> 0 \<Longrightarrow> n \<in> H" "p \<noteq> 0 \<Longrightarrow> p \<in> H" using nH pH sub by auto
  have c: "c \<notin> addrs pre" "c \<notin> addrs post" "addrs pre \<inter> addrs post = {}"
    using dist by (auto simp: addrs_def)
  have ne: "n \<noteq> c" "p \<noteq> c" using nH pH c z0 cH by auto
  note L = hdr_laws [where s = s and H = H, OF _ hs]
  define s3 where "s3 = (if n \<noteq> 0 then fset s2 n FPrev c else s2)"
  define s4 where "s4 = (if p \<noteq> 0 then fset s3 p FNext c else s3)"
  have o3: "only_hdrs s H s3" using o H by (simp add: s3_def L(4))
  have o4: "only_hdrs s H s4" using o3 H by (simp add: s4_def L(4))
  have f3: "fget s3 b g = (if n \<noteq> 0 \<and> b = n \<and> g = FPrev then Some c else fget s2 b g)" if "b \<in> H" for b g
    using that H o by (simp add: s3_def L(3))
  have f4: "fget s4 b g = (if p \<noteq> 0 \<and> b = p \<and> g = FNext then Some c else fget s3 b g)" if "b \<in> H" for b g
    using that H o3 by (simp add: s4_def L(3))
  let ?s = "fset s4 c FFree MBLKFREE"
  have f5: "fget ?s b g = (if b = c \<and> g = FFree then Some MBLKFREE else fget s4 b g)" if "b \<in> H" for b g
    using that cH o4 by (simp add: L(3))
  have h: "hdr s2 c f n p z" and sp: "seg s2 0 pre c" and sn: "\<exists>q. seg s2 q post 0"
    using half by (auto simp: half_def n_def p_def)
  have r: "rd32 s2 (faddr c FNext) = Some n" "rd32 s3 (faddr c FPrev) = Some p"
    using h f3 [OF cH, of FPrev] ne by (simp_all add: hdr_def fget_def)
  have w: "(if n \<noteq> 0 then wr32 s2 (faddr n FPrev) c else Some s2) = Some s3"
    "(if p \<noteq> 0 then wr32 s3 (faddr p FNext) c else Some s3) = Some s4"
    "wr32 s4 (faddr c FFree) MBLKFREE = Some ?s"
    using H cH L(2) [OF o] L(2) [OF o3] L(2) [OF o4] by (simp_all add: s3_def s4_def)
  have "relink s2 c = Some ?s"
    unfolding relink_def blk_faddr r(1) bind.bind_lunit w(1) r(2) w(2,3) by (rule refl)
  moreover have "only_hdrs s H ?s" by (rule L(4) [OF o4 cH])
  moreover have "seg ?s 0 pre c"
  proof -
    have pn: "fget s2 p FNext = Some c" if "p \<noteq> 0"
    proof -
      obtain pre' y g where pre: "pre = pre' @ [(p, y, g)]"
        using \<open>p \<noteq> 0\<close> by (cases pre rule: rev_cases) (auto simp: p_def)
      show ?thesis using sp by (simp add: pre seg_append hdr_def)
    qed
    have "fget ?s b g = fget s2 b g" if b: "b \<in> addrs pre" for b g
    proof -
      have bH: "b \<in> H" and "b \<noteq> c" using b sub c by auto
      moreover have "\<not> (n \<noteq> 0 \<and> b = n)" using nH c(3) b by auto
      ultimately show ?thesis using pn by (auto simp: f5 f4 f3)
    qed
    then show ?thesis using sp by (subst seg_cong [where s = s2]) auto
  qed
  moreover have "hdr ?s c True n p z"
    using h ne by (auto simp: hdr_def f5 [OF cH] f4 [OF cH] f3 [OF cH])
  moreover have "seg ?s c post 0"
  proof (cases post)
    case (Cons x post')
    obtain b y g where x: "x = (b, y, g)" by (cases x)
    have nb: "n = b" by (simp add: n_def Cons x)
    have bH: "b \<in> H" "b \<noteq> 0" "b \<noteq> c" using sub c z0 Cons x by auto
    have bp: "\<not> (p \<noteq> 0 \<and> b = p)" using pH c(3) Cons x by auto
    obtain q where q: "hdr s2 b g (fst_addr post' 0) q y" "seg s2 b post' 0"
      using sn by (auto simp: Cons x)
    have "hdr ?s b g (fst_addr post' 0) c y"
      using q(1) bH bp nb by (auto simp: hdr_def f5 [OF bH(1)] f4 [OF bH(1)] f3 [OF bH(1)])
    moreover have "fget ?s d k = fget s2 d k" if d: "d \<in> addrs post'" for d k
    proof -
      have "d \<in> H" "d \<noteq> c" "d \<noteq> b" using d sub c dist Cons x by (auto simp: addrs_def)
      moreover have "\<not> (p \<noteq> 0 \<and> d = p)" using pH c(3) d Cons x by auto
      ultimately show ?thesis using nb by (auto simp: f5 f4 f3)
    qed
    then have "seg ?s b post' 0" using q(2) by (subst seg_cong [where s = s2]) auto
    ultimately show ?thesis by (simp add: Cons x)
  qed simp
  ultimately show ?thesis using that [of ?s] by (simp add: seg_append n_def p_def)
qed

lemma seg_ran: "seg s p bs n \<Longrightarrow> seg s' p bs n" if "\<And>b g. b \<in> addrs bs \<Longrightarrow> fget s' b g = fget s b g"
  using seg_cong [OF that] by blast

lemma blk_is_free_hdr:
  assumes "b \<noteq> 0 \<Longrightarrow> hdr s b f n p z"
  shows "blk_is_free s b = Some (b \<noteq> 0 \<and> f)"
  using assms by (cases "b = 0") (auto simp: blk_is_free_def blk_faddr hdr_def fget_def MBLKFREE_def MBLKINUSE_def)

lemma join_next_spec:
  assumes ok: "heap_ok s" and hs: "headers s H" and sub: "addrs (pre @ (a, z, f) # post) \<subseteq> H"
    and z0: "0 \<notin> H" and dist: "distinct (map fst (pre @ (a, z, f) # post))" and half: "half s pre a z f post"
    and ab: "absorb_next z post = (z1, post1)"
  obtains s1 where "join_next s a (fst_addr post 0) = Some s1" and "only_hdrs s H s1"
    and "half s1 pre a z1 f post1"
proof -
  have o0: "only_hdrs s H s" by (rule only_hdrs_refl [OF ok])
  show ?thesis
  proof (cases "\<exists>b y post'. post = (b, y, True) # post'")
    case False
    have "blk_is_free s (fst_addr post 0) = Some False"
    proof (cases post)
      case Nil
      then show ?thesis by (simp add: blk_is_free_def)
    next
      case (Cons x post')
      obtain b y g where x: "x = (b, y, g)" by (cases x)
      have "\<not> g" using False Cons x by auto
      moreover obtain q where "hdr s b g (fst_addr post' 0) q y"
        using half Cons x by (auto simp: half_seg)
      ultimately show ?thesis using blk_is_free_hdr [of b s g] by (simp add: Cons x)
    qed
    moreover have "absorb_next z post = (z, post)"
      using False by (auto simp: absorb_next_def split: list.splits bool.splits)
    ultimately show ?thesis using that [OF _ o0] half ab by (simp add: join_next_def)
  next
    case True
    then obtain b y post' where post: "post = (b, y, True) # post'" by blast
    have e: "z1 = z + y" "post1 = post'" using ab by (auto simp: absorb_next_def post)
    obtain q where b: "hdr s b True (fst_addr post' 0) q y" "seg s b post' 0"
      using half by (auto simp: half_seg post)
    have h: "hdr s a f b (lst_addr 0 pre) z" and sp: "seg s 0 pre a"
      using half by (auto simp: half_seg post)
    have m: "a \<in> H" "b \<in> H" "b \<noteq> 0" using sub z0 post by auto
    have d: "a \<notin> addrs pre" "a \<notin> addrs post'" "a \<noteq> b" using dist by (auto simp: addrs_def post)
    note L = hdr_laws [where s = s and H = H, OF _ hs]
    let ?n = "fst_addr post' 0"
    let ?s = "fset (fset s a FNext ?n) a FSize (z + y)"
    have o1: "only_hdrs s H (fset s a FNext ?n)" by (rule L(4) [OF o0 m(1)])
    have o2: "only_hdrs s H ?s" by (rule L(4) [OF o1 m(1)])
    have w: "wr32 s (faddr a FNext) ?n = Some (fset s a FNext ?n)"
      "wr32 (fset s a FNext ?n) (faddr a FSize) (z + y) = Some ?s"
      by (rule L(2) [OF o0 m(1)], rule L(2) [OF o1 m(1)])
    have r: "rd32 s (faddr a FSize) = Some z" "rd32 s (faddr b FSize) = Some y" "rd32 s (faddr b FNext) = Some ?n"
      using h b(1) by (simp_all add: hdr_def fget_def)
    have fr: "blk_is_free s b = Some True" using blk_is_free_hdr [of b s True] b(1) m(3) by simp
    have "join_next s a (fst_addr post 0) = Some ?s"
      unfolding join_next_def blk_faddr post fst_addr.simps fr bind.bind_lunit if_True r w by (rule refl)
    moreover have fg: "fget ?s c g = (if c = a \<and> g = FSize then Some (z + y)
        else if c = a \<and> g = FNext then Some ?n else fget s c g)" if "c \<in> H" for c g
      using that m o0 o1 by (simp add: L(3))
    have "half ?s pre a z1 f post1"
      unfolding half_def e
    proof (intro conjI)
      show "seg ?s 0 pre a" using sp d(1) sub by (intro seg_ran [of pre ?s s]) (auto simp: fg)
      show "hdr ?s a f ?n (lst_addr 0 pre) (z + y)" using h by (simp add: hdr_def fg [OF m(1)])
      have "seg ?s b post' 0" using b(2) d(2) sub post by (intro seg_ran [of post' ?s s]) (auto simp: fg)
      then show "\<exists>q. seg ?s q post' 0" by blast
    qed
    ultimately show ?thesis using that o2 by blast
  qed
qed

lemma join_prev_spec:
  assumes o: "only_hdrs s H s1" and hs: "headers s H" and sub: "addrs (pre @ (a, z, f) # post) \<subseteq> H"
    and z0: "0 \<notin> H" and dist: "distinct (map fst (pre @ (a, z, f) # post))" and half: "half s1 pre a z f post"
  obtains s2 pre2 c z2 f2 where "join_prev s1 a (lst_addr 0 pre) = Some (c, s2)" and "only_hdrs s H s2"
    and "half s2 pre2 c z2 f2 post"
    and "pre2 @ (c, z2, True) # post =
      (if pre \<noteq> [] \<and> snd (snd (last pre))
       then butlast pre @ (fst (last pre), z + fst (snd (last pre)), True) # post
       else pre @ (a, z, True) # post)"
    and "addrs (pre2 @ (c, z2, f2) # post) \<subseteq> addrs (pre @ (a, z, f) # post)"
    and "distinct (map fst (pre2 @ (c, z2, f2) # post))"
proof -
  have h: "hdr s1 a f (fst_addr post 0) (lst_addr 0 pre) z" and sp: "seg s1 0 pre a"
    and sn: "\<exists>q. seg s1 q post 0"
    using half by (auto simp: half_def)
  show ?thesis
  proof (cases "pre \<noteq> [] \<and> snd (snd (last pre))")
    case False
    have "blk_is_free s1 (lst_addr 0 pre) = Some False"
    proof (cases pre rule: rev_cases)
      case Nil
      then show ?thesis by (simp add: blk_is_free_def)
    next
      case (snoc pre' x)
      obtain b y g where x: "x = (b, y, g)" by (cases x)
      have "\<not> g" using False snoc x by auto
      moreover have "hdr s1 b g a (lst_addr 0 pre') y"
        using sp snoc x by (auto simp: seg_append)
      ultimately show ?thesis using blk_is_free_hdr [of b s1 g] by (simp add: snoc x)
    qed
    then show ?thesis using that [of a s1 pre z f] False o half dist
      by (simp add: join_prev_def)
  next
    case True
    then obtain pre' p y where pre: "pre = pre' @ [(p, y, True)]"
      by (cases pre rule: rev_cases) auto
    have hp: "hdr s1 p True a (lst_addr 0 pre') y" and sp': "seg s1 0 pre' p"
      using sp by (auto simp: pre seg_append)
    have m: "a \<in> H" "p \<in> H" "p \<noteq> 0" using sub z0 pre by auto
    have d: "p \<notin> addrs pre'" "p \<notin> addrs post" "a \<noteq> p" using dist by (auto simp: addrs_def pre)
    note L = hdr_laws [where s = s and H = H, OF _ hs]
    let ?n = "fst_addr post 0"
    let ?s = "fset (fset s1 p FNext ?n) p FSize (z + y)"
    have o1: "only_hdrs s H (fset s1 p FNext ?n)" by (rule L(4) [OF o m(2)])
    have o2: "only_hdrs s H ?s" by (rule L(4) [OF o1 m(2)])
    have w: "wr32 s1 (faddr p FNext) ?n = Some (fset s1 p FNext ?n)"
      "wr32 (fset s1 p FNext ?n) (faddr p FSize) (z + y) = Some ?s"
      by (rule L(2) [OF o m(2)], rule L(2) [OF o1 m(2)])
    have r: "rd32 s1 (faddr a FSize) = Some z" "rd32 s1 (faddr p FSize) = Some y" "rd32 s1 (faddr a FNext) = Some ?n"
      using h hp by (simp_all add: hdr_def fget_def)
    have fr: "blk_is_free s1 p = Some True" using blk_is_free_hdr [of p s1 True] hp m(3) by simp
    have j: "join_prev s1 a (lst_addr 0 pre) = Some (p, ?s)"
      unfolding join_prev_def blk_faddr pre lst_addr_append fr bind.bind_lunit if_True r w by (rule refl)
    have fg: "fget ?s c g = (if c = p \<and> g = FSize then Some (z + y)
        else if c = p \<and> g = FNext then Some ?n else fget s1 c g)" if "c \<in> H" for c g
      using that m o o1 by (simp add: L(3))
    have half': "half ?s pre' p (z + y) True post"
      unfolding half_def
    proof (intro conjI)
      show "seg ?s 0 pre' p" using sp' d(1) sub pre by (intro seg_ran [of pre' ?s s1]) (auto simp: fg)
      show "hdr ?s p True ?n (lst_addr 0 pre') (z + y)" using hp by (simp add: hdr_def fg [OF m(2)])
      obtain q where "seg s1 q post 0" using sn by blast
      then have "seg ?s q post 0" using d(2) sub by (intro seg_ran [of post ?s s1]) (auto simp: fg)
      then show "\<exists>q. seg ?s q post 0" by blast
    qed
    show ?thesis
      by (rule that [OF j o2 half']) (use dist True in \<open>auto simp: pre\<close>)
  qed
qed

section \<open>Release\<close>

lemma laid_absorb:
  assumes l: "laid lo (pre @ (a, z, f) # post) hi" and hi: "hi < 4294967296"
    and ab: "absorb_next z post = (z1, post1)"
  shows "laid lo (pre @ (a, z1, g) # post1) hi" and "addrs (pre @ (a, z1, g) # post1) \<subseteq> addrs (pre @ (a, z, f) # post)"
proof -
  have "laid lo (pre @ (a, z1, g) # post1) hi \<and> addrs (pre @ (a, z1, g) # post1) \<subseteq> addrs (pre @ (a, z, f) # post)"
  proof (cases "\<exists>b y post'. post = (b, y, True) # post'")
    case True
    then obtain b y post' where post: "post = (b, y, True) # post'" by blast
    have e: "z1 = z + y" "post1 = post'" using ab by (auto simp: absorb_next_def post)
    have m: "laid lo pre (stop lo pre)" "stop lo pre \<le> unat a" "unat a + 20 + unat z \<le> unat b"
      "laid (unat b + 20 + unat y) post' hi"
      using l by (auto simp: laid_append post)
    have "unat b + 20 + unat y < 4294967296" using laid_le [OF m(4)] hi by simp
    then have "unat (z + y) = unat z + unat y" using m(3) by (simp add: unat_add_small)
    then have "laid (unat a + 20 + unat z1) post1 hi"
      using laid_mono [OF m(4), of "unat a + 20 + unat z1" hi] m(3) e by simp
    then show ?thesis using m(1,2) by (auto simp: laid_append e post)
  next
    case False
    then have "absorb_next z post = (z, post)"
      by (auto simp: absorb_next_def split: list.splits bool.splits)
    then show ?thesis using l ab by (simp add: laid_append)
  qed
  then show "laid lo (pre @ (a, z1, g) # post1) hi" and "addrs (pre @ (a, z1, g) # post1) \<subseteq> addrs (pre @ (a, z, f) # post)"
    by blast+
qed

lemma laid_release:
  assumes l: "laid lo (pre @ (a, z, f) # post) hi" and hi: "hi < 4294967296"
  shows "laid lo (release_abs pre a z post) hi"
proof -
  obtain z1 post1 where ab: "absorb_next z post = (z1, post1)" by (cases "absorb_next z post")
  have l1: "laid lo (pre @ (a, z1, True) # post1) hi" by (rule laid_absorb(1) [OF l hi ab])
  show ?thesis
  proof (cases "pre \<noteq> [] \<and> snd (snd (last pre))")
    case True
    then obtain pre' p y where pre: "pre = pre' @ [(p, y, True)]"
      by (cases pre rule: rev_cases) auto
    have ab': "absorb_next y ((a, z1, True) # post1) = (y + z1, post1)" by (simp add: absorb_next_def)
    have l2: "laid lo (pre' @ (p, y, True) # (a, z1, True) # post1) hi" using l1 by (simp add: pre)
    have "laid lo (pre' @ (p, y + z1, True) # post1) hi" by (rule laid_absorb(1) [OF l2 hi ab'])
    then show ?thesis by (simp add: release_abs_def ab pre add.commute)
  next
    case False
    then show ?thesis using l1 by (auto simp: release_abs_def ab)
  qed
qed

lemma release_spec:
  fixes s :: "'a kheap_scheme"
  assumes inv: "heap_inv s (pre @ (a, z, f) # post)"
  obtains s' where "release_block s a = Some s'" and "heap_inv s' (release_abs pre a z post)"
    and "only_hdrs s (addrs (pre @ (a, z, f) # post)) s'"
proof -
  let ?bs = "pre @ (a, z, f) # post" and ?bs' = "release_abs pre a z post"
  let ?H = "addrs ?bs"
  have ok: "heap_ok s" and l: "laid (unat (heap_start s)) ?bs (heap_end s)" and hi: "heap_end s < 4294967296"
    and sg: "seg s 0 ?bs 0" and fb: "first_blk s = fst_addr ?bs 0" and lo: "0 < unat (heap_start s)"
    using inv by (auto simp: heap_inv_def heap_ok_def)
  have hs: "headers s ?H" by (rule laid_headers [OF l hi])
  have dist: "distinct (map fst ?bs)" by (rule laid_distinct [OF l])
  have z0: "0 \<notin> ?H" by (rule laid_pos [OF l lo])
  have half: "half s pre a z f post" by (rule seg_half [OF sg])
  obtain z1 post1 where ab: "absorb_next z post = (z1, post1)" by (cases "absorb_next z post")
  obtain s1 where s1: "join_next s a (fst_addr post 0) = Some s1" "only_hdrs s ?H s1" "half s1 pre a z1 f post1"
    by (rule join_next_spec [OF ok hs order_refl z0 dist half ab])
  have sub1: "addrs (pre @ (a, z1, f) # post1) \<subseteq> ?H" by (rule laid_absorb(2) [OF l hi ab])
  have dist1: "distinct (map fst (pre @ (a, z1, f) # post1))"
    by (rule laid_distinct [OF laid_absorb(1) [OF l hi ab]])
  obtain s2 pre2 c z2 f2 where s2: "join_prev s1 a (lst_addr 0 pre) = Some (c, s2)" "only_hdrs s ?H s2"
    "half s2 pre2 c z2 f2 post1" and eq: "pre2 @ (c, z2, True) # post1 =
      (if pre \<noteq> [] \<and> snd (snd (last pre))
       then butlast pre @ (fst (last pre), z1 + fst (snd (last pre)), True) # post1
       else pre @ (a, z1, True) # post1)"
    and sub2: "addrs (pre2 @ (c, z2, f2) # post1) \<subseteq> addrs (pre @ (a, z1, f) # post1)"
    and dist2: "distinct (map fst (pre2 @ (c, z2, f2) # post1))"
    by (rule join_prev_spec [OF s1(2) hs sub1 z0 dist1 s1(3)])
  obtain s' where s': "relink s2 c = Some s'" "only_hdrs s ?H s'" "seg s' 0 (pre2 @ (c, z2, True) # post1) 0"
    using relink_spec [OF s2(2) hs _ z0 dist2 s2(3)] sub1 sub2 by blast
  have bs': "pre2 @ (c, z2, True) # post1 = ?bs'" by (simp add: eq release_abs_def ab)
  have "rd32 s (blk_next a) = Some (fst_addr post 0)" "rd32 s (blk_prev a) = Some (lst_addr 0 pre)"
    using half by (simp_all add: half_def hdr_def fget_def blk_faddr)
  then have "release_block s a = Some s'"
    using s1(1) s2(1) s'(1) by (simp add: release_block_def)
  moreover have "first_blk s = fst_addr ?bs' 0"
  proof (cases pre)
    case Nil
    then show ?thesis using fb by (simp add: release_abs_def ab)
  next
    case (Cons x xs)
    obtain b y g where x: "x = (b, y, g)" by (cases x)
    show ?thesis using fb by (cases xs) (auto simp: Cons x release_abs_def ab)
  qed
  then have "heap_inv s' ?bs'"
    using inv s'(3) laid_release [OF l hi] only_hdrs_fields [OF s'(2)] unfolding heap_inv_def bs' by simp
  ultimately show ?thesis using s'(2) that by blast
qed

lemma seg_member_valid:
  assumes "seg s p (pre @ (a, z, f) # post) n"
  shows "mblk_valid s a = Some True"
  using assms by (auto simp: seg_append hdr_def mblk_valid_def blk_faddr fget_def)

lemma kfree_spec:
  fixes s :: "'a kheap_scheme"
  assumes inv: "heap_inv s (pre @ (a, z, f) # post)"
  obtains s' where "kfree_with complain s (a + 20) = Some (STATUS_OK, s')"
    and "heap_inv s' (release_abs pre a z post)"
    and "only_hdrs s (addrs (pre @ (a, z, f) # post)) s'"
proof -
  obtain s' where s': "release_block s a = Some s'" "heap_inv s' (release_abs pre a z post)"
    "only_hdrs s (addrs (pre @ (a, z, f) # post)) s'"
    by (rule release_spec [OF inv])
  have l: "laid (unat (heap_start s)) (pre @ (a, z, f) # post) (heap_end s)" and hi: "heap_end s < 4294967296"
    using inv by (auto simp: heap_inv_def heap_ok_def)
  have "unat a + 20 + unat z \<le> heap_end s" using laid_bounds [OF l, of a z f] by simp
  then have "unat (a + 20) = unat a + 20" using hi by (simp add: unat_add_small)
  then have "a + 20 \<noteq> 0" by auto
  moreover have "mblk_valid s a = Some True"
    using inv by (intro seg_member_valid) (auto simp: heap_inv_def)
  ultimately have "kfree_with complain s (a + 20) = Some (STATUS_OK, s')"
    using s'(1) by (simp add: kfree_with_def hdr_size_def)
  then show ?thesis using s'(2,3) that by blast
qed

text \<open>The bytes of a heap that belong to the data of some block.\<close>

definition capacity :: "blk list \<Rightarrow> nat" where
  "capacity bs = (\<Sum>(a, z, f)\<leftarrow>bs. unat z)"

definition joins :: "blk list \<Rightarrow> blk list \<Rightarrow> nat" where
  "joins pre post = (if \<exists>b y post'. post = (b, y, True) # post' then 1 else 0) +
     (if pre \<noteq> [] \<and> snd (snd (last pre)) then 1 else 0)"

lemma length_release: "length (release_abs pre a z post) + joins pre post = length (pre @ (a, z, f) # post)"
  by (cases pre rule: rev_cases)
     (auto simp: release_abs_def joins_def absorb_next_def split: list.splits bool.splits)

end
