(* ===== verification/KHeapGrow.thy ===== *)
theory KHeapGrow
  imports KHeapFree
begin

text \<open>
  Growth of the heap through \<open>mmap\<close>, and \<open>kmalloc\<close> on every path of its code.
\<close>

section \<open>The new pages\<close>

lemma page_align:
  "x AND NOT 0xfff = mkaddr (page x) 0" "unat (x AND NOT 0xfff) = 4096 * (unat x div 4096)" for x :: u32
proof -
  have m: "(0xfff :: u32) = mask 12" by (simp add: mask_eq_exp_minus_1)
  show e: "x AND NOT 0xfff = mkaddr (page x) 0"
    unfolding m mkaddr_def page_def by (rule bit_word_eqI) (auto simp: bit_simps)
  have "unat x div 4096 * 4096 \<le> unat x" by simp
  then have "4096 * (unat x div 4096) < 4294967296" using u32_less [of x] by linarith
  then show "unat (x AND NOT 0xfff) = 4096 * (unat x div 4096)"
    unfolding e mkaddr_def by (simp add: push_bit_eq_mult unat_word_ariths unat_page mult.commute)
qed

lemma page_run:
  assumes "pgoff b = 0"
  shows "page (b + word_of_nat k) = page (nth_page b (k div 4096))"
proof -
  have k: "unat (word_of_nat (k mod 4096) :: u32) = k mod 4096"
    by (simp add: unat_of_nat)
  have "(word_of_nat k :: u32) = word_of_nat (4096 * (k div 4096) + k mod 4096)" by simp
  also have "\<dots> = 4096 * word_of_nat (k div 4096) + word_of_nat (k mod 4096)"
    by (simp only: of_nat_add of_nat_mult) simp
  finally have e: "b + word_of_nat k = nth_page b (k div 4096) + word_of_nat (k mod 4096)"
    by (simp add: nth_page_def add.assoc)
  have "unat (pgoff (nth_page b (k div 4096))) + unat (word_of_nat (k mod 4096) :: u32) < 4096"
    unfolding pgoff_nth_page k using assms by simp
  then show ?thesis unfolding e by (rule page_add)
qed

lemma npages_aligned:
  assumes "unat nb + 4095 < 4294967296" and "unat nb mod 4096 = 0"
  shows "npages nb = unat nb div 4096"
proof -
  have "unat (nb + 4095) = unat nb + 4095" using assms(1) by (simp add: unat_add_small)
  then have n: "npages nb = (unat nb + 4095) div 4096" by (simp add: npages_def unat_div)
  obtain q where q: "unat nb = 4096 * q" using assms(2) by (meson dvdE mod_0_imp_dvd)
  have "(4096 * q + 4095) div 4096 = q" by (rule div_nat_eqI) simp_all
  then show ?thesis unfolding n q by simp
qed

text \<open>What growth does to memory, before the new header is written.\<close>

definition grow_ok :: "'a kheap_scheme \<Rightarrow> u32 \<Rightarrow> nat set \<Rightarrow> nat \<Rightarrow> bool" where
  "grow_ok s sz U t \<longleftrightarrow>
     (let nb = (sz + 20 + 0x1000) AND NOT 0xfff in
      unat sz + 8212 < 4294967296 \<and> heap_end s + unat nb < 4294967296 \<and>
      (\<exists>w. mmap_ok s (heap_start s + heap_size s) nb w U t))"

definition grow_bytes :: "u32 \<Rightarrow> u32" where
  "grow_bytes sz = (sz + 20 + 0x1000) AND NOT 0xfff"

lemma grow_bytes_facts:
  assumes "unat sz + 8212 < 4294967296"
  shows "unat (grow_bytes sz) mod 4096 = 0" "unat sz + 20 < unat (grow_bytes sz)"
    "unat (grow_bytes sz) + 4095 < 4294967296" "pgoff (grow_bytes sz) = 0"
    "unat (grow_bytes sz) \<le> unat sz + 20 + 4096"
proof -
  have u: "unat (sz + 20 + 0x1000) = unat sz + 4116" using assms by (simp add: unat_add_small)
  have e: "unat (grow_bytes sz) = 4096 * ((unat sz + 4116) div 4096)"
    unfolding grow_bytes_def page_align(2) u by (rule refl)
  have d: "(unat sz + 4116) div 4096 * 4096 \<le> unat sz + 4116" "unat sz + 4116 < (unat sz + 4116) div 4096 * 4096 + 4096"
    using dividend_less_div_times [of 4096 "unat sz + 4116"] by simp_all
  show m: "unat (grow_bytes sz) mod 4096 = 0" unfolding e by simp
  show "unat sz + 20 < unat (grow_bytes sz)" "unat (grow_bytes sz) + 4095 < 4294967296"
    "unat (grow_bytes sz) \<le> unat sz + 20 + 4096"
    unfolding e using d assms by linarith+
  show "pgoff (grow_bytes sz) = 0" using m by (simp add: word_unat_eq_iff unat_pgoff)
qed

lemma data_walk: "vm_wf s \<Longrightarrow> data s b \<Longrightarrow> walk s b \<noteq> None"
  using data_trans [of s b] by (auto simp: vm_wf_def translate_walk)

lemma alloc_vaddr_bm: "bm_vaddr s b \<Longrightarrow> alloc_vaddr s b"
  by (auto simp: bm_vaddr_def alloc_vaddr_def)

text \<open>A range that is mapped by the new pages joins the heap region.\<close>

lemma grow_region:
  fixes s s1 :: "'a kheap_scheme"
  assumes ok: "heap_ok s" and al: "pgoff (heap_start s) = 0" "pgoff (heap_size s) = 0"
    and wf1: "vm_wf s1" and keep: "vm_keep s s1"
    and nb: "unat nb mod 4096 = 0" "heap_end s + unat nb < 4294967296"
    and new: "\<forall>k<unat nb div 4096. \<forall>a. page a = page (nth_page (heap_start s + heap_size s) k) \<longrightarrow>
        data s1 a \<and> walk s a = None"
  shows "heap_ok (s1\<lparr>heap_size := heap_size s + nb\<rparr>)"
    and "pgoff (heap_start s + heap_size s) = 0" and "pgoff (heap_size s + nb) = 0"
    and "unat (heap_start s + heap_size s) = heap_end s" and "unat (heap_size s + nb) = unat (heap_size s) + unat nb"
proof -
  let ?b = "heap_start s + heap_size s" and ?s = "s1\<lparr>heap_size := heap_size s + nb\<rparr>"
  have st: "phymm_static s" and wf: "vm_wf s" using ok by (auto simp: heap_ok_def vm_wf_def phymm_wf_def)
  show ub: "unat ?b = heap_end s" using ok by (simp add: heap_ok_def heap_end_def unat_add_small)
  show uh: "unat (heap_size s + nb) = unat (heap_size s) + unat nb"
    using nb(2) by (simp add: heap_end_def unat_add_small)
  have z: "unat (heap_start s) mod 4096 = 0" "unat (heap_size s) mod 4096 = 0"
    using al by (metis unat_pgoff unat_0)+
  have "unat (pgoff ?b) = 0" unfolding unat_pgoff ub heap_end_def using mod_add_eq [of "unat (heap_start s)" 4096 "unat (heap_size s)"] z by simp
  then show pb: "pgoff ?b = 0" by (simp add: word_unat_eq_iff)
  have "unat (pgoff (heap_size s + nb)) = 0" unfolding unat_pgoff uh using mod_add_eq [of "unat (heap_size s)" 4096 "unat nb"] z nb(1) by simp
  then show "pgoff (heap_size s + nb) = 0" by (simp add: word_unat_eq_iff)
  have same: "vm_same s1 ?s" by (simp add: vm_same_def)
  obtain r t x where s1: "s1 = s\<lparr>ram := r, tlb := t, hwas_sp := x\<rparr>"
    using keep by (auto simp: vm_keep_def vm_only_def)
  have av: "alloc_vaddr ?s = alloc_vaddr s"
    by (auto simp: s1 alloc_vaddr_def nframes_def bm_bytes_def fun_eq_iff)
  have "data s1 (heap_start s + word_of_nat k) \<and> \<not> alloc_vaddr s (heap_start s + word_of_nat k)"
    if k: "k < unat (heap_size s) + unat nb" for k
  proof (cases "k < unat (heap_size s)")
    case True
    then have "data s (heap_start s + word_of_nat k)" "\<not> alloc_vaddr s (heap_start s + word_of_nat k)"
      using ok by (auto simp: heap_ok_def clear_range_def data_range_def)
    then show ?thesis using keep by (simp add: vm_keep_def)
  next
    case False
    define j where "j = k - unat (heap_size s)"
    have kj: "k = unat (heap_size s) + j" and j: "j < unat nb" using False k by (auto simp: j_def)
    obtain q where q: "unat nb = q * 4096" using nb(1) by (metis dvdE mod_0_imp_dvd mult.commute)
    have "j div 4096 < q" by (rule less_mult_imp_div_less) (use j q in simp)
    then have "j div 4096 < unat nb div 4096" by (simp add: q)
    then have "data s1 (?b + word_of_nat j) \<and> walk s (?b + word_of_nat j) = None"
      using new page_run [OF pb, of j] by blast
    moreover have "heap_start s + word_of_nat k = ?b + word_of_nat j" by (simp add: kj add.assoc)
    ultimately have d: "data s1 (heap_start s + word_of_nat k)" "walk s (heap_start s + word_of_nat k) = None"
      by (simp_all only: simp_thms)
    have "\<not> alloc_vaddr s (heap_start s + word_of_nat k)"
      using d(2) data_walk [OF wf] alloc_vaddr_data [OF st] by blast
    then show ?thesis using d(1) by blast
  qed
  then have "clear_range ?s (heap_start s) (unat (heap_size s + nb))"
    unfolding clear_range_def data_range_def vm_same_mem [OF same] av uh by blast
  moreover have "vm_wf ?s" using wf1 vm_same_wf [OF same] by simp
  moreover have "heap_start s1 = heap_start s" by (simp add: s1)
  ultimately show "heap_ok ?s"
    using ok nb(2) by (simp add: heap_ok_def heap_end_def uh)
qed

text \<open>The header fields and the data of the old blocks are as before.\<close>

lemma keep_rdn:
  fixes s s1 :: "'a kheap_scheme"
  assumes ok: "heap_ok s" and keep: "vm_keep s s1"
    and b: "unat (heap_start s) \<le> unat b" "unat b + n \<le> heap_end s"
  shows "rdn s1 b n = rdn s b n"
proof -
  have c: "clear_range s b n" by (rule clear_sub [OF ok b])
  show ?thesis
    by (rule vm_keep_rdn [OF keep]) (use c alloc_vaddr_bm in \<open>auto simp: clear_range_def\<close>)
qed

lemma grow_fget:
  fixes s s1 :: "'a kheap_scheme"
  assumes ok: "heap_ok s" and keep: "vm_keep s s1" and h: "hin s b"
  shows "fget (s1\<lparr>heap_size := x\<rparr>) b f = fget s b f"
proof -
  have same: "vm_same s1 (s1\<lparr>heap_size := x\<rparr>)" by (simp add: vm_same_def)
  have "rdn s1 (faddr b f) 4 = rdn s (faddr b f) 4"
    by (rule keep_rdn [OF ok keep])
       (use unat_faddr [OF ok h, of f] h foff_less [of f] in \<open>auto simp: hin_def\<close>)
  then show ?thesis by (simp add: fget_def vm_same_mem [OF same] rd32_def)
qed

text \<open>The header of the new block.\<close>

lemma new_header_spec:
  fixes s2 :: "'a kheap_scheme"
  assumes ok: "heap_ok s2" and sg: "seg s2 0 bs 0" and hs: "headers s2 (insert b (addrs bs))"
    and b: "b \<noteq> 0" "b \<notin> addrs bs" and z0: "0 \<notin> addrs bs" and dist: "distinct (map fst bs)"
  defines "l \<equiv> lst_addr 0 bs"
  obtains s3 s4 s5 s6 s7 where
    "(if l \<noteq> 0 then do { t \<leftarrow> wr32 s2 (blk_next l) b; wr32 t (blk_prev b) l }
      else wr32 s2 (blk_prev b) 0) = Some s3"
    and "wr32 s3 (blk_size b) z = Some s4" and "wr32 s4 (blk_next b) 0 = Some s5"
    and "wr32 s5 (blk_free b) MBLKFREE = Some s6" and "wr32 s6 (blk_magic b) 0xdeadbeef = Some s7"
    and "only_hdrs s2 (insert b (addrs bs)) s7" and "seg s7 0 (bs @ [(b, z, True)]) 0"
proof -
  let ?H = "insert b (addrs bs)"
  have lH: "l \<noteq> 0 \<Longrightarrow> l \<in> addrs bs" using lst_addr_in [of bs 0] by (cases bs) (auto simp: l_def)
  have lb: "l \<noteq> b" using lH b by (cases "l = 0") auto
  have bH: "b \<in> ?H" by simp
  note L = hdr_laws [where s = s2 and H = ?H, OF _ hs]
  have o2: "only_hdrs s2 ?H s2" by (rule only_hdrs_refl [OF ok])
  define t where "t = (if l \<noteq> 0 then fset s2 l FNext b else s2)"
  have ot: "only_hdrs s2 ?H t" using o2 lH by (simp add: t_def L(4))
  have ft: "fget t c g = (if l \<noteq> 0 \<and> c = l \<and> g = FNext then Some b else fget s2 c g)" if "c \<in> ?H" for c g
    using that lH o2 by (auto simp: t_def L(3))
  define s3 where "s3 = fset t b FPrev l"
  define s4 where "s4 = fset s3 b FSize z"
  define s5 where "s5 = fset s4 b FNext 0"
  define s6 where "s6 = fset s5 b FFree MBLKFREE"
  define s7 where "s7 = fset s6 b FMagic 0xdeadbeef"
  have o3: "only_hdrs s2 ?H s3" unfolding s3_def by (rule L(4) [OF ot bH])
  have o4: "only_hdrs s2 ?H s4" unfolding s4_def by (rule L(4) [OF o3 bH])
  have o5: "only_hdrs s2 ?H s5" unfolding s5_def by (rule L(4) [OF o4 bH])
  have o6: "only_hdrs s2 ?H s6" unfolding s6_def by (rule L(4) [OF o5 bH])
  have o7: "only_hdrs s2 ?H s7" unfolding s7_def by (rule L(4) [OF o6 bH])
  have w: "wr32 t (blk_prev b) l = Some s3" "wr32 s3 (blk_size b) z = Some s4" "wr32 s4 (blk_next b) 0 = Some s5"
    "wr32 s5 (blk_free b) MBLKFREE = Some s6" "wr32 s6 (blk_magic b) 0xdeadbeef = Some s7"
    unfolding blk_faddr s3_def s4_def s5_def s6_def s7_def
    by (rule L(2) [OF ot bH], rule L(2) [OF o3 [unfolded s3_def] bH],
        rule L(2) [OF o4 [unfolded s4_def s3_def] bH], rule L(2) [OF o5 [unfolded s5_def s4_def s3_def] bH],
        rule L(2) [OF o6 [unfolded s6_def s5_def s4_def s3_def] bH])
  have "(if l \<noteq> 0 then do { t \<leftarrow> wr32 s2 (blk_next l) b; wr32 t (blk_prev b) l }
      else wr32 s2 (blk_prev b) 0) = Some s3"
  proof (cases "l = 0")
    case True
    then show ?thesis using w(1) by (simp add: t_def)
  next
    case False
    then have "wr32 s2 (blk_next l) b = Some t"
      unfolding blk_faddr using lH L(2) [OF o2] by (simp add: t_def)
    then show ?thesis using w(1) False by simp
  qed
  moreover have f7: "fget s7 c g = (if c = b then Some (case g of FFree \<Rightarrow> MBLKFREE | FMagic \<Rightarrow> 0xdeadbeef
      | FNext \<Rightarrow> 0 | FPrev \<Rightarrow> l | FSize \<Rightarrow> z) else fget t c g)" if c: "c \<in> ?H" for c g
    unfolding s7_def s6_def s5_def s4_def s3_def
    using L(3) [OF ot c bH] L(3) [OF o3 [unfolded s3_def] c bH] L(3) [OF o4 [unfolded s4_def s3_def] c bH]
      L(3) [OF o5 [unfolded s5_def s4_def s3_def] c bH] L(3) [OF o6 [unfolded s6_def s5_def s4_def s3_def] c bH]
    by (cases g) simp_all
  have hb: "hdr s7 b True 0 l z" by (simp add: hdr_def f7)
  have sg7: "seg s7 0 bs b"
  proof (cases bs rule: rev_cases)
    case (snoc bs' x)
    obtain c y g where x: "x = (c, y, g)" by (cases x)
    have lc: "l = c" by (simp add: l_def snoc x)
    have c: "c \<in> ?H" "c \<noteq> 0" "c \<noteq> b" using snoc x z0 b by auto
    have old: "seg s2 0 bs' c" "hdr s2 c g 0 (lst_addr 0 bs') y" using sg by (auto simp: snoc x seg_append)
    have "c \<notin> addrs bs'" using dist by (auto simp: snoc x addrs_def)
    then have "seg s7 0 bs' c"
      using old(1) b snoc lc by (intro seg_ran [of bs' s7 s2]) (auto simp: f7 ft x)
    moreover have "hdr s7 c g b (lst_addr 0 bs') y"
      using old(2) c lc by (simp add: hdr_def f7 [OF c(1)] ft [OF c(1)])
    ultimately show ?thesis by (simp add: snoc x seg_append)
  qed simp
  have "seg s7 0 (bs @ [(b, z, True)]) 0"
    using sg7 hb by (simp add: seg_append l_def)
  ultimately show ?thesis using that w(2-5) o7 by blast
qed

section \<open>What an operation of the heap leaves alone\<close>

text \<open>
  A foreign byte is a data address outside the heap region that is not the frame allocator's.
  An operation of the heap changes memory, the translation cache, the allocator's stack pointer
  and the globals of \<open>kmalloc.c\<close> only, and no foreign byte: \<open>heap_frame s s'\<close>.
\<close>

definition foreign :: "'a kheap_scheme \<Rightarrow> u32 \<Rightarrow> bool" where
  "foreign s b \<longleftrightarrow> data s b \<and> \<not> alloc_vaddr s b \<and> \<not> (unat (heap_start s) \<le> unat b \<and> unat b < heap_end s)"

definition heap_only :: "'a kheap_scheme \<Rightarrow> 'a kheap_scheme \<Rightarrow> bool" where
  "heap_only s s' \<longleftrightarrow> (\<exists>r t x f h m. s' = s\<lparr>ram := r, tlb := t, hwas_sp := x, first_blk := f,
     heap_size := h, min_heap_size := m\<rparr>)"

definition heap_frame :: "'a kheap_scheme \<Rightarrow> 'a kheap_scheme \<Rightarrow> bool" where
  "heap_frame s s' \<longleftrightarrow> heap_only s s' \<and> (\<forall>b. foreign s b \<longrightarrow> foreign s' b \<and> rd8 s' b = rd8 s b)"

lemma heap_onlyI: "s' = s\<lparr>ram := r, tlb := t, hwas_sp := x, first_blk := f, heap_size := h, min_heap_size := m\<rparr> \<Longrightarrow>
    heap_only s s'"
  unfolding heap_only_def by (intro exI)

lemma heap_only_trans: "heap_only s s1 \<Longrightarrow> heap_only s1 s2 \<Longrightarrow> heap_only s s2"
  unfolding heap_only_def
  by (elim exE, rule_tac x = ra in exI, rule_tac x = ta in exI, rule_tac x = xa in exI,
      rule_tac x = fa in exI, rule_tac x = ha in exI, rule_tac x = ma in exI) simp

lemma heap_only_fields:
  assumes "heap_only s s'"
  shows "vga_cursor_r s' = vga_cursor_r s" "vga_cursor_c s' = vga_cursor_c s" "io_trace s' = io_trace s"
    "io_dev s' = io_dev s" "cr3 s' = cr3 s" "kheap.more s' = kheap.more s" "heap_start s' = heap_start s"
    "alloc_vaddr s' = alloc_vaddr s" "pde_table s' = pde_table s"
  using assms by (auto simp: heap_only_def alloc_vaddr_def nframes_def bm_bytes_def fun_eq_iff)

lemma heap_frame_refl: "heap_frame s s"
  unfolding heap_frame_def
  by (intro conjI heap_onlyI [where r = "ram s" and t = "tlb s" and x = "hwas_sp s" and f = "first_blk s"
        and h = "heap_size s" and m = "min_heap_size s"]) simp_all

lemma heap_frame_trans: "heap_frame s s1 \<Longrightarrow> heap_frame s1 s2 \<Longrightarrow> heap_frame s s2"
  unfolding heap_frame_def using heap_only_trans by metis

text \<open>A change of the globals of \<open>kmalloc.c\<close> that does not shrink the heap, and a change of headers.\<close>

lemma heap_frame_globals:
  fixes s :: "'a kheap_scheme"
  shows "heap_frame s (s\<lparr>first_blk := f\<rparr>)" and "heap_frame s (s\<lparr>min_heap_size := m\<rparr>)"
proof -
  have same: "vm_same s (s\<lparr>first_blk := f\<rparr>)" "vm_same s (s\<lparr>min_heap_size := m\<rparr>)" by (simp_all add: vm_same_def)
  have f: "heap_only s (s\<lparr>first_blk := f\<rparr>)"
    by (rule heap_onlyI [where r = "ram s" and t = "tlb s" and x = "hwas_sp s" and f = f
        and h = "heap_size s" and m = "min_heap_size s"]) simp
  then show "heap_frame s (s\<lparr>first_blk := f\<rparr>)"
    using vm_same_mem [OF same(1)] heap_only_fields(8) [OF f] f
    by (simp add: heap_frame_def foreign_def heap_end_def)
  have m: "heap_only s (s\<lparr>min_heap_size := m\<rparr>)"
    by (rule heap_onlyI [where r = "ram s" and t = "tlb s" and x = "hwas_sp s" and f = "first_blk s"
        and h = "heap_size s" and m = m]) simp
  then show "heap_frame s (s\<lparr>min_heap_size := m\<rparr>)"
    using vm_same_mem [OF same(2)] heap_only_fields(8) [OF m] m
    by (simp add: heap_frame_def foreign_def heap_end_def)
qed

lemma heap_frame_hdrs:
  fixes s :: "'a kheap_scheme"
  assumes o: "only_hdrs s H s'" and H: "headers s H" and hi: "heap_end s < 4294967296"
  shows "heap_frame s s'"
proof -
  obtain r where r: "s' = s\<lparr>ram := r\<rparr>" and dr: "data_range s' = data_range s"
    and rd: "\<forall>b. \<not> shadow s b \<and> (\<forall>h\<in>H. 20 \<le> unat (b - h)) \<longrightarrow> rd8 s' b = rd8 s b"
    using o unfolding only_hdrs_def by blast
  have only: "heap_only s s'"
    by (rule heap_onlyI [where r = r and t = "tlb s" and x = "hwas_sp s" and f = "first_blk s"
        and h = "heap_size s" and m = "min_heap_size s"]) (simp add: r)
  have "data s' b = data s b" for b
    using fun_cong [OF fun_cong [OF dr], of b 1] by (simp add: data_range_def)
  then have f: "foreign s' = foreign s"
    using heap_only_fields(8) [OF only] by (intro ext) (simp add: foreign_def heap_end_def r)
  have "rd8 s' b = rd8 s b" if b: "foreign s b" for b
  proof -
    have "20 \<le> unat (b - h)" if h: "h \<in> H" for h
    proof -
      have hh: "unat (heap_start s) \<le> unat h" "unat h + 20 \<le> heap_end s"
        using H h by (auto simp: headers_def hin_def)
      have "unat b < unat h \<or> unat h + 20 \<le> unat b" using b hh by (auto simp: foreign_def)
      then show ?thesis using hh hi u32_less [of b] by (auto simp: unat_sub_if')
    qed
    moreover have "\<not> shadow s b" using b by (simp add: foreign_def data_not_shadow)
    ultimately show ?thesis using rd by blast
  qed
  then show ?thesis using only f by (simp add: heap_frame_def)
qed

lemma heap_frame_grow:
  fixes s s1 :: "'a kheap_scheme"
  assumes wf: "vm_wf s" and keep: "vm_keep s s1"
    and new: "\<And>b. heap_end s \<le> unat b \<Longrightarrow> unat b < unat (heap_start s) + unat h \<Longrightarrow> walk s b = None"
  shows "heap_frame s (s1\<lparr>heap_size := h\<rparr>)"
proof -
  let ?s = "s1\<lparr>heap_size := h\<rparr>"
  obtain r t x where s1: "s1 = s\<lparr>ram := r, tlb := t, hwas_sp := x\<rparr>"
    using keep by (auto simp: vm_keep_def vm_only_def)
  have only: "heap_only s ?s"
    by (rule heap_onlyI [where r = r and t = t and x = x and f = "first_blk s"
        and h = h and m = "min_heap_size s"]) (simp add: s1)
  have same: "vm_same s1 ?s" by (simp add: vm_same_def)
  note m = vm_same_mem [OF same]
  have "foreign ?s b \<and> rd8 ?s b = rd8 s b" if b: "foreign s b" for b
  proof -
    have d: "data s b" "\<not> alloc_vaddr s b" using b by (auto simp: foreign_def)
    have "walk s b \<noteq> None" by (rule data_walk [OF wf d(1)])
    then have "\<not> (heap_end s \<le> unat b \<and> unat b < unat (heap_start s) + unat h)" using new [of b] by fastforce
    then have "\<not> (unat (heap_start s) \<le> unat b \<and> unat b < unat (heap_start s) + unat h)"
      using b unfolding foreign_def by linarith
    moreover have "heap_end ?s = unat (heap_start s) + unat h" by (simp add: heap_end_def s1)
    moreover have "data s1 b" using keep d(1) by (simp add: vm_keep_def)
    ultimately have "foreign ?s b"
      using d(2) unfolding foreign_def m heap_only_fields(7,8) [OF only] by simp
    moreover have "rd8 s1 b = rd8 s b" using keep d alloc_vaddr_bm by (auto simp: vm_keep_def)
    ultimately show ?thesis by (simp add: m)
  qed
  then show ?thesis using only by (simp add: heap_frame_def)
qed

section \<open>Growth\<close>

lemma laid_snoc:
  "laid lo bs m \<Longrightarrow> m \<le> unat b \<Longrightarrow> unat b + 20 + unat z \<le> hi \<Longrightarrow> laid lo (bs @ [(b, z, f)]) hi"
  by (induction lo bs m rule: laid.induct) auto

lemma new_blockspace_spec:
  fixes s :: "'a kheap_scheme"
  assumes inv: "heap_inv s bs" and grow: "grow_ok s sz U t"
  defines "b \<equiv> heap_start s + heap_size s" and "nb \<equiv> grow_bytes sz"
  obtains s' where "new_blockspace s (lst_addr 0 bs) sz = Some (b, s')"
    and "b \<noteq> 0" and "used_set s' = U" and "stack_top s' = t"
    and "heap_start s' = heap_start s" and "heap_size s' = heap_size s + nb"
    and "first_blk s' = first_blk s" and "min_heap_size s' = min_heap_size s"
    and "heap_inv (s'\<lparr>first_blk := fst_addr (bs @ [(b, nb - 20, True)]) 0\<rparr>) (bs @ [(b, nb - 20, True)])"
    and "\<forall>(a, z, f)\<in>set bs. rdn s' (a + 20) (unat z) = rdn s (a + 20) (unat z)"
    and "heap_frame s s'"
proof -
  have ok: "heap_ok s" and al: "pgoff (heap_start s) = 0" "pgoff (heap_size s) = 0"
    and l: "laid (unat (heap_start s)) bs (heap_end s)" and sg: "seg s 0 bs 0"
    and wf: "vm_wf s" and lo: "4096 \<le> unat (heap_start s)" and hi0: "heap_end s < 4294967296"
    using inv by (auto simp: heap_inv_def heap_ok_def)
  obtain w where g: "unat sz + 8212 < 4294967296" "heap_end s + unat nb < 4294967296" "mmap_ok s b nb w U t"
    using grow by (auto simp: grow_ok_def Let_def nb_def grow_bytes_def b_def)
  note nbf = grow_bytes_facts [OF g(1), folded nb_def]
  have np: "npages nb = unat nb div 4096" by (rule npages_aligned [OF nbf(3,1)])
  obtain s1 where mm: "mmap s b nb = Some (STATUS_OK, s1)" and s1: "vm_wf s1" "vm_keep s s1"
    "used_set s1 = U" "stack_top s1 = t"
    "\<forall>k<npages nb. \<forall>a. page a = page (nth_page b k) \<longrightarrow> walk s1 a = Some (frame_no s (w + k)) \<and> data s1 a"
    by (rule mmap_spec [OF wf g(3)])
  have unm: "\<forall>k<npages nb. walk s (nth_page b k) = None" using g(3) by (simp add: mmap_ok_def)
  have new: "\<forall>k<unat nb div 4096. \<forall>a. page a = page (nth_page (heap_start s + heap_size s) k) \<longrightarrow>
        data s1 a \<and> walk s a = None"
  proof (intro allI impI)
    fix k a assume k: "k < unat nb div 4096" and a: "page a = page (nth_page (heap_start s + heap_size s) k)"
    have "walk s a = walk s (nth_page b k)"
      unfolding walk_def by (rule walk_frame_page) (simp add: a b_def)
    then show "data s1 a \<and> walk s a = None" using s1(5) unm k a by (simp add: np b_def)
  qed
  define s2 where "s2 = s1\<lparr>heap_size := heap_size s + nb\<rparr>"
  note gr = grow_region [OF ok al s1(1,2) nbf(1) g(2) new, folded s2_def b_def]
  obtain r tl x where e1: "s1 = s\<lparr>ram := r, tlb := tl, hwas_sp := x\<rparr>"
    using s1(2) by (auto simp: vm_keep_def vm_only_def)
  have end2: "heap_end s2 = heap_end s + unat nb"
    using gr(5) by (simp add: s2_def e1 heap_end_def)
  have st2: "heap_start s2 = heap_start s" "first_blk s2 = first_blk s" "min_heap_size s2 = min_heap_size s"
    "heap_size s2 = heap_size s + nb" by (simp_all add: s2_def e1)
  have ub: "unat b = heap_end s" by (rule gr(4))
  have usz: "unat (nb - 20) = unat nb - 20" using nbf(2) by (simp add: unat_sub word_le_nat_alt)
  let ?bs' = "bs @ [(b, nb - 20, True)]"
  have l': "laid (unat (heap_start s2)) ?bs' (heap_end s2)"
    unfolding st2 end2 using nbf(2) by (intro laid_snoc [OF l]) (simp_all add: ub usz)
  have hi: "heap_end s2 < 4294967296" using g(2) by (simp add: end2)
  have hs: "headers s2 (insert b (addrs bs))" using laid_headers [OF l' hi] by simp
  have hin: "hin s c" if "c \<in> addrs bs" for c
    using laid_headers [OF l] that hi0 by (auto simp: headers_def)
  have sg2: "seg s2 0 bs 0"
    by (rule seg_ran [OF _ sg]) (use grow_fget [OF ok s1(2) hin] in \<open>simp add: s2_def\<close>)
  have b0: "b \<noteq> 0" using ub lo by (auto simp: heap_end_def)
  have dist': "distinct (map fst ?bs')" by (rule laid_distinct [OF l'])
  have bn: "b \<notin> addrs bs" "distinct (map fst bs)" using dist' by (auto simp: addrs_def)
  have z0: "0 \<notin> addrs bs" by (rule laid_pos [OF l]) (use lo in simp)
  obtain s3 s4 s5 s6 s7 where h: "(if lst_addr 0 bs \<noteq> 0
      then do { t \<leftarrow> wr32 s2 (blk_next (lst_addr 0 bs)) b; wr32 t (blk_prev b) (lst_addr 0 bs) }
      else wr32 s2 (blk_prev b) 0) = Some s3"
    "wr32 s3 (blk_size b) (nb - 20) = Some s4" "wr32 s4 (blk_next b) 0 = Some s5"
    "wr32 s5 (blk_free b) MBLKFREE = Some s6" "wr32 s6 (blk_magic b) 0xdeadbeef = Some s7"
    "only_hdrs s2 (insert b (addrs bs)) s7" "seg s7 0 ?bs' 0"
    by (rule new_header_spec [OF gr(1) sg2 hs b0 bn(1) z0 bn(2), where z = "nb - 20"])
  note f7 = only_hdrs_fields [OF h(6)]
  have bff: "b \<noteq> 0xffffffff"
  proof
    assume "b = 0xffffffff"
    then have "pgoff b = 0xfff" by (simp add: pgoff_def)
    then show False using gr(2) by simp
  qed
  have "new_blockspace s (lst_addr 0 bs) sz = Some (b, s7)"
  proof -
    have e: "s1\<lparr>heap_size := heap_size s1 + nb\<rparr> = s2" by (simp add: s2_def e1)
    have n: "(sz + hdr_size + 0x1000) AND NOT 0xfff = nb" by (simp add: nb_def grow_bytes_def hdr_size_def)
    have z: "nb - hdr_size = nb - 20" by (simp add: hdr_size_def)
    have c: "(b = 0xffffffff \<or> b = 0) = False" using b0 bff by simp
    show ?thesis
      unfolding new_blockspace_def Let_def b_def [symmetric] n mm bind.bind_lunit prod.case e c if_False z h(1-5)
      by (rule refl)
  qed
  moreover have "heap_inv (s7\<lparr>first_blk := fst_addr ?bs' 0\<rparr>) ?bs'"
  proof -
    let ?s = "s7\<lparr>first_blk := fst_addr ?bs' 0\<rparr>"
    have same: "vm_same s7 ?s" by (simp add: vm_same_def)
    note m = vm_same_mem [OF same]
    have "fget ?s = fget s7" by (intro ext) (simp add: fget_def m)
    then have "seg ?s 0 ?bs' 0" using h(7) by (subst seg_cong [where s = s7]) auto
    moreover have "clear_range ?s = clear_range s7"
      by (intro ext) (simp add: clear_range_def m alloc_vaddr_def nframes_def bm_bytes_def)
    then have "heap_ok ?s"
      using f7(1) vm_same_wf [OF same] by (simp add: heap_ok_def heap_end_def)
    ultimately show ?thesis
      using l' al gr(3) f7 st2 by (simp add: heap_inv_def heap_end_def)
  qed
  moreover have "\<forall>(a, z, f)\<in>set bs. rdn s7 (a + 20) (unat z) = rdn s (a + 20) (unat z)"
  proof (intro ballI, clarify)
    fix a z f assume a: "(a, z, f) \<in> set bs"
    have bd: "unat (heap_start s) \<le> unat a" "unat a + 20 + unat z \<le> heap_end s" using laid_bounds [OF l a] by auto
    then have u: "unat (a + 20) = unat a + 20" using hi0 by (simp add: unat_add_small)
    have "rdn s7 (a + 20) (unat z) = rdn s2 (a + 20) (unat z)"
      using only_hdrs_data_pre [where bs = ?bs', OF _ l' hi, of s7 a z f] h(6) a by simp
    also have "\<dots> = rdn s1 (a + 20) (unat z)"
      using vm_same_mem(3) [of s1 s2] by (simp add: s2_def vm_same_def)
    also have "\<dots> = rdn s (a + 20) (unat z)"
      by (rule keep_rdn [OF ok s1(2)]) (use bd u in simp_all)
    finally show "rdn s7 (a + 20) (unat z) = rdn s (a + 20) (unat z)" .
  qed
  moreover have "used_set s7 = U" "stack_top s7 = t"
  proof -
    have same: "vm_same s1 s2" by (simp add: s2_def vm_same_def)
    have "used_set s7 = used_set s2" "stack_top s7 = stack_top s2"
      using h(6) by (auto simp: only_hdrs_def stack_top_def)
    then show "used_set s7 = U" "stack_top s7 = t"
      using vm_same_wf(7,8) [OF same] s1(3,4) by simp_all
  qed
  moreover have "heap_frame s s7"
  proof -
    have "walk s c = None" if c: "heap_end s \<le> unat c" "unat c < unat (heap_start s) + unat (heap_size s + nb)" for c
    proof -
      define k where "k = unat c - unat b"
      have k: "unat c = unat b + k" "k < unat nb" using c ub gr(5) by (auto simp: k_def heap_end_def)
      have cb: "c = b + word_of_nat k"
      proof -
        have uk: "unat (word_of_nat k :: u32) = k" using k(1) u32_less [of c] by (simp add: unat_of_nat)
        have "unat (b + word_of_nat k) = unat b + k"
          using k(1) u32_less [of c] uk by (subst unat_add_small) simp_all
        then show ?thesis using k(1) by (simp add: word_unat_eq_iff)
      qed
      obtain q where q: "unat nb = q * 4096" using nbf(1) by (metis dvdE mod_0_imp_dvd mult.commute)
      have "k div 4096 < q" by (rule less_mult_imp_div_less) (use k(2) q in simp)
      then have "k div 4096 < unat nb div 4096" by (simp add: q)
      then show ?thesis using new page_run [OF gr(2), of k] cb by (simp add: b_def)
    qed
    then have "heap_frame s s2" unfolding s2_def by (rule heap_frame_grow [OF wf s1(2)])
    then show ?thesis by (rule heap_frame_trans) (rule heap_frame_hdrs [OF h(6) hs hi])
  qed
  ultimately show ?thesis
    using that [of s7] b0 f7 st2 by simp
qed

end
