(* ===== verification/KHeapAlloc.thy ===== *)
theory KHeapAlloc
  imports KHeapGrow
begin

text \<open>
  \<open>kmalloc\<close> on every path, against the abstract allocation, and the contract that the users of
  the heap rely on.
\<close>

section \<open>Marking a block\<close>

lemma carve_whole: "carve a z z = [(a, z, False)]"
  by (simp add: carve_def)

lemma mark_used:
  fixes s :: "'a kheap_scheme"
  assumes inv: "heap_inv s (pre @ (a, z, f) # post)"
  obtains s' where "wr32 s (blk_free a) MBLKINUSE = Some s'"
    and "heap_inv s' (pre @ (a, z, False) # post)"
    and "only_hdrs s (addrs (pre @ (a, z, False) # post)) s'"
proof -
  have ok: "heap_ok s" and l: "laid (unat (heap_start s)) (pre @ (a, z, f) # post) (heap_end s)"
    and sg: "seg s 0 (pre @ (a, z, f) # post) 0"
    using inv by (auto simp: heap_inv_def)
  have "unat z + 4096 < 4294967296"
    using laid_bounds [OF l, of a z f] ok by (simp add: heap_ok_def)
  then have "unat (256 + z + 20) = 256 + unat z + 20" by (simp add: unat_add_small)
  then have "\<not> 256 + z + 20 < z" by (simp add: word_less_nat_alt)
  then have "split_block s a z = Some s"
    using sg by (auto simp: split_block_def blk_faddr seg_append hdr_def fget_def hdr_size_def)
  moreover obtain s1 where s1: "split_block s a z = Some s1"
    "wr32 s1 (blk_free a) MBLKINUSE = Some (fset s1 a FFree MBLKINUSE)"
    "heap_inv (fset s1 a FFree MBLKINUSE) (pre @ carve a z z @ post)"
    "only_hdrs s (addrs (pre @ carve a z z @ post)) (fset s1 a FFree MBLKINUSE)"
    by (rule carve_spec [OF inv order_refl])
  ultimately have "s1 = s" by simp
  then show ?thesis using s1(2-4) that by (simp add: carve_whole)
qed

lemma heap_frame_end:
  fixes s :: "'a kheap_scheme"
  assumes inv: "heap_inv s' bs" and o: "only_hdrs s (addrs bs) s'"
  shows "heap_frame s s'"
proof -
  have l: "laid (unat (heap_start s')) bs (heap_end s')" and hi: "heap_end s' < 4294967296"
    using inv by (auto simp: heap_inv_def heap_ok_def)
  show ?thesis using heap_frame_hdrs [OF o] laid_headers [OF l hi] hi only_hdrs_fields [OF o] by simp
qed

section \<open>The paths that grow the heap\<close>

lemma kmalloc_grow:
  fixes s :: "'a kheap_scheme"
  assumes inv: "heap_inv s bs" and ne: "bs \<noteq> []" and nofit: "fit ((l + 0xf) AND NOT 0xf) bs = None"
    and grow: "grow_ok s ((l + 0xf) AND NOT 0xf) U t"
  defines "b \<equiv> heap_start s + heap_size s" and "z \<equiv> grow_bytes ((l + 0xf) AND NOT 0xf) - 20"
  obtains s' where "kmalloc s l = Some (b + 20, s')" and "heap_inv s' (bs @ [(b, z, False)])"
    and "\<forall>(a, z, f)\<in>set bs. rdn s' (a + 20) (unat z) = rdn s (a + 20) (unat z)" and "heap_frame s s'"
proof -
  let ?len = "(l + 0xf) AND NOT 0xf"
  have sg: "seg s 0 bs 0" and fb: "first_blk s = fst_addr bs 0" and lo: "0 < unat (heap_start s)"
    and l: "laid (unat (heap_start s)) bs (heap_end s)"
    using inv by (auto simp: heap_inv_def heap_ok_def)
  have z0: "0 \<notin> addrs bs" by (rule laid_pos [OF l lo])
  have f0: "first_blk s \<noteq> 0" using fb fst_addr_in [OF ne, of 0] z0 by auto
  have ff: "find_free_loop s ?len (fst_addr bs 0) (first_blk s) = Some (0, lst_addr 0 bs)"
  proof -
    have "lst_addr (first_blk s) bs = lst_addr 0 bs" using ne by (cases bs) auto
    then show ?thesis using find_free_spec [OF sg z0, of ?len "first_blk s"] nofit by simp
  qed
  obtain s1 where s1: "new_blockspace s (lst_addr 0 bs) ?len = Some (b, s1)" "b \<noteq> 0"
    "first_blk s1 = first_blk s"
    "heap_inv (s1\<lparr>first_blk := fst_addr (bs @ [(b, z, True)]) 0\<rparr>) (bs @ [(b, z, True)])"
    "\<forall>(a, z, f)\<in>set bs. rdn s1 (a + 20) (unat z) = rdn s (a + 20) (unat z)" "heap_frame s s1"
    unfolding b_def z_def by (rule new_blockspace_spec [OF inv grow])
  have "fst_addr (bs @ [(b, z, True)]) 0 = first_blk s1" using ne s1(3) fb by (cases bs) auto
  then have inv1: "heap_inv s1 (bs @ [(b, z, True)])" using s1(4) by simp
  obtain s2 where s2: "wr32 s1 (blk_free b) MBLKINUSE = Some s2" "heap_inv s2 (bs @ [(b, z, False)])"
    "only_hdrs s1 (addrs (bs @ [(b, z, False)])) s2"
    by (rule mark_used [OF inv1])
  have "kmalloc s l = Some (b + 20, s2)"
    using f0 ff s1(1) s2(1)
    by (subst kmalloc.simps) (simp add: Let_def find_free_block_def fb hdr_size_def)
  moreover have "rdn s2 (a + 20) (unat y) = rdn s (a + 20) (unat y)" if a: "(a, y, f) \<in> set bs" for a y f
  proof -
    have l2: "laid (unat (heap_start s2)) (bs @ [(b, z, False)]) (heap_end s2)" and hi: "heap_end s2 < 4294967296"
      using s2(2) by (auto simp: heap_inv_def heap_ok_def)
    have "rdn s2 (a + 20) (unat y) = rdn s1 (a + 20) (unat y)"
      by (rule only_hdrs_data [OF s2(3) l2 hi]) (use a in auto)
    then show ?thesis using s1(5) a by auto
  qed
  moreover have "heap_frame s s2" by (rule heap_frame_trans [OF s1(6) heap_frame_end [OF s2(2,3)]])
  ultimately show ?thesis using s2(2) that by blast
qed

lemma heap_inv_min:
  fixes s :: "'a kheap_scheme"
  shows "heap_inv (s\<lparr>min_heap_size := x\<rparr>) bs = heap_inv s bs"
    and "grow_ok (s\<lparr>min_heap_size := x\<rparr>) sz U t = grow_ok s sz U t"
proof -
  let ?s = "s\<lparr>min_heap_size := x\<rparr>"
  have same: "vm_same s ?s" by (simp add: vm_same_def)
  note m = vm_same_mem [OF same] vm_same_wf [OF same]
  have "seg ?s 0 bs 0 = seg s 0 bs 0" by (rule seg_cong) (simp add: fget_def m)
  moreover have "clear_range ?s = clear_range s"
    by (intro ext) (simp add: clear_range_def m alloc_vaddr_def)
  ultimately show "heap_inv ?s bs = heap_inv s bs"
    by (simp add: heap_inv_def heap_ok_def heap_end_def m)
  show "grow_ok ?s sz U t = grow_ok s sz U t" by (simp add: grow_ok_def heap_end_def m Let_def)
qed

lemma round16_idem: "(((l + 0xf) AND NOT 0xf) + 0xf) AND NOT 0xf = (l + 0xf) AND NOT (0xf :: u32)"
proof -
  have m: "(0xf :: u32) = mask 4" by (simp add: mask_eq_exp_minus_1)
  let ?x = "(l + 0xf) AND NOT (0xf :: u32)"
  have "?x + 0xf = ?x OR 0xf" unfolding m by (rule disjunctive_add) (auto simp: bit_simps)
  then have "(?x + 0xf) AND NOT 0xf = (?x OR 0xf) AND NOT 0xf" by simp
  also have "\<dots> = ?x" unfolding m by (rule bit_word_eqI) (auto simp: bit_simps)
  finally show ?thesis .
qed

lemma kmalloc_first:
  fixes s :: "'a kheap_scheme"
  assumes inv: "heap_inv s []" and grow: "grow_ok s (max (min_heap_size s) ((l + 0xf) AND NOT 0xf)) U t"
  defines "b \<equiv> heap_start s + heap_size s"
    and "z \<equiv> grow_bytes (max (min_heap_size s) ((l + 0xf) AND NOT 0xf)) - 20"
  obtains s' where "kmalloc s l = Some (b + 20, s')"
    and "heap_inv s' (carve b z ((l + 0xf) AND NOT 0xf))"
    and "(l + 0xf) AND NOT 0xf \<le> z" and "heap_frame s s'"
proof -
  let ?len = "(l + 0xf) AND NOT 0xf"
  let ?m = "max (min_heap_size s) ?len"
  have f0: "first_blk s = 0" using inv by (simp add: heap_inv_def)
  define s0 where "s0 = (if min_heap_size s < ?len then s\<lparr>min_heap_size := ?len\<rparr> else s)"
  have m0: "min_heap_size s0 = ?m" "heap_start s0 = heap_start s" "heap_size s0 = heap_size s"
    by (auto simp: s0_def max_def)
  have inv0: "heap_inv s0 []" and grow0: "grow_ok s0 ?m U t"
    using inv grow by (auto simp: s0_def heap_inv_min)
  obtain s1 where s1: "new_blockspace s0 (lst_addr 0 []) ?m = Some (b, s1)" "b \<noteq> 0"
    "heap_inv (s1\<lparr>first_blk := fst_addr ([] @ [(b, z, True)]) 0\<rparr>) ([] @ [(b, z, True)])" "heap_frame s0 s1"
    unfolding b_def z_def m0(2,3) [symmetric] by (rule new_blockspace_spec [OF inv0 grow0])
  let ?s = "s1\<lparr>first_blk := b\<rparr>"
  have inv1: "heap_inv ?s [(b, z, True)]" using s1(3) by simp
  have g: "unat ?m + 8212 < 4294967296" using grow by (simp add: grow_ok_def Let_def)
  have fits: "?len \<le> z"
  proof -
    have "unat ?len \<le> unat ?m" by (simp add: max_def word_le_nat_alt)
    then have "unat ?len \<le> unat (grow_bytes ?m) - 20" using grow_bytes_facts(2) [OF g] by simp
    moreover have "unat z = unat (grow_bytes ?m) - 20"
      unfolding z_def using grow_bytes_facts(2) [OF g] by (simp add: unat_sub word_le_nat_alt)
    ultimately show ?thesis by (simp add: word_le_nat_alt)
  qed
  have "fit ?len [(b, z, True)] = Some (b, carve b z ?len)" using fits by simp
  then obtain s2 where s2: "kmalloc ?s ?len = Some (b + 20, s2)" "heap_inv s2 (carve b z ?len)"
    "only_hdrs ?s (addrs (carve b z ?len)) s2"
    using kmalloc_fit [OF inv1, of ?len] unfolding round16_idem by blast
  have "heap_frame s s0" by (simp add: s0_def heap_frame_refl heap_frame_globals)
  then have "heap_frame s ?s" using s1(4) heap_frame_globals(1) [of s1 b] by (blast intro: heap_frame_trans)
  then have fr: "heap_frame s s2" by (rule heap_frame_trans) (rule heap_frame_end [OF s2(2,3)])
  have ns: "new_blockspace s0 0 (min_heap_size s0) = Some (b, s1)" using s1(1) by (simp only: m0 lst_addr.simps)
  have "kmalloc s l = kmalloc ?s ?len"
    by (subst kmalloc.simps)
       (simp only: Let_def f0 simp_thms if_True s0_def [symmetric] ns bind.bind_lunit prod.case)
  then show ?thesis using s2 fits that fr by simp
qed

section \<open>The abstract allocation\<close>

text \<open>
  The request rounded up, what a request makes the heap grow by when no block fits, and the
  abstract result: the address of the block and the new block list.
\<close>

definition round16 :: "u32 \<Rightarrow> u32" where
  "round16 l = (l + 0xf) AND NOT 0xf"

definition grow_request :: "'a kheap_scheme \<Rightarrow> blk list \<Rightarrow> u32 \<Rightarrow> u32" where
  "grow_request s bs l = (if bs = [] then max (min_heap_size s) (round16 l) else round16 l)"

definition alloc_abs :: "'a kheap_scheme \<Rightarrow> blk list \<Rightarrow> u32 \<Rightarrow> u32 \<times> blk list" where
  "alloc_abs s bs l =
     (case fit (round16 l) bs of
        Some r \<Rightarrow> r
      | None \<Rightarrow>
          let b = heap_start s + heap_size s; z = grow_bytes (grow_request s bs l) - 20 in
          if bs = [] then (b, carve b z (round16 l)) else (b, bs @ [(b, z, False)]))"

definition alloc_ready :: "'a kheap_scheme \<Rightarrow> blk list \<Rightarrow> u32 \<Rightarrow> bool" where
  "alloc_ready s bs l \<longleftrightarrow>
     fit (round16 l) bs \<noteq> None \<or> (\<exists>U t. grow_ok s (grow_request s bs l) U t)"

lemma kmalloc_refine:
  fixes s :: "'a kheap_scheme"
  assumes inv: "heap_inv s bs" and ready: "alloc_ready s bs l"
  obtains s' where "kmalloc s l = Some (fst (alloc_abs s bs l) + 20, s')"
    and "heap_inv s' (snd (alloc_abs s bs l))"
    and "\<forall>(a, z, f)\<in>set bs. \<not> f \<longrightarrow> rdn s' (a + 20) (unat z) = rdn s (a + 20) (unat z)"
    and "heap_frame s s'"
proof (cases "fit (round16 l) bs")
  case (Some r)
  obtain a bs' where r: "r = (a, bs')" by (cases r)
  have ft: "fit ((l + 0xf) AND NOT 0xf) bs = Some (a, bs')" using Some r by (simp add: round16_def)
  have ne: "bs \<noteq> []" using Some by auto
  obtain s' where s': "kmalloc s l = Some (a + 20, s')" "heap_inv s' bs'" "only_hdrs s (addrs bs') s'"
    by (rule kmalloc_fit [OF inv ne ft])
  have l': "laid (unat (heap_start s')) bs' (heap_end s')" and hi: "heap_end s' < 4294967296"
    using s'(2) by (auto simp: heap_inv_def heap_ok_def)
  have sub: "(b, z, False) \<in> set bs \<Longrightarrow> (b, z, False) \<in> set bs'" for b z
    using fit_SomeD [OF ft] by auto
  have "rdn s' (b + 20) (unat z) = rdn s (b + 20) (unat z)" if "(b, z, False) \<in> set bs" for b z
    by (rule only_hdrs_data [OF s'(3) l' hi sub [OF that]])
  then have "\<forall>(a, z, f)\<in>set bs. \<not> f \<longrightarrow> rdn s' (a + 20) (unat z) = rdn s (a + 20) (unat z)" by auto
  then show ?thesis using that s'(1,2) heap_frame_end [OF s'(2,3)] by (simp add: alloc_abs_def Some r)
next
  case None
  then obtain U t where g: "grow_ok s (grow_request s bs l) U t" using ready by (auto simp: alloc_ready_def)
  show ?thesis
  proof (cases "bs = []")
    case True
    obtain s' where "kmalloc s l = Some (heap_start s + heap_size s + 20, s')"
      "heap_inv s' (carve (heap_start s + heap_size s) (grow_bytes (grow_request s bs l) - 20) (round16 l))"
      "heap_frame s s'"
      using kmalloc_first [OF inv [unfolded True], of l U t] g
      by (auto simp: grow_request_def round16_def True)
    then show ?thesis using that by (simp add: alloc_abs_def Let_def True)
  next
    case False
    have nf: "fit ((l + 0xf) AND NOT 0xf) bs = None" using None by (simp add: round16_def)
    have g': "grow_ok s ((l + 0xf) AND NOT 0xf) U t" using g False by (simp add: grow_request_def round16_def)
    obtain s' where s': "kmalloc s l = Some (heap_start s + heap_size s + 20, s')"
      "heap_inv s' (bs @ [(heap_start s + heap_size s, grow_bytes ((l + 0xf) AND NOT 0xf) - 20, False)])"
      "\<forall>(a, z, f)\<in>set bs. rdn s' (a + 20) (unat z) = rdn s (a + 20) (unat z)" "heap_frame s s'"
      by (rule kmalloc_grow [OF inv False nf g'])
    have "\<forall>(a, z, f)\<in>set bs. \<not> f \<longrightarrow> rdn s' (a + 20) (unat z) = rdn s (a + 20) (unat z)"
      using s'(3) by auto
    then show ?thesis using that s'(1,2,4) None False
      by (simp add: alloc_abs_def Let_def grow_request_def round16_def)
  qed
qed

text \<open>The blocks in use, as the ranges of their data.\<close>

definition live :: "blk list \<Rightarrow> (u32 \<times> nat) set" where
  "live bs = {(a + 20, unat z) | a z. (a, z, False) \<in> set bs}"

lemma live_simps [simp]:
  "live [] = {}" "live (xs @ ys) = live xs \<union> live ys" "live ((a, z, True) # bs) = live bs"
  "live ((a, z, False) # bs) = insert (a + 20, unat z) (live bs)"
  by (auto simp: live_def)

lemma live_carve:
  "live (carve a z len) = {(a + 20, unat (if 256 + unat len + 20 < unat z then len else z))}"
  by (auto simp: carve_def)

lemma grow_z:
  assumes "grow_ok s sz U t" and "len \<le> sz"
  shows "len \<le> grow_bytes sz - 20"
proof -
  have g: "unat sz + 8212 < 4294967296" using assms(1) by (simp add: grow_ok_def Let_def)
  have "unat (grow_bytes sz - 20) = unat (grow_bytes sz) - 20"
    using grow_bytes_facts(2) [OF g] by (simp add: unat_sub word_le_nat_alt)
  then show ?thesis using grow_bytes_facts(2) [OF g] assms(2) by (simp add: word_le_nat_alt)
qed

lemma alloc_abs_live:
  assumes "alloc_ready s bs l"
  obtains m where "unat (round16 l) \<le> m"
    and "live (snd (alloc_abs s bs l)) = insert (fst (alloc_abs s bs l) + 20, m) (live bs)"
proof (cases "fit (round16 l) bs")
  case (Some r)
  obtain a bs' where r: "r = (a, bs')" by (cases r)
  obtain pre z post where b: "bs = pre @ (a, z, True) # post" "bs' = pre @ carve a z (round16 l) @ post"
    "round16 l \<le> z"
    using fit_SomeD [of "round16 l" bs a bs'] Some r by auto
  let ?m = "unat (if 256 + unat (round16 l) + 20 < unat z then round16 l else z)"
  have e: "alloc_abs s bs l = (a, bs')" using Some r by (simp add: alloc_abs_def)
  have "live bs' = insert (a + 20, ?m) (live bs)" unfolding b(1,2) by (simp add: live_carve)
  moreover have "unat (round16 l) \<le> ?m" using b(3) by (simp add: word_le_nat_alt)
  ultimately show ?thesis using that [of ?m] by (simp add: e)
next
  case None
  then obtain U t where g: "grow_ok s (grow_request s bs l) U t" using assms by (auto simp: alloc_ready_def)
  have z: "round16 l \<le> grow_bytes (grow_request s bs l) - 20"
    by (rule grow_z [OF g]) (simp add: grow_request_def)
  let ?z = "grow_bytes (grow_request s bs l) - 20"
  let ?m = "unat (if bs = [] \<and> 256 + unat (round16 l) + 20 < unat ?z then round16 l else ?z)"
  have "live (snd (alloc_abs s bs l)) = insert (fst (alloc_abs s bs l) + 20, ?m) (live bs)"
    by (cases "bs = []") (simp_all add: alloc_abs_def Let_def None live_carve)
  moreover have "unat (round16 l) \<le> ?m" using z by (simp add: word_le_nat_alt)
  ultimately show ?thesis by (rule that [rotated])
qed

lemma live_disjoint:
  assumes inv: "heap_inv s bs" and p: "(p, m) \<in> live bs" "(q, k) \<in> live bs" "(p, m) \<noteq> (q, k)"
  shows "sep p m q k"
proof -
  obtain a z b y where e: "p = a + 20" "m = unat z" "(a, z, False) \<in> set bs"
    "q = b + 20" "k = unat y" "(b, y, False) \<in> set bs"
    using p(1,2) by (auto simp: live_def)
  have l: "laid (unat (heap_start s)) bs (heap_end s)" and hi: "heap_end s < 4294967296"
    using inv by (auto simp: heap_inv_def heap_ok_def)
  note bd = laid_bounds [OF l e(3)] laid_bounds [OF l e(6)]
  have u: "unat p = unat a + 20" "unat q = unat b + 20"
    using bd hi by (simp_all add: e unat_add_small)
  have "(a, z, False) \<noteq> (b, y, False)" using p(3) e by auto
  then show ?thesis using laid_sep [OF l e(3,6)] bd hi u e by (auto simp: sep_def)
qed

lemma alloc_fresh:
  assumes inv: "heap_inv s bs" and ready: "alloc_ready s bs l"
  shows "fst (alloc_abs s bs l) + 20 \<notin> fst ` live bs"
proof
  have ld: "laid (unat (heap_start s)) bs (heap_end s)" and hi: "heap_end s < 4294967296"
    using inv by (auto simp: heap_inv_def heap_ok_def)
  assume "fst (alloc_abs s bs l) + 20 \<in> fst ` live bs"
  then obtain z where z: "(fst (alloc_abs s bs l), z, False) \<in> set bs" by (auto simp: live_def)
  show False
  proof (cases "fit (round16 l) bs")
    case (Some r)
    then obtain pre y post where "bs = pre @ (fst r, y, True) # post"
      using fit_SomeD [of "round16 l" bs "fst r" "snd r"] by auto
    then have "(fst (alloc_abs s bs l), y, True) \<in> set bs" using Some by (simp add: alloc_abs_def)
    then show False using laid_sep [OF ld z] by fastforce
  next
    case None
    then have "fst (alloc_abs s bs l) = heap_start s + heap_size s"
      by (simp add: alloc_abs_def Let_def)
    then have "unat (fst (alloc_abs s bs l)) = heap_end s"
      using hi by (simp add: heap_end_def unat_word_ariths)
    then show False using laid_bounds [OF ld z] by simp
  qed
qed

section \<open>The contract of the heap\<close>

text \<open>
  What a user of the heap relies on: a ready request yields a new live range that is large
  enough, all other live ranges stay and keep their contents, live ranges do not overlap; and
  nothing outside the heap changes (\<open>frame\<close>).
\<close>

locale heap_contract =
  fixes inv :: "'s \<Rightarrow> 'h \<Rightarrow> bool"
    and ranges :: "'h \<Rightarrow> (u32 \<times> nat) set"
    and ready :: "'s \<Rightarrow> 'h \<Rightarrow> u32 \<Rightarrow> bool"
    and alloc :: "'s \<Rightarrow> u32 \<Rightarrow> (u32 \<times> 's) option"
    and after :: "'s \<Rightarrow> 'h \<Rightarrow> u32 \<Rightarrow> 'h"
    and contents :: "'s \<Rightarrow> u32 \<Rightarrow> nat \<Rightarrow> u8 list option"
    and frame :: "'s \<Rightarrow> 's \<Rightarrow> bool"
  assumes frame_refl: "frame s s" and frame_trans: "frame s s1 \<Longrightarrow> frame s1 s2 \<Longrightarrow> frame s s2"
    and alloc_law: "inv s h \<Longrightarrow> ready s h n \<Longrightarrow>
      \<exists>p m s'. alloc s n = Some (p, s') \<and> inv s' (after s h n) \<and> unat (round16 n) \<le> m \<and>
        p \<notin> fst ` ranges h \<and> ranges (after s h n) = insert (p, m) (ranges h) \<and>
        (\<forall>(q, k)\<in>ranges h. contents s' q k = contents s q k) \<and> frame s s'"
    and apart: "inv s h \<Longrightarrow> (p, m) \<in> ranges h \<Longrightarrow> (q, k) \<in> ranges h \<Longrightarrow> (p, m) \<noteq> (q, k) \<Longrightarrow> sep p m q k"
begin

text \<open>Two requests in a row: the first range is still there, with its contents, apart from the second.\<close>

lemma alloc_alloc:
  assumes "inv s h" and "ready s h n"
    and "\<And>p s1. alloc s n = Some (p, s1) \<Longrightarrow> ready s1 (after s h n) n'"
  shows "\<exists>p m s1 q k s2 h2. alloc s n = Some (p, s1) \<and> alloc s1 n' = Some (q, s2) \<and> inv s2 h2 \<and>
      unat (round16 n) \<le> m \<and> unat (round16 n') \<le> k \<and>
      {(p, m), (q, k)} \<union> ranges h \<subseteq> ranges h2 \<and>
      contents s2 p m = contents s1 p m \<and> sep p m q k"
proof -
  obtain p m s1 where 1: "alloc s n = Some (p, s1)" "inv s1 (after s h n)" "unat (round16 n) \<le> m"
    and r1: "ranges (after s h n) = insert (p, m) (ranges h)"
    using alloc_law [OF assms(1,2)] by blast
  let ?h1 = "after s h n"
  have rd: "ready s1 ?h1 n'" by (rule assms(3) [OF 1(1)])
  obtain q k s2 where 2: "alloc s1 n' = Some (q, s2)" "inv s2 (after s1 ?h1 n')" "unat (round16 n') \<le> k"
    and r2: "q \<notin> fst ` ranges ?h1" "ranges (after s1 ?h1 n') = insert (q, k) (ranges ?h1)"
    and keep: "\<forall>(q, k)\<in>ranges ?h1. contents s2 q k = contents s1 q k"
    using alloc_law [OF 1(2) rd] by blast
  have pm: "(p, m) \<in> ranges ?h1" by (simp add: r1)
  have ne: "(p, m) \<noteq> (q, k)" using r2(1) pm by (auto simp: image_iff)
  have keep1: "contents s2 p m = contents s1 p m" using bspec [OF keep pm] by simp
  have "(p, m) \<in> ranges (after s1 ?h1 n')" "(q, k) \<in> ranges (after s1 ?h1 n')"
    using pm by (simp_all add: r2(2))
  then have apart1: "sep p m q k" using ne by (rule apart [OF 2(2)])
  have "{(p, m), (q, k)} \<union> ranges h \<subseteq> ranges (after s1 ?h1 n')" by (auto simp: r1 r2(2))
  then show ?thesis
    by (intro exI conjI) (rule 1(1), rule 2(1), rule 2(2), rule 1(3), rule 2(3), assumption,
        rule keep1, rule apart1)
qed

end

interpretation kh: heap_contract heap_inv live alloc_ready kmalloc "\<lambda>s h n. snd (alloc_abs s h n)" rdn heap_frame
proof (unfold_locales)
  fix s :: "'a kheap_scheme" and h n
  assume inv: "heap_inv s h" and rd: "alloc_ready s h n"
  obtain s' where s': "kmalloc s n = Some (fst (alloc_abs s h n) + 20, s')"
    "heap_inv s' (snd (alloc_abs s h n))"
    "\<forall>(a, z, f)\<in>set h. \<not> f \<longrightarrow> rdn s' (a + 20) (unat z) = rdn s (a + 20) (unat z)" "heap_frame s s'"
    by (rule kmalloc_refine [OF inv rd])
  obtain m where m: "unat (round16 n) \<le> m"
    "live (snd (alloc_abs s h n)) = insert (fst (alloc_abs s h n) + 20, m) (live h)"
    by (rule alloc_abs_live [OF rd])
  have c: "\<forall>(q, k)\<in>live h. rdn s' q k = rdn s q k"
  proof clarify
    fix q k assume "(q, k) \<in> live h"
    then obtain a z where e: "q = a + 20" "k = unat z" "(a, z, False) \<in> set h"
      unfolding live_def by blast
    show "rdn s' q k = rdn s q k" using bspec [OF s'(3) e(3)] by (simp add: e(1,2))
  qed
  show "\<exists>p m s'. kmalloc s n = Some (p, s') \<and> heap_inv s' (snd (alloc_abs s h n)) \<and> unat (round16 n) \<le> m \<and>
      p \<notin> fst ` live h \<and> live (snd (alloc_abs s h n)) = insert (p, m) (live h) \<and>
      (\<forall>(q, k)\<in>live h. rdn s' q k = rdn s q k) \<and> heap_frame s s'"
    by (intro exI conjI)
       (rule s'(1), rule s'(2), rule m(1), rule alloc_fresh [OF inv rd], rule m(2), rule c, rule s'(4))
qed (erule (3) live_disjoint | rule heap_frame_refl | erule (1) heap_frame_trans)+

end
