(* ===== verification/Vga.thy ===== *)
theory Vga
  imports KMalloc
begin

text \<open>
  The text screen, \<open>kernel/vga/vga.c\<close>, with \<open>memmove\<close> of \<open>klibc/kstring.c\<close>, which scrolling uses.
  \<open>memmove\<close> takes a buffer from the heap, releasing it may print (an invalid block), and
  printing may scroll: the operations call each other.  The inner ones take \<open>putc\<close>, the
  function that prints a character, as an argument; \<open>vga_putchar\<close> is the recursive knot.
\<close>

definition VGA_WIDTH :: u8 where "VGA_WIDTH = 80"
definition VGA_HEIGHT :: u8 where "VGA_HEIGHT = 25"
definition VGA_BASE :: u32 where "VGA_BASE = 0xc00ff000"

section \<open>Strings of characters\<close>

type_synonym 's putc = "'s \<times> u8 \<Rightarrow> 's option"

fun vga_print_with :: "'s putc \<Rightarrow> 's \<Rightarrow> u8 list \<Rightarrow> 's option" where
  "vga_print_with putc s [] = Some s"
| "vga_print_with putc s (c # cs) = do { s1 \<leftarrow> putc (s, c); vga_print_with putc s1 cs }"

text \<open>The eight hexadecimal digits of \<open>vga_puthex\<close>, most significant first.\<close>

definition hex_char :: "u8 \<Rightarrow> u8" where
  "hex_char n = (if n \<le> 9 then n + 48 else n + (65 - 10))"

definition hex_chars :: "u32 \<Rightarrow> u8 list" where
  "hex_chars v = concat (map (\<lambda>j. let byte = byte_of j v
     in [hex_char (drop_bit 4 byte), hex_char (byte AND 0x0f)]) [3, 2, 1, 0])"

definition vga_puthex_with :: "'s putc \<Rightarrow> 's \<Rightarrow> u32 \<Rightarrow> 's option" where
  "vga_puthex_with putc s i = do {
     s1 \<leftarrow> vga_print_with putc s (lit ''0x'');
     vga_print_with putc s1 (hex_chars i)
   }"

section \<open>Characters on the screen\<close>

definition VGA_COLOR_BLACK :: u8 where "VGA_COLOR_BLACK = 0"
definition VGA_COLOR_WHITE :: u8 where "VGA_COLOR_WHITE = 15"

text \<open>The parameter \<open>ch\<close> is a signed \<open>char\<close>, so its conversion to 16 bits extends the sign.\<close>

definition vga_set_char :: "'a kheap_scheme \<Rightarrow> u8 \<Rightarrow> u8 \<Rightarrow> u8 \<Rightarrow> 'a kheap_scheme option" where
  "vga_set_char s r c ch = do {
     let color = VGA_COLOR_WHITE OR push_bit 4 VGA_COLOR_BLACK;
     let val = (scast ch :: u16) OR push_bit 8 (ucast color);
     wr16 s (VGA_BASE + 2 * (ucast r * ucast VGA_WIDTH + ucast c)) val
   }"

definition vga_clear :: "'a kheap_scheme \<Rightarrow> 'a kheap_scheme option" where
  "vga_clear s = do {
     s1 \<leftarrow> for_loop 0 (unat VGA_HEIGHT) (\<lambda>r t.
             for_loop 0 (unat VGA_WIDTH) (\<lambda>c u.
               vga_set_char u (word_of_nat r) (word_of_nat c) 32) t) s;
     Some (s1\<lparr>vga_cursor_r := 0, vga_cursor_c := 0\<rparr>)
   }"

section \<open>Scrolling\<close>

definition complain_with :: "'a kheap_scheme putc \<Rightarrow> 'a kheap_scheme \<Rightarrow> u32 \<Rightarrow> 'a kheap_scheme option" where
  "complain_with putc s addr = do {
     s1 \<leftarrow> vga_print_with putc s (lit ''Freeing invalid block:'');
     s2 \<leftarrow> serial_print s1 (lit ''* malloc: Tried freeing invalid block at '');
     vga_puthex_with putc s2 addr
   }"

text \<open>A loop that copies \<open>n\<close> bytes upwards, as in \<open>memcpy\<close> and in both halves of \<open>memmove\<close>.\<close>

definition copy_bytes :: "'a kheap_scheme \<Rightarrow> u32 \<Rightarrow> u32 \<Rightarrow> u32 \<Rightarrow> 'a kheap_scheme option" where
  "copy_bytes s dest src n =
     for_loop 0 (unat n) (\<lambda>i t. do {
       b \<leftarrow> rd8 t (src + word_of_nat i);
       wr8 t (dest + word_of_nat i) b }) s"

definition memmove_with :: "'a kheap_scheme putc \<Rightarrow> 'a kheap_scheme \<Rightarrow> u32 \<Rightarrow> u32 \<Rightarrow> u32 \<Rightarrow>
    (u32 \<times> 'a kheap_scheme) option" where
  "memmove_with putc s dest src n = do {
     (buf, s1) \<leftarrow> kmalloc s n;
     s2 \<leftarrow> copy_bytes s1 buf src n;
     s3 \<leftarrow> copy_bytes s2 dest buf n;
     (_, s4) \<leftarrow> kfree_with (complain_with putc) s3 buf;
     Some (dest, s4)
   }"

definition vga_scrolldown_with :: "'a kheap_scheme putc \<Rightarrow> 'a kheap_scheme \<Rightarrow> u8 \<Rightarrow> 'a kheap_scheme option" where
  "vga_scrolldown_with putc s by = do {
     let w = ucast VGA_WIDTH;
     let h = ucast VGA_HEIGHT;
     let new_start = VGA_BASE + w * ucast by * 2;
     let bufsize = (w * 2) * h;
     (_, s1) \<leftarrow> memmove_with putc s VGA_BASE new_start (bufsize - w * ucast by * 2);
     Some s1
   }"

section \<open>The cursor\<close>

text \<open>The \<open>switch\<close> of \<open>vga_putchar\<close>: the character itself, or the cursor movement.\<close>

definition vga_place :: "'a kheap_scheme \<Rightarrow> u8 \<Rightarrow> 'a kheap_scheme option" where
  "vga_place s c =
     (if c = 10 then Some (s\<lparr>vga_cursor_r := vga_cursor_r s + 1\<rparr>)
      else if c = 13 then Some (s\<lparr>vga_cursor_c := 0\<rparr>)
      else if c = 9 then Some (s\<lparr>vga_cursor_c := vga_cursor_c s + 4\<rparr>)
      else vga_set_char (s\<lparr>vga_cursor_c := vga_cursor_c s + 1\<rparr>)
             (vga_cursor_r s) (vga_cursor_c s) c)"

definition vga_wrap :: "'a kheap_scheme \<Rightarrow> 'a kheap_scheme" where
  "vga_wrap s =
     (if VGA_WIDTH \<le> vga_cursor_c s
      then s\<lparr>vga_cursor_c := 0, vga_cursor_r := vga_cursor_r s + 1\<rparr> else s)"

lemma bind_mono_pair [partial_function_mono]:
  "mono_option F \<Longrightarrow> (\<And>x y. mono_option (\<lambda>f. G f x y)) \<Longrightarrow>
    mono_option (\<lambda>f. Option.bind (F f) (\<lambda>(x, y). G f x y))"
  by (rule bind_mono) (auto split: prod.split)

lemma vga_print_with_mono [partial_function_mono]: "mono_option (\<lambda>f. vga_print_with f s cs)"
proof (induction cs arbitrary: s)
  case Nil
  show ?case unfolding vga_print_with.simps by (rule option.const_mono)
next
  case (Cons c cs)
  show ?case unfolding vga_print_with.simps
    by (rule bind_mono [OF call_mono]) (rule Cons)
qed

lemma vga_scrolldown_with_mono [partial_function_mono]:
  "mono_option (\<lambda>f. vga_scrolldown_with f s b)"
proof -
  have puthex: "mono_option (\<lambda>f. vga_puthex_with f t i)" for t :: "'b kheap_scheme" and i
    unfolding vga_puthex_with_def by (intro bind_mono vga_print_with_mono)
  have complain: "mono_option (\<lambda>f. complain_with f t a)" for t :: "'b kheap_scheme" and a
    unfolding complain_with_def
    by (intro bind_mono vga_print_with_mono puthex option.const_mono)
  have free: "mono_option (\<lambda>f. kfree_with (complain_with f) t a)" for t :: "'b kheap_scheme" and a
    unfolding kfree_with_def Let_def
    by (intro if_mono bind_mono option.const_mono complain)
  show ?thesis
    unfolding vga_scrolldown_with_def memmove_with_def Let_def
    by (intro bind_mono bind_mono_pair option.const_mono free)
qed

partial_function (option) vga_putchar :: "'a kheap_scheme \<times> u8 \<Rightarrow> 'a kheap_scheme option" where
  "vga_putchar sc = do {
     s1 \<leftarrow> serial_putchar (fst sc) (snd sc);
     s2 \<leftarrow> vga_place s1 (snd sc);
     let s3 = vga_wrap s2;
     if VGA_HEIGHT - 1 \<le> vga_cursor_r s3 then do {
       s4 \<leftarrow> vga_scrolldown_with vga_putchar s3 1;
       Some (s4\<lparr>vga_cursor_r := vga_cursor_r s4 - 1\<rparr>)
     } else Some s3
   }"

section \<open>The operations of the headers\<close>

definition vga_print :: "'a kheap_scheme \<Rightarrow> u8 list \<Rightarrow> 'a kheap_scheme option" where
  "vga_print s cs = vga_print_with vga_putchar s cs"

definition vga_puthex :: "'a kheap_scheme \<Rightarrow> u32 \<Rightarrow> 'a kheap_scheme option" where
  "vga_puthex s i = vga_puthex_with vga_putchar s i"

text \<open>\<open>vga_print\<close> on a string in memory.\<close>

partial_function (option) vga_print_ptr :: "'a kheap_scheme \<Rightarrow> u32 \<Rightarrow> 'a kheap_scheme option" where
  "vga_print_ptr s p = do {
     c \<leftarrow> rd8 s p;
     if c = 0 then Some s
     else do { s1 \<leftarrow> vga_putchar (s, c); vga_print_ptr s1 (p + 1) }
   }"

definition kfree :: "'a kheap_scheme \<Rightarrow> u32 \<Rightarrow> (status_t \<times> 'a kheap_scheme) option" where
  "kfree s addr = kfree_with (complain_with vga_putchar) s addr"

definition krealloc :: "'a kheap_scheme \<Rightarrow> u32 \<Rightarrow> u32 \<Rightarrow> (u32 \<times> 'a kheap_scheme) option" where
  "krealloc s ptr sz =
     krealloc_with (\<lambda>t. vga_print t (lit ''Invalid block!'')) (complain_with vga_putchar) s ptr sz"

definition memmove :: "'a kheap_scheme \<Rightarrow> u32 \<Rightarrow> u32 \<Rightarrow> u32 \<Rightarrow> (u32 \<times> 'a kheap_scheme) option" where
  "memmove s dest src n = memmove_with vga_putchar s dest src n"

definition vga_scrolldown :: "'a kheap_scheme \<Rightarrow> u8 \<Rightarrow> 'a kheap_scheme option" where
  "vga_scrolldown s by = vga_scrolldown_with vga_putchar s by"

definition init_kmalloc :: "'a kheap_scheme \<Rightarrow> u32 \<Rightarrow> u32 \<Rightarrow> (status_t \<times> 'a kheap_scheme) option" where
  "init_kmalloc s start sz = init_kmalloc_with (complain_with vga_putchar) s start sz"

text \<open>The debugging dump of the heap, \<open>__dump_heap\<close> of \<open>kmalloc.c\<close>.\<close>

definition dump_heap :: "'a kheap_scheme \<Rightarrow> u32 \<Rightarrow> u32 \<Rightarrow> 'a kheap_scheme option" where
  "dump_heap s start_offset rows = do {
     s1 \<leftarrow> vga_print s [13, 10];
     s2 \<leftarrow> vga_print s1 [13, 10];
     s3 \<leftarrow> vga_print s2 (lit ''Heap trace:'' @ [10, 13]);
     let start = heap_start s3 + start_offset;
     for_loop 0 (unat rows) (\<lambda>r t. do {
       t1 \<leftarrow> vga_puthex t (start + word_of_nat (4 * r));
       t2 \<leftarrow> vga_print t1 (lit '': '');
       t3 \<leftarrow> for_loop 0 4 (\<lambda>c u. do {
         val \<leftarrow> rd32 u (start + 4 * word_of_nat (4 * r + c));
         u1 \<leftarrow> vga_puthex u val;
         vga_print u1 (lit '' '') }) t2;
       vga_print t3 [10, 13] }) s3
   }"

end
