(* ===== verification/KHeapClient.thy ===== *)
theory KHeapClient
  imports KHeapAlloc Vga
begin

text \<open>
  What the users of the kernel heap build on: a store into a live range, and a release.  The
  contract of theory \<open>KHeapAlloc\<close> is extended by both and interpreted on \<open>kfree\<close> and on the
  machine's store, so that each client (\<open>kcalloc\<close>, \<open>memmove\<close>, the descriptor tables, the
  packets) reasons with ranges and their contents only.
\<close>

section \<open>Fields above the heap\<close>

text \<open>Two states that agree on memory, translation and the globals of the heap and below.\<close>

definition heap_same :: "'a kheap_scheme \<Rightarrow> 'b kheap_scheme \<Rightarrow> bool" where
  "heap_same s s' \<longleftrightarrow>
     vm_same s s' \<and> heap_start s' = heap_start s \<and> heap_size s' = heap_size s \<and>
     first_blk s' = first_blk s \<and> min_heap_size s' = min_heap_size s"

lemma heap_same_inv:
  fixes s :: "'a kheap_scheme" and s' :: "'b kheap_scheme"
  assumes "heap_same s s'"
  shows "heap_inv s' bs = heap_inv s bs" and "grow_ok s' = grow_ok s" and "alloc_abs s' = alloc_abs s"
    and "alloc_ready s' = alloc_ready s" and "rdn s' = rdn s"
proof -
  have same: "vm_same s s'" and g: "heap_start s' = heap_start s" "heap_size s' = heap_size s"
    "first_blk s' = first_blk s" "min_heap_size s' = min_heap_size s"
    using assms by (auto simp: heap_same_def)
  note m = vm_same_mem [OF same] vm_same_wf [OF same]
  have "fget s' b f = fget s b f" for b f by (simp add: fget_def m)
  then have h: "hdr s' = hdr s" by (intro ext) (simp add: hdr_def)
  have "seg s' p bs n = seg s p bs n" for p n
    by (induction bs arbitrary: p) (auto simp: h)
  moreover have "clear_range s' = clear_range s"
    using same by (intro ext) (simp add: clear_range_def m alloc_vaddr_def vm_same_def)
  moreover have e: "heap_end s' = heap_end s" using g by (simp add: heap_end_def)
  ultimately show "heap_inv s' bs = heap_inv s bs" by (simp add: heap_inv_def heap_ok_def m g)
  show grow: "grow_ok s' = grow_ok s" by (intro ext) (simp add: grow_ok_def e m g Let_def)
  have r: "grow_request s' = grow_request s" by (intro ext) (simp add: grow_request_def g)
  show "alloc_abs s' = alloc_abs s"
  proof (intro ext)
    fix bs l
    show "alloc_abs s' bs l = alloc_abs s bs l"
      by (cases "fit (round16 l) bs") (simp_all add: alloc_abs_def r g)
  qed
  show "alloc_ready s' = alloc_ready s" by (intro ext) (simp add: alloc_ready_def r grow)
  show "rdn s' = rdn s" by (rule m)
qed

section \<open>Release and the live ranges\<close>

lemma absorb_next_live:
  "absorb_next z post = (z1, post1) \<Longrightarrow> live post1 = live post"
  by (auto simp: absorb_next_def split: list.splits bool.splits prod.splits)

lemma live_release: "live (release_abs pre a z post) = live pre \<union> live post"
proof -
  obtain z1 post1 where ab: "absorb_next z post = (z1, post1)" by (cases "absorb_next z post")
  show ?thesis
  proof (cases "pre \<noteq> [] \<and> snd (snd (last pre))")
    case True
    then obtain xs b y where pre: "pre = xs @ [(b, y, True)]"
      by (metis append_butlast_last_id prod.collapse)
    show ?thesis using ab absorb_next_live [OF ab] by (simp add: release_abs_def pre)
  next
    case False
    then show ?thesis using ab absorb_next_live [OF ab] by (auto simp: release_abs_def)
  qed
qed

text \<open>
  The bytes that belong to some block: joining two blocks adds their sizes only, so the
  twenty bytes of the absorbed header are lost to the heap.
\<close>

lemma capacity_append [simp]:
  "capacity (xs @ ys) = capacity xs + capacity ys" "capacity [] = 0"
  "capacity ((a, z, f) # bs) = unat z + capacity bs"
  by (simp_all add: capacity_def)

lemma absorb_next_capacity:
  assumes "laid lo ((a, z, f) # post) hi" and "hi < 4294967296" and ab: "absorb_next z post = (z1, post1)"
  shows "unat z1 + capacity post1 = unat z + capacity post" and "laid lo ((a, z1, g) # post1) hi"
proof -
  have "unat z1 + capacity post1 = unat z + capacity post \<and> laid lo ((a, z1, g) # post1) hi"
  proof (cases "\<exists>b y post'. post = (b, y, True) # post'")
    case True
    then obtain b y post' where post: "post = (b, y, True) # post'" by blast
    have e: "z1 = z + y" "post1 = post'" using ab by (auto simp: absorb_next_def post)
    have l: "laid (unat b + 20 + unat y) post' hi" "unat a + 20 + unat z \<le> unat b" "lo \<le> unat a"
      using assms(1) by (auto simp: post)
    have u: "unat (z + y) = unat z + unat y"
      using laid_le [OF l(1)] l(2) assms(2) by (intro unat_add_small) simp
    show ?thesis using l u by (auto simp: e post intro: laid_mono)
  next
    case False
    then have "absorb_next z post = (z, post)"
      by (auto simp: absorb_next_def split: list.splits bool.splits)
    then show ?thesis using ab assms(1) by simp
  qed
  then show "unat z1 + capacity post1 = unat z + capacity post" and "laid lo ((a, z1, g) # post1) hi" by auto
qed

lemma capacity_release:
  assumes l: "laid lo (pre @ (a, z, f) # post) hi" and hi: "hi < 4294967296"
  shows "capacity (release_abs pre a z post) = capacity (pre @ (a, z, f) # post)"
proof -
  obtain z1 post1 where ab: "absorb_next z post = (z1, post1)" by (cases "absorb_next z post")
  have l1: "laid (stop lo pre) ((a, z, f) # post) hi" using l by (simp only: laid_append)
  note ac = absorb_next_capacity [OF l1 hi ab]
  show ?thesis
  proof (cases "pre \<noteq> [] \<and> snd (snd (last pre))")
    case True
    then obtain xs b y where pre: "pre = xs @ [(b, y, True)]"
      by (metis append_butlast_last_id prod.collapse)
    have l2: "laid (stop lo xs) ((b, y, True) # (a, z1, True) # post1) hi"
      using l ac(2) [of True] by (simp add: pre laid_append)
    have "absorb_next y ((a, z1, True) # post1) = (y + z1, post1)" by (simp add: absorb_next_def)
    then have "unat (y + z1) = unat y + unat z1"
      using absorb_next_capacity(1) [OF l2 hi] by simp
    then show ?thesis using ac(1) ab by (simp add: release_abs_def pre add.commute)
  next
    case False
    then show ?thesis using ac(1) ab by (auto simp: release_abs_def)
  qed
qed

lemma live_member:
  assumes "(p, m) \<in> live bs"
  obtains pre a z post where "bs = pre @ (a, z, False) # post" and "p = a + 20" and "m = unat z"
  using assms unfolding live_def by (auto dest: split_list)

lemma live_inj:
  assumes inv: "heap_inv s bs" and "(p, m) \<in> live bs" and "(p, k) \<in> live bs"
  shows "m = k"
proof (rule ccontr)
  assume "m \<noteq> k"
  have l: "laid (unat (heap_start s)) bs (heap_end s)" using inv by (simp add: heap_inv_def)
  obtain z y where "(p - 20, z, False) \<in> set bs" "m = unat z" "(p - 20, y, False) \<in> set bs" "k = unat y"
    using assms(2,3) by (auto simp: live_def)
  then show False using laid_sep [OF l, of "p - 20" z False "p - 20" y False] \<open>m \<noteq> k\<close> by auto
qed

lemma kfree_release:
  fixes s :: "'a kheap_scheme"
  assumes inv: "heap_inv s (pre @ (a, z, False) # post)"
  shows "\<exists>s'. kfree s (a + 20) = Some (STATUS_OK, s') \<and> heap_inv s' (release_abs pre a z post) \<and>
    (\<forall>(q, k)\<in>live (pre @ (a, z, False) # post). rdn s' q k = rdn s q k) \<and> heap_frame s s'"
proof -
  let ?h = "pre @ (a, z, False) # post"
  obtain s' where s': "kfree_with (complain_with vga_putchar) s (a + 20) = Some (STATUS_OK, s')"
    "heap_inv s' (release_abs pre a z post)" "only_hdrs s (addrs ?h) s'"
    using kfree_spec [OF inv] by blast
  have l: "laid (unat (heap_start s)) ?h (heap_end s)" and hi: "heap_end s < 4294967296"
    using inv by (auto simp: heap_inv_def heap_ok_def)
  have "\<forall>(q, k)\<in>live ?h. rdn s' q k = rdn s q k"
    using only_hdrs_data_pre [OF s'(3) l hi] by (auto simp: live_def)
  moreover have "heap_frame s s'" by (rule heap_frame_hdrs [OF s'(3) laid_headers [OF l hi] hi])
  ultimately show ?thesis using s'(1,2) by (auto simp: kfree_def)
qed

lemma live_released:
  assumes inv: "heap_inv s (pre @ (a, z, False) # post)"
  shows "live (release_abs pre a z post) = live (pre @ (a, z, False) # post) - {(a + 20, unat z)}"
proof -
  have l: "laid (unat (heap_start s)) (pre @ (a, z, False) # post) (heap_end s)" using inv by (auto simp: heap_inv_def)
  have "a \<notin> fst ` set pre \<union> fst ` set post" using laid_distinct [OF l] by simp
  then have "(a + 20, unat z) \<notin> live pre" "(a + 20, unat z) \<notin> live post" by (force simp: live_def)+
  then show ?thesis by (auto simp: live_release)
qed

text \<open>The released block, joined with its free neighbours, has room for what was in it.\<close>

lemma fit_free: "(b, y, True) \<in> set bs \<Longrightarrow> len \<le> y \<Longrightarrow> fit len bs \<noteq> None"
  by (induction len bs rule: fit.induct) auto

lemma absorb_next_grows:
  assumes "laid lo ((a, z, f) # post) hi" and "hi < 4294967296" and ab: "absorb_next z post = (z1, post1)"
  shows "z \<le> z1"
proof (cases "\<exists>b y post'. post = (b, y, True) # post'")
  case True
  then obtain b y post' where post: "post = (b, y, True) # post'" by blast
  then have "post1 = post'" using ab by (auto simp: absorb_next_def)
  then have "unat z1 = unat z + unat y" using absorb_next_capacity(1) [OF assms] by (simp add: post)
  then show ?thesis by (simp add: word_le_nat_alt)
next
  case False
  then have "absorb_next z post = (z, post)"
    by (auto simp: absorb_next_def split: list.splits bool.splits)
  then show ?thesis using ab by simp
qed

lemma fit_released:
  assumes l: "laid lo (pre @ (a, z, f) # post) hi" and hi: "hi < 4294967296" and len: "len \<le> z"
  shows "fit len (release_abs pre a z post) \<noteq> None"
proof -
  obtain z1 post1 where ab: "absorb_next z post = (z1, post1)" by (cases "absorb_next z post")
  have l1: "laid (stop lo pre) ((a, z, f) # post) hi" using l by (simp only: laid_append)
  have z1: "len \<le> z1" using absorb_next_grows [OF l1 hi ab] len by simp
  show ?thesis
  proof (cases "pre \<noteq> [] \<and> snd (snd (last pre))")
    case True
    then obtain xs b y where pre: "pre = xs @ [(b, y, True)]"
      by (metis append_butlast_last_id prod.collapse)
    have l2: "laid (stop lo xs) ((b, y, True) # (a, z1, True) # post1) hi"
      using l absorb_next_capacity(2) [OF l1 hi ab, of True] by (simp add: pre laid_append)
    have ab2: "absorb_next y ((a, z1, True) # post1) = (y + z1, post1)" by (simp add: absorb_next_def)
    have "unat (y + z1) = unat y + unat z1" using absorb_next_capacity(1) [OF l2 hi ab2] by simp
    then have "len \<le> y + z1" using z1 by (simp add: word_le_nat_alt)
    then show ?thesis by (intro fit_free [of b "y + z1"]) (simp_all add: release_abs_def pre ab)
  next
    case False
    then show ?thesis using z1 by (intro fit_free [of a z1]) (auto simp: release_abs_def ab)
  qed
qed

lemma kfree_live:
  fixes s :: "'a kheap_scheme"
  assumes inv: "heap_inv s h" and pm: "(p, m) \<in> live h"
  shows "\<exists>s' h'. kfree s p = Some (STATUS_OK, s') \<and> heap_inv s' h' \<and> live h' = live h - {(p, m)} \<and>
    (\<forall>(q, k)\<in>live h. rdn s' q k = rdn s q k) \<and> heap_frame s s'"
proof -
  obtain pre a z post where h: "h = pre @ (a, z, False) # post" "p = a + 20" "m = unat z"
    by (rule live_member [OF pm])
  show ?thesis
    using kfree_release [OF inv [unfolded h(1)]] live_released [OF inv [unfolded h(1)]] unfolding h(2,3) h(1) [symmetric] by blast
qed

section \<open>Stores into a live range\<close>

text \<open>The list after the elements from index \<open>i\<close> on were overwritten by \<open>ys\<close>.\<close>

definition patch :: "nat \<Rightarrow> 'a list \<Rightarrow> 'a list \<Rightarrow> 'a list" where
  "patch i ys xs = take i xs @ ys @ drop (i + length ys) xs"

lemma length_patch [simp]: "i + length ys \<le> length xs \<Longrightarrow> length (patch i ys xs) = length xs"
  by (simp add: patch_def)

lemma nth_patch:
  "i + length ys \<le> length xs \<Longrightarrow> k < length xs \<Longrightarrow>
    patch i ys xs ! k = (if i \<le> k \<and> k < i + length ys then ys ! (k - i) else xs ! k)"
  by (auto simp: patch_def nth_append)

lemma live_addr:
  assumes inv: "heap_inv s h" and pm: "(p, m) \<in> live h"
  shows "unat p + m < 4294967296" and "clear_range s p m" and "p \<noteq> 0"
proof -
  have l: "laid (unat (heap_start s)) h (heap_end s)" and ok: "heap_ok s" and hi: "heap_end s < 4294967296"
    using inv by (auto simp: heap_inv_def heap_ok_def)
  obtain a z where e: "p = a + 20" "m = unat z" "(a, z, False) \<in> set h" using pm by (auto simp: live_def)
  note b = laid_bounds [OF l e(3)]
  have u: "unat p = unat a + 20" using b hi by (simp add: e unat_add_small)
  show "unat p + m < 4294967296" using b hi u e by simp
  show "p \<noteq> 0" using u by auto
  show "clear_range s p m" by (rule clear_sub [OF ok]) (use b u e in simp_all)
qed

lemma live_contents:
  assumes "heap_inv s h" and "(p, m) \<in> live h"
  obtains xs where "rdn s p m = Some xs" and "length xs = m"
  using data_rdn live_addr(2) [OF assms] unfolding clear_range_def by blast

lemma sub_offset:
  fixes p :: u32
  assumes "k < m" and "off + n \<le> m" and "unat p + m < 4294967296"
  shows "unat (p + word_of_nat k - (p + word_of_nat off)) < n \<longleftrightarrow> off \<le> k \<and> k < off + n"
    and "off \<le> k \<Longrightarrow> unat (p + word_of_nat k - (p + word_of_nat off)) = k - off"
proof -
  have u: "unat (word_of_nat k :: u32) = k" "unat (word_of_nat off :: u32) = off"
    using assms by (simp_all add: unat_of_nat)
  have e: "p + word_of_nat k - (p + word_of_nat off) = word_of_nat k - (word_of_nat off :: u32)" by simp
  show "off \<le> k \<Longrightarrow> unat (p + word_of_nat k - (p + word_of_nat off)) = k - off"
    unfolding e unat_sub_if' u by simp
  show "unat (p + word_of_nat k - (p + word_of_nat off)) < n \<longleftrightarrow> off \<le> k \<and> k < off + n"
    unfolding e unat_sub_if' u using assms by auto
qed

lemma rdn_nth: "rdn s p m = Some xs \<Longrightarrow> k < m \<Longrightarrow> rd8 s (p + word_of_nat k) = Some (xs ! k)"
  using those_nth [of "map (\<lambda>k. rd8 s (p + word_of_nat k)) [0..<m]" xs k] by (simp add: rdn_rd8)

lemma rdn_stn_patch:
  assumes d: "data_range s (p + word_of_nat off) (length bs)" and len: "off + length bs \<le> m"
    and hi: "unat p + m < 4294967296" and xs: "rdn s p m = Some xs" "length xs = m" and dp: "unshadowed s p m"
  shows "rdn (stn s (p + word_of_nat off) bs) p m = Some (patch off bs xs)"
proof -
  note r = rdn_nth [OF xs(1)]
  show ?thesis
    unfolding rdn_rd8
  proof (rule those_Some)
    fix k assume "k < length (map (\<lambda>k. rd8 (stn s (p + word_of_nat off) bs) (p + word_of_nat k)) [0..<m])"
    then have k: "k < m" by simp
    have ns: "\<not> shadow s (p + word_of_nat k)" by (rule unshadowedD [OF dp k])
    have "rd8 (stn s (p + word_of_nat off) bs) (p + word_of_nat k) = Some (patch off bs xs ! k)"
      using sub_offset [OF k len hi] k len hi xs(2)
      by (simp add: rd8_stn [OF d] r nth_patch ns)
    then show "map (\<lambda>k. rd8 (stn s (p + word_of_nat off) bs) (p + word_of_nat k)) [0..<m] ! k =
        Some (patch off bs xs ! k)" using k by simp
  qed (use len xs(2) in simp)
qed

text \<open>A store that meets neither a header nor the allocator keeps the heap and what a request would find.\<close>

lemma stn_heap:
  fixes s :: "'a kheap_scheme"
  assumes inv: "heap_inv s h" and cr: "clear_range s a (length bs)" and b32: "length bs \<le> 4294967296"
    and hd: "\<And>b f. b \<in> addrs h \<Longrightarrow> fget (stn s a bs) b f = fget s b f"
  defines "s' \<equiv> stn s a bs"
  shows "heap_inv s' h" and "alloc_ready s' = alloc_ready s" and "alloc_abs s' = alloc_abs s"
proof -
  have ok: "heap_ok s" and wf: "vm_wf s" using inv by (auto simp: heap_inv_def heap_ok_def)
  have d: "data_range s a (length bs)" using cr by (simp add: clear_range_def)
  note tb = stn_tables [OF d, folded s'_def] and w = stn_vm_wf [OF wf cr b32, folded s'_def]
    and fs = stn_vm_fields [of s a bs, folded s'_def]
  have g: "heap_start s' = heap_start s" "heap_size s' = heap_size s" "first_blk s' = first_blk s"
    "min_heap_size s' = min_heap_size s"
    by (simp_all add: s'_def stn_def)
  have e: "heap_end s' = heap_end s" by (simp add: heap_end_def g)
  have "seg s' 0 h 0 = seg s 0 h 0" unfolding s'_def by (rule seg_cong) (rule hd)
  moreover have "clear_range s' = clear_range s" unfolding s'_def by (rule clear_range_stn [OF d])
  ultimately show "heap_inv s' h"
    using inv w by (simp add: heap_inv_def heap_ok_def g e)
  have mm: "mmap_ok s' = mmap_ok s"
    using tb(4) [OF pd_index_less] by (intro ext) (simp add: mmap_ok_def tb fs w)
  have gr: "grow_ok s' = grow_ok s" by (intro ext) (simp add: grow_ok_def mm e g Let_def)
  have rq: "grow_request s' = grow_request s" by (intro ext) (simp add: grow_request_def g)
  show "alloc_ready s' = alloc_ready s" by (intro ext) (simp add: alloc_ready_def gr rq)
  show "alloc_abs s' = alloc_abs s"
  proof (intro ext)
    fix bs l
    show "alloc_abs s' bs l = alloc_abs s bs l"
      by (cases "fit (round16 l) bs") (simp_all add: alloc_abs_def rq g)
  qed
qed

lemma live_stn:
  fixes s :: "'a kheap_scheme"
  assumes inv: "heap_inv s h" and pm: "(p, m) \<in> live h" and len: "off + length bs \<le> m"
  defines "s' \<equiv> stn s (p + word_of_nat off) bs"
  shows "wrn s (p + word_of_nat off) bs = Some s'" and "heap_inv s' h"
    and "\<And>q k. (q, k) \<in> live h \<Longrightarrow> q \<noteq> p \<Longrightarrow> rdn s' q k = rdn s q k"
    and "rdn s' p m = map_option (patch off bs) (rdn s p m)" and "alloc_ready s' = alloc_ready s"
    and "alloc_abs s' = alloc_abs s" and "heap_frame s s'"
proof -
  let ?a = "p + word_of_nat off"
  note la = live_addr [OF inv pm]
  have ok: "heap_ok s" and wf: "vm_wf s" and l: "laid (unat (heap_start s)) h (heap_end s)"
    and hi: "heap_end s < 4294967296" using inv by (auto simp: heap_inv_def heap_ok_def)
  have cr: "clear_range s ?a (length bs)" by (rule clear_range_sub [OF la(2) len])
  then have d: "data_range s ?a (length bs)" by (simp add: clear_range_def)
  have b32: "length bs \<le> 4294967296" using la(1) len by simp
  show "wrn s ?a bs = Some s'" unfolding s'_def by (rule wrn_data [OF d])
  have g: "heap_start s' = heap_start s" "heap_size s' = heap_size s" "first_blk s' = first_blk s"
    "min_heap_size s' = min_heap_size s"
    by (simp_all add: s'_def stn_def)
  have e: "heap_end s' = heap_end s" by (simp add: heap_end_def g)
  obtain a z where az: "p = a + 20" "m = unat z" "(a, z, False) \<in> set h" using pm by (auto simp: live_def)
  note bz = laid_bounds [OF l az(3)]
  have up: "unat p = unat a + 20" using bz hi by (simp add: az unat_add_small)
  have uo: "unat (word_of_nat off :: u32) = off" using la(1) len by (simp add: unat_of_nat)
  have ua: "unat ?a = unat a + 20 + off" using la(1) len up uo by (simp add: unat_add_small)
  have "fget s' b f = fget s b f" if b: "b \<in> addrs h" for b f
  proof -
    obtain y g where y: "(b, y, g) \<in> set h" using b by (auto simp: addrs_def)
    note by' = laid_bounds [OF l y]
    have hb: "hin s b" using by' by (simp add: hin_def)
    have uf: "unat (faddr b f) = unat b + foff f" by (rule unat_faddr [OF ok hb])
    have "sep ?a (length bs) (faddr b f) 4"
      using laid_sep [OF l az(3) y] bz by' hi uf ua foff_less [of f] len az(2)
      unfolding sep_def by auto
    moreover have "unshadowed s (faddr b f) 4" using field_range [OF ok hb] by (simp add: clear_range_def)
    ultimately show ?thesis
      unfolding fget_def rd32_def s'_def by (simp add: rdn_stn_sep [OF d])
  qed
  then have hd: "fget (stn s ?a bs) b f = fget s b f" if "b \<in> addrs h" for b f
    using that by (simp add: s'_def)
  note sh = stn_heap [OF inv cr b32 hd, folded s'_def]
  show "heap_inv s' h" using sh(1) by simp
  show "alloc_ready s' = alloc_ready s" using sh(2) by simp
  show "alloc_abs s' = alloc_abs s" using sh(3) by simp
  show "rdn s' q k = rdn s q k" if qk: "(q, k) \<in> live h" "q \<noteq> p" for q k
  proof -
    have "sep p m q k" by (rule live_disjoint [OF inv pm qk(1)]) (use qk(2) in auto)
    then have "sep ?a (length bs) q k"
      using la(1) len ua up live_addr(1) [OF inv qk(1)] unfolding sep_def by auto
    moreover have "unshadowed s q k" using live_addr(2) [OF inv qk(1)] by (simp add: clear_range_def)
    ultimately show ?thesis unfolding s'_def by (intro rdn_stn_sep [OF d])
  qed
  have dp: "unshadowed s p m" using la(2) by (simp add: clear_range_def)
  obtain xs where xs: "rdn s p m = Some xs" "length xs = m" by (rule live_contents [OF inv pm])
  show "rdn s' p m = map_option (patch off bs) (rdn s p m)"
    unfolding s'_def xs(1) by (simp add: rdn_stn_patch [OF d len la(1) xs dp])
  have only: "heap_only s s'"
    by (rule heap_onlyI [where r = "ram s'" and t = "tlb s" and x = "hwas_sp s" and f = "first_blk s"
        and h = "heap_size s" and m = "min_heap_size s"]) (simp add: s'_def stn_def)
  have "foreign s' = foreign s"
    using data_stn [OF d] heap_only_fields(7,8) [OF only]
    by (intro ext) (simp add: foreign_def e, simp add: s'_def)
  moreover have "rd8 s' b = rd8 s b" if b: "foreign s b" for b
  proof -
    have "unat b < unat ?a \<or> unat ?a + length bs \<le> unat b"
      using b bz ua len az(2) unfolding foreign_def by linarith
    then have "\<not> unat (b - ?a) < length bs"
      using la(1) len up ua u32_less [of b] by (auto simp: unat_sub_if')
    moreover have "\<not> shadow s b" using b by (simp add: foreign_def data_not_shadow)
    ultimately show ?thesis unfolding s'_def by (simp add: rd8_stn [OF d b32])
  qed
  ultimately show "heap_frame s s'" using only by (simp add: heap_frame_def)
qed

section \<open>The contract of the heap's users\<close>

locale heap_client = heap_contract inv ranges ready alloc after contents frame
  for inv :: "'s \<Rightarrow> 'h \<Rightarrow> bool"
    and ranges :: "'h \<Rightarrow> (u32 \<times> nat) set"
    and ready :: "'s \<Rightarrow> 'h \<Rightarrow> u32 \<Rightarrow> bool"
    and alloc :: "'s \<Rightarrow> u32 \<Rightarrow> (u32 \<times> 's) option"
    and after :: "'s \<Rightarrow> 'h \<Rightarrow> u32 \<Rightarrow> 'h"
    and contents :: "'s \<Rightarrow> u32 \<Rightarrow> nat \<Rightarrow> u8 list option"
    and frame :: "'s \<Rightarrow> 's \<Rightarrow> bool" +
  fixes free :: "'s \<Rightarrow> u32 \<Rightarrow> (status_t \<times> 's) option"
    and store :: "'s \<Rightarrow> u32 \<Rightarrow> u8 list \<Rightarrow> 's option"
    and load :: "'s \<Rightarrow> u32 \<Rightarrow> u8 option"
  assumes free_law: "inv s h \<Longrightarrow> (p, m) \<in> ranges h \<Longrightarrow>
      \<exists>s' h'. free s p = Some (STATUS_OK, s') \<and> inv s' h' \<and> ranges h' = ranges h - {(p, m)} \<and>
        (\<forall>(q, k)\<in>ranges h. contents s' q k = contents s q k) \<and> frame s s'"
    and store_law: "inv s h \<Longrightarrow> (p, m) \<in> ranges h \<Longrightarrow> off + length bs \<le> m \<Longrightarrow>
      \<exists>s'. store s (p + word_of_nat off) bs = Some s' \<and> inv s' h \<and>
        contents s' p m = map_option (patch off bs) (contents s p m) \<and>
        (\<forall>(q, k)\<in>ranges h. q \<noteq> p \<longrightarrow> contents s' q k = contents s q k) \<and> ready s' h = ready s h \<and> frame s s'"
    and contents_law: "inv s h \<Longrightarrow> (p, m) \<in> ranges h \<Longrightarrow> \<exists>xs. contents s p m = Some xs \<and> length xs = m"
    and load_law: "contents s p m = Some xs \<Longrightarrow> k < m \<Longrightarrow> load s (p + word_of_nat k) = Some (xs ! k)"
begin

text \<open>A request that is released at once leaves the ranges and their contents as they were.\<close>

lemma alloc_free:
  assumes "inv s h" and "ready s h n"
  shows "\<exists>p s1 s2 h2. alloc s n = Some (p, s1) \<and> free s1 p = Some (STATUS_OK, s2) \<and> inv s2 h2 \<and>
    ranges h2 = ranges h \<and> (\<forall>(q, k)\<in>ranges h. contents s2 q k = contents s q k) \<and> frame s s2"
proof -
  obtain p m s1 where 1: "alloc s n = Some (p, s1)" "inv s1 (after s h n)"
    and r: "p \<notin> fst ` ranges h" "ranges (after s h n) = insert (p, m) (ranges h)"
    and c1: "\<forall>(q, k)\<in>ranges h. contents s1 q k = contents s q k" "frame s s1"
    using alloc_law [OF assms] by blast
  have "(p, m) \<in> ranges (after s h n)" by (simp add: r(2))
  then obtain s2 h2 where 2: "free s1 p = Some (STATUS_OK, s2)" "inv s2 h2"
    "ranges h2 = ranges (after s h n) - {(p, m)}"
    and c2: "\<forall>(q, k)\<in>ranges (after s h n). contents s2 q k = contents s1 q k" "frame s1 s2"
    using free_law [OF 1(2)] by blast
  have "(p, m) \<notin> ranges h" using r(1) by (force simp: image_iff)
  then have "ranges h2 = ranges h" using 2(3) r(2) by blast
  moreover have "\<forall>(q, k)\<in>ranges h. contents s2 q k = contents s q k"
    using c1(1) c2(1) unfolding r(2) by fastforce
  ultimately show ?thesis using 1(1) 2(1,2) frame_trans [OF c1(2) c2(2)] by blast
qed

text \<open>A loop that stores one byte in each round, as in \<open>kcalloc\<close> and \<open>memset\<close>.\<close>

lemma fill:
  assumes "inv s h" and "(p, m) \<in> ranges h" and "n \<le> m" and "contents s p m = Some xs"
  shows "\<exists>s'. for_loop 0 n (\<lambda>i t. store t (p + word_of_nat i) [f i]) s = Some s' \<and> inv s' h \<and>
    contents s' p m = Some (map f [0..<n] @ drop n xs) \<and>
    (\<forall>(q, k)\<in>ranges h. q \<noteq> p \<longrightarrow> contents s' q k = contents s q k) \<and> ready s' h = ready s h \<and> frame s s'"
proof -
  let ?P = "\<lambda>i t. inv t h \<and> contents t p m = Some (map f [0..<i] @ drop i xs) \<and>
    (\<forall>(q, k)\<in>ranges h. q \<noteq> p \<longrightarrow> contents t q k = contents s q k) \<and> ready t h = ready s h \<and> frame s t"
  have len: "length xs = m" using contents_law [OF assms(1,2)] assms(4) by auto
  have "\<exists>s'. for_loop 0 n (\<lambda>i t. store t (p + word_of_nat i) [f i]) s = Some s' \<and> ?P (0 + n) s'"
  proof (rule for_loop_inv)
    show "?P 0 s" using assms(1,4) frame_refl by auto
    fix i t assume i: "i < 0 + n" and P: "?P i t"
    have "i + length [f i] \<le> m" using i assms(3) by simp
    then obtain t' where t': "store t (p + word_of_nat i) [f i] = Some t'" "inv t' h"
      "contents t' p m = map_option (patch i [f i]) (contents t p m)"
      "\<forall>(q, k)\<in>ranges h. q \<noteq> p \<longrightarrow> contents t' q k = contents t q k" "ready t' h = ready t h"
      "frame t t'"
      using store_law [OF _ assms(2), of t i "[f i]"] P by blast
    have "patch i [f i] (map f [0..<i] @ drop i xs) = map f [0..<Suc i] @ drop (Suc i) xs"
      using i assms(3) len by (simp add: patch_def)
    moreover have "contents t' q k = contents s q k" if "(q, k) \<in> ranges h" "q \<noteq> p" for q k
      using bspec [OF t'(4) that(1)] P that by fastforce
    moreover have "frame s t'" using P t'(6) frame_trans by blast
    ultimately have "?P (Suc i) t'" using t'(2,3,5) P by auto
    then show "\<exists>t'. store t (p + word_of_nat i) [f i] = Some t' \<and> ?P (Suc i) t'" using t'(1) by blast
  qed
  then show ?thesis by simp
qed

text \<open>The loop that copies \<open>n\<close> bytes from offset \<open>i\<close> of one range to offset \<open>j\<close> of another.\<close>

lemma copy:
  assumes inv: "inv s h" and p: "(p, m) \<in> ranges h" "i + n \<le> m" "contents s p m = Some xs"
    and q: "(q, k) \<in> ranges h" "j + n \<le> k" "contents s q k = Some ys" and pq: "p \<noteq> q"
  shows "\<exists>s'. for_loop 0 n (\<lambda>l t. do { b \<leftarrow> load t (p + word_of_nat i + word_of_nat l);
      store t (q + word_of_nat j + word_of_nat l) [b] }) s = Some s' \<and> inv s' h \<and>
    contents s' q k = Some (patch j (take n (drop i xs)) ys) \<and>
    (\<forall>(r, l)\<in>ranges h. r \<noteq> q \<longrightarrow> contents s' r l = contents s r l) \<and> ready s' h = ready s h \<and> frame s s'"
proof -
  let ?f = "\<lambda>l t. do { b \<leftarrow> load t (p + word_of_nat i + word_of_nat l);
      store t (q + word_of_nat j + word_of_nat l) [b] }"
  let ?P = "\<lambda>l t. inv t h \<and> contents t q k = Some (patch j (take l (drop i xs)) ys) \<and>
    (\<forall>(r, l)\<in>ranges h. r \<noteq> q \<longrightarrow> contents t r l = contents s r l) \<and> ready t h = ready s h \<and> frame s t"
  have lx: "length xs = m" and ly: "length ys = k"
    using contents_law [OF inv p(1)] contents_law [OF inv q(1)] p(3) q(3) by auto
  have "\<exists>s'. for_loop 0 n ?f s = Some s' \<and> ?P (0 + n) s'"
  proof (rule for_loop_inv)
    show "?P 0 s" using inv q(3) frame_refl by (auto simp: patch_def)
    fix l t assume l: "l < 0 + n" and P: "?P l t"
    have cp: "contents t p m = Some xs" using P p(1,3) pq by fastforce
    have ld: "load t (p + word_of_nat i + word_of_nat l) = Some (xs ! (i + l))"
      using load_law [OF cp, of "i + l"] l p(2) by (simp add: add.assoc)
    have "j + l + length [xs ! (i + l)] \<le> k" using l q(2) by simp
    then obtain t' where t': "store t (q + word_of_nat (j + l)) [xs ! (i + l)] = Some t'" "inv t' h"
      "contents t' q k = map_option (patch (j + l) [xs ! (i + l)]) (contents t q k)"
      "\<forall>(r, k)\<in>ranges h. r \<noteq> q \<longrightarrow> contents t' r k = contents t r k" "ready t' h = ready t h"
      "frame t t'"
      using store_law [OF _ q(1), of t "j + l" "[xs ! (i + l)]"] P by blast
    have "take (Suc l) (drop i xs) = take l (drop i xs) @ [xs ! (i + l)]"
      using l p(2) lx by (simp add: take_Suc_conv_app_nth)
    then have "patch (j + l) [xs ! (i + l)] (patch j (take l (drop i xs)) ys) =
        patch j (take (Suc l) (drop i xs)) ys"
      using l q(2) ly p(2) lx by (simp add: patch_def)
    then have "contents t' q k = Some (patch j (take (Suc l) (drop i xs)) ys)" using t'(3) P by simp
    moreover have "contents t' r w = contents s r w" if "(r, w) \<in> ranges h" "r \<noteq> q" for r w
      using bspec [OF t'(4) that(1)] P that by fastforce
    moreover have "frame s t'" using P t'(6) frame_trans by blast
    ultimately have "?P (Suc l) t'" using t'(2,5) P by auto
    moreover have "?f l t = Some t'" using ld t'(1) by (simp add: add.assoc)
    ultimately show "\<exists>t'. ?f l t = Some t' \<and> ?P (Suc l) t'" by blast
  qed
  then show ?thesis by simp
qed

text \<open>A request whose bytes are then all set by such a loop.\<close>

lemma alloc_fill:
  assumes "inv s h" and "ready s h n" and small: "unat n \<le> unat (round16 n)"
  shows "\<exists>p m s1 s2 ys. alloc s n = Some (p, s1) \<and>
    for_loop 0 (unat n) (\<lambda>i t. store t (p + word_of_nat i) [f i]) s1 = Some s2 \<and> inv s2 (after s h n) \<and>
    ranges (after s h n) = insert (p, m) (ranges h) \<and> p \<notin> fst ` ranges h \<and> unat n \<le> m \<and>
    contents s2 p m = Some (map f [0..<unat n] @ ys) \<and>
    (\<forall>(q, k)\<in>ranges h. contents s2 q k = contents s q k) \<and> frame s s2"
proof -
  obtain p m s1 where 1: "alloc s n = Some (p, s1)" "inv s1 (after s h n)" "unat (round16 n) \<le> m"
    and r: "p \<notin> fst ` ranges h" "ranges (after s h n) = insert (p, m) (ranges h)"
    and c1: "\<forall>(q, k)\<in>ranges h. contents s1 q k = contents s q k" "frame s s1"
    using alloc_law [OF assms(1,2)] by blast
  have pm: "(p, m) \<in> ranges (after s h n)" by (simp add: r(2))
  have nm: "unat n \<le> m" using small 1(3) by simp
  obtain xs where xs: "contents s1 p m = Some xs" using contents_law [OF 1(2) pm] by blast
  obtain s2 where 2: "for_loop 0 (unat n) (\<lambda>i t. store t (p + word_of_nat i) [f i]) s1 = Some s2"
    "inv s2 (after s h n)" "contents s2 p m = Some (map f [0..<unat n] @ drop (unat n) xs)"
    and c2: "\<forall>(q, k)\<in>ranges (after s h n). q \<noteq> p \<longrightarrow> contents s2 q k = contents s1 q k" "frame s1 s2"
    using fill [OF 1(2) pm nm xs, of f] by blast
  have "contents s2 q k = contents s q k" if qk: "(q, k) \<in> ranges h" for q k
  proof -
    have "q \<noteq> p" using r(1) qk by (force simp: image_iff)
    moreover have "(q, k) \<in> ranges (after s h n)" using qk by (simp add: r(2))
    ultimately show ?thesis using c1(1) c2(1) qk by fastforce
  qed
  then have "\<forall>(q, k)\<in>ranges h. contents s2 q k = contents s q k" by blast
  then show ?thesis
    by (intro exI conjI) (rule 1(1), rule 2(1), rule 2(2), rule r(2), rule r(1), rule nm, rule 2(3), assumption,
        rule frame_trans [OF c1(2) c2(2)])
qed

end

interpretation hc: heap_client heap_inv live alloc_ready kmalloc "\<lambda>s h n. snd (alloc_abs s h n)" rdn heap_frame kfree wrn rd8
proof (unfold_locales)
  fix s :: "'a kheap_scheme" and h p m
  assume inv: "heap_inv s h" and pm: "(p, m) \<in> live h"
  show "\<exists>s' h'. kfree s p = Some (STATUS_OK, s') \<and> heap_inv s' h' \<and> live h' = live h - {(p, m)} \<and>
      (\<forall>(q, k)\<in>live h. rdn s' q k = rdn s q k) \<and> heap_frame s s'"
    by (rule kfree_live [OF inv pm])
  show "\<exists>xs. rdn s p m = Some xs \<and> length xs = m"
    by (rule live_contents [OF inv pm]) blast
  fix off and bs :: "u8 list"
  assume len: "off + length bs \<le> m"
  note l = live_stn [OF inv pm len]
  have "\<forall>(q, k)\<in>live h. q \<noteq> p \<longrightarrow> rdn (stn s (p + word_of_nat off) bs) q k = rdn s q k"
    using l(3) by blast
  then show "\<exists>s'. wrn s (p + word_of_nat off) bs = Some s' \<and> heap_inv s' h \<and>
      rdn s' p m = map_option (patch off bs) (rdn s p m) \<and>
      (\<forall>(q, k)\<in>live h. q \<noteq> p \<longrightarrow> rdn s' q k = rdn s q k) \<and> alloc_ready s' h = alloc_ready s h \<and> heap_frame s s'"
    using l(1,2,4,5,7) by (intro exI [of _ "stn s (p + word_of_nat off) bs"] conjI) simp_all
next
  fix s :: "'a kheap_scheme" and p m xs k
  assume "rdn s p m = Some xs" "k < m"
  then show "rd8 s (p + word_of_nat k) = Some (xs ! k)" by (rule rdn_nth)
qed

end
