(* ===== verification/Klibc.thy ===== *)
theory Klibc
  imports Vga
begin

text \<open>
  The kernel's C library, \<open>klibc/\<close>: \<open>strlen\<close>, \<open>memcpy\<close> and \<open>memset\<close> of \<open>kstring.c\<close> (\<open>memmove\<close> is in
  theory \<open>Vga\<close>), \<open>itoa\<close> of \<open>kstdlib.c\<close> and \<open>printk\<close> of \<open>kstdio.c\<close>.
\<close>

section \<open>Strings and memory\<close>

partial_function (option) strlen_from :: "'a kheap_scheme \<Rightarrow> u32 \<Rightarrow> u32 \<Rightarrow> u32 option" where
  "strlen_from s str i = do {
     c \<leftarrow> rd8 s (str + i);
     if c \<noteq> 0 then strlen_from s str (i + 1) else Some (i + 1)
   }"

definition strlen :: "'a kheap_scheme \<Rightarrow> u32 \<Rightarrow> u32 option" where
  "strlen s str = strlen_from s str 0"

definition memcpy :: "'a kheap_scheme \<Rightarrow> u32 \<Rightarrow> u32 \<Rightarrow> u32 \<Rightarrow> (u32 \<times> 'a kheap_scheme) option" where
  "memcpy s dest src n = do { s1 \<leftarrow> copy_bytes s dest src n; Some (dest, s1) }"

definition memset :: "'a kheap_scheme \<Rightarrow> u32 \<Rightarrow> u8 \<Rightarrow> u32 \<Rightarrow> (u32 \<times> 'a kheap_scheme) option" where
  "memset s dest val n = do {
     s1 \<leftarrow> for_loop 0 (unat n) (\<lambda>i t. wr8 t (dest + word_of_nat i) val) s;
     Some (dest, s1)
   }"

section \<open>Numbers to strings\<close>

definition digit_char :: "u32 \<Rightarrow> u8" where
  "digit_char d = (let digit = (ucast d :: u8) in if digit < 10 then digit + 48 else digit + (65 - 10))"

text \<open>
  The inner loop of \<open>itoa\<close> for one half of the value: it fills the buffer from the end and
  returns the number of digits so far.  A base of zero is a division fault.
\<close>

partial_function (option) itoa_digits ::
  "'a kheap_scheme \<Rightarrow> u32 \<Rightarrow> u8 \<Rightarrow> u32 \<Rightarrow> u32 \<Rightarrow> u8 \<Rightarrow> (u8 \<times> 'a kheap_scheme) option" where
  "itoa_digits s str buflen base val i =
     (if val = 0 then Some (i, s)
      else if base = 0 then None
      else do {
        t \<leftarrow> wr8 s (str + (ucast buflen - ucast i)) (digit_char (val mod base));
        itoa_digits t str buflen base (val div base) (i + 1)
      })"

definition itoa :: "'a kheap_scheme \<Rightarrow> u64 \<Rightarrow> u32 \<Rightarrow> (u32 \<times> 'a kheap_scheme) option" where
  "itoa s value base =
     (if value = 0 then do {
        (zero, s1) \<leftarrow> kmalloc s 2;
        s2 \<leftarrow> wr8 s1 zero 48;
        s3 \<leftarrow> wr8 s2 (zero + 1) 0;
        Some (zero, s3)
      }
      else do {
        let buflen = (32 :: u8);
        (str, s1) \<leftarrow> kcalloc s (ucast buflen) 1;
        s2 \<leftarrow> wr8 s1 (str + ucast buflen) 0;
        let buflen1 = buflen - 1;
        (i, s3) \<leftarrow> itoa_digits s2 str buflen1 base (ucast value) 0;
        (i', s4) \<leftarrow> itoa_digits s3 str buflen1 base (ucast (drop_bit 32 value)) i;
        (_, s5) \<leftarrow> memcpy s4 str (str + ucast buflen1 - ucast i' + 1) (ucast i');
        s6 \<leftarrow> wr8 s5 (str + ucast i') 0;
        Some (str, s6)
      })"

section \<open>Formatted output\<close>

text \<open>
  A number in the output buffer: \<open>itoa\<close>, \<open>memcpy\<close> of all but the terminating zero, \<open>kfree\<close>.
\<close>

definition printk_int :: "'a kheap_scheme \<Rightarrow> u32 \<Rightarrow> u16 \<Rightarrow> u64 \<Rightarrow> u32 \<Rightarrow> (u16 \<times> 'a kheap_scheme) option" where
  "printk_int s buffer bufidx value base = do {
     (intstr, s1) \<leftarrow> itoa s value base;
     l \<leftarrow> strlen s1 intstr;
     let intstrlen = (ucast (l - 1) :: u8);
     (_, s2) \<leftarrow> memcpy s1 (buffer + ucast bufidx) intstr (ucast intstrlen);
     (_, s3) \<leftarrow> kfree s2 intstr;
     Some (bufidx + ucast intstrlen, s3)
   }"

definition printk_str :: "'a kheap_scheme \<Rightarrow> u32 \<Rightarrow> u16 \<Rightarrow> u32 \<Rightarrow> (u16 \<times> 'a kheap_scheme) option" where
  "printk_str s buffer bufidx str = do {
     l \<leftarrow> strlen s str;
     let slen = (ucast (l - 1) :: u8);
     (_, s1) \<leftarrow> memcpy s (buffer + ucast bufidx) str (ucast slen);
     Some (bufidx + ucast slen, s1)
   }"

definition printk_char :: "'a kheap_scheme \<Rightarrow> u32 \<Rightarrow> u16 \<Rightarrow> u8 \<Rightarrow> (u16 \<times> 'a kheap_scheme) option" where
  "printk_char s buffer bufidx c =
     (if c = 10 then do {
        s1 \<leftarrow> wr8 s (buffer + ucast bufidx) 10;
        s2 \<leftarrow> wr8 s1 (buffer + ucast (bufidx + 1)) 13;
        Some (bufidx + 2, s2)
      }
      else do { s1 \<leftarrow> wr8 s (buffer + ucast bufidx) c; Some (bufidx + 1, s1) })"

text \<open>
  The loop of \<open>printk\<close> over the rest of the format (the terminating zero included, as \<open>strlen\<close>
  counts it) and the rest of the argument words; a 64-bit argument is two words, the lower
  first.  A conversion without its argument has no meaning: \<open>None\<close>.
\<close>

fun printk_loop :: "'a kheap_scheme \<Rightarrow> u32 \<Rightarrow> u16 \<Rightarrow> u8 list \<Rightarrow> u32 list \<Rightarrow> (u16 \<times> 'a kheap_scheme) option" where
  "printk_loop s buffer bufidx [] args = Some (bufidx, s)"
| "printk_loop s buffer bufidx [c] args = printk_char s buffer bufidx c"
| "printk_loop s buffer bufidx (c # d # rest) args =
     (if c = 37 then
        (if d = 100 \<or> d = 120 then
           (case args of
              [] \<Rightarrow> None
            | v # args' \<Rightarrow> do {
                (idx, s1) \<leftarrow> printk_int s buffer bufidx (ucast v) (if d = 100 then 10 else 16);
                printk_loop s1 buffer idx rest args' })
         else if d = 108 then
           (case rest of
              [] \<Rightarrow> printk_loop s buffer bufidx rest args
            | e # rest' \<Rightarrow>
                if e = 120 \<or> e = 100 then
                  (case args of
                     lo # hi # args' \<Rightarrow> do {
                       (idx, s1) \<leftarrow> printk_int s buffer bufidx (ucast lo OR push_bit 32 (ucast hi))
                                      (if e = 100 then 10 else 16);
                       printk_loop s1 buffer idx rest' args' }
                   | _ \<Rightarrow> None)
                else printk_loop s buffer bufidx rest args)
         else if d = 115 then
           (case args of
              [] \<Rightarrow> None
            | p # args' \<Rightarrow> do {
                (idx, s1) \<leftarrow> printk_str s buffer bufidx p;
                printk_loop s1 buffer idx rest args' })
         else printk_loop s buffer bufidx rest args)
      else do {
        (idx, s1) \<leftarrow> printk_char s buffer bufidx c;
        printk_loop s1 buffer idx (d # rest) args
      })"

definition printk :: "'a kheap_scheme \<Rightarrow> u8 list \<Rightarrow> u32 list \<Rightarrow> 'a kheap_scheme option" where
  "printk s fmt args = do {
     let len = (word_of_nat (length fmt + 1) :: u16);
     (buffer, s1) \<leftarrow> kmalloc s 200;
     (bufidx, s2) \<leftarrow> printk_loop s1 buffer 0 (take (unat len) (fmt @ [0])) args;
     s3 \<leftarrow> wr8 s2 (buffer + ucast bufidx) 0;
     s4 \<leftarrow> vga_print_ptr s3 buffer;
     (_, s5) \<leftarrow> kfree s4 buffer;
     Some s5
   }"

end
