(* ===== verification/Boot.thy ===== *)
theory Boot
  imports KMalloc
begin

text \<open>
  A concrete machine in the state that \<open>boot.s\<close>, \<open>linker.ld\<close> and \<open>init_phymm\<close> leave.  The image is laid
  out as \<open>linker.ld\<close> and \<open>boot.s\<close> order it, from the physical address 0x100000 on: one page of
  text, \<open>pte_0\<close> at 0x101000, \<open>pte_768\<close> at 0x102000, the page of \<open>meminfo_struct\<close> at 0x103000,
  seven pages of stack, \<open>pde_table\<close> at 0x10b000 and a page of further \<open>.bss\<close> variables; it ends at
  0xc010d000.  The tables are those \<open>boot.s\<close> fills (\<open>fill_loop\<close> and the screen): slot 1023 of the
  directory points to the directory, slot 768 to \<open>pte_768\<close>, whose entries 256 to 1023 map the
  virtual addresses 0xc0100000-0xc03fffff onto physical 0x100000-0x3fffff, and entry 255 the screen;
  the entry of \<open>pte_0\<close> is still there, but slot 0 of the directory is cleared.

  The allocator's stack and bitmap are at the end of the image, for a region of memory with room
  for eight frames after the kernel (base 0x100000, length 0x16000).  So the frames begin at
  0x10e000, and each of them can be seen through the window of \<open>pte_768\<close>.  The machine satisfies
  every invariant of the memory components, so the witnesses are stated on it.  Its text and its
  variables are zero, which no definition looks at.
\<close>

definition boot_entry :: "u32 \<Rightarrow> nat \<Rightarrow> u32" where
  "boot_entry f n =
     (if f = 0x10b then (if n = 1023 then 0x10b003 else if n = 768 then 0x102003 else 0)
      else if f = 0x101 then (if n = 256 then 0x100003 else 0)
      else if f = 0x102 then
        (if n = 255 then 0xb8003 else if 256 \<le> n then push_bit 12 (word_of_nat n) OR 3 else 0)
      else if f = 0x10d then (if n < 8 then 0x10e000 + 4096 * word_of_nat n else 0)
      else 0)"

definition boot_ram :: "u32 \<Rightarrow> u8" where
  "boot_ram p = byte_of (unat (pgoff p) mod 4) (boot_entry (page p) (unat (pgoff p) div 4))"

definition boot :: kheap where
  "boot = \<lparr>ram = boot_ram, cr3 = 0x10b000, tlb = (\<lambda>_. None), io_trace = [], io_dev = (\<lambda>_ _. 0x20),
     kernel_end = 0xc010d000,
     vga_cursor_r = 0, vga_cursor_c = 0,
     bios_mmap_addr = 0xc0103000, bios_mmap_len = 0, phymm_end = 0xc010e000,
     hwa_mmstart = 0x10e000, hwa_inu_bitmap = 0xc010d100, hwas_bp = 0xc010d000,
     hwas_sp = 0xc010d01c, hwas_ssize = 8,
     pde_table = 0xc010b000, driver_space_head = 0,
     first_blk = 0, heap_start = 0xd0000000, heap_size = 0, min_heap_size = 0\<rparr>"

lemma boot_fields [simp]:
  "ram boot = boot_ram" "cr3 boot = 0x10b000" "tlb boot = (\<lambda>_. None)" "kernel_end boot = 0xc010d000"
  "hwa_mmstart boot = 0x10e000"
  "hwa_inu_bitmap boot = 0xc010d100" "hwas_bp boot = 0xc010d000" "hwas_sp boot = 0xc010d01c"
  "hwas_ssize boot = 8" "pde_table boot = 0xc010b000" "driver_space_head boot = 0"
  "first_blk boot = 0" "heap_start boot = 0xd0000000" "heap_size boot = 0" "min_heap_size boot = 0"
  by (simp_all add: boot_def)

section \<open>Its page map\<close>

lemma entry_pgoff:
  assumes "unat f < 1048576" and "unat i < 1024" and "k < 4"
  shows "page (entry_addr f i + word_of_nat k) = f"
    and "unat (pgoff (entry_addr f i + word_of_nat k)) = 4 * unat i + k"
proof -
  have u: "unat (entry_addr f i + word_of_nat k) = 4096 * unat f + (4 * unat i + k)"
    using entry_addr_byte [OF assms] by simp
  have "unat (page (entry_addr f i + word_of_nat k)) = unat f"
    unfolding unat_page u using assms by simp
  then show "page (entry_addr f i + word_of_nat k) = f" by (simp only: word_unat_eq_iff)
  show "unat (pgoff (entry_addr f i + word_of_nat k)) = 4 * unat i + k"
    unfolding unat_pgoff u using assms by simp
qed

lemma boot_byte:
  assumes "unat f < 1048576" and "unat i < 1024" and "k < 4"
  shows "boot_ram (entry_addr f i + word_of_nat k) = byte_of k (boot_entry f (unat i))"
proof -
  have "(4 * unat i + k) mod 4 = k" "(4 * unat i + k) div 4 = unat i" using assms(3) by simp_all
  then show ?thesis unfolding boot_ram_def entry_pgoff [OF assms] by simp
qed

lemma boot_entry_at:
  assumes "unat f < 1048576" and "unat i < 1024"
  shows "entry boot_ram f i = boot_entry f (unat i)"
  using boot_byte [OF assms, of 0] boot_byte [OF assms, of 1] boot_byte [OF assms, of 2]
    boot_byte [OF assms, of 3] by (simp add: entry_def phys32_def)

lemma page_lits [simp]: "page 0x10b000 = 0x10b" "page 0x10b003 = 0x10b" "page 0x102003 = 0x102"
  "page 0x100003 = 0x100" "page 0xb8003 = 0xb8"
  "present 0x10b003" "present 0x102003" "present 0x100003" "present 0xb8003"
  by (simp_all add: page_def present_def)

lemma page_slot: "unat (i :: u32) < 1024 \<Longrightarrow> page (push_bit 12 i OR 3) = i"
proof -
  assume i: "unat i < 1024"
  have "bit i n \<Longrightarrow> n < 10" for n using i bit_less_exp [of i 10 n] by simp
  then show ?thesis unfolding page_or_3 page_def by (intro bit_word_eqI) (fastforce simp: bit_simps)
qed

lemma boot_pte_slot: "boot_entry 0x102 (unat (pt_index a)) =
    (if pt_index a = 255 then 0xb8003 else if 255 < pt_index a then push_bit 12 (pt_index a) OR 3 else 0)"
  by (auto simp: boot_entry_def word_less_nat_alt word_unat_eq_iff)

lemma boot_walk:
  "walk boot a =
    (if pd_index a = 1023 then
       (if pt_index a = 1023 then Some 0x10b else if pt_index a = 768 then Some 0x102 else None)
     else if pd_index a = 768 then
       (if pt_index a = 255 then Some 0xb8 else if 255 < pt_index a then Some (pt_index a) else None)
     else None)"
proof -
  have u: "unat x = n \<longleftrightarrow> x = word_of_nat n" if "n < 4294967296" for x :: u32 and n
    using that by (auto simp: word_unat_eq_iff unat_of_nat)
  have d: "entry boot_ram 0x10b i = (if i = 1023 then 0x10b003 else if i = 768 then 0x102003 else 0)"
    if "unat i < 1024" for i
    using that by (simp add: boot_entry_at boot_entry_def u)
  have t: "entry boot_ram 0x102 (pt_index a) = boot_entry 0x102 (unat (pt_index a))"
    by (simp add: boot_entry_at)
  show ?thesis
    using page_slot [OF pt_index_less, of a]
    by (simp add: walk_def walk_frame_def Let_def d t boot_pte_slot)
qed

lemma boot_pde: "unat i < 1024 \<Longrightarrow>
    pde boot i = (if i = 1023 then 0x10b003 else if i = 768 then 0x102003 else 0)"
  by (auto simp: pde_def boot_entry_at boot_entry_def word_unat_eq_iff)

lemma boot_pte: "pd_index a = 768 \<Longrightarrow> 255 < pt_index a \<Longrightarrow> pte boot a = push_bit 12 (pt_index a) OR 3"
  by (auto simp: pte_def boot_pde boot_entry_at boot_pte_slot)

lemma boot_is_table: "is_table boot f \<longleftrightarrow> f = 0x10b \<or> f = 0x102"
proof
  assume "is_table boot f"
  then show "f = 0x10b \<or> f = 0x102"
    by (auto simp: is_table_def table_frame_def boot_pde [unfolded pde_def, simplified] split: if_splits)
next
  assume f: "f = 0x10b \<or> f = 0x102"
  have "table_frame boot_ram 0x10b000 (page (entry boot_ram (page 0x10b000) 768))"
    by (rule table_frameI) (simp_all add: boot_pde [unfolded pde_def, simplified])
  then show "is_table boot f"
    using f table_frame_dir [where m = boot_ram and c = "0x10b000"]
    by (auto simp: is_table_def boot_pde [unfolded pde_def, simplified])
qed

section \<open>The invariants hold\<close>

lemma pd_pt_consts [simp]:
  "pd_index 0xc010b000 = 768" "pt_index 0xc010b000 = 0x10b"
  by (simp_all add: pd_index_def pt_index_def)

lemma boot_pt_wf: "pt_wf boot_ram 0x10b000"
proof -
  have e: "entry boot_ram 0x10b i = (if i = 1023 then 0x10b003 else if i = 768 then 0x102003 else 0)"
    if "unat i < 1024" for i
    using boot_pde [OF that] by (simp add: pde_def)
  have e2: "entry boot_ram 0x10b i = (if i = 768 then 0x102003 else 0)" if "unat i < 1023" for i
    using e [of i] that by auto
  show ?thesis unfolding pt_wf_def by (auto simp: e e2 split: if_splits)
qed

text \<open>The shadow: what the window shows after the page of the allocator.\<close>

lemma unat_page_index: "unat (page a) = 1024 * unat (pd_index a) + unat (pt_index a)"
proof -
  have "unat (pd_index a) = unat (page a) div 1024" "unat (pt_index a) = unat (page a) mod 1024"
    by (simp_all add: index_page drop_bit_eq_div take_bit_eq_mod unat_div unat_mod)
  then show ?thesis by simp
qed

lemma boot_shadow: "shadow boot a \<longleftrightarrow> pd_index a = 768 \<and> 0x10d < pt_index a"
proof -
  have "pd_index 0xc010d000 = 768" "pt_index 0xc010d000 = 0x10d" by (simp_all add: pd_index_def pt_index_def)
  then show ?thesis by (auto simp: shadow_def word_less_nat_alt unat_page_index)
qed

lemma boot_tlb_ok: "tlb_ok boot"
  by (simp add: tlb_ok_def)

lemma data_frameI:
  assumes tlb: "tlb_ok s" and w: "walk s a = Some f" and nt: "\<not> is_table s f" and ns: "\<not> shadow s a"
    and u: "\<And>b. walk s b = Some f \<Longrightarrow> \<not> shadow s b \<Longrightarrow> page b = page a"
  shows "data s a"
proof -
  have f: "unat f < 1048576" by (rule walk_lt [OF w])
  have t: "translate s a = Some (mkaddr f (pgoff a))" by (simp add: translate_walk [OF tlb] w)
  have nt': "\<not> table_frame (ram s) (cr3 s) (page (mkaddr f (pgoff a)))"
    using nt f by (simp add: is_table_def)
  show ?thesis
  proof (rule dataI [OF t nt' ns])
    fix b assume "translate s b = Some (mkaddr f (pgoff a))" and nb: "\<not> shadow s b"
    then obtain g where g: "walk s b = Some g" "mkaddr g (pgoff b) = mkaddr f (pgoff a)"
      by (auto simp: translate_walk [OF tlb])
    have eq: "g = f" "pgoff b = pgoff a"
      using iffD1 [OF mkaddr_inject [OF walk_lt [OF g(1)] f pgoff_less pgoff_less] g(2)] by blast+
    have "page b = page a" by (rule u) (use g(1) eq(1) nb in simp_all)
    then show "b = a" using eq(2) by (rule page_pgoff_eqI)
  qed
qed

text \<open>The screen, and the pages of the image up to the allocator's that hold no table, are data.\<close>

definition image_slot :: "u32 \<Rightarrow> bool" where
  "image_slot i \<longleftrightarrow> 254 < i \<and> i \<le> 0x10d \<and> i \<noteq> 0x102 \<and> i \<noteq> 0x10b"

lemma image_slots [simp]:
  "image_slot 255" "image_slot 0x103" "image_slot 0x104" "image_slot 0x10c" "image_slot 0x10d"
  by (simp_all add: image_slot_def)

lemma boot_data:
  assumes p: "pd_index a = 768" and i: "image_slot (pt_index a)"
  shows "data boot a"
proof (cases "pt_index a = 255")
  case True
  show ?thesis
  proof (rule data_frameI [OF boot_tlb_ok, where f = "0xb8"])
    show "page b = page a" if "walk boot b = Some 0xb8" for b
      using that p True by (auto simp: boot_walk page_eq_iff split: if_splits)
  qed (use True p in \<open>simp_all add: boot_walk boot_is_table boot_shadow\<close>)
next
  case False
  have lt: "255 < pt_index a" using i False by (simp add: image_slot_def word_less_nat_alt word_unat_eq_iff)
  show ?thesis
  proof (rule data_frameI [OF boot_tlb_ok, where f = "pt_index a"])
    show "page b = page a" if "walk boot b = Some (pt_index a)" for b
      using that p lt i by (auto simp: boot_walk page_eq_iff image_slot_def split: if_splits)
  qed (use lt p i in \<open>auto simp: boot_walk boot_is_table boot_shadow image_slot_def\<close>)
qed

text \<open>Ranges within the page of variables at the end of the image, and the page of the allocator.\<close>

lemma boot_page:
  assumes "page a = 0xc010c \<or> page a = 0xc010d \<or> page a = 0xc0103" and "unat (pgoff a) + n \<le> 4096"
  shows "data_range boot a n"
  unfolding data_range_def
proof (intro allI impI)
  fix k assume k: "k < n"
  then have uk: "unat (word_of_nat k :: u32) = k" using assms(2) by (simp add: unat_of_nat)
  have o: "unat (pgoff a) + unat (word_of_nat k :: u32) < 4096" unfolding uk using assms(2) k by simp
  have "page (a + word_of_nat k) = page a" by (rule page_add [OF o])
  then show "data boot (a + word_of_nat k)" using assms(1) by (intro boot_data) (auto simp: index_page)
qed

lemma boot_sizes: "nframes boot = 8" "bm_bytes boot = 1" "stack_top boot = 7"
  by (simp_all add: nframes_def bm_bytes_def stack_top_def)

lemma boot_translate_stack: "translate boot 0xc010d000 = Some 0x10d000"
  by (simp add: translate_walk [OF boot_tlb_ok] boot_walk pd_index_def pt_index_def mkaddr_def pgoff_def)

lemma boot_rd32:
  assumes "k < 64"
  shows "rd32 boot (0xc010d000 + 4 * word_of_nat k) = Some (boot_entry 0x10d k)"
proof -
  let ?k = "word_of_nat k :: u32"
  have uk: "unat ?k = k" using assms by (simp add: unat_of_nat)
  have i: "unat ?k < 1024" using assms uk by simp
  have k4: "4 * ?k = push_bit 2 ?k" by (simp add: push_bit_eq_mult)
  have o: "unat (pgoff 0xc010d000) + unat (4 * ?k) < 4096"
    unfolding k4 entry_offset [OF i] uk using assms by (simp add: pgoff_def)
  have e: "0x10d000 + 4 * ?k = entry_addr 0x10d ?k"
    unfolding entry_addr_def k4 using i by (subst mkaddr_eq_add) (simp_all add: entry_offset)
  have t: "translate boot (0xc010d000 + 4 * ?k) = Some (entry_addr 0x10d ?k)"
    using translate_add [OF boot_translate_stack o] e by simp
  have "unat (pgoff (0xc010d000 + 4 * ?k)) = 4 * k"
    unfolding pgoff_add [OF o] by (simp add: pgoff_def k4 entry_offset [OF i] uk)
  then have "unat (pgoff (0xc010d000 + 4 * ?k)) + 3 < 4096" using assms by simp
  then have "rd32 boot (0xc010d000 + 4 * ?k) = Some (entry boot_ram 0x10d ?k)"
    using rd32_entry [OF t] by simp
  moreover have "entry boot_ram 0x10d ?k = boot_entry 0x10d k"
    using boot_entry_at [of "0x10d" ?k] i unfolding uk by simp
  ultimately show ?thesis by simp
qed

lemma boot_frame_addr: "frame_addr boot k = 0x10e000 + 4096 * word_of_nat k"
  by (simp add: frame_addr_def)

lemma boot_static: "phymm_static boot"
proof -
  have "rd32 boot (hwas_bp boot + 4 * word_of_nat i) = Some (frame_addr boot i)" if "i < nframes boot" for i
    using boot_rd32 [of i] that by (simp add: boot_sizes boot_entry_def boot_frame_addr)
  moreover have "data_range boot (hwas_bp boot) (4 * nframes boot)"
    "data_range boot (hwa_inu_bitmap boot) (bm_bytes boot)"
    by (rule boot_page; simp add: boot_sizes page_def pgoff_def)+
  ultimately show ?thesis
    unfolding phymm_static_def by (simp add: boot_sizes sep_def pgoff_def)
qed

lemma boot_phymm_wf: "phymm_wf boot"
  unfolding phymm_wf_def using boot_static by (simp add: boot_sizes)

lemma boot_unused: "k < 8 \<Longrightarrow> \<not> used boot k"
proof -
  assume k: "k < 8"
  have t0: "translate boot 0xc010d100 = Some (0x10d100)"
    by (simp add: translate_walk [OF boot_tlb_ok] boot_walk pd_index_def pt_index_def mkaddr_def pgoff_def)
  have "boot_ram 0x10d100 = 0"
    by (simp add: boot_ram_def boot_entry_def page_def pgoff_def byte_of_def)
  then have "rd8 boot 0xc010d100 = Some 0" by (simp add: rd8_def t0)
  then show "\<not> used boot k" using k by (simp add: used_def)
qed

lemma boot_used_set: "used_set boot = {}"
  using boot_unused by (auto simp: used_set_def boot_sizes)

lemma unat_boot_frame: "k < 8 \<Longrightarrow> unat (frame_no boot k) = 0x10e + k"
  using unat_frame_no [OF boot_static, of k] by (simp add: boot_sizes)

text \<open>Frames above the allocator's page are seen through the shadow only.\<close>

lemma boot_high_frame:
  assumes "0x10d < f" and "walk boot a = Some f"
  shows "shadow boot a"
  using assms by (auto simp: boot_walk boot_shadow split: if_splits)

lemma boot_high_raw: "0x10d < f \<Longrightarrow> \<not> is_table boot f \<and> (\<forall>p. page p = f \<longrightarrow> boot_ram p = 0)"
  by (auto simp: boot_is_table boot_ram_def boot_entry_def byte_of_def)

lemma boot_frame_high: "k < 8 \<Longrightarrow> 0x10d < frame_no boot k"
  using unat_boot_frame [of k] by (simp add: word_less_nat_alt)

lemma boot_vm_wf: "vm_wf boot"
proof -
  have "free_frames_ok boot"
    unfolding free_frames_ok_def boot_sizes
  proof (intro allI impI)
    fix k :: nat assume "k < 8"
    then have h: "0x10d < frame_no boot k" by (rule boot_frame_high)
    show "\<not> is_table boot (frame_no boot k) \<and> (\<forall>a. walk boot a = Some (frame_no boot k) \<longrightarrow> shadow boot a) \<and>
      (\<forall>p. page p = frame_no boot k \<longrightarrow> ram boot p = 0)"
      using boot_high_raw [OF h] boot_high_frame [OF h] by simp
  qed
  moreover have "shadow_mapped boot"
    by (auto simp: shadow_mapped_def boot_shadow boot_walk word_less_nat_alt)
  moreover have "\<not> in_window 0xc010b000" "pgoff 0xc010b000 = 0" "(0xff :: u32) < 0x10b"
    by (simp_all add: in_window_def pgoff_def)
  ultimately show ?thesis
    using boot_phymm_wf boot_pt_wf boot_tlb_ok by (simp add: vm_wf_def boot_walk)
qed

end
