(* ===== verification/FrameProps.thy ===== *)
theory FrameProps
  imports Boot
begin

text \<open>
  The properties of the page frame allocator (\<open>kernel/mm/phy-mm.c\<close>), each with a witness on the
  concrete state \<open>boot\<close>: the code implements the abstract allocator, hands out disjoint runs of
  frames, takes runs back, and fails in the ways stated.
\<close>

section \<open>Facts for the witnesses\<close>

lemma boot_hyps [simp]: "nframes boot = 8" "stack_top boot = 7" "used_set boot = {}"
  by (simp_all add: boot_sizes boot_used_set)

lemma first_window_empty [simp]: "n \<le> sz \<Longrightarrow> first_window (\<lambda>_. False) n sz = Some 0"
  by (simp add: first_window_def window_def upt_conv_Cons)

lemma boot_run [simp]: "2 \<le> n \<Longrightarrow> n \<le> 8 \<Longrightarrow> alloc_spec 8 {} 7 n = Some (0, {0..<n}, 7)"
  by (simp add: alloc_spec_def)

lemma last_free_top: "\<not> U 7 \<Longrightarrow> last_free U 7 = Some 7"
  by (simp add: eval_nat_numeral)

lemma boot_single [simp]: "n \<le> 7 \<Longrightarrow> alloc_spec 8 {0..<n} 7 (Suc 0) = Some (7, insert 7 {0..<n}, 6)"
  by (simp add: alloc_spec_def last_free_top)

section \<open>Two requests, and a request taken back\<close>

lemma alloc_two:
  assumes wf: "phymm_wf s"
    and n: "alloc_spec (nframes s) (used_set s) (stack_top s) (unat n) = Some (w, U, t)"
    and m: "alloc_spec (nframes s) U t (unat m) = Some (v, V, u)"
  obtains s1 s2 where "hwpalloc s n = Some (frame_addr s w, s1)"
    and "hwpalloc s1 m = Some (frame_addr s v, s2)" and "phymm_wf s2" and "used_set s2 = V"
    and "stack_top s2 = u" and "{w..<w + unat n} \<inter> {v..<v + unat m} = {}"
proof -
  have st: "phymm_static s" and top: "stack_top s < nframes s" using wf by (auto simp: phymm_wf_def)
  obtain s1 where s1: "hwpalloc s n = Some (frame_addr s w, s1)" "phymm_wf s1" "bm_only s s1"
      "used_set s1 = U" "stack_top s1 = t"
    using hwpalloc_refines [OF wf n] by blast
  note same = bm_only_mem(4,5) [OF st s1(3)]
  have m1: "alloc_spec (nframes s1) (used_set s1) (stack_top s1) (unat m) = Some (v, V, u)"
    using m s1(4,5) same by simp
  obtain s2 where s2: "hwpalloc s1 m = Some (frame_addr s1 v, s2)" "phymm_wf s2" "used_set s2 = V"
      "stack_top s2 = u"
    using hwpalloc_refines [OF s1(2) m1] by blast
  have "{v..<v + unat m} \<inter> U = {}"
    using alloc_spec_window(3) [OF m1] s1(2,4) by (simp add: phymm_wf_def)
  moreover have "{w..<w + unat n} \<subseteq> U" using alloc_spec_window(4) [OF n top] by simp
  ultimately have "{w..<w + unat n} \<inter> {v..<v + unat m} = {}" by blast
  then show ?thesis using that [of s1 s2] s1(1) s2 same by simp
qed

lemma alloc_free_run:
  assumes wf: "phymm_wf s" and n: "n \<noteq> 1"
    and spec: "alloc_spec (nframes s) (used_set s) (stack_top s) (unat n) = Some (w, U, t)"
  obtains s1 s2 where "hwpalloc s n = Some (frame_addr s w, s1)"
    and "hwpfree s1 (frame_addr s w) n = Some (STATUS_OK, s2)" and "phymm_wf s2"
    and "used_set s2 = used_set s" and "stack_top s2 = stack_top s"
proof -
  have st: "phymm_static s" and top: "stack_top s < nframes s" using wf by (auto simp: phymm_wf_def)
  obtain s1 where s1: "hwpalloc s n = Some (frame_addr s w, s1)" "phymm_wf s1" "bm_only s s1"
      "used_set s1 = U" "stack_top s1 = t"
    using hwpalloc_refines [OF wf spec] by blast
  note same = bm_only_mem(4,5) [OF st s1(3)]
  note win = alloc_spec_window [OF spec top]
  have t: "t = stack_top s"
    using spec n by (auto simp: alloc_spec_def word_unat_eq_iff split: if_splits option.splits)
  have w: "w < nframes s1" "w + unat n \<le> nframes s1" using win(1,2) same by auto
  have "w \<in> used_set s1" using win(1,4) s1(4) by auto
  then have uw: "used s1 w" by (simp add: used_set_def)
  obtain s2 where s2: "hwpfree s1 (frame_addr s1 w) n = Some (STATUS_OK, s2)" "phymm_wf s2"
      "stack_top s2 = stack_top s1" "bm_only s1 s2"
      "\<forall>j<nframes s1. used s2 j = (used s1 j \<and> \<not> (w \<le> j \<and> j < w + unat n))"
    by (rule hwpfree_many_spec [OF s1(2) n w uw])
  have st1: "phymm_static s1" using s1(2) by (simp add: phymm_wf_def)
  have "used_set s2 = used_set s1 - {w..<w + unat n}"
    using s2(5) bm_only_mem(4) [OF st1 s2(4)] by (auto simp: used_set_def)
  also have "\<dots> = used_set s" using win(3,4) s1(4) by auto
  finally show ?thesis using that [of s1 s2] s1(1,5) s2(1-3) same t by simp
qed

section \<open>The properties\<close>

text \<open>C6: \<open>hwpalloc\<close> implements the abstract allocator. On a well-formed state, a request the
  specification grants (one frame: the topmost free one under the stack pointer; several: the
  lowest free run) returns the address of the granted run, marks exactly its frames as used,
  moves the stack as specified, changes no other memory, and keeps the state well formed.\<close>

theorem hwpalloc_implements:
  assumes "phymm_wf s"
    and "alloc_spec (nframes s) (used_set s) (stack_top s) (unat n) = Some (w, U, t)"
  shows "\<exists>s'. hwpalloc s n = Some (frame_addr s w, s') \<and> phymm_wf s' \<and> bm_only s s' \<and>
    used_set s' = U \<and> stack_top s' = t"
  using assms by (rule hwpalloc_refines)

theorem hwpalloc_implements_witness:
  "\<exists>s'. hwpalloc boot 3 = Some (0x10e000, s') \<and> phymm_wf s' \<and> bm_only boot s' \<and>
    used_set s' = {0..<3} \<and> stack_top s' = 7"
  using hwpalloc_implements [of boot 3 0 "{0..<3}" 7] boot_phymm_wf by (simp add: frame_addr_def)

text \<open>Two requests in a row never share a frame.\<close>

theorem hwpalloc_disjoint:
  assumes "phymm_wf s"
    and "alloc_spec (nframes s) (used_set s) (stack_top s) (unat n) = Some (w, U, t)"
    and "alloc_spec (nframes s) U t (unat m) = Some (v, V, u)"
  shows "\<exists>s1 s2. hwpalloc s n = Some (frame_addr s w, s1) \<and> hwpalloc s1 m = Some (frame_addr s v, s2) \<and>
    phymm_wf s2 \<and> used_set s2 = V \<and> {w..<w + unat n} \<inter> {v..<v + unat m} = {}"
  using alloc_two [OF assms] by metis

theorem hwpalloc_disjoint_witness:
  "\<exists>s1 s2. hwpalloc boot 2 = Some (0x10e000, s1) \<and> hwpalloc s1 1 = Some (0x115000, s2) \<and>
    phymm_wf s2 \<and> used_set s2 = insert 7 {0..<2} \<and> {0..<2} \<inter> {7..<8 :: nat} = {}"
  using hwpalloc_disjoint [of boot 2 0 "{0..<2}" 7 1 7 "insert 7 {0..<2}" 6] boot_phymm_wf
  by (simp add: frame_addr_def)

text \<open>C24: A run of at least two frames can be given back: \<open>hwpfree\<close> returns \<open>STATUS_OK\<close> and the
  set of used frames and the stack are those before the request.\<close>

theorem hwpalloc_hwpfree_run:
  assumes "phymm_wf s" and "n \<noteq> 1"
    and "alloc_spec (nframes s) (used_set s) (stack_top s) (unat n) = Some (w, U, t)"
  shows "\<exists>s1 s2. hwpalloc s n = Some (frame_addr s w, s1) \<and>
    hwpfree s1 (frame_addr s w) n = Some (STATUS_OK, s2) \<and> phymm_wf s2 \<and>
    used_set s2 = used_set s \<and> stack_top s2 = stack_top s"
  using alloc_free_run [OF assms] by metis

theorem hwpalloc_hwpfree_run_witness:
  "\<exists>s1 s2. hwpalloc boot 3 = Some (0x10e000, s1) \<and> hwpfree s1 0x10e000 3 = Some (STATUS_OK, s2) \<and>
    phymm_wf s2 \<and> used_set s2 = {} \<and> stack_top s2 = 7"
  using hwpalloc_hwpfree_run [of boot 3 0 "{0..<3}" 7] boot_phymm_wf by (simp add: frame_addr_def)

text \<open>C28: A single frame is never taken back. The guard that should catch an overrun of the stack
  is inverted: on every well-formed state \<open>hwpfree(addr, 1)\<close> of a frame in use returns
  \<open>STATUS_BORKD_MEM\<close>, of a free frame \<open>STATUS_DOUBLE_FREE\<close>, and changes nothing.\<close>

theorem hwpfree_single_fails:
  assumes "phymm_wf s" and "i < nframes s"
  shows "hwpfree s (frame_addr s i) 1 =
    Some (if used s i then STATUS_BORKD_MEM else STATUS_DOUBLE_FREE, s)"
proof -
  have st: "phymm_static s" using assms(1) by (simp add: phymm_wf_def)
  show ?thesis
    using frame_addr_in_range [OF st assms(2)] sp_below_limit [OF assms(1)]
    by (simp add: hwpfree_def hwa_inubm_get_frame [OF st assms(2)] PGUSE_def PGFREE_def)
qed

theorem hwpfree_single_fails_witness: "hwpfree boot 0x111000 1 = Some (STATUS_DOUBLE_FREE, boot)"
  using hwpfree_single_fails [of boot 3] boot_phymm_wf boot_unused [of 3] by (simp add: frame_addr_def)

text \<open>An address outside the frames of the allocator is refused with \<open>STATUS_INVALID_MEM\<close>,
  whatever the count, and nothing changes.\<close>

theorem hwpfree_out_of_range:
  assumes "phymm_wf s" and "unat a < unat (hwa_mmstart s) \<or> unat (hwa_mmstart s) + 4096 * nframes s \<le> unat a"
  shows "hwpfree s a n = Some (STATUS_INVALID_MEM, s)"
proof -
  have b: "nframes s \<le> 128" "unat (hwa_mmstart s) + 4096 * nframes s < 4294967296"
    using assms(1) by (auto simp: phymm_wf_def phymm_static_def)
  have "unat (hwas_ssize s * 4096) = 4096 * nframes s"
    using b by (simp add: unat_word_ariths nframes_def)
  then have "unat (hwa_mmstart s + hwas_ssize s * 4096) = unat (hwa_mmstart s) + 4096 * nframes s"
    using b by (subst unat_add_small) auto
  then have "a < hwa_mmstart s \<or> hwa_mmstart s + hwas_ssize s * 4096 \<le> a"
    using assms(2) by (simp add: word_less_nat_alt word_le_nat_alt)
  then show ?thesis by (simp add: hwpfree_def)
qed

theorem hwpfree_out_of_range_witness: "hwpfree boot 0x116000 2 = Some (STATUS_INVALID_MEM, boot)"
  using hwpfree_out_of_range [of boot "0x116000" 2] boot_phymm_wf by simp

text \<open>C29: Nothing stops the search for a single frame at the bottom of the stack: when every frame
  up to the stack pointer is in use, \<open>hwpalloc(1)\<close> goes on with the memory below the stack.\<close>

theorem hwpalloc_one_underflow:
  assumes "phymm_wf s" and "0 < stack_top s" and "\<forall>j. j \<le> stack_top s \<longrightarrow> used s j"
  shows "hwpalloc s 1 = do {
    (addr, s1) \<leftarrow> hwpalloc_pop (s\<lparr>hwas_sp := hwas_bp s - 4\<rparr>);
    s2 \<leftarrow> hwa_inubm_set s1 addr PGUSE;
    Some (addr, s2) }"
proof -
  have "hwpalloc_pop s = hwpalloc_pop (s\<lparr>hwas_sp := hwas_bp s - 4\<rparr>)"
    using assms(1,3) last_free_None [of "used s" "stack_top s"]
    by (intro hwpalloc_pop_exhausted [where t = "stack_top s"]) (auto simp: phymm_wf_def)
  then show ?thesis using hwas_sp_eq_bp [OF assms(1)] assms(2) by (simp add: hwpalloc_def)
qed

theorem hwpalloc_one_underflow_witness:
  "\<exists>s. hwpalloc boot 8 = Some (0x10e000, s) \<and>
    hwpalloc s 1 = do {
      (addr, s1) \<leftarrow> hwpalloc_pop (s\<lparr>hwas_sp := hwas_bp s - 4\<rparr>);
      s2 \<leftarrow> hwa_inubm_set s1 addr PGUSE;
      Some (addr, s2) }"
proof -
  have "alloc_spec (nframes boot) (used_set boot) (stack_top boot) (unat (8 :: u16)) = Some (0, {0..<8}, 7)"
    by simp
  then obtain s where s: "hwpalloc boot 8 = Some (frame_addr boot 0, s)" "phymm_wf s"
      "used_set s = {0..<8}" "stack_top s = 7"
    using hwpalloc_refines [OF boot_phymm_wf, of 8] by blast
  have "used s j" if "j \<le> stack_top s" for j
  proof -
    have "j \<in> used_set s" unfolding s(3) using that s(4) by simp
    then show ?thesis by (simp add: used_set_def)
  qed
  then have "\<forall>j. j \<le> stack_top s \<longrightarrow> used s j" by blast
  then have "hwpalloc s 1 = do {
      (addr, s1) \<leftarrow> hwpalloc_pop (s\<lparr>hwas_sp := hwas_bp s - 4\<rparr>);
      s2 \<leftarrow> hwa_inubm_set s1 addr PGUSE;
      Some (addr, s2) }"
    using s(2,4) by (intro hwpalloc_one_underflow) simp_all
  then show ?thesis using s(1) by (intro exI [of _ s]) (simp add: frame_addr_def)
qed

end
