(* ===== verification/PagingProps.thy ===== *)
theory PagingProps
  imports FrameProps
begin

text \<open>
  The properties of the paging service (\<open>kernel/mm/virt-mm.c\<close>): what the mapping of a page, of a
  range and of device memory does to the page map, and where unmapping and the address
  computation fall short; each with a witness on \<open>boot\<close>.
\<close>

section \<open>Caching a translation\<close>

text \<open>
  The processor may drop translations from the cache and put correct ones into it at any time:
  nothing that a program can see changes, and every invariant stays.
\<close>

lemma tlb_change:
  fixes s :: "'a virtmm_scheme"
  assumes wf: "vm_wf s" and ok': "tlb_ok (s\<lparr>tlb := t\<rparr>)"
  shows "vm_wf (s\<lparr>tlb := t\<rparr>)" and "translate (s\<lparr>tlb := t\<rparr>) = translate s" and "walk (s\<lparr>tlb := t\<rparr>) = walk s"
    and "rd8 (s\<lparr>tlb := t\<rparr>) = rd8 s" and "data (s\<lparr>tlb := t\<rparr>) = data s" and "used_set (s\<lparr>tlb := t\<rparr>) = used_set s"
    and "frame_no (s\<lparr>tlb := t\<rparr>) = frame_no s" and "bm_vaddr (s\<lparr>tlb := t\<rparr>) = bm_vaddr s"
proof -
  let ?s = "s\<lparr>tlb := t\<rparr>"
  have ok: "tlb_ok s" using wf by (simp add: vm_wf_def)
  show walk: "walk ?s = walk s" by (intro ext) (simp add: walk_def)
  show t: "translate ?s = translate s" by (intro ext) (simp add: translate_walk ok ok' walk)
  have sh: "shadow ?s = shadow s" by (rule shadow_eq) simp
  have m: "rd8 ?s = rd8 s" "rd32 ?s = rd32 s" "data ?s = data s"
    by (intro ext, simp add: t sh rd8_def rd32_def rdn_def phys_addrs_def data_def)+
  then show "rd8 ?s = rd8 s" "data ?s = data s" by simp_all
  have d: "data_range ?s = data_range s" by (intro ext) (simp add: data_range_def m)
  have n: "nframes ?s = nframes s" "frame_addr ?s = frame_addr s" "bm_bytes ?s = bm_bytes s"
    "stack_top ?s = stack_top s" "is_table ?s = is_table s" "used ?s = used s"
    by (intro ext | simp add: nframes_def frame_addr_def bm_bytes_def stack_top_def is_table_def used_def m)+
  show fn: "frame_no ?s = frame_no s" by (intro ext) (simp add: frame_no_def n)
  show "used_set ?s = used_set s" by (simp add: used_set_def n)
  show "bm_vaddr ?s = bm_vaddr s" by (intro ext) (simp add: bm_vaddr_def n)
  have "phymm_wf ?s = phymm_wf s" by (simp add: phymm_wf_def phymm_static_def m d n)
  moreover have "free_frames_ok ?s = free_frames_ok s" "shadow_mapped ?s = shadow_mapped s"
    by (simp_all add: free_frames_ok_def shadow_mapped_def n fn walk sh)
  ultimately show "vm_wf ?s" using wf ok' by (simp add: vm_wf_def walk)
qed

lemma tlb_ok_fill:
  assumes ok: "tlb_ok s" and w: "walk s a = Some f"
  shows "tlb_ok (s\<lparr>tlb := (tlb s)(page a \<mapsto> f)\<rparr>)"
proof -
  let ?s = "s\<lparr>tlb := (tlb s)(page a \<mapsto> f)\<rparr>"
  have walk: "walk ?s = walk s" by (intro ext) (simp add: walk_def)
  show ?thesis
    unfolding tlb_ok_def walk
  proof (intro allI impI)
    fix b g assume b: "tlb ?s (page b) = Some g"
    show "walk s b = Some g"
    proof (cases "page b = page a")
      case True
      then have "walk s b = walk s a" unfolding walk_def by (rule walk_frame_page)
      then show ?thesis using b w True by simp
    qed (use b ok in \<open>simp add: tlb_ok_def\<close>)
  qed
qed

lemma tlb_ok_drop: "tlb_ok s \<Longrightarrow> \<forall>p. t p = None \<or> t p = tlb s p \<Longrightarrow> tlb_ok (s\<lparr>tlb := t\<rparr>)"
  by (simp add: tlb_ok_def walk_def) (metis option.distinct(1))

lemma tlb_fill_wf:
  fixes s :: "'a virtmm_scheme"
  assumes "vm_wf s" and "walk s a = Some f"
  shows "vm_wf (s\<lparr>tlb := (tlb s)(page a \<mapsto> f)\<rparr>)"
  by (rule tlb_change(1) [OF assms(1) tlb_ok_fill [OF _ assms(2)]]) (use assms(1) in \<open>simp add: vm_wf_def\<close>)

section \<open>Facts for the witnesses\<close>

lemma heap_page_free [simp]: "walk boot 0xd0000000 = None" "walk boot 0xd0001000 = None"
    "walk boot 0xe0000000 = None"
  by (simp_all add: boot_walk pd_index_def)

lemma boot_spare:
  assumes "0x116 \<le> unat (page f)"
  shows "spare boot (page f)"
proof -
  have h: "0x10d < page f" using assms by (simp add: word_less_nat_alt)
  have "frame_no boot k \<noteq> page f" if "k < 8" for k
    using unat_boot_frame [OF that] that assms by auto
  then show ?thesis
    using boot_high_frame [OF h] boot_high_raw [OF h] by (simp add: spare_def fresh_frame_def boot_sizes)
qed

lemma boot_no_table: "unat i < 1024 \<Longrightarrow> i \<noteq> 1023 \<Longrightarrow> i \<noteq> 768 \<Longrightarrow> \<not> present (pde boot i)"
  by (simp add: boot_pde)

lemma boot_table_ok: "unat i < 1024 \<Longrightarrow> i \<noteq> 1023 \<Longrightarrow> i \<noteq> 768 \<Longrightarrow> table_ok boot i {7} 6"
  using boot_single [of 0] by (auto simp: table_ok_def boot_no_table)

section \<open>The address computation, and device memory\<close>

lemma low_bits_eq: "(a AND 0x3ff) = pgoff a \<longleftrightarrow> \<not> bit a 10 \<and> \<not> bit a 11" for a :: u32
proof -
  have m: "(0x3ff :: u32) = mask 10" by (simp add: mask_eq_exp_minus_1)
  have e: "a AND 0x3ff = take_bit 10 a" unfolding m by (simp add: take_bit_eq_mask)
  show ?thesis
  proof
    assume "(a AND 0x3ff) = pgoff a"
    then have "bit (take_bit 10 a) k = bit (take_bit 12 a) k" for k by (simp add: e pgoff_def)
    from this [of 10] this [of 11] show "\<not> bit a 10 \<and> \<not> bit a 11" by (simp add: bit_simps)
  next
    assume b: "\<not> bit a 10 \<and> \<not> bit a 11"
    show "(a AND 0x3ff) = pgoff a"
      unfolding e pgoff_def
    proof (rule bit_word_eqI)
      fix n :: nat
      have "n < 10 \<or> n = 10 \<or> n = 11 \<or> 12 \<le> n" by auto
      then show "bit (take_bit 10 a) n = bit (take_bit 12 a) n" using b by (auto simp: bit_simps)
    qed
  qed
qed

lemma low_bits_less: "unat (a AND 0x3ff :: u32) < 4096"
proof -
  have m: "(0x3ff :: u32) = mask 10" by (simp add: mask_eq_exp_minus_1)
  have "a AND 0x3ff = take_bit 10 a" unfolding m by (simp add: take_bit_eq_mask)
  moreover have "unat (take_bit 10 a) < 1024" by (simp add: take_bit_eq_mod unat_mod)
  ultimately show ?thesis by simp
qed

lemma lpa_plain:
  fixes s :: "'a virtmm_scheme"
  assumes wf: "vm_wf s" and w: "walk s a = Some f" and p: "plain_entry (pte s a)"
  shows "lpa s a = Some (mkaddr f (a AND 0x3ff))" and "translate s a = Some (mkaddr f (pgoff a))"
proof -
  obtain e where e: "present (pde s (pd_index a))" "e = pte s a" "f = page e"
    by (rule walk_SomeE [OF w]) (simp add: pte_def)
  show "lpa s a = Some (mkaddr f (a AND 0x3ff))"
    using lpa_entry [OF wf e(1)] plain_entry_sum [OF p, of a] by (simp add: e pte_def)
  show "translate s a = Some (mkaddr f (pgoff a))"
    using wf w by (simp add: translate_walk vm_wf_def)
qed

lemma maphwdev_run:
  fixes s :: "'a virtmm_scheme"
  assumes wf: "vm_wf s" and n: "unat n < 1048576"
    and base: "base = (if driver_space_head s = 0 then driver_space_start else driver_space_head s)"
    and reg: "\<forall>k<unat n. \<not> in_window (nth_page base k) \<and> walk s (nth_page base k) = None \<and>
        pd_index (nth_page base k) = pd_index base"
    and fr: "\<forall>k<unat n. spare s (page (nth_page hw k))" and tab: "table_ok s (pd_index base) U t"
  obtains s' where "maphwdev s hw n = Some (base, s')" and "vm_wf s'"
    and "driver_space_head s' = base + n"
    and "\<forall>k<unat n. \<forall>a. page a = page (nth_page base k) \<longrightarrow> walk s' a = Some (page (nth_page hw k)) \<and> data s' a"
    and "\<forall>a. \<not> in_window a \<and> (\<forall>k<unat n. page a \<noteq> page (nth_page base k)) \<longrightarrow> walk s' a = walk s a"
proof -
  define s1 where "s1 = s\<lparr>driver_space_head := base + n\<rparr>"
  have same: "vm_same s s1" by (simp add: s1_def vm_same_def)
  note mem = vm_same_mem [OF same] and wfs = vm_same_wf [OF same]
  have inv0: "map_inv s1 base (unat n) (\<lambda>k. page (nth_page hw k)) U t 0 s1"
    using wf fr tab vm_keep_refl [of s1] tables_from_same [of s1 s1 U] by (simp add: map_inv_def wfs)
  have inj: "\<forall>j<unat n. \<forall>k<unat n. j \<noteq> k \<longrightarrow> page (nth_page hw j) \<noteq> page (nth_page hw k)"
    using n nth_page_inj by auto
  have reg1: "\<forall>k<unat n. \<not> in_window (nth_page base k) \<and> walk s1 (nth_page base k) = None \<and>
        pd_index (nth_page base k) = pd_index base"
    using reg by (simp add: mem)
  have hwF: "\<forall>k<unat n. page (nth_page hw k) = page (nth_page hw k)" by simp
  obtain s2 where run: "for_loop 0 (unat n)
      (\<lambda>i t. mapfr t (hw + 4096 * word_of_nat i) (base + 4096 * word_of_nat i)) s1 = Some s2"
    and inv: "map_inv s1 base (unat n) (\<lambda>k. page (nth_page hw k)) U t (unat n) s2"
    by (rule map_run [OF inv0 n inj hwF reg1])
  have "vm_only s1 s2"
    by (rule for_loop_rel [OF vm_only_refl vm_only_trans mapfr_only run])
  then have "driver_space_head s2 = base + n" by (auto simp: vm_only_def s1_def)
  moreover have "maphwdev s hw n = Some (base, s2)"
    using run by (auto simp: maphwdev_def Let_def base s1_def split: if_splits)
  ultimately show ?thesis using that [of s2] inv unfolding map_inv_def by (simp add: mem)
qed

section \<open>The properties\<close>

text \<open>C7: \<open>mapfr\<close> on an unmapped page outside the table window, given a frame that nothing uses,
  returns; afterwards exactly that page leads to exactly that frame and every other page leads
  where it led; a missing page table is taken from the frame allocator; all other data keep
  their addresses and contents; the invariants of paging and allocator hold again.\<close>

theorem mapfr_maps_page:
  fixes s :: "'a virtmm_scheme"
  assumes "vm_wf s" and "\<not> in_window lg" and "walk s lg = None" and "spare s (page hw)"
    and "table_ok s (pd_index lg) U t"
  shows "\<exists>s'. mapfr s hw lg = Some s' \<and> vm_wf s' \<and> vm_keep s s' \<and> used_set s' = U \<and> stack_top s' = t \<and>
    (\<forall>a. \<not> in_window a \<longrightarrow> walk s' a = (if page a = page lg then Some (page hw) else walk s a))"
  by (rule mapfr_spec [OF assms]) (intro exI conjI)

theorem mapfr_maps_page_witness:
  "\<exists>s'. mapfr boot 0x200000 0xd0000000 = Some s' \<and> vm_wf s' \<and> vm_keep boot s' \<and> used_set s' = {7} \<and>
    stack_top s' = 6 \<and>
    (\<forall>a. \<not> in_window a \<longrightarrow> walk s' a = (if page a = page 0xd0000000 then Some (page 0x200000) else walk boot a))"
  by (rule mapfr_maps_page [OF boot_vm_wf _ _ boot_spare boot_table_ok])
     (simp_all add: in_window_def pd_index_def page_def)

text \<open>C8: \<open>mmap\<close> of a range that lies under one directory slot and is not mapped, with enough free
  frames, returns \<open>STATUS_OK\<close>; page \<open>k\<close> of the range leads to frame \<open>w + k\<close> of the run the
  allocator granted and can be loaded and stored, no other page changes, the used frames are
  the run and (if it was missing) the page table, the invariants hold again.\<close>

theorem mmap_maps_range:
  fixes s :: "'a virtmm_scheme"
  assumes "vm_wf s" and "mmap_ok s addr len w U t"
  shows "\<exists>s'. mmap s addr len = Some (STATUS_OK, s') \<and> vm_wf s' \<and> vm_keep s s' \<and>
    used_set s' = U \<and> stack_top s' = t \<and>
    (\<forall>k<npages len. \<forall>a. page a = page (nth_page addr k) \<longrightarrow>
       walk s' a = Some (frame_no s (w + k)) \<and> data s' a) \<and>
    (\<forall>a. \<not> in_window a \<and> (\<forall>k<npages len. page a \<noteq> page (nth_page addr k)) \<longrightarrow> walk s' a = walk s a)"
  by (rule mmap_spec [OF assms]) (intro exI conjI)

lemma boot_mmap_ok: "mmap_ok boot 0xd0000000 0x2000 0 (insert 7 {0..<2}) 6"
proof -
  have n: "npages 0x2000 = 2" by (simp add: npages_def)
  have r: "\<not> in_window (nth_page 0xd0000000 k) \<and> walk boot (nth_page 0xd0000000 k) = None \<and>
      pd_index (nth_page 0xd0000000 k) = pd_index 0xd0000000" if "k < 2" for k
  proof -
    have "k = 0 \<or> k = 1" using that by auto
    then show ?thesis by (auto simp: nth_page_def in_window_def pd_index_def)
  qed
  have "alloc_spec 8 {0..<2} 7 1 = Some (7, insert 7 {0..<2}, 6)" using boot_single [of 2] by simp
  moreover have "\<not> present (pde boot (pd_index 0xd0000000))"
    by (rule boot_no_table) (simp_all add: pd_index_def)
  ultimately show ?thesis unfolding mmap_ok_def n using r by simp
qed

theorem mmap_maps_range_witness:
  "\<exists>s'. mmap boot 0xd0000000 0x2000 = Some (STATUS_OK, s') \<and> vm_wf s' \<and> vm_keep boot s' \<and>
    used_set s' = insert 7 {0..<2} \<and> stack_top s' = 6 \<and>
    (\<forall>k<npages 0x2000. \<forall>a. page a = page (nth_page 0xd0000000 k) \<longrightarrow>
       walk s' a = Some (frame_no boot (0 + k)) \<and> data s' a) \<and>
    (\<forall>a. \<not> in_window a \<and> (\<forall>k<npages 0x2000. page a \<noteq> page (nth_page 0xd0000000 k)) \<longrightarrow> walk s' a = walk boot a)"
  by (rule mmap_maps_range [OF boot_vm_wf boot_mmap_ok])

text \<open>C25: \<open>umapfr\<close> clears the table entry of the page and of no other page, but it invalidates the
  cache for the address of the table entry instead of the page itself: a page whose
  translation is cached stays reachable at its old frame after it was unmapped.\<close>

theorem umapfr_leaves_stale_translation:
  fixes s :: "'a virtmm_scheme"
  assumes "vm_wf s" and "\<not> in_window lg" and "walk s lg = Some f" and "tlb s (page lg) = Some f"
  shows "\<exists>s'. umapfr s lg = Some s' \<and> (\<forall>a. walk s' a = (if page a = page lg then None else walk s a)) \<and>
    translate s' lg = Some (mkaddr f (pgoff lg))"
proof -
  have "present (pde s (pd_index lg))" by (rule walk_SomeE [OF assms(3)])
  then obtain s' where "umapfr s lg = Some s'" "\<forall>a. walk s' a = (if page a = page lg then None else walk s a)"
    "tlb s' (page lg) = tlb s (page lg)"
    by (rule umapfr_effect [OF assms(1,2)])
  then show ?thesis using assms(4) by (intro exI [of _ s']) (simp add: translate_def)
qed

theorem umapfr_leaves_stale_translation_witness:
  "\<exists>s'. umapfr (boot\<lparr>tlb := (tlb boot)(page 0xc0104000 \<mapsto> 0x104)\<rparr>) 0xc0104000 = Some s' \<and>
    (\<forall>a. walk s' a = (if page a = page 0xc0104000 then None
                       else walk (boot\<lparr>tlb := (tlb boot)(page 0xc0104000 \<mapsto> 0x104)\<rparr>) a)) \<and>
    translate s' 0xc0104000 = Some (mkaddr 0x104 (pgoff 0xc0104000))"
proof (rule umapfr_leaves_stale_translation)
  have w: "walk boot 0xc0104000 = Some 0x104" by (simp add: boot_walk pd_index_def pt_index_def)
  show "vm_wf (boot\<lparr>tlb := (tlb boot)(page 0xc0104000 \<mapsto> 0x104)\<rparr>)"
    by (rule tlb_fill_wf [OF boot_vm_wf w])
  show "walk (boot\<lparr>tlb := (tlb boot)(page 0xc0104000 \<mapsto> 0x104)\<rparr>) 0xc0104000 = Some 0x104"
    using w by (simp add: walk_def)
qed (simp_all add: in_window_def pd_index_def)

text \<open>C30: The macro \<open>_lpa\<close> masks with \<open>0x3ff\<close> where a page offset has twelve bits: for a mapped page
  whose entry has no flags in bits 10 and 11, it computes the physical address the processor
  uses if and only if bits 10 and 11 of the address are zero.\<close>

theorem lpa_correct_iff:
  fixes s :: "'a virtmm_scheme"
  assumes "vm_wf s" and "walk s a = Some f" and "plain_entry (pte s a)"
  shows "lpa s a = translate s a \<longleftrightarrow> \<not> bit a 10 \<and> \<not> bit a 11"
proof -
  have "unat f < 1048576" by (rule walk_lt [OF assms(2)])
  then show ?thesis
    unfolding lpa_plain [OF assms] using low_bits_less [of a] low_bits_eq [of a]
    by (simp add: mkaddr_inject)
qed

theorem lpa_correct_iff_witness:
  "(lpa boot 0xc010c400 = translate boot 0xc010c400) = False \<and>
   (lpa boot 0xc010c104 = translate boot 0xc010c104) = True"
proof -
  have i: "pd_index 0xc010c400 = 768" "pt_index 0xc010c400 = 0x10c" "pd_index 0xc010c104 = 768" "pt_index 0xc010c104 = 0x10c"
    by (simp_all add: pd_index_def pt_index_def)
  then have "walk boot 0xc010c400 = Some 0x10c" "walk boot 0xc010c104 = Some 0x10c"
    by (simp_all add: boot_walk)
  moreover have "plain_entry (pte boot 0xc010c400)" "plain_entry (pte boot 0xc010c104)"
    using boot_pte [of "0xc010c400"] boot_pte [of "0xc010c104"]
    by (simp_all add: i plain_entry_def bit_numeral_word_iff)
  ultimately show ?thesis
    using lpa_correct_iff [OF boot_vm_wf, of "0xc010c400" "0x10c"] lpa_correct_iff [OF boot_vm_wf, of "0xc010c104" "0x10c"]
    by (simp add: bit_numeral_word_iff)
qed

text \<open>\<open>munmap\<close> of a single page never unmaps it: its loop starts at the second page, and
  \<open>hwpfree\<close> refuses a single frame; the call returns \<open>STATUS_BORKD_MEM\<close> and nothing changes.\<close>

theorem munmap_page_fails:
  fixes s :: "'a virtmm_scheme"
  assumes "vm_wf s" and "0 < unat len" and "unat len \<le> 4096" and "lpa s addr = Some (frame_addr s i)"
    and "i < nframes s" and "used s i"
  shows "munmap s addr len = Some (STATUS_BORKD_MEM, s)"
proof -
  have phy: "phymm_wf s" and st: "phymm_static s" using assms(1) by (auto simp: vm_wf_def phymm_wf_def)
  have u: "unat (len + 4095) = unat len + 4095" using assms(3) by (simp add: unat_add_small)
  have "unat ((len + 4095) div 4096) = 1"
    unfolding unat_div u using assms(2,3) by (simp add: div_nat_eqI)
  then have p: "(len + 4095) div 4096 = 1" by (simp add: word_unat_eq_iff)
  have "hwpfree s (frame_addr s i) 1 = Some (STATUS_BORKD_MEM, s)"
    using frame_addr_in_range [OF st assms(5)] sp_below_limit [OF phy] assms(6)
    by (simp add: hwpfree_def hwa_inubm_get_frame [OF st assms(5)] PGUSE_def PGFREE_def)
  then show ?thesis by (simp add: munmap_def Let_def p assms(4))
qed

theorem munmap_page_fails_witness:
  "\<exists>s1 s2. hwpalloc boot 1 = Some (0x115000, s1) \<and> mapfr s1 0x115000 0xc0002000 = Some s2 \<and>
    munmap s2 0xc0002000 4096 = Some (STATUS_BORKD_MEM, s2)"
proof -
  have "alloc_spec (nframes boot) (used_set boot) (stack_top boot) (unat (1 :: u16)) = Some (7, {7}, 6)"
    using boot_single [of 0] by simp
  then obtain s1 where s1: "hwpalloc boot 1 = Some (frame_addr boot 7, s1)" "phymm_wf s1" "bm_only boot s1"
      "used_set s1 = {7}" "stack_top s1 = 6"
    using hwpalloc_refines [OF boot_phymm_wf, of 1] by blast
  have f7: "frame_addr boot 7 = 0x115000" by (simp add: frame_addr_def)
  have wf1: "vm_wf s1" by (rule bm_only_vm_wf [OF boot_vm_wf s1(3,2)]) (simp add: s1(4))
  note tb = bm_only_tables [OF boot_static s1(3)] and bm = bm_only_mem [OF boot_static s1(3)]
  have n1: "nframes s1 = 8" "frame_no s1 = frame_no boot" "frame_addr s1 7 = 0x115000"
    using bm f7 by (simp_all add: frame_no_def fun_eq_iff)
  have w1: "walk s1 0xc0002000 = None" by (simp add: tb boot_walk pd_index_def pt_index_def)
  have pg: "page 0x115000 = 0x115" by (simp add: page_def)
  have nf: "frame_no boot k \<noteq> 0x115" if "k < 8" "k \<noteq> 7" for k
    using unat_boot_frame [OF that(1)] that by auto
  have u1: "used s1 k \<longleftrightarrow> k = 7" if "k < 8" for k
  proof -
    have "k \<in> used_set s1 \<longleftrightarrow> k = 7" by (simp add: s1(4))
    then show ?thesis using that by (simp add: used_set_def n1)
  qed
  have h: "0x10d < (0x115 :: u32)" by simp
  have sp: "spare s1 (page 0x115000)"
    unfolding pg spare_def fresh_frame_def n1
    using nf u1 boot_high_frame [OF h] boot_high_raw [OF h] by (auto simp: tb)
  have tab: "table_ok s1 (pd_index 0xc0002000) {7} 6"
    by (simp add: table_ok_def tb boot_pde s1(4,5) pd_index_def)
  obtain s2 where s2: "mapfr s1 0x115000 0xc0002000 = Some s2" "vm_wf s2" "vm_keep s1 s2"
    "\<forall>a. \<not> in_window a \<longrightarrow> walk s2 a = (if page a = page 0xc0002000 then Some (page 0x115000) else walk s1 a)"
    "\<forall>a. page a = page 0xc0002000 \<longrightarrow> data s2 a"
    "present (pde s2 (pd_index 0xc0002000))" "used_set s2 = {7}" "stack_top s2 = 6"
    "\<forall>f. spare s1 f \<and> f \<noteq> page 0x115000 \<longrightarrow> spare s2 f" "pte s2 0xc0002000 = 0x115000 OR 3" "tables_from s1 {7} s2"
    by (rule mapfr_spec [OF wf1 _ w1 sp tab]) (simp add: in_window_def pd_index_def)
  have w2: "walk s2 0xc0002000 = Some (page 0x115000)" using s2(4) by (simp add: in_window_def pd_index_def)
  have "plain_entry (pte s2 0xc0002000)" unfolding s2(10) by (simp add: plain_entry_def bit_numeral_word_iff)
  then have l: "lpa s2 0xc0002000 = Some (mkaddr (page 0x115000) (0xc0002000 AND 0x3ff))"
    by (rule lpa_plain(1) [OF s2(2) w2])
  have vo: "vm_only s1 s2" using s2(1) by (rule mapfr_only)
  have n2: "nframes s2 = 8" "frame_addr s2 7 = 0x115000"
    using vm_only_fields [OF vo] n1 by simp_all
  have "7 \<in> used_set s2" by (simp add: s2(7))
  then have u2: "used s2 7" by (simp add: used_set_def)
  have "munmap s2 0xc0002000 4096 = Some (STATUS_BORKD_MEM, s2)"
    by (rule munmap_page_fails [OF s2(2) _ _ _ _ u2])
       (simp_all add: l n2 page_def mkaddr_def)
  then show ?thesis using s1(1) s2(1) f7 by auto
qed

text \<open>C31: \<open>maphwdev\<close> maps \<open>n\<close> consecutive device frames at the head of the driver space and returns
  the head; but it advances the head by \<open>n\<close> bytes instead of \<open>n\<close> pages.\<close>

theorem maphwdev_maps_device:
  fixes s :: "'a virtmm_scheme"
  assumes "vm_wf s" and "unat n < 1048576"
    and "base = (if driver_space_head s = 0 then driver_space_start else driver_space_head s)"
    and "\<forall>k<unat n. \<not> in_window (nth_page base k) \<and> walk s (nth_page base k) = None \<and>
        pd_index (nth_page base k) = pd_index base"
    and "\<forall>k<unat n. spare s (page (nth_page hw k))" and "table_ok s (pd_index base) U t"
  shows "\<exists>s'. maphwdev s hw n = Some (base, s') \<and> vm_wf s' \<and> driver_space_head s' = base + n \<and>
    (\<forall>k<unat n. \<forall>a. page a = page (nth_page base k) \<longrightarrow> walk s' a = Some (page (nth_page hw k)) \<and> data s' a) \<and>
    (\<forall>a. \<not> in_window a \<and> (\<forall>k<unat n. page a \<noteq> page (nth_page base k)) \<longrightarrow> walk s' a = walk s a)"
  by (rule maphwdev_run [OF assms]) (intro exI conjI)

lemma boot_driver_space:
  "\<forall>k<unat (2 :: u32). \<not> in_window (nth_page 0xe0000000 k) \<and> walk boot (nth_page 0xe0000000 k) = None \<and>
        pd_index (nth_page 0xe0000000 k) = pd_index 0xe0000000"
  "\<forall>k<unat (2 :: u32). spare boot (page (nth_page 0xfeb80000 k))"
  "table_ok boot (pd_index 0xe0000000) {7} 6"
proof -
  have two: "unat (2 :: u32) = 2" by simp
  have k: "k = 0 \<or> k = 1" if "k < 2" for k :: nat using that by auto
  show "\<forall>k<unat (2 :: u32). \<not> in_window (nth_page 0xe0000000 k) \<and> walk boot (nth_page 0xe0000000 k) = None \<and>
        pd_index (nth_page 0xe0000000 k) = pd_index 0xe0000000"
    unfolding two by (auto dest!: k simp: nth_page_def in_window_def pd_index_def boot_walk)
  show "\<forall>k<unat (2 :: u32). spare boot (page (nth_page 0xfeb80000 k))"
    unfolding two using boot_spare [of "0xfeb80000"] boot_spare [of "0xfeb81000"]
    by (auto dest!: k simp: nth_page_def page_def)
  show "table_ok boot (pd_index 0xe0000000) {7} 6" by (rule boot_table_ok) (simp_all add: pd_index_def)
qed

theorem maphwdev_maps_device_witness:
  "\<exists>s'. maphwdev boot 0xfeb80000 2 = Some (0xe0000000, s') \<and> vm_wf s' \<and> driver_space_head s' = 0xe0000000 + 2 \<and>
    (\<forall>k<unat (2 :: u32). \<forall>a. page a = page (nth_page 0xe0000000 k) \<longrightarrow>
       walk s' a = Some (page (nth_page 0xfeb80000 k)) \<and> data s' a) \<and>
    (\<forall>a. \<not> in_window a \<and> (\<forall>k<unat (2 :: u32). page a \<noteq> page (nth_page 0xe0000000 k)) \<longrightarrow> walk s' a = walk boot a)"
  by (rule maphwdev_maps_device [OF boot_vm_wf _ _ boot_driver_space]) (simp_all add: driver_space_start_def)

text \<open>So two device mappings in a row overlap: the second begins on the page on which the first
  begins, whenever the first has between one and 4095 pages.\<close>

theorem maphwdev_mappings_overlap:
  fixes s :: "'a virtmm_scheme"
  assumes "vm_wf s" and "unat n < 4096" and "driver_space_head s = 0"
    and "\<forall>k<unat n. \<not> in_window (nth_page driver_space_start k) \<and> walk s (nth_page driver_space_start k) = None \<and>
        pd_index (nth_page driver_space_start k) = pd_index driver_space_start"
    and "\<forall>k<unat n. spare s (page (nth_page hw k))" and "table_ok s (pd_index driver_space_start) U t"
  shows "\<exists>s1. maphwdev s hw n = Some (driver_space_start, s1) \<and> page (driver_space_head s1) = page driver_space_start \<and>
    (\<forall>hw' m s2. maphwdev s1 hw' m = Some s2 \<longrightarrow> fst s2 = driver_space_start + n)"
proof -
  have n: "unat n < 1048576" using assms(2) by simp
  have b: "driver_space_start = (if driver_space_head s = 0 then driver_space_start else driver_space_head s)"
    using assms(3) by simp
  obtain s1 where s1: "maphwdev s hw n = Some (driver_space_start, s1)" "vm_wf s1"
    "driver_space_head s1 = driver_space_start + n"
    "\<forall>k<unat n. \<forall>a. page a = page (nth_page driver_space_start k) \<longrightarrow> walk s1 a = Some (page (nth_page hw k)) \<and> data s1 a"
    "\<forall>a. \<not> in_window a \<and> (\<forall>k<unat n. page a \<noteq> page (nth_page driver_space_start k)) \<longrightarrow> walk s1 a = walk s a"
    by (rule maphwdev_run [OF assms(1) n b assms(4-6)])
  have o: "unat (pgoff driver_space_start) + unat n < 4096"
    using assms(2) by (simp add: driver_space_start_def pgoff_def)
  have "unat (driver_space_start + n) = unat driver_space_start + unat n"
    using assms(2) by (intro unat_add_small) (simp add: driver_space_start_def)
  then have "driver_space_start + n \<noteq> 0" by (auto simp: driver_space_start_def)
  then have "fst s2 = driver_space_start + n" if "maphwdev s1 hw' m = Some s2" for hw' m s2
    using that s1(3) by (auto simp: maphwdev_def Let_def split: bind_splits)
  then show ?thesis using s1(1,3) page_add [OF o] by auto
qed

theorem maphwdev_mappings_overlap_witness:
  "\<exists>s1. maphwdev boot 0xfeb80000 2 = Some (driver_space_start, s1) \<and>
    page (driver_space_head s1) = page driver_space_start \<and>
    (\<forall>hw' m s2. maphwdev s1 hw' m = Some s2 \<longrightarrow> fst s2 = driver_space_start + 2)"
  by (rule maphwdev_mappings_overlap [OF boot_vm_wf _ _ boot_driver_space [folded driver_space_start_def]]) simp_all

end
