(* ===== verification/HeapProps.thy ===== *)
theory HeapProps
  imports KHeapClient Klibc PagingProps
begin

text \<open>
  The properties of the kernel heap (\<open>kernel/mm/kmalloc.c\<close>) and of the library functions that work
  on it (\<open>klibc/kstring.c\<close>), each with a witness on \<open>boot\<close>.
\<close>

section \<open>Facts for the witnesses\<close>

text \<open>The empty heap of \<open>boot\<close>, and the heap after one small request.\<close>

lemma boot_heap: "heap_inv boot []"
  using boot_vm_wf
  by (simp add: heap_inv_def heap_ok_def heap_end_def clear_range_def data_range_def pgoff_def)

lemma boot_top [simp]: "alloc_spec 8 {} 7 (Suc 0) = Some (7, {7}, 6)"
  using boot_single [of 0] by simp

lemma boot_next [simp]: "alloc_spec 8 {7} 6 (Suc 0) = Some (6, {6, 7}, 5)"
  by (simp add: alloc_spec_def eval_nat_numeral)

lemma boot_mmap_page: "mmap_ok boot 0xd0000000 0x1000 7 {6, 7} 5"
proof -
  have n: "npages 0x1000 = 1" by (simp add: npages_def)
  have "\<not> present (pde boot (pd_index 0xd0000000))"
    by (rule boot_no_table) (simp_all add: pd_index_def)
  then show ?thesis unfolding mmap_ok_def n
    by (auto simp: nth_page_def in_window_def pd_index_def)
qed

lemma boot_mmap_three: "mmap_ok boot 0xd0000000 0x3000 0 (insert 7 {0..<3}) 6"
proof -
  have n: "npages 0x3000 = 3" by (simp add: npages_def)
  have r: "\<not> in_window (nth_page 0xd0000000 k) \<and> walk boot (nth_page 0xd0000000 k) = None \<and>
      pd_index (nth_page 0xd0000000 k) = pd_index 0xd0000000" if "k < 3" for k
  proof -
    have "k = 0 \<or> k = 1 \<or> k = 2" using that by auto
    then show ?thesis by (auto simp: nth_page_def in_window_def pd_index_def boot_walk)
  qed
  have "\<not> present (pde boot (pd_index 0xd0000000))"
    by (rule boot_no_table) (simp_all add: pd_index_def)
  then show ?thesis unfolding mmap_ok_def n using r boot_single [of 3] by simp
qed

lemma boot_grow: "alloc_ready boot [] 16"
  unfolding alloc_ready_def grow_ok_def grow_request_def round16_def
  using boot_mmap_page by (auto simp: heap_end_def)

definition one_block :: "blk list" where
  "one_block = [(0xd0000000, 16, False), (0xd0000024, 4040, True)]"

lemma boot_alloc: "alloc_abs boot [] 16 = (0xd0000000, one_block)"
  by (simp add: alloc_abs_def grow_request_def round16_def grow_bytes_def carve_def one_block_def)

lemma boot_one:
  obtains s where "kmalloc boot 16 = Some (0xd0000014, s)" and "heap_inv s one_block"
  using kmalloc_refine [OF boot_heap boot_grow] by (auto simp: boot_alloc)

lemma one_block_ready: "alloc_ready s one_block 16"
  by (simp add: alloc_ready_def one_block_def round16_def)

lemma one_block_live: "live one_block = {(0xd0000014, 16)}"
  by (simp add: one_block_def)

section \<open>Growing a range\<close>

lemma round16_ge: "unat l \<le> 0xfffffff0 \<Longrightarrow> unat l \<le> unat (round16 l)"
proof -
  assume l: "unat l \<le> 0xfffffff0"
  then have u: "unat (l + 0xf) = unat l + 15" by (simp add: unat_add_small)
  have m: "(0xf :: u32) = mask 4" by (simp add: mask_eq_exp_minus_1)
  have e: "round16 l = push_bit 4 (drop_bit 4 (l + 0xf))"
    unfolding round16_def m by (rule bit_word_eqI) (auto simp: bit_simps)
  have "unat (round16 l) = (unat l + 15) div 16 * 16"
  proof -
    have b: "(unat l + 15) div 16 * 16 < 4294967296" using l by simp
    have "unat (drop_bit 4 (l + 0xf)) = (unat l + 15) div 16" by (simp add: drop_bit_eq_div unat_div u)
    then show ?thesis unfolding e using b by (simp add: push_bit_eq_mult unat_word_ariths)
  qed
  then show ?thesis using dividend_less_div_times [of 16 "unat l + 15"] by simp
qed

lemma header_of:
  fixes s :: "'a kheap_scheme"
  assumes inv: "heap_inv s h" and b: "(a, z, f) \<in> set h"
  shows "mblk_valid s a = Some True" and "rd32 s (blk_size a) = Some z"
proof -
  obtain pre post where h: "h = pre @ (a, z, f) # post" using b by (auto dest: split_list)
  have sg: "seg s 0 (pre @ (a, z, f) # post) 0" using inv by (simp add: heap_inv_def h)
  show "mblk_valid s a = Some True" by (rule seg_member_valid [OF sg])
  show "rd32 s (blk_size a) = Some z" using sg by (auto simp: seg_append hdr_def blk_faddr fget_def)
qed

lemma drop_patch: "i + length zs \<le> n \<Longrightarrow> n \<le> length ys \<Longrightarrow> drop n (patch i zs ys) = drop n ys"
  by (simp add: patch_def)

text \<open>The copying loop of \<open>krealloc\<close>, which reads the size of the old block in every round.\<close>

lemma krealloc_copy_run:
  fixes s :: "'a kheap_scheme"
  assumes a: "(a, z, False) \<in> set h" and q: "(q, k) \<in> live h" "q \<noteq> a + 20" "unat z \<le> k"
    and xs: "length xs = unat z"
  shows "heap_inv s h \<Longrightarrow> rdn s (a + 20) (unat z) = Some xs \<Longrightarrow> rdn s q k = Some ys \<Longrightarrow>
    take i ys = take i xs \<Longrightarrow> i \<le> unat z \<Longrightarrow>
    \<exists>s'. krealloc_copy s a (a + 20) q (word_of_nat i) = Some s' \<and> heap_inv s' h \<and>
      rdn s' q k = Some (xs @ drop (unat z) ys) \<and>
      (\<forall>r l. (r, l) \<in> live h \<longrightarrow> r \<noteq> q \<longrightarrow> rdn s' r l = rdn s r l) \<and> heap_frame s s'"
proof (induction "unat z - i" arbitrary: s i ys)
  case 0
  then have i: "i = unat z" by simp
  have "take (unat z) ys = xs" using "0.prems"(4) xs i by simp
  then have "ys = xs @ drop (unat z) ys" using append_take_drop_id [of "unat z" ys] by simp
  moreover have "krealloc_copy s a (a + 20) q (word_of_nat i) = Some s"
    using header_of(2) [OF "0.prems"(1) a] by (subst krealloc_copy.simps) (simp add: i)
  ultimately show ?case using 0 heap_frame_refl by auto
next
  case (Suc n)
  have iz: "i < unat z" using Suc.hyps(2) by simp
  have ui: "unat (word_of_nat i :: u32) = i" using iz u32_less [of z] by (simp add: unat_of_nat)
  have lt: "(word_of_nat i :: u32) < z" using iz by (simp add: word_less_nat_alt ui)
  have ly: "length ys = k" using live_contents [OF Suc.prems(1) q(1)] Suc.prems(3) by auto
  have rd: "rd8 s (a + 20 + word_of_nat i) = Some (xs ! i)" by (rule rdn_nth [OF Suc.prems(2) iz])
  have len: "i + length [xs ! i] \<le> k" using iz q(3) by simp
  note st = live_stn [OF Suc.prems(1) q(1) len]
  let ?s = "stn s (q + word_of_nat i) [xs ! i]"
  have pq: "rdn ?s (a + 20) (unat z) = Some xs"
    using st(3) [of "a + 20" "unat z"] a q(2) Suc.prems(2) by (auto simp: live_def)
  have ys': "rdn ?s q k = Some (patch i [xs ! i] ys)" using st(4) Suc.prems(3) by simp
  have tk: "take (Suc i) (patch i [xs ! i] ys) = take (Suc i) xs"
    using Suc.prems(4) iz xs ly q(3) by (simp add: patch_def take_Suc_conv_app_nth)
  have "n = unat z - Suc i" "Suc i \<le> unat z" using Suc.hyps(2) by simp_all
  from Suc.hyps(1) [OF this(1) st(2) pq ys' tk this(2)]
  obtain s' where s': "krealloc_copy ?s a (a + 20) q (word_of_nat (Suc i)) = Some s'" "heap_inv s' h"
    "rdn s' q k = Some (xs @ drop (unat z) (patch i [xs ! i] ys))"
    "\<forall>r l. (r, l) \<in> live h \<longrightarrow> r \<noteq> q \<longrightarrow> rdn s' r l = rdn ?s r l" "heap_frame ?s s'" by blast
  have "krealloc_copy s a (a + 20) q (word_of_nat i) =
      krealloc_copy ?s a (a + 20) q (word_of_nat i + 1)"
    using header_of(2) [OF Suc.prems(1) a] lt rd st(1)
    by (subst krealloc_copy.simps) (simp add: wr8_def)
  then have "krealloc_copy s a (a + 20) q (word_of_nat i) = Some s'" using s'(1) by (simp add: add.commute)
  moreover have "drop (unat z) (patch i [xs ! i] ys) = drop (unat z) ys"
    using iz ly q(3) drop_patch [of i "[xs ! i]" "unat z" ys] by simp
  moreover have "rdn s' r l = rdn s r l" if "(r, l) \<in> live h" "r \<noteq> q" for r l
    using s'(4) st(3) [OF that] that by simp
  moreover have "heap_frame s s'" by (rule heap_frame_trans [OF st(7) s'(5)])
  ultimately show ?case using s'(2,3) by auto
qed

lemma krealloc_grow:
  fixes s :: "'a kheap_scheme"
  assumes inv: "heap_inv s h" and pm: "(p, m) \<in> live h" and big: "m < unat sz" "unat sz \<le> 0xfffffff0"
    and rd: "alloc_ready s h sz" and xs: "rdn s p m = Some xs"
  obtains q k ys s' h' where "krealloc s p sz = Some (q, s')" and "heap_inv s' h'"
    and "live h' = insert (q, k) (live h - {(p, m)})" and "unat sz \<le> k" and "q \<notin> fst ` live h"
    and "rdn s' q k = Some (xs @ ys)"
    and "\<forall>r l. (r, l) \<in> live h \<longrightarrow> rdn s' r l = rdn s r l" and "heap_frame s s'"
proof -
  obtain q k s1 where 1: "kmalloc s sz = Some (q, s1)" "heap_inv s1 (snd (alloc_abs s h sz))"
    and k: "unat (round16 sz) \<le> k" and r: "q \<notin> fst ` live h" "live (snd (alloc_abs s h sz)) = insert (q, k) (live h)"
    and c1: "\<forall>(r, l)\<in>live h. rdn s1 r l = rdn s r l" and f1: "heap_frame s s1"
    using kh.alloc_law [OF inv rd] by blast
  let ?h = "snd (alloc_abs s h sz)"
  have c1': "rdn s1 r l = rdn s r l" if "(r, l) \<in> live h" for r l using bspec [OF c1 that] by simp
  have szk: "unat sz \<le> k" using round16_ge [OF big(2)] k by simp
  have q: "(q, k) \<in> live ?h" and pm1: "(p, m) \<in> live ?h" using pm by (simp_all add: r(2))
  have pq: "q \<noteq> p" using r(1) pm by (force simp: image_iff)
  obtain a z where az: "p = a + 20" "m = unat z" "(a, z, False) \<in> set h" using pm by (auto simp: live_def)
  obtain b y where b: "p = b + 20" "m = unat y" "(b, y, False) \<in> set ?h" using pm1 by (auto simp: live_def)
  have "b = a" "y = z" using b(1,2) az(1,2) by (simp, metis word_unat_eq_iff)
  then have az1: "(a, z, False) \<in> set ?h" using b(3) by simp
  have lx: "length xs = unat z" using live_contents [OF inv pm] xs az(2) by auto
  obtain ys where ys: "rdn s1 q k = Some ys" "length ys = k" by (rule live_contents [OF 1(2) q])
  have xs1: "rdn s1 (a + 20) (unat z) = Some xs" using c1' [OF pm] xs az by simp
  have qa: "q \<noteq> a + 20" and zk: "unat z \<le> k" using pq az big(1) szk by simp_all
  obtain s2 where 2: "krealloc_copy s1 a (a + 20) q (word_of_nat 0) = Some s2" "heap_inv s2 ?h"
    "rdn s2 q k = Some (xs @ drop (unat z) ys)"
    "\<forall>r l. (r, l) \<in> live ?h \<longrightarrow> r \<noteq> q \<longrightarrow> rdn s2 r l = rdn s1 r l" "heap_frame s1 s2"
    using krealloc_copy_run [OF az1 q qa zk lx 1(2) xs1 ys(1), of 0] by auto
  obtain s3 h3 where 3: "kfree s2 p = Some (STATUS_OK, s3)" "heap_inv s3 h3" "live h3 = live ?h - {(p, m)}"
    and c3: "\<forall>(r, l)\<in>live ?h. rdn s3 r l = rdn s2 r l" and f3: "heap_frame s2 s3"
    using kfree_live [OF 2(2) pm1] by blast
  have c3': "rdn s3 r l = rdn s2 r l" if "(r, l) \<in> live ?h" for r l using bspec [OF c3 that] by simp
  have "p \<noteq> 0" by (rule live_addr(3) [OF inv pm])
  moreover have "q \<noteq> 0" by (rule live_addr(3) [OF 1(2) q])
  moreover have "\<not> sz \<le> z" using big(1) az(2) by (simp add: word_le_nat_alt)
  ultimately have "krealloc s p sz = Some (q, s3)"
    using header_of [OF inv az(3)] 1(1) 2(1) 3(1)
    by (simp add: krealloc_def krealloc_with_def az(1) hdr_size_def kfree_def)
  moreover have "live h3 = insert (q, k) (live h - {(p, m)})" using 3(3) r pq by (auto simp: image_iff)
  moreover have "rdn s3 r l = rdn s r l" if "(r, l) \<in> live h" for r l
  proof -
    have "r \<noteq> q" using r(1) that by (force simp: image_iff)
    then show ?thesis using c3' 2(4) c1' that by (simp add: r(2))
  qed
  moreover have "heap_frame s s3" by (rule heap_frame_trans [OF heap_frame_trans [OF f1 2(5)] f3])
  ultimately show ?thesis using that [of q s3 h3 k] 3(2) szk r(1) c3' [OF q] 2(3) by auto
qed

lemma kcalloc_run:
  fixes s :: "'a kheap_scheme"
  assumes "heap_inv s h" and "alloc_ready s h (nmemb * sz)" and "unat nmemb * unat sz \<le> 0xfffffff0"
  shows "\<exists>p m s' ys. kcalloc s nmemb sz = Some (p, s') \<and> heap_inv s' (snd (alloc_abs s h (nmemb * sz))) \<and>
    live (snd (alloc_abs s h (nmemb * sz))) = insert (p, m) (live h) \<and> p \<notin> fst ` live h \<and>
    unat nmemb * unat sz \<le> m \<and> rdn s' p m = Some (replicate (unat nmemb * unat sz) 0 @ ys) \<and>
    (\<forall>(q, k)\<in>live h. rdn s' q k = rdn s q k) \<and> heap_frame s s'"
proof -
  have u: "unat (nmemb * sz) = unat nmemb * unat sz"
    using assms(3) by (simp add: unat_word_ariths)
  have g: "unat (nmemb * sz) \<le> unat (round16 (nmemb * sz))"
    using assms(3) by (intro round16_ge) (simp add: u)
  obtain p m s1 s2 ys where 1: "kmalloc s (nmemb * sz) = Some (p, s1)"
    "for_loop 0 (unat (nmemb * sz)) (\<lambda>i t. wrn t (p + word_of_nat i) [0]) s1 = Some s2"
    "heap_inv s2 (snd (alloc_abs s h (nmemb * sz)))"
    "live (snd (alloc_abs s h (nmemb * sz))) = insert (p, m) (live h)" "p \<notin> fst ` live h"
    "unat (nmemb * sz) \<le> m"
    and c: "rdn s2 p m = Some (map (\<lambda>i. 0) [0..<unat (nmemb * sz)] @ ys)"
      "\<forall>(q, k)\<in>live h. rdn s2 q k = rdn s q k" "heap_frame s s2"
    using hc.alloc_fill [OF assms(1,2) g, where f = "\<lambda>_. 0"] by blast
  have "kcalloc s nmemb sz = Some (p, s2)" using 1(1,2) by (simp add: kcalloc_def wr8_def)
  then show ?thesis using 1(3-6) c by (auto simp: u map_replicate_const)
qed

section \<open>The properties\<close>

text \<open>C4: \<open>kmalloc\<close> implements first-fit allocation. On a heap whose headers form the block list \<open>bs\<close>, a
  request that fits a free block or for which the heap can grow returns a pointer just behind the
  header of the block the abstract allocator chooses; afterwards the headers form the abstract
  result, and neither the data of a block in use nor anything outside the heap has changed.\<close>

theorem kmalloc_implements:
  fixes s :: "'a kheap_scheme"
  assumes "heap_inv s bs" and "alloc_ready s bs l"
  shows "\<exists>s'. kmalloc s l = Some (fst (alloc_abs s bs l) + 20, s') \<and>
    heap_inv s' (snd (alloc_abs s bs l)) \<and>
    (\<forall>(a, z, f)\<in>set bs. \<not> f \<longrightarrow> rdn s' (a + 20) (unat z) = rdn s (a + 20) (unat z)) \<and>
    heap_frame s s'"
  by (rule kmalloc_refine [OF assms]) (intro exI conjI)

theorem kmalloc_implements_witness:
  "\<exists>s'. kmalloc boot 16 = Some (0xd0000014, s') \<and> heap_inv s' one_block"
  using kmalloc_implements [OF boot_heap boot_grow] by (auto simp: boot_alloc)

text \<open>Two requests in a row get two ranges that are large enough and do not overlap; the first
  keeps its contents, and everything allocated before is still allocated.\<close>

theorem kmalloc_twice:
  fixes s :: "'a kheap_scheme"
  assumes "heap_inv s h" and "alloc_ready s h n"
    and "\<And>p s1. kmalloc s n = Some (p, s1) \<Longrightarrow> alloc_ready s1 (snd (alloc_abs s h n)) n'"
  shows "\<exists>p m s1 q k s2 h2. kmalloc s n = Some (p, s1) \<and> kmalloc s1 n' = Some (q, s2) \<and> heap_inv s2 h2 \<and>
      unat (round16 n) \<le> m \<and> unat (round16 n') \<le> k \<and> {(p, m), (q, k)} \<union> live h \<subseteq> live h2 \<and>
      rdn s2 p m = rdn s1 p m \<and> sep p m q k"
  by (rule kh.alloc_alloc [OF assms])

theorem kmalloc_twice_witness:
  "\<exists>p m s1 q k s2 h2. kmalloc boot 16 = Some (p, s1) \<and> kmalloc s1 16 = Some (q, s2) \<and> heap_inv s2 h2 \<and>
      unat (round16 16) \<le> m \<and> unat (round16 16) \<le> k \<and> {(p, m), (q, k)} \<union> live [] \<subseteq> live h2 \<and>
      rdn s2 p m = rdn s1 p m \<and> sep p m q k"
  by (rule kmalloc_twice [OF boot_heap boot_grow]) (simp add: boot_alloc one_block_ready)

text \<open>C5: \<open>kfree\<close> of a pointer to a range in use returns \<open>STATUS_OK\<close>; exactly that range is no longer in
  use, the heap is well formed, every range keeps its contents, and nothing outside the heap
  changes.\<close>

theorem kfree_releases:
  fixes s :: "'a kheap_scheme"
  assumes "heap_inv s h" and "(p, m) \<in> live h"
  shows "\<exists>s' h'. kfree s p = Some (STATUS_OK, s') \<and> heap_inv s' h' \<and> live h' = live h - {(p, m)} \<and>
    (\<forall>(q, k)\<in>live h. rdn s' q k = rdn s q k) \<and> heap_frame s s'"
  by (rule hc.free_law [OF assms])

theorem kfree_releases_witness:
  "\<exists>s s' h'. kmalloc boot 16 = Some (0xd0000014, s) \<and> kfree s 0xd0000014 = Some (STATUS_OK, s') \<and>
    heap_inv s' h' \<and> live h' = {}"
proof -
  obtain s where s: "kmalloc boot 16 = Some (0xd0000014, s)" "heap_inv s one_block" by (rule boot_one)
  show ?thesis using kfree_releases [OF s(2), of "0xd0000014" 16] s(1) by (auto simp: one_block_live)
qed

text \<open>A request that is released at once leaves the ranges in use and their contents as they were.\<close>

theorem kmalloc_kfree:
  fixes s :: "'a kheap_scheme"
  assumes "heap_inv s h" and "alloc_ready s h n"
  shows "\<exists>p s1 s2 h2. kmalloc s n = Some (p, s1) \<and> kfree s1 p = Some (STATUS_OK, s2) \<and> heap_inv s2 h2 \<and>
    live h2 = live h \<and> (\<forall>(q, k)\<in>live h. rdn s2 q k = rdn s q k) \<and> heap_frame s s2"
  by (rule hc.alloc_free [OF assms])

theorem kmalloc_kfree_witness:
  "\<exists>p s1 s2 h2. kmalloc boot 16 = Some (p, s1) \<and> kfree s1 p = Some (STATUS_OK, s2) \<and> heap_inv s2 h2 \<and>
    live h2 = live [] \<and> (\<forall>(q, k)\<in>live []. rdn s2 q k = rdn boot q k) \<and> heap_frame boot s2"
  by (rule kmalloc_kfree [OF boot_heap boot_grow])

text \<open>C26: Release loses memory: when \<open>kfree\<close> joins blocks it adds their sizes only, so the number of
  blocks falls by the number of joins and the bytes that belong to some block stay the same; the
  twenty bytes of each absorbed header belong to no block any more.\<close>

theorem kfree_loses_headers:
  fixes s :: "'a kheap_scheme"
  assumes "heap_inv s (pre @ (a, z, False) # post)"
  shows "\<exists>s' h'. kfree s (a + 20) = Some (STATUS_OK, s') \<and> heap_inv s' h' \<and>
    length h' + joins pre post = length (pre @ (a, z, False) # post) \<and>
    capacity h' = capacity (pre @ (a, z, False) # post)"
proof -
  obtain s' where "kfree_with (complain_with vga_putchar) s (a + 20) = Some (STATUS_OK, s')"
    "heap_inv s' (release_abs pre a z post)" "only_hdrs s (addrs (pre @ (a, z, False) # post)) s'"
    by (rule kfree_spec [OF assms])
  moreover have "capacity (release_abs pre a z post) = capacity (pre @ (a, z, False) # post)"
    using assms by (intro capacity_release) (auto simp: heap_inv_def heap_ok_def)
  ultimately show ?thesis using length_release [of pre a z post False] unfolding kfree_def by blast
qed

theorem kfree_loses_headers_witness:
  "\<exists>s s' h'. kmalloc boot 16 = Some (0xd0000014, s) \<and> kfree s 0xd0000014 = Some (STATUS_OK, s') \<and>
    heap_inv s' h' \<and> length h' = 1 \<and> capacity h' = 4096 - 2 * 20"
proof -
  obtain s where s: "kmalloc boot 16 = Some (0xd0000014, s)" "heap_inv s one_block" by (rule boot_one)
  then have "heap_inv s ([] @ (0xd0000000, 16, False) # [(0xd0000024, 4040, True)])"
    by (simp add: one_block_def)
  from kfree_loses_headers [OF this] s(1) show ?thesis by (simp add: joins_def)
qed

text \<open>C27: A second release of the same pointer is not noticed: when the block before is not free, it
  returns \<open>STATUS_OK\<close> again.\<close>

theorem kfree_twice_unnoticed:
  fixes s :: "'a kheap_scheme"
  assumes "heap_inv s (pre @ (a, z, False) # post)" and "pre = [] \<or> \<not> snd (snd (last pre))"
  shows "\<exists>s1 s2. kfree s (a + 20) = Some (STATUS_OK, s1) \<and> kfree s1 (a + 20) = Some (STATUS_OK, s2)"
proof -
  obtain s1 where s1: "kfree s (a + 20) = Some (STATUS_OK, s1)" "heap_inv s1 (release_abs pre a z post)"
    using kfree_spec [OF assms(1)] unfolding kfree_def by metis
  obtain z1 post1 where "absorb_next z post = (z1, post1)" by (cases "absorb_next z post")
  then have "heap_inv s1 (pre @ (a, z1, True) # post1)"
    using s1(2) assms(2) by (auto simp: release_abs_def)
  then obtain s2 where "kfree s1 (a + 20) = Some (STATUS_OK, s2)"
    using kfree_spec unfolding kfree_def by metis
  then show ?thesis using s1(1) by blast
qed

theorem kfree_twice_unnoticed_witness:
  "\<exists>s s1 s2. kmalloc boot 16 = Some (0xd0000014, s) \<and> kfree s 0xd0000014 = Some (STATUS_OK, s1) \<and>
    kfree s1 0xd0000014 = Some (STATUS_OK, s2)"
proof -
  obtain s where s: "kmalloc boot 16 = Some (0xd0000014, s)" "heap_inv s one_block" by (rule boot_one)
  then have "heap_inv s ([] @ (0xd0000000, 16, False) # [(0xd0000024, 4040, True)])"
    by (simp add: one_block_def)
  from kfree_twice_unnoticed [OF this] s(1) show ?thesis by simp
qed

text \<open>The rounding of the size wraps around: a request for one of the fifteen largest sizes is served as
  a request for zero bytes.\<close>

theorem kmalloc_size_wraps:
  fixes s :: "'a kheap_scheme"
  assumes "0xfffffff1 \<le> l"
  shows "kmalloc s l = kmalloc s 0"
proof -
  have "unat l \<ge> 4294967281" "unat l < 4294967296" using assms u32_less [of l] by (simp_all add: word_le_nat_alt)
  then have "unat (l + 0xf) = unat l + 15 - 4294967296"
    by (simp add: unat_word_ariths mod_if)
  then have "unat (l + 0xf) < 16" using \<open>unat l < 4294967296\<close> by simp
  then have t: "unat (l + 0xf) < 2 ^ 4" by simp
  have m: "(0xf :: u32) = mask 4" by (simp add: mask_eq_exp_minus_1)
  have "(l + 0xf) AND NOT 0xf = 0"
    using bit_less_exp [OF t] unfolding m by (intro bit_word_eqI) (auto simp: bit_simps)
  then have "(l + 0xf) AND NOT 0xf = (0 + 0xf) AND NOT (0xf :: u32)" by simp
  then show ?thesis by (subst (1 2) kmalloc.simps) (simp only: Let_def)
qed

theorem kmalloc_size_wraps_witness: "kmalloc boot 0xffffffff = kmalloc boot 0"
  by (rule kmalloc_size_wraps) simp

text \<open>\<open>kcalloc\<close> returns a new range of at least the requested size whose first \<open>nmemb * size\<close> bytes are
  zero, and leaves all other ranges alone, whenever the product does not come within sixteen of
  overflowing.\<close>

theorem kcalloc_zeroes:
  fixes s :: "'a kheap_scheme"
  assumes "heap_inv s h" and "alloc_ready s h (nmemb * sz)" and "unat nmemb * unat sz \<le> 0xfffffff0"
  shows "\<exists>p m s' h' ys. kcalloc s nmemb sz = Some (p, s') \<and> heap_inv s' h' \<and>
    live h' = insert (p, m) (live h) \<and> p \<notin> fst ` live h \<and> unat nmemb * unat sz \<le> m \<and>
    rdn s' p m = Some (replicate (unat nmemb * unat sz) 0 @ ys) \<and>
    (\<forall>(q, k)\<in>live h. rdn s' q k = rdn s q k) \<and> heap_frame s s'"
  using kcalloc_run [OF assms] by blast

lemma boot_one_req: "alloc_abs boot [] (4 * 4) = (0xd0000000, one_block)" "alloc_ready boot [] (4 * 4)"
  using boot_alloc boot_grow by simp_all

theorem kcalloc_zeroes_witness:
  "\<exists>p m s' h' ys. kcalloc boot 4 4 = Some (p, s') \<and> heap_inv s' h' \<and>
    live h' = insert (p, m) (live []) \<and> p \<notin> fst ` live [] \<and> unat (4 :: u32) * unat (4 :: u32) \<le> m \<and>
    rdn s' p m = Some (replicate (unat (4 :: u32) * unat (4 :: u32)) 0 @ ys) \<and>
    (\<forall>(q, k)\<in>live []. rdn s' q k = rdn boot q k) \<and> heap_frame boot s'"
  by (rule kcalloc_zeroes [OF boot_heap boot_one_req(2)]) simp

text \<open>C39: \<open>krealloc\<close> to a larger size returns a new range that begins with the bytes of the old one; the
  old range is released and every other range keeps its contents.\<close>

theorem krealloc_moves:
  fixes s :: "'a kheap_scheme"
  assumes "heap_inv s h" and "(p, m) \<in> live h" and "m < unat sz" and "unat sz \<le> 0xfffffff0"
    and "alloc_ready s h sz" and "rdn s p m = Some xs"
  shows "\<exists>q k ys s' h'. krealloc s p sz = Some (q, s') \<and> heap_inv s' h' \<and>
    live h' = insert (q, k) (live h - {(p, m)}) \<and> unat sz \<le> k \<and> q \<notin> fst ` live h \<and>
    rdn s' q k = Some (xs @ ys) \<and> (\<forall>r l. (r, l) \<in> live h \<longrightarrow> rdn s' r l = rdn s r l) \<and>
    heap_frame s s'"
  by (rule krealloc_grow [OF assms]) blast

theorem krealloc_moves_witness:
  "\<exists>s xs q k ys s' h'. kmalloc boot 16 = Some (0xd0000014, s) \<and> rdn s 0xd0000014 16 = Some xs \<and>
    krealloc s 0xd0000014 32 = Some (q, s') \<and> heap_inv s' h' \<and> live h' = {(q, k)} \<and> 32 \<le> k \<and>
    rdn s' q k = Some (xs @ ys)"
proof -
  obtain s where s: "kmalloc boot 16 = Some (0xd0000014, s)" "heap_inv s one_block" by (rule boot_one)
  have pm: "(0xd0000014, 16) \<in> live one_block" by (simp add: one_block_live)
  obtain xs where xs: "rdn s 0xd0000014 16 = Some xs" by (rule live_contents [OF s(2) pm])
  have "alloc_ready s one_block 32" by (simp add: alloc_ready_def one_block_def round16_def)
  from krealloc_moves [OF s(2) pm _ _ this xs] obtain q k ys s' h' where
    "krealloc s 0xd0000014 32 = Some (q, s')" "heap_inv s' h'" "live h' = {(q, k)}" "32 \<le> k"
    "rdn s' q k = Some (xs @ ys)"
    by (auto simp: one_block_live)
  then show ?thesis using s(1) xs by blast
qed

text \<open>\<open>krealloc\<close> to a size the range already has returns the same pointer and changes nothing.\<close>

theorem krealloc_keeps:
  fixes s :: "'a kheap_scheme"
  assumes "heap_inv s h" and "(p, m) \<in> live h" and "unat sz \<le> m"
  shows "krealloc s p sz = Some (p, s)"
proof -
  obtain a z where az: "p = a + 20" "m = unat z" "(a, z, False) \<in> set h" using assms(2) by (auto simp: live_def)
  have "sz \<le> z" using assms(3) az(2) by (simp add: word_le_nat_alt)
  then show ?thesis
    using header_of [OF assms(1) az(3)] live_addr(3) [OF assms(1,2)]
    by (simp add: krealloc_def krealloc_with_def az(1) hdr_size_def)
qed

theorem krealloc_keeps_witness:
  "\<exists>s. kmalloc boot 16 = Some (0xd0000014, s) \<and> krealloc s 0xd0000014 7 = Some (0xd0000014, s)"
proof -
  obtain s where s: "kmalloc boot 16 = Some (0xd0000014, s)" "heap_inv s one_block" by (rule boot_one)
  then show ?thesis using krealloc_keeps [OF s(2), of "0xd0000014" 16 7] by (simp add: one_block_live)
qed

lemma init_kmalloc_run:
  fixes s :: "'a kheap_scheme"
  assumes "vm_wf s" and "first_blk s = 0" and "pgoff start = 0" and "4096 \<le> unat start"
    and "unat start + 0x3000 < 4294967296" and "unat sz \<le> 11008" and "mmap_ok s start 0x3000 w U t"
  shows "\<exists>s'. init_kmalloc s start sz = Some (STATUS_OK, s') \<and> heap_inv s' [(start, 0x3000 - 40, True)]"
proof -
  define s0 where "s0 = s\<lparr>heap_start := start, min_heap_size := sz, heap_size := 0\<rparr>"
  have same: "vm_same s s0" by (simp add: s0_def vm_same_def)
  note wf = vm_same_wf [OF same]
  have inv: "heap_inv s0 []"
    using assms(1-5) wf(11) by (simp add: heap_inv_def heap_ok_def heap_end_def clear_range_def data_range_def pgoff_def s0_def)
  have r: "round16 11000 = 11008" by (simp add: round16_def)
  have mx: "max sz 11008 = (11008 :: u32)" using assms(6) by (simp add: max_def word_le_nat_alt)
  have g: "grow_request s0 [] 11000 = 11008" by (simp add: grow_request_def r s0_def mx)
  have e: "heap_end s0 = unat start" "heap_start s0 + heap_size s0 = start" by (simp_all add: heap_end_def s0_def)
  have "mmap_ok s0 start 0x3000 w U t" using assms(7) wf(12) by simp
  then have "grow_ok s0 11008 U t" using assms(5) by (auto simp: grow_ok_def e)
  then have rd: "alloc_ready s0 [] 11000" by (auto simp: alloc_ready_def g)
  have ab: "alloc_abs s0 [] 11000 = (start, [(start, 11008, False), (start + 11028, 1240, True)])"
    by (simp add: alloc_abs_def g e Let_def r grow_bytes_def carve_def)
  obtain s1 where s1: "kmalloc s0 11000 = Some (start + 20, s1)"
    "heap_inv s1 ([] @ (start, 11008, False) # [(start + 11028, 1240, True)])"
    using kmalloc_refine [OF inv rd] by (auto simp: ab)
  obtain s2 where s2: "kfree_with (complain_with vga_putchar) s1 (start + 20) = Some (STATUS_OK, s2)"
    "heap_inv s2 (release_abs [] start 11008 [(start + 11028, 1240, True)])"
    using kfree_spec [OF s1(2)] by metis
  have "release_abs [] start 11008 [(start + 11028, 1240, True)] = [(start, 0x3000 - 40, True)]"
    by (simp add: release_abs_def absorb_next_def)
  moreover have "init_kmalloc s start sz = Some (STATUS_OK, s2)"
    using s1(1) s2(1) by (simp add: init_kmalloc_def init_kmalloc_with_def s0_def)
  ultimately show ?thesis using s2(2) by auto
qed

text \<open>C18: \<open>init_kmalloc\<close> on a machine whose first three heap pages can be mapped leaves a well-formed heap
  that is one free block; of the three pages 40 bytes are lost, one header for the block and one
  for the test allocation that was joined again.\<close>

theorem init_kmalloc_establishes:
  fixes s :: "'a kheap_scheme"
  assumes "vm_wf s" and "first_blk s = 0" and "pgoff start = 0" and "4096 \<le> unat start"
    and "unat start + 0x3000 < 4294967296" and "unat sz \<le> 11008" and "mmap_ok s start 0x3000 w U t"
  shows "\<exists>s'. init_kmalloc s start sz = Some (STATUS_OK, s') \<and> heap_inv s' [(start, 0x3000 - 40, True)]"
  by (rule init_kmalloc_run [OF assms])

theorem init_kmalloc_establishes_witness:
  "\<exists>s'. init_kmalloc boot 0xd0000000 0 = Some (STATUS_OK, s') \<and> heap_inv s' [(0xd0000000, 0x3000 - 40, True)]"
  by (rule init_kmalloc_establishes [OF boot_vm_wf _ _ _ _ _ boot_mmap_three]) (simp_all add: pgoff_def)

end
