(* ===== verification/Cpu.thy ===== *)
theory Cpu
  imports Klibc
begin

text \<open>
  The descriptor tables, the trap handlers and the interrupt controller: \<open>kernel/mm/gdt.c\<close>,
  \<open>kernel/irq/idt.c\<close>, \<open>kernel/irq/cpu_traps.c\<close>, \<open>kernel/irq/pic.c\<close> with their headers, and the
  guards \<open>_kguard\<close> and \<open>kpanic\<close> of \<open>kernel/kernel.c\<close>.
\<close>

section \<open>State\<close>

text \<open>
  \<open>cpu_gdtr\<close> and \<open>cpu_idtr\<close> are the processor's table registers (limit and base), \<open>cpu_cs\<close> and
  \<open>cpu_ds\<close> the code selector and the one of the five data segment registers, \<open>cpu_if\<close> the
  interrupt flag, \<open>cpu_cr2\<close> the page fault address; \<open>cpu_halted\<close> after \<open>cli; hlt\<close>.
\<close>

record cpu = kheap +
  gdt_base :: u32
  gdtr_limit :: u16
  gdtr_base :: u32
  idt_base :: u32
  idtr_limit :: u16
  idtr_base :: u32
  cpu_gdtr :: "u16 \<times> u32"
  cpu_idtr :: "u16 \<times> u32"
  cpu_cs :: u16
  cpu_ds :: u16
  cpu_if :: bool
  cpu_cr2 :: u32
  cpu_halted :: bool

section \<open>Guards\<close>

definition kpanic :: "'a cpu_scheme \<Rightarrow> u8 list \<Rightarrow> 'a cpu_scheme option" where
  "kpanic s message = do {
     s1 \<leftarrow> vga_clear s;
     s2 \<leftarrow> vga_print s1 (lit ''Encountered Bruh Moment: '');
     s3 \<leftarrow> vga_print s2 message;
     Some (s3\<lparr>cpu_if := False, cpu_halted := True\<rparr>)
   }"

definition kguard_message :: "status_t \<Rightarrow> u8 list" where
  "kguard_message status =
     (if status = STATUS_BORKD_MEM then lit ''Borked Memory Error''
      else if status = STATUS_DOUBLE_FREE then lit ''Double Free Error''
      else if status = STATUS_INVALID_MEM then lit ''Invalid Memory Access Violation''
      else if status = STATUS_FAILED_INIT then lit ''Kernel Initialization Routine Failed''
      else if status = STATUS_OUT_OF_MEM then lit ''Kernel Ran Out Of Memory''
      else if status = STATUS_INVALID_FREE then lit ''Invalid Freeing Of Memory''
      else lit ''Undefined Error'')"

text \<open>What \<open>_kguard\<close> prints before it loops forever.\<close>

definition kguard_panic :: "'a kheap_scheme \<Rightarrow> status_t \<Rightarrow> 'a kheap_scheme option" where
  "kguard_panic s status = do {
     s1 \<leftarrow> vga_clear s;
     s2 \<leftarrow> vga_print s1 (lit ''KGuard Panic'' @ [10, 10, 13]);
     vga_print s2 (kguard_message status)
   }"

definition kguard :: "'a kheap_scheme \<Rightarrow> status_t \<Rightarrow> 'a kheap_scheme option" where
  "kguard s status =
     (if status \<noteq> STATUS_OK then do { _ \<leftarrow> kguard_panic s status; None } else Some s)"

section \<open>The global descriptor table\<close>

definition make_gdt_desc :: "u32 \<Rightarrow> u32 \<Rightarrow> u8 \<Rightarrow> u8 \<Rightarrow> u64" where
  "make_gdt_desc base limit access flag =
     (let d0 = (0 :: u64);
          d1 = d0 OR ucast (drop_bit 16 (base AND 0xff0000));
          d2 = d1 OR push_bit 8 (ucast access);
          d3 = d2 OR ucast (limit AND 0x000f0000);
          d4 = d3 OR push_bit 20 (ucast (flag AND 0xf));
          d5 = d4 OR ucast (base AND 0xff000000);
          d6 = push_bit 32 d5;
          d7 = d6 OR ucast (limit AND 0x0000ffff);
          d8 = d7 OR ucast (push_bit 16 (base AND 0x0000ffff))
      in d8)"

text \<open>The bits of the access byte and of the flags (\<open>include/gdt.h\<close>), the access bytes and the flag.\<close>

definition GDT_ABPRSNT :: u8 where "GDT_ABPRSNT = push_bit 7 1"
definition GDT_ABPRIVI_R0 :: u8 where "GDT_ABPRIVI_R0 = 0"
definition GDT_ABPRIVI_R3 :: u8 where "GDT_ABPRIVI_R3 = push_bit 5 3"
definition GDT_ABCSDS :: u8 where "GDT_ABCSDS = push_bit 4 1"
definition GDT_ABEXEC :: u8 where "GDT_ABEXEC = push_bit 3 1"
definition GDT_ABNEXEC :: u8 where "GDT_ABNEXEC = 0"
definition GDT_ABDGROWUP :: u8 where "GDT_ABDGROWUP = 0"
definition GDT_ABCEXECLWR :: u8 where "GDT_ABCEXECLWR = push_bit 2 1"
definition GDT_ABCDRW :: u8 where "GDT_ABCDRW = push_bit 1 1"
definition GDT_FLG_1PG :: u8 where "GDT_FLG_1PG = push_bit 3 1"
definition GDT_FLG_32BIT :: u8 where "GDT_FLG_32BIT = push_bit 2 1"

definition GDT_AB_DATA0 :: u8 where
  "GDT_AB_DATA0 = GDT_ABPRSNT OR GDT_ABPRIVI_R0 OR GDT_ABCSDS OR GDT_ABNEXEC OR GDT_ABDGROWUP OR GDT_ABCDRW"
definition GDT_AB_DATA3 :: u8 where
  "GDT_AB_DATA3 = GDT_ABPRSNT OR GDT_ABPRIVI_R3 OR GDT_ABCSDS OR GDT_ABNEXEC OR GDT_ABDGROWUP OR GDT_ABCDRW"
definition GDT_AB_CODE0 :: u8 where
  "GDT_AB_CODE0 = GDT_ABPRSNT OR GDT_ABPRIVI_R0 OR GDT_ABCSDS OR GDT_ABEXEC OR GDT_ABCEXECLWR OR GDT_ABCDRW"
definition GDT_AB_CODE3 :: u8 where
  "GDT_AB_CODE3 = GDT_ABPRSNT OR GDT_ABPRIVI_R3 OR GDT_ABCSDS OR GDT_ABEXEC OR GDT_ABCEXECLWR OR GDT_ABCDRW"
definition GDT_x86FLAG :: u8 where "GDT_x86FLAG = GDT_FLG_1PG OR GDT_FLG_32BIT"

lemmas gdt_flag_defs = GDT_ABPRSNT_def GDT_ABPRIVI_R0_def GDT_ABPRIVI_R3_def GDT_ABCSDS_def GDT_ABEXEC_def
  GDT_ABNEXEC_def GDT_ABDGROWUP_def GDT_ABCEXECLWR_def GDT_ABCDRW_def GDT_FLG_1PG_def GDT_FLG_32BIT_def
  GDT_AB_DATA0_def GDT_AB_DATA3_def GDT_AB_CODE0_def GDT_AB_CODE3_def GDT_x86FLAG_def

text \<open>A 64-bit store, as the processor's two 32-bit stores.\<close>

definition wr64 :: "'a cpu_scheme \<Rightarrow> u32 \<Rightarrow> u64 \<Rightarrow> 'a cpu_scheme option" where
  "wr64 s a v = do { s1 \<leftarrow> wr32 s a (ucast v); wr32 s1 (a + 4) (ucast (drop_bit 32 v)) }"

definition load_gdt :: "'a cpu_scheme \<Rightarrow> 'a cpu_scheme" where
  "load_gdt s = s\<lparr>cpu_gdtr := (gdtr_limit s, gdtr_base s)\<rparr>"

definition reload_segments :: "'a cpu_scheme \<Rightarrow> 'a cpu_scheme" where
  "reload_segments s = s\<lparr>cpu_cs := 0x8, cpu_ds := 0x10\<rparr>"

definition gdt_entries :: "u64 list" where
  "gdt_entries =
     [make_gdt_desc 0 0 0 0,
      make_gdt_desc 0 0xffffffff GDT_AB_CODE0 GDT_x86FLAG,
      make_gdt_desc 0 0xffffffff GDT_AB_DATA0 GDT_x86FLAG,
      make_gdt_desc 0 0xffffffff GDT_AB_CODE3 GDT_x86FLAG,
      make_gdt_desc 0 0xffffffff GDT_AB_DATA3 GDT_x86FLAG]"

definition init_gdt :: "'a cpu_scheme \<Rightarrow> (status_t \<times> 'a cpu_scheme) option" where
  "init_gdt s = do {
     let num_entries = (5 :: u8);
     (base, s1) \<leftarrow> kmalloc s (8 * ucast num_entries);
     let s2 = s1\<lparr>gdt_base := base\<rparr>;
     s3 \<leftarrow> for_loop 0 5 (\<lambda>i t. wr64 t (gdt_base t + 8 * word_of_nat i) (gdt_entries ! i)) s2;
     let s4 = s3\<lparr>gdtr_base := gdt_base s3, gdtr_limit := 8 * ucast num_entries\<rparr>;
     let s5 = load_gdt s4;
     Some (STATUS_OK, reload_segments s5)
   }"

section \<open>The interrupt descriptor table\<close>

definition IDT_FLG_TRAPGATE :: u8 where "IDT_FLG_TRAPGATE = 0x8f"
definition IDT_FLG_INTGATE :: u8 where "IDT_FLG_INTGATE = 0x8e"

text \<open>
  An entry (\<open>struct idt_entry\<close>) is eight bytes: \<open>offset_1\<close>, \<open>selector\<close>, \<open>zero\<close>, \<open>type_attr\<close>,
  \<open>offset_2\<close> at the offsets 0, 2, 4, 5, 6.
\<close>

definition make_idt_desc :: "'a cpu_scheme \<Rightarrow> u32 \<Rightarrow> u8 \<Rightarrow> (u32 \<times> 'a cpu_scheme) option" where
  "make_idt_desc s isr type = do {
     (ent, s1) \<leftarrow> kmalloc s 8;
     s2 \<leftarrow> wr16 s1 ent (ucast isr);
     s3 \<leftarrow> wr16 s2 (ent + 2) 0x8;
     s4 \<leftarrow> wr8 s3 (ent + 4) 0;
     s5 \<leftarrow> wr8 s4 (ent + 5) type;
     s6 \<leftarrow> wr16 s5 (ent + 6) (ucast (drop_bit 16 isr));
     Some (ent, s6)
   }"

text \<open>The structure assignment \<open>idt_base[irq] = *entry\<close>.\<close>

definition idt_store :: "'a cpu_scheme \<Rightarrow> u8 \<Rightarrow> u32 \<Rightarrow> 'a cpu_scheme option" where
  "idt_store s irq ent = do {
     lo \<leftarrow> rd32 s ent;
     hi \<leftarrow> rd32 s (ent + 4);
     s1 \<leftarrow> wr32 s (idt_base s + 8 * ucast irq) lo;
     wr32 s1 (idt_base s + 8 * ucast irq + 4) hi
   }"

definition idt_mapint :: "'a cpu_scheme \<Rightarrow> u8 \<Rightarrow> u32 \<Rightarrow> 'a cpu_scheme option" where
  "idt_mapint s irq isr = do {
     (ent, s1) \<leftarrow> make_idt_desc s isr IDT_FLG_INTGATE;
     idt_store s1 irq ent
   }"

definition idt_maptrap :: "'a cpu_scheme \<Rightarrow> u8 \<Rightarrow> u32 \<Rightarrow> 'a cpu_scheme option" where
  "idt_maptrap s irq isr = do {
     (ent, s1) \<leftarrow> make_idt_desc s isr IDT_FLG_TRAPGATE;
     idt_store s1 irq ent
   }"

definition load_idt :: "'a cpu_scheme \<Rightarrow> 'a cpu_scheme" where
  "load_idt s = s\<lparr>cpu_idtr := (idtr_limit s, idtr_base s)\<rparr>"

definition init_idt :: "'a cpu_scheme \<Rightarrow> (status_t \<times> 'a cpu_scheme) option" where
  "init_idt s = do {
     let num_entries = (255 :: u8);
     (base, s1) \<leftarrow> kmalloc s (8 * ucast num_entries);
     let s2 = s1\<lparr>idt_base := base\<rparr>;
     let s3 = s2\<lparr>idtr_base := idt_base s2, idtr_limit := 8 * ucast num_entries\<rparr>;
     Some (STATUS_OK, load_idt s3)
   }"

section \<open>Trap handlers\<close>

text \<open>The handlers of \<open>cpu_traps.c\<close>; where the linker puts them is the parameter \<open>isr_addr\<close>.\<close>

datatype isr =
    Fault_de | Fault_db | Int_nomask | Fault_bp | Fault_of
  | Fault_br | Fault_ud | Fault_nm | Abort_df | Fault_ts
  | Fault_np | Fault_ss | Fault_gp | Fault_pf | Fault_mf
  | Fault_ac | Abort_mc | Fault_xmxf | Fault_ve | Fault_sx

definition handle_pagefault :: "'a cpu_scheme \<Rightarrow> u8 \<Rightarrow> 'a cpu_scheme option" where
  "handle_pagefault s err = do {
     s1 \<leftarrow> vga_clear s;
     s2 \<leftarrow> vga_print s1 (lit ''Encountered Bruh Momement: Page Fault'' @ [10, 10, 13]);
     s3 \<leftarrow> vga_print s2 (if err AND 4 \<noteq> 0 then lit ''User process tried to'' else lit ''Kernel process tried to'');
     s4 \<leftarrow> vga_print s3 (if err AND 2 \<noteq> 0 then lit '' write '' else lit '' read '');
     s5 \<leftarrow> vga_print s4 (if err AND 1 \<noteq> 0 then lit ''a page and caused a protection fault''
                        else lit ''a non-existent page entry'');
     s6 \<leftarrow> vga_print s5 (lit '' at '');
     vga_puthex s6 (cpu_cr2 s6)
   }"

text \<open>
  Each handler ends in \<open>kpanic\<close> or, for a page fault, in an endless loop; the result is the
  state in which the machine stays.  \<open>err\<close> is the error byte of the interrupt frame.
\<close>

fun isr_run :: "'a cpu_scheme \<Rightarrow> isr \<Rightarrow> u8 \<Rightarrow> 'a cpu_scheme option" where
  "isr_run s Fault_de err = kpanic s (lit ''Fault Division By Zero'')"
| "isr_run s Fault_db err = kpanic s (lit ''Fault Debug'')"
| "isr_run s Int_nomask err = kpanic s (lit ''Interrupt Nonmaskable'')"
| "isr_run s Fault_bp err = kpanic s (lit ''Breakpoint'')"
| "isr_run s Fault_of err = kpanic s (lit ''Fault Overflow'')"
| "isr_run s Fault_br err = kpanic s (lit ''Bound range exceeded'')"
| "isr_run s Fault_ud err = kpanic s (lit ''Invalid opcode'')"
| "isr_run s Fault_nm err = kpanic s (lit ''Device Not Available'')"
| "isr_run s Abort_df err = kpanic s (lit ''Double Fault'')"
| "isr_run s Fault_ts err = kpanic s (lit ''Invalid TSS'')"
| "isr_run s Fault_np err = kpanic s (lit ''Segment Not Present'')"
| "isr_run s Fault_ss err = kpanic s (lit ''Stack Segment Fault'')"
| "isr_run s Fault_gp err = kpanic s (lit ''General Protection Fault'')"
| "isr_run s Fault_pf err = handle_pagefault s err"
| "isr_run s Fault_mf err = kpanic s (lit ''x87 Floating-Point Exception'')"
| "isr_run s Fault_ac err = kpanic s (lit ''Alignment Check'')"
| "isr_run s Abort_mc err = kpanic s (lit ''Machine Check'')"
| "isr_run s Fault_xmxf err = kpanic s (lit ''SIMD Floating Point Exception'')"
| "isr_run s Fault_ve err = kpanic s (lit ''Virtualization Exception'')"
| "isr_run s Fault_sx err = kpanic s (lit ''Security Exception'')"

text \<open>The registrations of \<open>init_cpu_traps\<close> in order: the vector, whether it is a trap gate, the handler.\<close>

definition trap_table :: "(u8 \<times> bool \<times> isr) list" where
  "trap_table =
     [(0, True, Fault_de), (1, True, Fault_db), (2, False, Int_nomask), (3, True, Fault_bp),
      (4, True, Fault_of), (5, True, Fault_br), (6, True, Fault_ud), (7, True, Fault_nm),
      (8, True, Abort_df), (10, True, Fault_ts), (11, True, Fault_np), (12, True, Fault_ss),
      (13, True, Fault_gp), (14, True, Fault_pf), (16, True, Fault_mf), (17, True, Fault_ac),
      (18, True, Abort_mc), (19, True, Fault_xmxf), (20, True, Fault_ve), (30, True, Fault_sx)]"

fun map_traps :: "(isr \<Rightarrow> u32) \<Rightarrow> (u8 \<times> bool \<times> isr) list \<Rightarrow> 'a cpu_scheme \<Rightarrow> 'a cpu_scheme option" where
  "map_traps isr_addr [] s = Some s"
| "map_traps isr_addr ((v, trap, h) # rest) s = do {
     s1 \<leftarrow> (if trap then idt_maptrap s v (isr_addr h) else idt_mapint s v (isr_addr h));
     map_traps isr_addr rest s1
   }"

definition init_cpu_traps :: "(isr \<Rightarrow> u32) \<Rightarrow> 'a cpu_scheme \<Rightarrow> (status_t \<times> 'a cpu_scheme) option" where
  "init_cpu_traps isr_addr s = do {
     s1 \<leftarrow> map_traps isr_addr trap_table s;
     Some (STATUS_OK, s1)
   }"

section \<open>The interrupt controller\<close>

definition PIC1 :: u16 where "PIC1 = 0x20"
definition PIC2 :: u16 where "PIC2 = 0xA0"
definition PIC1_COMMAND :: u16 where "PIC1_COMMAND = PIC1"
definition PIC1_DATA :: u16 where "PIC1_DATA = PIC1 + 1"
definition PIC2_COMMAND :: u16 where "PIC2_COMMAND = PIC2"
definition PIC2_DATA :: u16 where "PIC2_DATA = PIC2 + 1"
definition ICW1_INIT :: u8 where "ICW1_INIT = 0x10"
definition ICW1_ICW4 :: u8 where "ICW1_ICW4 = 0x01"
definition ICW4_8086 :: u8 where "ICW4_8086 = 0x01"

definition pic_remap :: "'a machine_scheme \<Rightarrow> u32 \<Rightarrow> u32 \<Rightarrow> 'a machine_scheme" where
  "pic_remap s master_offset slave_offset =
     (let (a1, s1) = inb s PIC1_DATA;
          (a2, s2) = inb s1 PIC2_DATA;
          s3 = io_wait (outb s2 PIC1_COMMAND (ICW1_INIT OR ICW1_ICW4));
          s4 = io_wait (outb s3 PIC2_COMMAND (ICW1_INIT OR ICW1_ICW4));
          s5 = io_wait (outb s4 PIC1_DATA (ucast master_offset));
          s6 = io_wait (outb s5 PIC2_DATA (ucast slave_offset));
          s7 = io_wait (outb s6 PIC1_DATA 4);
          s8 = io_wait (outb s7 PIC2_DATA 2);
          s9 = io_wait (outb s8 PIC1_DATA ICW4_8086);
          s10 = io_wait (outb s9 PIC2_DATA ICW4_8086);
          s11 = outb s10 PIC1_DATA a1
      in outb s11 PIC2_DATA a2)"

definition pic_noirqs :: "'a machine_scheme \<Rightarrow> 'a machine_scheme" where
  "pic_noirqs s = outb (outb s PIC1_DATA (ucast (NOT (4 :: u32)))) PIC2_DATA (ucast (NOT (2 :: u32)))"

text \<open>The port and the bit of an interrupt line.\<close>

definition pic_port :: "u8 \<Rightarrow> u16" where
  "pic_port irqline = (if irqline < 8 then PIC1_DATA else PIC2_DATA)"

definition pic_bit :: "u8 \<Rightarrow> u32" where
  "pic_bit irqline = push_bit (unat (if irqline < 8 then irqline else irqline - 8)) 1"

definition pic_noirq :: "'a machine_scheme \<Rightarrow> u8 \<Rightarrow> 'a machine_scheme" where
  "pic_noirq s irqline =
     (let port = pic_port irqline;
          (v, s1) = inb s port
      in outb s1 port (ucast (ucast v OR pic_bit irqline)))"

definition pic_yesirq :: "'a machine_scheme \<Rightarrow> u8 \<Rightarrow> 'a machine_scheme" where
  "pic_yesirq s irqline =
     (let port = pic_port irqline;
          (v, s1) = inb s port
      in outb s1 port (ucast (ucast v AND NOT (pic_bit irqline))))"

definition init_pic :: "'a machine_scheme \<Rightarrow> status_t \<times> 'a machine_scheme" where
  "init_pic s = (STATUS_OK, pic_noirqs (pic_remap s 0x20 0x28))"

end
