(* ===== verification/Pci.thy ===== *)
theory Pci
  imports Cpu
begin

text \<open>
  The PCI bus, \<open>kernel/pci-bus/pci.c\<close> and \<open>include/pci.h\<close>: configuration space accesses through
  the ports 0xcf8 and 0xcfc, and the enumeration that fills the table of devices.  The choice
  of drivers is in theory \<open>Kernel\<close>.
\<close>

record pci = cpu +
  gpci_devs :: u32
  gpci_devs_n :: u32
  netcard1 :: u32

definition PCI_CFGADDR :: u16 where "PCI_CFGADDR = 0xcf8"
definition PCI_CFGDATA :: u16 where "PCI_CFGDATA = 0xcfc"
definition PCI_MULTIFUNC :: u8 where "PCI_MULTIFUNC = 0x80"

section \<open>Configuration space\<close>

definition pci_cfg_addr :: "u8 \<Rightarrow> u8 \<Rightarrow> u8 \<Rightarrow> u8 \<Rightarrow> u32" where
  "pci_cfg_addr bus slot fun_no reg_offset =
     (let c0 = 0x80000000;
          c1 = c0 OR push_bit 16 (ucast bus);
          c2 = c1 OR push_bit 11 (ucast (slot AND 0x1f));
          c3 = c2 OR push_bit 8 (ucast (fun_no AND 0x7))
      in c3 OR ucast (reg_offset AND 0xfc))"

definition pci_cfg_rdword_at :: "'a machine_scheme \<Rightarrow> u8 \<Rightarrow> u8 \<Rightarrow> u8 \<Rightarrow> u8 \<Rightarrow> u32 \<times> 'a machine_scheme" where
  "pci_cfg_rdword_at s bus slot fun_no reg_offset =
     inl (outl s PCI_CFGADDR (pci_cfg_addr bus slot fun_no reg_offset)) PCI_CFGDATA"

definition pci_cfg_rword_at :: "'a machine_scheme \<Rightarrow> u8 \<Rightarrow> u8 \<Rightarrow> u8 \<Rightarrow> u8 \<Rightarrow> u16 \<times> 'a machine_scheme" where
  "pci_cfg_rword_at s bus slot fun_no reg_offset =
     (let (dword, s1) = pci_cfg_rdword_at s bus slot fun_no reg_offset
      in (ucast (drop_bit (unat ((reg_offset AND 2) * 8)) dword AND 0xffff), s1))"

definition pci_get_vendor :: "'a machine_scheme \<Rightarrow> u8 \<Rightarrow> u8 \<Rightarrow> u8 \<Rightarrow> u16 \<times> 'a machine_scheme" where
  "pci_get_vendor s on_bus on_slot using_fun = pci_cfg_rword_at s on_bus on_slot using_fun 0"

definition pci_get_htype :: "'a machine_scheme \<Rightarrow> u8 \<Rightarrow> u8 \<Rightarrow> u8 \<Rightarrow> u8 \<times> 'a machine_scheme" where
  "pci_get_htype s on_bus on_slot using_fun =
     (let (w, s1) = pci_cfg_rword_at s on_bus on_slot using_fun 14 in (ucast w, s1))"

text \<open>
  A device record (\<open>struct gpci_dev\<close>, twelve bytes): \<open>bus\<close>, \<open>slot\<close>, \<open>func\<close>, \<open>header_typ\<close> (a byte
  each), \<open>vendor_id\<close>, \<open>device_id\<close> (two bytes each), \<open>mainclass\<close> (four bytes).
\<close>

definition pci_cfg_rdword :: "'a machine_scheme \<Rightarrow> u32 \<Rightarrow> u8 \<Rightarrow> (u32 \<times> 'a machine_scheme) option" where
  "pci_cfg_rdword s dev reg_offset = do {
     bus \<leftarrow> rd8 s dev;
     slot \<leftarrow> rd8 s (dev + 1);
     func \<leftarrow> rd8 s (dev + 2);
     Some (pci_cfg_rdword_at s bus slot func reg_offset)
   }"

definition pci_cfg_rword :: "'a machine_scheme \<Rightarrow> u32 \<Rightarrow> u8 \<Rightarrow> (u16 \<times> 'a machine_scheme) option" where
  "pci_cfg_rword s dev reg_offset = do {
     bus \<leftarrow> rd8 s dev;
     slot \<leftarrow> rd8 s (dev + 1);
     func \<leftarrow> rd8 s (dev + 2);
     Some (pci_cfg_rword_at s bus slot func reg_offset)
   }"

definition pci_cfg_wdword :: "'a machine_scheme \<Rightarrow> u32 \<Rightarrow> u8 \<Rightarrow> u32 \<Rightarrow> 'a machine_scheme option" where
  "pci_cfg_wdword s dev reg_offset val = do {
     bus \<leftarrow> rd8 s dev;
     slot \<leftarrow> rd8 s (dev + 1);
     func \<leftarrow> rd8 s (dev + 2);
     Some (outl (outl s PCI_CFGADDR (pci_cfg_addr bus slot func reg_offset)) PCI_CFGDATA val)
   }"

section \<open>Enumeration\<close>

definition pci_add_dev :: "'a pci_scheme \<Rightarrow> u8 \<Rightarrow> u8 \<Rightarrow> u8 \<Rightarrow> (u32 \<times> 'a pci_scheme) option" where
  "pci_add_dev s on_bus on_slot using_fun =
     (let (vendor_id, s1) = pci_get_vendor s on_bus on_slot using_fun in
      if vendor_id \<noteq> 0xffff then do {
        let (dev_id, s2) = pci_cfg_rword_at s1 on_bus on_slot using_fun 2;
        let (cl, s3) = pci_cfg_rdword_at s2 on_bus on_slot using_fun 8;
        let class_c = drop_bit 8 cl;
        let (htype, s4) = pci_get_htype s3 on_bus on_slot using_fun;
        s5 \<leftarrow> printk s4 ([9] @ lit ''[%d:%d](%d) %x:%x (%x/%d)'' @ [10])
                [ucast on_bus, ucast on_slot, ucast using_fun, ucast vendor_id, ucast dev_id,
                 class_c, ucast htype];
        (pcidev, s6) \<leftarrow> kmalloc s5 12;
        s7 \<leftarrow> wr8 s6 pcidev on_bus;
        s8 \<leftarrow> wr8 s7 (pcidev + 1) on_slot;
        s9 \<leftarrow> wr8 s8 (pcidev + 2) using_fun;
        s10 \<leftarrow> wr16 s9 (pcidev + 4) vendor_id;
        s11 \<leftarrow> wr16 s10 (pcidev + 6) dev_id;
        s12 \<leftarrow> wr32 s11 (pcidev + 8) class_c;
        s13 \<leftarrow> wr8 s12 (pcidev + 3) htype;
        let n = gpci_devs_n s13;
        s14 \<leftarrow> wr32 (s13\<lparr>gpci_devs_n := n + 1\<rparr>) (gpci_devs s13 + 4 * n) pcidev;
        Some (pcidev, s14)
      }
      else Some (0, s1))"

definition pci_findall :: "'a pci_scheme \<Rightarrow> u8 \<Rightarrow> 'a pci_scheme option" where
  "pci_findall s on_bus = do {
     s1 \<leftarrow> printk s (lit ''Devices on PCI Bus %d:'' @ [10]) [ucast on_bus];
     s2 \<leftarrow> for_loop 0 32 (\<lambda>slot t. do {
       (pcidev, t1) \<leftarrow> pci_add_dev t on_bus (word_of_nat slot) 0;
       multi \<leftarrow> (if pcidev \<noteq> 0 then do { h \<leftarrow> rd8 t1 (pcidev + 3); Some (h AND PCI_MULTIFUNC \<noteq> 0) }
                 else Some False);
       if multi then
         for_loop 1 7 (\<lambda>func u. do {
           (_, u1) \<leftarrow> pci_add_dev u on_bus (word_of_nat slot) (word_of_nat func);
           Some u1 }) t1
       else Some t1 }) s1;
     printk s2 [10] []
   }"

definition pci_enumerate_devs :: "'a pci_scheme \<Rightarrow> 'a pci_scheme option" where
  "pci_enumerate_devs s =
     (let (root_htype, s1) = pci_get_htype s 0 0 0 in
      if root_htype AND PCI_MULTIFUNC \<noteq> 0 then
        for_loop 0 8 (\<lambda>func t.
          let (v, t1) = pci_get_vendor t 0 0 (word_of_nat func) in
          if v \<noteq> 0xffff then pci_findall t1 (word_of_nat func) else Some t1) s1
      else pci_findall s1 0)"

definition pci_enable_bus_mastering :: "'a cpu_scheme \<Rightarrow> u32 \<Rightarrow> 'a cpu_scheme option" where
  "pci_enable_bus_mastering s pcidev = do {
     (cmd, s1) \<leftarrow> pci_cfg_rdword s pcidev 0x4;
     s2 \<leftarrow> pci_cfg_wdword s1 pcidev 0x4 (cmd OR push_bit 2 1);
     (cmd_check, s3) \<leftarrow> pci_cfg_rdword s2 pcidev 0x4;
     if cmd_check AND push_bit 2 1 = 0 then do {
       _ \<leftarrow> kpanic s3 (lit ''Failed to enable bus mastering on PCI device'');
       None
     } else Some s3
   }"

definition init_pci :: "'a pci_scheme \<Rightarrow> (status_t \<times> 'a pci_scheme) option" where
  "init_pci s = do {
     (devs, s1) \<leftarrow> kmalloc s (32 * 4);
     s2 \<leftarrow> pci_enumerate_devs (s1\<lparr>gpci_devs := devs\<rparr>);
     if gpci_devs_n s2 = 0 then Some (STATUS_FAILED_INIT, s2) else Some (STATUS_OK, s2)
   }"

end
