(* ===== verification/Nic.thy ===== *)
theory Nic
  imports Pci
begin

text \<open>
  The network card driver, \<open>driver/eth/intel_8254x.c\<close>, and the packets of
  \<open>kernel/net/netdev.c\<close>.  The card is the parameter \<open>hw\<close>: it reads and writes its registers
  and the transmit descriptors on its own, so each load the driver makes from them is
  preceded by one step of \<open>hw\<close>.
\<close>

record nic = pci +
  regspace :: u32
  txqueue :: u32
  txqueue_n :: u32
  txtail :: u32

definition BAR0_SIZE :: u32 where "BAR0_SIZE = 128 * 1024"
definition REG_CTRL :: u32 where "REG_CTRL = 0x0"
definition REG_STATUS :: u32 where "REG_STATUS = 0x8"
definition REG_EERD :: u32 where "REG_EERD = 0x14"
definition REG_TCTL :: u32 where "REG_TCTL = 0x0400"
definition REG_TDBAL :: u32 where "REG_TDBAL = 0x3800"
definition REG_TDBAH :: u32 where "REG_TDBAH = 0x3804"
definition REG_TDLEN :: u32 where "REG_TDLEN = 0x3808"
definition REG_TDT :: u32 where "REG_TDT = 0x3818"
definition REG_TDH :: u32 where "REG_TDH = 0x3810"
definition REG_TSCTFC :: u32 where "REG_TSCTFC = 0x40fc"
definition REG_TXDCTL :: u32 where "REG_TXDCTL = 0x3828"
definition REG_TIPG :: u32 where "REG_TIPG = 0x0410"
definition REG_TOTL :: u32 where "REG_TOTL = 0x40c8"
definition REG_TDFT :: u32 where "REG_TDFT = 0x3418"
definition REG_TDFH :: u32 where "REG_TDFH = 0x3410"
definition EEPROM_MAC :: u8 where "EEPROM_MAC = 0x0"
definition EEPROM_VENDOR :: u8 where "EEPROM_VENDOR = 0xE"
definition EEPROM_IPV4_LANA :: u8 where "EEPROM_IPV4_LANA = 0x25"
definition EEPROM_IPV4_LANB :: u8 where "EEPROM_IPV4_LANB = 0x15"
definition EEPROM_MGMNT_LANA :: u8 where "EEPROM_MGMNT_LANA = 0x23"
definition EEPROM_MGMNT_LANB :: u8 where "EEPROM_MGMNT_LANB = 0x13"
definition LAN_A :: u8 where "LAN_A = 0xA"

section \<open>Registers\<close>

definition rreg :: "('a nic_scheme \<Rightarrow> 'a nic_scheme) \<Rightarrow> 'a nic_scheme \<Rightarrow> u32 \<Rightarrow> (u32 \<times> 'a nic_scheme) option" where
  "rreg hw s reg_offset = do {
     let s1 = hw s;
     v \<leftarrow> rd32 s1 (regspace s1 + reg_offset);
     Some (v, s1)
   }"

definition wreg :: "'a nic_scheme \<Rightarrow> u32 \<Rightarrow> u32 \<Rightarrow> 'a nic_scheme option" where
  "wreg s reg_offset v = wr32 s (regspace s + reg_offset) v"

section \<open>The EEPROM\<close>

text \<open>The polling loop waits for the done bit (bit 4); it does not return if the card never sets it.\<close>

partial_function (option) eeprom_poll ::
  "('a nic_scheme \<Rightarrow> 'a nic_scheme) \<Rightarrow> 'a nic_scheme \<Rightarrow> (u32 \<times> 'a nic_scheme) option" where
  "eeprom_poll hw s = do {
     (resp, s1) \<leftarrow> rreg hw s REG_EERD;
     s2 \<leftarrow> printk s1 [] [];
     if resp AND push_bit 4 1 = 0 then eeprom_poll hw s2 else Some (resp, s2)
   }"

definition eeprom_rword :: "('a nic_scheme \<Rightarrow> 'a nic_scheme) \<Rightarrow> 'a nic_scheme \<Rightarrow> u8 \<Rightarrow> (u16 \<times> 'a nic_scheme) option" where
  "eeprom_rword hw s off = do {
     let cmd = 1 OR push_bit 8 (ucast off);
     s1 \<leftarrow> wreg s REG_EERD cmd;
     (resp, s2) \<leftarrow> eeprom_poll hw s1;
     Some (ucast (drop_bit 16 resp), s2)
   }"

text \<open>The \<open>aa:bb:cc:dd:ee:ff\<close> string of \<open>get_mac_addr\<close>, from the six bytes at \<open>mac\<close>.\<close>

definition mac_string :: "'a nic_scheme \<Rightarrow> u32 \<Rightarrow> u32 \<Rightarrow> 'a nic_scheme option" where
  "mac_string s mac str =
     for_loop 0 6 (\<lambda>i t. do {
       b \<leftarrow> rd8 t (mac + word_of_nat i);
       (p, t1) \<leftarrow> itoa t (ucast b) 16;
       c0 \<leftarrow> rd8 t1 p;
       t2 \<leftarrow> wr8 t1 (str + word_of_nat (3 * i)) c0;
       c0' \<leftarrow> rd8 t2 p;
       c1 \<leftarrow> (if c0' \<noteq> 48 then rd8 t2 (p + 1) else Some 48);
       t3 \<leftarrow> wr8 t2 (str + word_of_nat (3 * i + 1)) c1;
       t4 \<leftarrow> wr8 t3 (str + word_of_nat (3 * i + 2)) (if i \<noteq> 5 then 58 else 0);
       (_, t5) \<leftarrow> kfree t4 p;
       Some t5 }) s"

text \<open>
  The result (\<open>struct mac_addr\<close>, twelve bytes) has the 48-bit \<open>bytes\<close> at offset 0 and \<open>str\<close> at
  offset 8; the code loads eight bytes from the six it allocated.
\<close>

definition get_mac_addr :: "('a nic_scheme \<Rightarrow> 'a nic_scheme) \<Rightarrow> 'a nic_scheme \<Rightarrow> (u32 \<times> 'a nic_scheme) option" where
  "get_mac_addr hw s = do {
     (mac21, s1) \<leftarrow> eeprom_rword hw s EEPROM_MAC;
     (mac43, s2) \<leftarrow> eeprom_rword hw s1 (EEPROM_MAC + 1);
     (mac65, s3) \<leftarrow> eeprom_rword hw s2 (EEPROM_MAC + 2);
     (mac, s4) \<leftarrow> kmalloc s3 6;
     s5 \<leftarrow> wr8 s4 mac (ucast (mac21 AND 0xff));
     s6 \<leftarrow> wr8 s5 (mac + 1) (ucast (drop_bit 8 mac21));
     s7 \<leftarrow> wr8 s6 (mac + 2) (ucast (mac43 AND 0xff));
     s8 \<leftarrow> wr8 s7 (mac + 3) (ucast (drop_bit 8 mac43));
     s9 \<leftarrow> wr8 s8 (mac + 4) (ucast (mac65 AND 0xff));
     s10 \<leftarrow> wr8 s9 (mac + 5) (ucast (drop_bit 8 mac65));
     (addr, s11) \<leftarrow> kmalloc s10 12;
     lo \<leftarrow> rd32 s11 mac;
     hi \<leftarrow> rd32 s11 (mac + 4);
     s12 \<leftarrow> wr32 s11 addr lo;
     s13 \<leftarrow> wr16 s12 (addr + 4) (ucast hi);
     (str, s14) \<leftarrow> kmalloc s13 9;
     s15 \<leftarrow> mac_string s14 mac str;
     s16 \<leftarrow> wr32 s15 (addr + 8) str;
     Some (addr, s16)
   }"

definition get_ipv4_addr :: "('a nic_scheme \<Rightarrow> 'a nic_scheme) \<Rightarrow> 'a nic_scheme \<Rightarrow> u8 \<Rightarrow> (u32 \<times> 'a nic_scheme) option" where
  "get_ipv4_addr hw s lan_type = do {
     let mgmt_offset = (if lan_type = LAN_A then EEPROM_MGMNT_LANA else EEPROM_MGMNT_LANB);
     (mgmt, s1) \<leftarrow> eeprom_rword hw s mgmt_offset;
     if mgmt AND push_bit 6 1 = 0 then Some (0, s1)
     else do {
       let ip_offset = (if lan_type = LAN_A then EEPROM_IPV4_LANA else EEPROM_IPV4_LANB);
       (ip12, s2) \<leftarrow> eeprom_rword hw s1 ip_offset;
       (ip34, s3) \<leftarrow> eeprom_rword hw s2 (ip_offset + 1);
       let ip = push_bit 16 (ucast ip34) OR ucast ip12;
       (str, s4) \<leftarrow> kmalloc s3 15;
       (addr, s5) \<leftarrow> kmalloc s4 8;
       s6 \<leftarrow> wr32 s5 addr ip;
       s7 \<leftarrow> wr32 s6 (addr + 4) str;
       Some (addr, s7)
     }
   }"

section \<open>Transmission\<close>

text \<open>
  A transmit descriptor (\<open>struct tdesc\<close>, sixteen bytes): \<open>buffer\<close> (eight bytes), \<open>length\<close> (two),
  \<open>cso\<close>, \<open>cmd\<close>, then \<open>sta\<close> and \<open>rsv\<close> in the two halves of byte 12, \<open>css\<close>, \<open>special\<close> (two).
\<close>

definition tx_cmd :: "u8 \<Rightarrow> u8" where
  "tx_cmd eop =
     (let c0 = (0 :: u8);
          c1 = c0 AND NOT (push_bit 7 1);
          c2 = c1 AND NOT (push_bit 6 1);
          c3 = c2 AND NOT (push_bit 5 1);
          c4 = c3 AND NOT (push_bit 4 1);
          c5 = c4 OR push_bit 3 1;
          c6 = c5 AND NOT (push_bit 2 1)
      in if eop \<noteq> 0 then (c6 OR push_bit 1 1) OR push_bit 0 1 else c6)"

text \<open>The wait until the card has consumed the descriptor at \<open>lst\<close>.\<close>

partial_function (option) tx_wait ::
  "('a nic_scheme \<Rightarrow> 'a nic_scheme) \<Rightarrow> 'a nic_scheme \<Rightarrow> u32 \<Rightarrow> 'a nic_scheme option" where
  "tx_wait hw s lst = do {
     let s1 = hw s;
     lo \<leftarrow> rd32 s1 lst;
     hi \<leftarrow> rd32 s1 (lst + 4);
     busy \<leftarrow> (if lo \<noteq> 0 \<or> hi \<noteq> 0 then do { sta \<leftarrow> rd8 s1 (lst + 12); Some (sta AND 0x1 = 0) }
              else Some False);
     if busy then do { s2 \<leftarrow> printk s1 [] []; tx_wait hw s2 lst } else Some s1
   }"

text \<open>The advance of \<open>txtail\<close>, a pointer to sixteen-byte descriptors, and its index in the queue.\<close>

definition tx_index :: "'a nic_scheme \<Rightarrow> u32" where
  "tx_index s = word_of_int (sint (txtail s - txqueue s) sdiv 16)"

definition tx_advance :: "'a nic_scheme \<Rightarrow> 'a nic_scheme" where
  "tx_advance s =
     (let s1 = s\<lparr>txtail := txtail s + 16\<rparr>
      in if txqueue_n s1 < tx_index s1 then s1\<lparr>txtail := txqueue s1\<rparr> else s1)"

definition add_tx_buffer :: "('a nic_scheme \<Rightarrow> 'a nic_scheme) \<Rightarrow> 'a nic_scheme \<Rightarrow> u32 \<Rightarrow> u16 \<Rightarrow> u8 \<Rightarrow>
    'a nic_scheme option" where
  "add_tx_buffer hw s buffer_addr len eop = do {
     let lst = txtail s;
     s1 \<leftarrow> tx_wait hw s lst;
     hwaddr \<leftarrow> lpa s1 buffer_addr;
     s2 \<leftarrow> wr32 s1 lst hwaddr;
     s3 \<leftarrow> wr32 s2 (lst + 4) 0;
     s4 \<leftarrow> wr16 s3 (lst + 8) (len * 2);
     s5 \<leftarrow> wr8 s4 (lst + 10) 0;
     s6 \<leftarrow> wr8 s5 (lst + 11) (tx_cmd eop);
     b \<leftarrow> rd8 s6 (lst + 12);
     s7 \<leftarrow> wr8 s6 (lst + 12) (b AND 0xf0);
     b1 \<leftarrow> rd8 s7 (lst + 12);
     s8 \<leftarrow> wr8 s7 (lst + 12) (b1 AND 0x0f);
     s9 \<leftarrow> wr8 s8 (lst + 13) 0;
     s10 \<leftarrow> wr16 s9 (lst + 14) 0;
     let s11 = tx_advance s10;
     wreg s11 REG_TDT (tx_index s11)
   }"

section \<open>Loading the driver\<close>

text \<open>
  An endless loop (\<open>KBREAK\<close>) after a message is \<open>None\<close>.  Where a call of \<open>printk\<close> reads two
  registers, C leaves the order of the reads open; the model reads from left to right.
\<close>

definition nic_check_link :: "('a nic_scheme \<Rightarrow> 'a nic_scheme) \<Rightarrow> 'a nic_scheme \<Rightarrow> 'a nic_scheme option" where
  "nic_check_link hw s = do {
     (status, s1) \<leftarrow> rreg hw s REG_STATUS;
     if status AND push_bit 1 1 = 0 then do { _ \<leftarrow> printk s1 (lit ''LINK IS DOWN!!!'' @ [10, 10]) []; None }
     else if status AND push_bit 4 1 \<noteq> 0 then do { _ \<leftarrow> printk s1 (lit ''TX PAUSED!!!'' @ [10, 10]) []; None }
     else Some s1
   }"

definition nic_ctrl :: "u32 \<Rightarrow> u32" where
  "nic_ctrl ctrl =
     (ctrl AND push_bit 6 1) AND NOT (push_bit 3 1) AND NOT (push_bit 7 1) AND NOT (push_bit 30 1)"

definition nic_print2 :: "('a nic_scheme \<Rightarrow> 'a nic_scheme) \<Rightarrow> 'a nic_scheme \<Rightarrow> u8 list \<Rightarrow> u32 \<Rightarrow> u32 \<Rightarrow>
    'a nic_scheme option" where
  "nic_print2 hw s fmt r1 r2 = do {
     (v1, s1) \<leftarrow> rreg hw s r1;
     (v2, s2) \<leftarrow> rreg hw s1 r2;
     printk s2 fmt [v1, v2]
   }"

definition nic_print1 :: "('a nic_scheme \<Rightarrow> 'a nic_scheme) \<Rightarrow> 'a nic_scheme \<Rightarrow> u8 list \<Rightarrow> u32 \<Rightarrow>
    'a nic_scheme option" where
  "nic_print1 hw s fmt r = do { (v, s1) \<leftarrow> rreg hw s r; printk s1 fmt [v] }"

text \<open>The set-up of the transmit registers (\<open>intel_8254x.c\<close> from \<open>REG_TDBAL\<close> to \<open>REG_TXDCTL\<close>).\<close>

definition nic_setup_tx :: "('a nic_scheme \<Rightarrow> 'a nic_scheme) \<Rightarrow> 'a nic_scheme \<Rightarrow> 'a nic_scheme option" where
  "nic_setup_tx hw s = do {
     s1 \<leftarrow> printk s (lit ''txqueue: %x'') [txqueue s];
     tdaddr \<leftarrow> lpa s1 (txqueue s1);
     if tdaddr AND 0x7 \<noteq> 0 then do { _ \<leftarrow> printk s1 (lit ''Unaligned txqueue!!'' @ [10]) []; None }
     else do {
       s2 \<leftarrow> wreg s1 REG_TDBAL tdaddr;
       s3 \<leftarrow> wreg s2 REG_TDBAH 0;
       s4 \<leftarrow> wreg s3 REG_TDLEN (txqueue_n s3 * 2);
       s5 \<leftarrow> wreg s4 REG_TDH 0;
       s6 \<leftarrow> wreg s5 REG_TDT 0;
       s7 \<leftarrow> nic_print2 hw s6 (lit ''Transmit descirptor is at %x, %x'' @ [10]) REG_TDBAH REG_TDBAL;
       s8 \<leftarrow> nic_print2 hw s7 (lit ''TD head: %d, TD tail: %d'' @ [10]) REG_TDH REG_TDT;
       let ipg = 10 OR push_bit 10 10 OR push_bit 20 10;
       s9 \<leftarrow> wreg s8 REG_TIPG ipg;
       s10 \<leftarrow> printk s9 [10, 10] [];
       (tctl, s11) \<leftarrow> rreg hw s10 REG_TCTL;
       s12 \<leftarrow> wreg s11 REG_TCTL (((tctl OR push_bit 1 1) OR push_bit 3 1) OR push_bit 12 0x40);
       s13 \<leftarrow> nic_print2 hw s12 (lit ''TD head: %d, TD tail: %d'' @ [10]) REG_TDH REG_TDT;
       let s14 = hw s13;
       w0 \<leftarrow> rd32 s14 (txqueue s14);
       w1 \<leftarrow> rd32 s14 (txqueue s14 + 4);
       w2 \<leftarrow> rd32 s14 (txqueue s14 + 8);
       w3 \<leftarrow> rd32 s14 (txqueue s14 + 12);
       s15 \<leftarrow> printk s14 (lit ''staus %lx %lx'' @ [10]) [w0, w1, w2, w3];
       s16 \<leftarrow> nic_print1 hw s15 (lit ''Transmitted; %d'' @ [10]) REG_TOTL;
       s17 \<leftarrow> nic_print1 hw s16 (lit ''Failed; %d'' @ [10]) REG_TSCTFC;
       s18 \<leftarrow> nic_print1 hw s17 (lit ''contrrol: %x'') REG_TXDCTL;
       nic_print2 hw s18 (lit ''PHY head: %x, PHY  tail: %x'' @ [10]) REG_TDFH REG_TDFT
     }
   }"

text \<open>
  \<open>netdev\<close> is the structure (\<open>write_partial_packet\<close>, \<open>pcidev\<close>, \<open>mac_addr\<close>, \<open>ip_addr\<close>, four bytes
  each) that \<open>netcard1\<close> points to; \<open>tx_fn\<close> is the link address of \<open>add_tx_buffer\<close>.
\<close>

definition load_driver_eth_intel_8254x ::
  "('a nic_scheme \<Rightarrow> 'a nic_scheme) \<Rightarrow> u32 \<Rightarrow> 'a nic_scheme \<Rightarrow> u32 \<Rightarrow> (status_t \<times> 'a nic_scheme) option" where
  "load_driver_eth_intel_8254x hw tx_fn s pcidev = do {
     (noalign, s1) \<leftarrow> kcalloc s (16 + txqueue_n s * 16) 1;
     let q = (noalign + 16) AND NOT 0xf;
     let s2 = s1\<lparr>txqueue := q, txtail := q\<rparr>;
     a \<leftarrow> lpa s2 (txqueue s2);
     s3 \<leftarrow> printk s2 (lit ''%x <-- %x'' @ [10]) [txqueue s2, a];
     s4 \<leftarrow> printk s3 (lit ''Loading driver for 8254x NIC...'' @ [10]) [];
     (hwbar0, s5) \<leftarrow> pci_cfg_rdword s4 pcidev 0x10;
     if hwbar0 AND 0x2 \<noteq> 0 then Some (STATUS_DRIVER_ERROR, s5)
     else do {
       let bar = hwbar0 AND 0xfffffff8;
       (space, s6) \<leftarrow> maphwdev s5 bar (BAR0_SIZE div 4096);
       let s7 = s6\<lparr>regspace := space\<rparr>;
       s8 \<leftarrow> pci_enable_bus_mastering s7 pcidev;
       (vendor, s9) \<leftarrow> eeprom_rword hw s8 EEPROM_VENDOR;
       s10 \<leftarrow> printk s9 (lit ''Vendor: %x'' @ [10]) [ucast vendor];
       (mac, s11) \<leftarrow> get_mac_addr hw s10;
       mstr \<leftarrow> rd32 s11 (mac + 8);
       s12 \<leftarrow> printk s11 (lit ''Mac address is %s'' @ [10]) [mstr];
       (ip, s13) \<leftarrow> get_ipv4_addr hw s12 LAN_A;
       bytes \<leftarrow> (if ip = 0 then Some 0xffffffff else rd32 s13 ip);
       s14 \<leftarrow> (if bytes = 0xffffffff then printk s13 (lit ''No valid IP Address in EEPROM!!'' @ [10]) []
              else printk s13 (lit ''Ipv4: %x'' @ [10]) [bytes]);
       s15 \<leftarrow> nic_check_link hw s14;
       (ctrl, s16) \<leftarrow> rreg hw s15 REG_CTRL;
       s17 \<leftarrow> (if ctrl AND push_bit 3 1 \<noteq> 0 then printk s16 (lit ''Control is about to autolink...'' @ [10]) []
              else Some s16);
       s18 \<leftarrow> wreg s17 REG_CTRL (nic_ctrl ctrl);
       s19 \<leftarrow> printk s18 (lit ''Devicew COntrol: %x'') [nic_ctrl ctrl];
       s20 \<leftarrow> nic_setup_tx hw s19;
       netdev \<leftarrow> Some (netcard1 s20);
       s21 \<leftarrow> wr32 s20 netdev tx_fn;
       (mac', s22) \<leftarrow> get_mac_addr hw s21;
       s23 \<leftarrow> wr32 s22 (netcard1 s22 + 8) mac';
       s24 \<leftarrow> wr32 s23 (netcard1 s23 + 12) ip;
       Some (STATUS_OK, s24)
     }
   }"

section \<open>Packets\<close>

text \<open>The macro \<open>ble16\<close>, which swaps the bytes of a 16-bit number.\<close>

definition ble16 :: "u16 \<Rightarrow> u16" where
  "ble16 big = drop_bit 8 big OR push_bit 8 big"

definition ETH_TYPE_ARP :: u16 where "ETH_TYPE_ARP = 0x0806"
definition ARP_HTYPE_ETH :: u16 where "ARP_HTYPE_ETH = 1"
definition ARP_PTYPE_IPV4 :: u16 where "ARP_PTYPE_IPV4 = 0x0800"
definition ARP_OP_REQ :: u16 where "ARP_OP_REQ = 1"

text \<open>Loads and stores of the 48-bit fields.\<close>

definition rd48 :: "'a machine_scheme \<Rightarrow> u32 \<Rightarrow> u64 option" where
  "rd48 s a = do {
     lo \<leftarrow> rd32 s a;
     hi \<leftarrow> rd16 s (a + 4);
     Some (ucast lo OR push_bit 32 (ucast hi))
   }"

definition wr48 :: "'a machine_scheme \<Rightarrow> u32 \<Rightarrow> u64 \<Rightarrow> 'a machine_scheme option" where
  "wr48 s a v = do { s1 \<leftarrow> wr32 s a (ucast v); wr16 s1 (a + 4) (ucast (drop_bit 32 v)) }"

text \<open>
  The Ethernet header (14 bytes, packed): \<open>dst\<close> and \<open>src\<close> of six bytes each, \<open>type\<close>.  The
  destination is a local structure of the caller, so its \<open>bytes\<close> are passed by value.
\<close>

definition netd_make_eth2_header :: "'a nic_scheme \<Rightarrow> u32 \<Rightarrow> u64 \<Rightarrow> u16 \<Rightarrow> u16 \<Rightarrow> (u32 \<times> 'a nic_scheme) option" where
  "netd_make_eth2_header s src dst_bytes eth_type payload_size = do {
     (head, s1) \<leftarrow> kmalloc s (14 + ucast payload_size);
     s2 \<leftarrow> wr48 s1 head dst_bytes;
     sb \<leftarrow> rd48 s2 src;
     s3 \<leftarrow> wr48 s2 (head + 6) sb;
     s4 \<leftarrow> wr16 s3 (head + 12) (ble16 eth_type);
     Some (head, s4)
   }"

text \<open>
  The ARP packet (28 bytes, packed) after the header.  \<open>garbage\<close> is what the stack holds in
  \<open>eth_target\<close>, which the code only sets for a request; \<open>mac_target\<close> and \<open>ip_target\<close> are the
  bytes of the caller's structures.  The call through \<open>dev->write_partial_packet\<close> reaches
  \<open>add_tx_buffer\<close> when the pointer is its link address \<open>tx_fn\<close>.
\<close>

definition netd_send_ipv4_arp_packet ::
  "('a nic_scheme \<Rightarrow> 'a nic_scheme) \<Rightarrow> u32 \<Rightarrow> u64 \<Rightarrow> 'a nic_scheme \<Rightarrow> u32 \<Rightarrow> u64 \<Rightarrow> u32 \<Rightarrow> u16 \<Rightarrow>
    'a nic_scheme option" where
  "netd_send_ipv4_arp_packet hw tx_fn garbage s dev mac_target ip_target operation = do {
     let eth_target = (if operation = ARP_OP_REQ then 0xffffffffffff else garbage);
     src \<leftarrow> rd32 s (dev + 8);
     (head, s1) \<leftarrow> netd_make_eth2_header s src eth_target ETH_TYPE_ARP 28;
     let frame = head + 14;
     s2 \<leftarrow> wr16 s1 frame (ble16 ARP_HTYPE_ETH);
     s3 \<leftarrow> wr16 s2 (frame + 2) (ble16 ARP_PTYPE_IPV4);
     s4 \<leftarrow> wr8 s3 (frame + 4) 6;
     s5 \<leftarrow> wr8 s4 (frame + 5) 4;
     s6 \<leftarrow> wr16 s5 (frame + 6) (ble16 operation);
     m \<leftarrow> rd32 s6 (dev + 8);
     mb \<leftarrow> rd48 s6 m;
     s7 \<leftarrow> wr48 s6 (frame + 8) mb;
     i \<leftarrow> rd32 s7 (dev + 12);
     ib \<leftarrow> rd32 s7 i;
     s8 \<leftarrow> wr32 s7 (frame + 14) ib;
     s9 \<leftarrow> wr48 s8 (frame + 18) mac_target;
     s10 \<leftarrow> wr32 s9 (frame + 24) ip_target;
     f \<leftarrow> rd32 s10 dev;
     if f = tx_fn then add_tx_buffer hw s10 head (14 + 28) 1 else None
   }"

end
