(* ===== verification/BootNic.thy ===== *)
theory BootNic
  imports HeapProps Nic
begin

text \<open>
  The machine of theory \<open>Boot\<close> with the globals of the components above the heap (descriptor
  tables, bus, network card), all zero as in the loaded image.
\<close>

definition boot_nic :: nic where
  "boot_nic = \<lparr>ram = ram boot, cr3 = cr3 boot, tlb = tlb boot, io_trace = io_trace boot, io_dev = io_dev boot,
     kernel_end = kernel_end boot, vga_cursor_r = 0, vga_cursor_c = 0,
     bios_mmap_addr = bios_mmap_addr boot, bios_mmap_len = 0, phymm_end = phymm_end boot,
     hwa_mmstart = hwa_mmstart boot, hwa_inu_bitmap = hwa_inu_bitmap boot, hwas_bp = hwas_bp boot,
     hwas_sp = hwas_sp boot, hwas_ssize = hwas_ssize boot,
     pde_table = pde_table boot, driver_space_head = driver_space_head boot,
     first_blk = first_blk boot, heap_start = heap_start boot, heap_size = heap_size boot,
     min_heap_size = min_heap_size boot,
     gdt_base = 0, gdtr_limit = 0, gdtr_base = 0, idt_base = 0, idtr_limit = 0, idtr_base = 0,
     cpu_gdtr = (0, 0), cpu_idtr = (0, 0), cpu_cs = 0, cpu_ds = 0, cpu_if = False, cpu_cr2 = 0, cpu_halted = False,
     gpci_devs = 0, gpci_devs_n = 0, netcard1 = 0,
     regspace = 0, txqueue = 0, txqueue_n = 64, txtail = 0\<rparr>"

lemma boot_nic_same: "heap_same boot boot_nic"
  by (simp add: heap_same_def vm_same_def boot_nic_def)

lemmas boot_nic_inv = heap_same_inv [OF boot_nic_same]

lemma boot_nic_heap: "heap_inv boot_nic []"
  by (simp add: boot_nic_inv boot_heap)

end
