(* ===== verification/Ranges.thy ===== *)
theory Ranges
  imports KHeapClient
begin

text \<open>
  Sequences of stores into one live range of the heap: \<open>range_upd s h p m xs t\<close> says that \<open>t\<close> is
  \<open>s\<close> with the contents of the range \<open>(p, m)\<close> replaced by \<open>xs\<close>.  The clients of the heap that
  fill a structure field by field (the descriptor tables, the device records, the packets) go
  from one such state to the next.
\<close>

definition range_upd :: "'a kheap_scheme \<Rightarrow> blk list \<Rightarrow> u32 \<Rightarrow> nat \<Rightarrow> u8 list \<Rightarrow> 'a kheap_scheme \<Rightarrow> bool" where
  "range_upd s h p m xs t \<longleftrightarrow>
     heap_inv t h \<and> (p, m) \<in> live h \<and> rdn t p m = Some xs \<and> length xs = m \<and>
     (\<forall>(q, k)\<in>live h. q \<noteq> p \<longrightarrow> rdn t q k = rdn s q k) \<and> alloc_ready t h = alloc_ready s h \<and> heap_frame s t"

lemma range_updI:
  assumes "heap_inv s h" and "(p, m) \<in> live h" and "rdn s p m = Some xs"
  shows "range_upd s h p m xs s"
proof -
  obtain ys where "rdn s p m = Some ys" "length ys = m" by (rule live_contents [OF assms(1,2)])
  then show ?thesis using assms heap_frame_refl by (auto simp: range_upd_def)
qed

lemma range_updD:
  assumes "range_upd s h p m xs t"
  shows "heap_inv t h" "(p, m) \<in> live h" "rdn t p m = Some xs" "length xs = m"
    "alloc_ready t h = alloc_ready s h" "heap_frame s t"
    "\<And>q k. (q, k) \<in> live h \<Longrightarrow> q \<noteq> p \<Longrightarrow> rdn t q k = rdn s q k"
proof -
  show "rdn t q k = rdn s q k" if "(q, k) \<in> live h" "q \<noteq> p" for q k
    using assms bspec [of "live h" _ "(q, k)"] that unfolding range_upd_def by fastforce
qed (use assms in \<open>auto simp: range_upd_def\<close>)

text \<open>One store of a list of bytes, of one, two and four bytes.\<close>

lemma range_store:
  assumes u: "range_upd s h p m xs t" and len: "off + length bs \<le> m"
  obtains t' where "wrn t (p + word_of_nat off) bs = Some t'" and "range_upd s h p m (patch off bs xs) t'"
proof -
  note d = range_updD [OF u]
  obtain t' where t': "wrn t (p + word_of_nat off) bs = Some t'" "heap_inv t' h"
    "rdn t' p m = map_option (patch off bs) (rdn t p m)"
    "\<forall>(q, k)\<in>live h. q \<noteq> p \<longrightarrow> rdn t' q k = rdn t q k" "alloc_ready t' h = alloc_ready t h" "heap_frame t t'"
    using hc.store_law [OF d(1,2) len] by blast
  have "rdn t' q k = rdn s q k" if "(q, k) \<in> live h" "q \<noteq> p" for q k
    using bspec [OF t'(4) that(1)] d(7) [OF that] that(2) by simp
  then have "range_upd s h p m (patch off bs xs) t'"
    using t' d len heap_frame_trans by (auto simp: range_upd_def)
  then show ?thesis using that t'(1) by blast
qed

lemma range_wr8:
  assumes "range_upd s h p m xs t" and "off < m" and "a = p + word_of_nat off"
  obtains t' where "wr8 t a v = Some t'" and "range_upd s h p m (patch off [v] xs) t'"
  using range_store [OF assms(1), of off "[v]"] assms(2,3) by (auto simp: wr8_def)

lemma range_wr16:
  assumes "range_upd s h p m xs t" and "off + 2 \<le> m" and "a = p + word_of_nat off"
  obtains t' where "wr16 t a v = Some t'"
    and "range_upd s h p m (patch off [ucast v, ucast (drop_bit 8 v)] xs) t'"
  using range_store [OF assms(1), of off "[ucast v, ucast (drop_bit 8 v)]"] assms(2,3) by (auto simp: wr16_def)

definition bytes32 :: "u32 \<Rightarrow> u8 list" where
  "bytes32 v = [byte_of 0 v, byte_of 1 v, byte_of 2 v, byte_of 3 v]"

lemma length_bytes32 [simp]: "length (bytes32 v) = 4"
  by (simp add: bytes32_def)

lemma range_wr32:
  assumes "range_upd s h p m xs t" and "off + 4 \<le> m" and "a = p + word_of_nat off"
  obtains t' where "wr32 t a v = Some t'" and "range_upd s h p m (patch off (bytes32 v) xs) t'"
  using range_store [OF assms(1), of off "bytes32 v"] assms(2,3) by (auto simp: wr32_def bytes32_def)

text \<open>Stores that follow one another, or lie side by side.\<close>

lemma patch_patch:
  "off + length bs + length cs \<le> length xs \<Longrightarrow>
    patch (off + length bs) cs (patch off bs xs) = patch off (bs @ cs) xs"
  by (simp add: patch_def add.commute add.left_commute)

lemma patch_prefix: "n = length zs \<Longrightarrow> n + length bs \<le> length (zs @ xs) \<Longrightarrow>
    patch n bs (zs @ xs) = zs @ bs @ drop (length bs) xs"
  by (simp add: patch_def)

text \<open>Loads from a range.\<close>

lemma range_rd32:
  assumes "rdn s p m = Some xs" and "off + 4 \<le> m"
  shows "rd32 s (p + word_of_nat off) =
    Some (cat32 (xs ! off) (xs ! (off + 1)) (xs ! (off + 2)) (xs ! (off + 3)))"
proof -
  have r: "rd8 s (p + word_of_nat off + word_of_nat j) = Some (xs ! (off + j))" if "j < 4" for j
    using rdn_nth [OF assms(1), of "off + j"] that assms(2) by (simp add: add.assoc)
  have "rdn s (p + word_of_nat off) 4 = Some (map (\<lambda>j. xs ! (off + j)) [0..<4])"
    unfolding rdn_rd8 by (rule those_Some) (use r in auto)
  then show ?thesis by (simp add: rd32_def eval_nat_numeral upt_conv_Cons)
qed

lemma bytes32_cat32: "bytes32 (cat32 b0 b1 b2 b3) = [b0, b1, b2, b3]"
  unfolding bytes32_def cat32_def byte_of_def
  by (intro list.inject [THEN iffD2] conjI refl bit_word_eqI) (auto simp: bit_simps dest: bit_imp_le_length)

lemma take4_nth: "off + 4 \<le> length xs \<Longrightarrow>
    [xs ! off, xs ! (off + 1), xs ! (off + 2), xs ! (off + 3)] = take 4 (drop off xs)"
  by (rule nth_equalityI) (auto simp: less_Suc_eq eval_nat_numeral)

lemma range_rd32_bytes:
  assumes "rdn s p m = Some xs" and "length xs = m" and "off + 4 \<le> m"
  obtains v where "rd32 s (p + word_of_nat off) = Some v" and "bytes32 v = take 4 (drop off xs)"
  using range_rd32 [OF assms(1,3)] take4_nth [of off xs] assms(2,3) that by (simp add: bytes32_cat32)

text \<open>A new range: its contents and the state before it are as \<open>kmalloc\<close> promises.\<close>

lemma new_range:
  assumes "heap_inv s h" and "alloc_ready s h n"
  obtains p m t xs where "kmalloc s n = Some (p, t)" and "unat (round16 n) \<le> m"
    and "live (snd (alloc_abs s h n)) = insert (p, m) (live h)" and "p \<notin> fst ` live h"
    and "range_upd t (snd (alloc_abs s h n)) p m xs t"
    and "\<forall>q k. (q, k) \<in> live h \<longrightarrow> rdn t q k = rdn s q k" and "heap_frame s t"
proof -
  obtain p m t where 1: "kmalloc s n = Some (p, t)" "heap_inv t (snd (alloc_abs s h n))"
    "unat (round16 n) \<le> m" "p \<notin> fst ` live h" "live (snd (alloc_abs s h n)) = insert (p, m) (live h)"
    and c: "\<forall>(q, k)\<in>live h. rdn t q k = rdn s q k" and f: "heap_frame s t"
    using kh.alloc_law [OF assms] by blast
  have pm: "(p, m) \<in> live (snd (alloc_abs s h n))" by (simp add: 1(5))
  obtain xs where "rdn t p m = Some xs" by (rule live_contents [OF 1(2) pm])
  then have "range_upd t (snd (alloc_abs s h n)) p m xs t" by (rule range_updI [OF 1(2) pm])
  moreover have "rdn t q k = rdn s q k" if "(q, k) \<in> live h" for q k using bspec [OF c that] by simp
  ultimately show ?thesis using that 1 f by blast
qed

section \<open>Stores as one\<close>

text \<open>A store of two lists one after the other; a store of what is there already.\<close>

lemma ram_put_append: "ram_put m (xs @ ys) = ram_put (ram_put m xs) ys"
  by (induction m xs rule: ram_put.induct) (simp_all del: fun_upd_apply)

lemma ram_put_same: "(\<And>p b. (p, b) \<in> set pbs \<Longrightarrow> m p = b) \<Longrightarrow> ram_put m pbs = m"
proof (induction m pbs rule: ram_put.induct)
  case (2 m p b pbs)
  have "m(p := b) = m" using "2.prems" [of p b] by auto
  then show ?case using 2 by simp
qed simp

lemma stn_append:
  assumes "data_range s a (length bs)"
  shows "stn s a (bs @ cs) = stn (stn s a bs) (a + word_of_nat (length bs)) cs"
proof -
  let ?f = "\<lambda>k. the (translate s (a + word_of_nat k))"
  have "map ?f [0..<length bs + length cs] = map ?f [0..<length bs] @ map (\<lambda>k. ?f (length bs + k)) [0..<length cs]"
    by (rule nth_equalityI) (auto simp: nth_append)
  then have z: "zip (map ?f [0..<length (bs @ cs)]) (bs @ cs) =
      zip (map ?f [0..<length bs]) bs @ zip (map (\<lambda>k. ?f (length bs + k)) [0..<length cs]) cs"
    by (simp add: zip_append)
  have f: "?f (length bs + k) = the (translate (stn s a bs) (a + word_of_nat (length bs) + word_of_nat k))" for k
    by (simp add: translate_stn [OF assms] add.assoc)
  have "ram (stn s a (bs @ cs)) = ram_put (ram s) (zip (map ?f [0..<length (bs @ cs)]) (bs @ cs))" by (simp add: stn_def)
  also have "\<dots> = ram (stn (stn s a bs) (a + word_of_nat (length bs)) cs)"
    unfolding z ram_put_append f by (simp add: stn_def)
  finally show ?thesis by (simp add: stn_def)
qed

lemma stn_id:
  assumes "data_range s a (length bs)" and "rdn s a (length bs) = Some bs"
  shows "stn s a bs = s"
proof -
  let ?f = "\<lambda>k. the (translate s (a + word_of_nat k))"
  have "map (ram s) (map ?f [0..<length bs]) = bs" using assms(2) by (simp add: rdn_def phys_addrs_data [OF assms(1)])
  then have "ram s (?f k) = bs ! k" if "k < length bs" for k
    using that by (metis (no_types, lifting) add_0 diff_zero length_map length_upt nth_map nth_upt)
  then have "ram_put (ram s) (zip (map ?f [0..<length bs]) bs) = ram s"
    by (intro ram_put_same) (auto simp: set_zip)
  then show ?thesis by (simp add: stn_def)
qed

text \<open>The copying loop of \<open>memcpy\<close> and \<open>memmove\<close> between ranges that do not meet is one store.\<close>

lemma copy_data:
  fixes s :: "'a kheap_scheme"
  assumes d: "data_range s dst (unat n)" and src: "rdn s src (unat n) = Some bs" "length bs = unat n"
    and sp: "sep dst (unat n) src (unat n)" and ns: "unshadowed s src (unat n)"
  shows "copy_bytes s dst src n = Some (stn s dst bs)"
proof -
  let ?f = "\<lambda>i t. do { b \<leftarrow> rd8 t (src + word_of_nat i); wr8 t (dst + word_of_nat i) b }"
  have "\<exists>s'. for_loop 0 (unat n) ?f s = Some s' \<and> s' = stn s dst (take (0 + unat n) bs)"
  proof (rule for_loop_inv)
    have "stn s dst [] = s" by (rule stn_id) (simp_all add: data_range_def rdn_def phys_addrs_def)
    then show "s = stn s dst (take 0 bs)" by simp
    fix i t assume i: "i < 0 + unat n" and t: "t = stn s dst (take i bs)"
    have li: "length (take i bs) = i" using i src(2) by simp
    have di: "data_range s dst (length (take i bs))" using data_range_sub [OF d] i li by simp
    have "unat n \<le> unat (src + word_of_nat i - dst)" using sep_dist [OF sp] i by simp
    then have "rd8 t (src + word_of_nat i) = rd8 s (src + word_of_nat i)"
      using i li u32_less [of n] unshadowedD [OF ns] by (simp add: t rd8_stn [OF di])
    then have r: "rd8 t (src + word_of_nat i) = Some (bs ! i)" using rdn_nth [OF src(1)] i by simp
    have "data_range t (dst + word_of_nat i) 1"
      using data_range_add [OF d, of i 1] i by (simp add: t data_range_stn [OF di])
    then have "wr8 t (dst + word_of_nat i) (bs ! i) = Some (stn t (dst + word_of_nat i) [bs ! i])"
      by (simp add: wr8_def wrn_data)
    moreover have "stn t (dst + word_of_nat i) [bs ! i] = stn s dst (take (Suc i) bs)"
      using stn_append [OF di, of "[bs ! i]"] i src(2) by (simp add: t li take_Suc_conv_app_nth)
    ultimately show "\<exists>s'. ?f i t = Some s' \<and> s' = stn s dst (take (Suc i) bs)" using r by simp
  qed
  then show ?thesis using src(2) by (simp add: copy_bytes_def)
qed

section \<open>Stores outside the heap\<close>

lemma heap_addr_unshadowed:
  assumes "heap_ok s" and "unat (heap_start s) \<le> unat x" and "unat x < heap_end s"
  shows "\<not> shadow s x"
proof -
  have "clear_range s x 1" by (rule clear_sub [OF assms(1,2)]) (use assms(3) in simp)
  then show ?thesis by (simp add: clear_range_def data_range_def data_not_shadow)
qed

lemma foreign_stn:
  fixes s :: "'a kheap_scheme"
  assumes inv: "heap_inv s h" and f: "\<And>k. k < length bs \<Longrightarrow> foreign s (a + word_of_nat k)"
    and b32: "length bs \<le> 4294967296"
  shows "wrn s a bs = Some (stn s a bs)" and "heap_inv (stn s a bs) h"
    and "alloc_ready (stn s a bs) = alloc_ready s" and "foreign (stn s a bs) = foreign s"
    and "\<And>q k. (q, k) \<in> live h \<Longrightarrow> rdn (stn s a bs) q k = rdn s q k"
proof -
  have cr: "clear_range s a (length bs)" and d: "data_range s a (length bs)"
    using f by (auto simp: clear_range_def data_range_def foreign_def)
  have ok: "heap_ok s" and l: "laid (unat (heap_start s)) h (heap_end s)" and hi: "heap_end s < 4294967296"
    using inv by (auto simp: heap_inv_def heap_ok_def)
  have rd: "rd8 (stn s a bs) x = rd8 s x" if x: "unat (heap_start s) \<le> unat x" "unat x < heap_end s" for x
  proof -
    have "\<not> unat (x - a) < length bs"
    proof
      assume "unat (x - a) < length bs"
      then have "foreign s (a + word_of_nat (unat (x - a)))" by (rule f)
      then show False using x by (simp add: foreign_def)
    qed
    moreover have "\<not> shadow s x" using heap_addr_unshadowed [OF ok x] .
    ultimately show ?thesis by (simp add: rd8_stn [OF d b32])
  qed
  have rn: "rdn (stn s a bs) b n = rdn s b n" if b: "unat (heap_start s) \<le> unat b" "unat b + n \<le> heap_end s" for b n
  proof -
    have "rd8 (stn s a bs) (b + word_of_nat k) = rd8 s (b + word_of_nat k)" if k: "k < n" for k
    proof -
      have "unat (word_of_nat k :: u32) = k" using k b hi by (simp add: unat_of_nat)
      then have "unat (b + word_of_nat k) = unat b + k" using k b hi by (simp add: unat_add_small)
      then show ?thesis using rd b k by simp
    qed
    then show ?thesis unfolding rdn_rd8 by (intro arg_cong [of _ _ those] map_cong) auto
  qed
  have hd: "fget (stn s a bs) b g = fget s b g" if b: "b \<in> addrs h" for b g
  proof -
    have hb: "hin s b" using laid_headers [OF l hi] b by (auto simp: headers_def)
    show ?thesis unfolding fget_def rd32_def
      using rn [of "faddr b g" 4] unat_faddr [OF ok hb, of g] foff_less [of g] hb by (simp add: hin_def)
  qed
  show "wrn s a bs = Some (stn s a bs)" by (rule wrn_data [OF d])
  note sh = stn_heap [OF inv cr b32 hd]
  show "heap_inv (stn s a bs) h" and "alloc_ready (stn s a bs) = alloc_ready s" using sh by simp_all
  have "heap_end (stn s a bs) = heap_end s" "heap_start (stn s a bs) = heap_start s" "alloc_vaddr (stn s a bs) = alloc_vaddr s"
    by (simp_all add: stn_def heap_end_def alloc_vaddr_def nframes_def bm_bytes_def fun_eq_iff)
  then show "foreign (stn s a bs) = foreign s" by (intro ext) (simp add: foreign_def data_stn [OF d])
  show "rdn (stn s a bs) q k = rdn s q k" if qk: "(q, k) \<in> live h" for q k
  proof -
    obtain b z where e: "q = b + 20" "k = unat z" "(b, z, False) \<in> set h" using qk by (auto simp: live_def)
    note bd = laid_bounds [OF l e(3)]
    have "unat q = unat b + 20" using bd hi by (simp add: e(1) unat_add_small)
    then show ?thesis using bd e(2) by (intro rn) simp_all
  qed
qed

text \<open>States that differ in fields above the heap only.\<close>

lemma range_upd_same:
  assumes "range_upd s h p m xs t" and "heap_same t t'" 
  shows "heap_inv t' h" and "rdn t' = rdn t"
  using assms heap_same_inv [OF assms(2)] by (auto simp: range_upd_def)

text \<open>A part of a loaded range, and a range that is filled from its beginning.\<close>

lemma rdn_part:
  assumes "rdn s a n = Some xs" and "off + m \<le> n" and "length xs = n"
  shows "rdn s (a + word_of_nat off) m = Some (take m (drop off xs))"
  unfolding rdn_rd8
proof (rule those_Some)
  fix k assume "k < length (map (\<lambda>k. rd8 s (a + word_of_nat off + word_of_nat k)) [0..<m])"
  then have k: "k < m" by simp
  have "rd8 s (a + word_of_nat (off + k)) = Some (xs ! (off + k))" by (rule rdn_nth [OF assms(1)]) (use k assms(2) in simp)
  then show "map (\<lambda>k. rd8 s (a + word_of_nat off + word_of_nat k)) [0..<m] ! k = Some (take m (drop off xs) ! k)"
    using k assms(2,3) by (simp add: add.assoc)
qed (use assms(2,3) in simp)

definition fills :: "'a kheap_scheme \<Rightarrow> blk list \<Rightarrow> u32 \<Rightarrow> nat \<Rightarrow> u8 list \<Rightarrow> 'a kheap_scheme \<Rightarrow> bool" where
  "fills s h p m zs t \<longleftrightarrow> (\<exists>ws. range_upd s h p m (zs @ ws) t)"

lemma fills_start: "range_upd s h p m xs t \<Longrightarrow> fills s h p m [] t"
  by (auto simp: fills_def)

lemma fills_wrn:
  assumes "fills s h p m zs t" and "length zs + length bs \<le> m" and "a = p + word_of_nat (length zs)"
  obtains t' where "wrn t a bs = Some t'" and "fills s h p m (zs @ bs) t'"
proof -
  obtain ws where u: "range_upd s h p m (zs @ ws) t" using assms(1) by (auto simp: fills_def)
  have len: "length (zs @ ws) = m" by (rule range_updD(4) [OF u])
  obtain t' where t': "wrn t (p + word_of_nat (length zs)) bs = Some t'"
    "range_upd s h p m (patch (length zs) bs (zs @ ws)) t'"
    by (rule range_store [OF u assms(2)])
  have "patch (length zs) bs (zs @ ws) = (zs @ bs) @ drop (length bs) ws"
    using assms(2) len by (subst patch_prefix) simp_all
  then have "fills s h p m (zs @ bs) t'" using t'(2) by (auto simp: fills_def)
  then show ?thesis using that t'(1) assms(3) by simp
qed

definition bytes16 :: "u16 \<Rightarrow> u8 list" where
  "bytes16 v = [ucast v, ucast (drop_bit 8 v)]"

lemma length_bytes16 [simp]: "length (bytes16 v) = 2"
  by (simp add: bytes16_def)

lemma fills_wr8:
  assumes "fills s h p m zs t" and "length zs < m" and "a = p + word_of_nat (length zs)"
  obtains t' where "wr8 t a v = Some t'" and "fills s h p m (zs @ [v]) t'"
  by (rule fills_wrn [OF assms(1), where bs = "[v]" and a = a]) (use assms that in \<open>auto simp: wr8_def\<close>)

lemma fills_wr16:
  assumes "fills s h p m zs t" and "length zs + 2 \<le> m" and "a = p + word_of_nat (length zs)"
  obtains t' where "wr16 t a v = Some t'" and "fills s h p m (zs @ bytes16 v) t'"
  by (rule fills_wrn [OF assms(1), where bs = "bytes16 v" and a = a])
     (use assms that in \<open>auto simp: wr16_def bytes16_def\<close>)

lemma fills_wr32:
  assumes "fills s h p m zs t" and "length zs + 4 \<le> m" and "a = p + word_of_nat (length zs)"
  obtains t' where "wr32 t a v = Some t'" and "fills s h p m (zs @ bytes32 v) t'"
  by (rule fills_wrn [OF assms(1), where bs = "bytes32 v" and a = a])
     (use assms that in \<open>auto simp: wr32_def bytes32_def\<close>)

text \<open>Other ranges keep their contents meanwhile.\<close>

lemma fills_other:
  assumes "fills s h p m zs t" and "(q, k) \<in> live h" and "q \<noteq> p" and "off + n \<le> k"
    and "rdn s (q + word_of_nat off) n = Some bs"
  shows "rdn t (q + word_of_nat off) n = Some bs"
proof -
  obtain ws where u: "range_upd s h p m (zs @ ws) t" using assms(1) by (auto simp: fills_def)
  obtain ys where ys: "rdn t q k = Some ys" "length ys = k" by (rule live_contents [OF range_updD(1) [OF u] assms(2)])
  have "rdn s q k = Some ys" using range_updD(7) [OF u assms(2,3)] ys(1) by simp
  then show ?thesis
    using rdn_part [of t q k ys off n] rdn_part [of s q k ys off n] ys assms(4,5) by simp
qed

end
