(* ===== verification/Kernel.thy ===== *)
theory Kernel
  imports Nic
begin

text \<open>
  What is composed from the components: the set-up of the frame allocator
  (\<open>init_phymm\<close> of \<open>phy-mm.c\<close>), of the heap (\<open>init_virtmm\<close> of \<open>virt-mm.c\<close>), the choice of drivers
  (\<open>load_pci_drivers\<close> and \<open>load_intel_devdrv\<close> of \<open>pci.c\<close>) and the main program
  (\<open>kernel_init\<close> of \<open>kernel.c\<close>).
\<close>

section \<open>Setting up the frame allocator\<close>

text \<open>
  A memory map entry of the boot loader (\<open>struct bios_mmap_entry\<close>, packed): \<open>entry_size\<close>,
  \<open>base_addr\<close>, \<open>length\<close>, \<open>type\<close> at the offsets 0, 4, 12, 20.
\<close>

definition rd64 :: "'a machine_scheme \<Rightarrow> u32 \<Rightarrow> u64 option" where
  "rd64 s a = do {
     lo \<leftarrow> rd32 s a;
     hi \<leftarrow> rd32 s (a + 4);
     Some (ucast lo OR push_bit 32 (ucast hi))
   }"

text \<open>The first address after the stack that is a multiple of 256, computed from the stack pointer.\<close>

definition bitmap_base :: "u32 \<Rightarrow> u32" where
  "bitmap_base sp = (sp + 0xff) AND NOT 0xff"

text \<open>The part of \<open>init_phymm\<close> that fills the stack and the bitmap, after the size is known.\<close>

abbreviation hwa_inu_bitmap_size :: "'a phymm_scheme \<Rightarrow> u32" where
  "hwa_inu_bitmap_size s \<equiv> hwas_ssize s div 8"

definition phymm_fill :: "'a phymm_scheme \<Rightarrow> 'a phymm_scheme option" where
  "phymm_fill s = do {
     let s1 = (if 128 < hwas_ssize s then s\<lparr>hwas_ssize := 128\<rparr> else s);
     let stack_start = hwas_bp s1;
     s2 \<leftarrow> for_loop 0 (unat (hwas_ssize s1))
             (\<lambda>i t. wr32 t (stack_start + 4 * word_of_nat i) (hwa_mmstart t + 4096 * word_of_nat i)) s1;
     let s3 = s2\<lparr>hwas_sp := hwas_bp s2 + 4 * hwas_ssize s2 - 4\<rparr>;
     let s4 = s3\<lparr>hwa_inu_bitmap := bitmap_base (hwas_sp s3)\<rparr>;
     s5 \<leftarrow> for_loop 0 (unat (hwa_inu_bitmap_size s4))
             (\<lambda>i t. wr8 t (hwa_inu_bitmap t + word_of_nat i) (ucast PGFREE)) s4;
     Some (s5\<lparr>phymm_end := (hwa_inu_bitmap s5 + hwa_inu_bitmap_size s5 + 4096) AND NOT 0x3ff\<rparr>)
   }"

definition phymm_region :: "'a kheap_scheme \<Rightarrow> u32 \<Rightarrow> 'a kheap_scheme option" where
  "phymm_region s p = do {
     let kernel_size = kernel_end s - 0xc0100000 + 0x1000;
     base \<leftarrow> rd64 s (p + 4);
     len \<leftarrow> rd64 s (p + 12);
     let s1 = s\<lparr>hwa_mmstart := ucast base + kernel_size,
               hwas_ssize := ucast ((len - ucast kernel_size) div 4096)\<rparr>;
     s2 \<leftarrow> vga_print s1 (lit ''Using memory region of size (pages): '');
     len2 \<leftarrow> rd64 s2 (p + 12);
     s3 \<leftarrow> vga_puthex s2 (ucast (len2 div 4096));
     s4 \<leftarrow> vga_print s3 (lit '' at '');
     s5 \<leftarrow> vga_puthex s4 (hwa_mmstart s4);
     s6 \<leftarrow> vga_print s5 [13, 10];
     phymm_fill s6
   }"

text \<open>\<open>_print_mmap_entry\<close> returns at once.\<close>

definition print_mmap_entry :: "'a kheap_scheme \<Rightarrow> u32 \<Rightarrow> 'a kheap_scheme" where
  "print_mmap_entry s p = s"

partial_function (option) init_phymm_loop :: "'a kheap_scheme \<Rightarrow> u32 \<Rightarrow> (status_t \<times> 'a kheap_scheme) option" where
  "init_phymm_loop s p = do {
     let s1 = print_mmap_entry s p;
     base \<leftarrow> rd64 s1 (p + 4);
     type \<leftarrow> rd32 s1 (p + 20);
     if 0x100000 \<le> base \<and> type = 0x1 then do {
       s2 \<leftarrow> phymm_region s1 p;
       Some (STATUS_OK, s2)
     }
     else do {
       n \<leftarrow> rd32 s1 p;
       let p' = p + (n + 4);
       if p' \<le> bios_mmap_addr s1 + bios_mmap_len s1 then init_phymm_loop s1 p'
       else Some (STATUS_FAILED_INIT, s1)
     }
   }"

definition init_phymm :: "'a kheap_scheme \<Rightarrow> (status_t \<times> 'a kheap_scheme) option" where
  "init_phymm s = do {
     s1 \<leftarrow> vga_print s (lit ''Kernel ends at '');
     s2 \<leftarrow> vga_puthex s1 (kernel_end s1);
     s3 \<leftarrow> vga_print s2 [13, 10];
     init_phymm_loop s3 (bios_mmap_addr s3)
   }"

section \<open>Setting up the heap\<close>

definition init_virtmm :: "'a kheap_scheme \<Rightarrow> (status_t \<times> 'a kheap_scheme) option" where
  "init_virtmm s = do {
     (st, s1) \<leftarrow> init_kmalloc s kheap_start 0;
     s2 \<leftarrow> kguard s1 st;
     Some (STATUS_OK, s2)
   }"

section \<open>Drivers\<close>

text \<open>\<open>status\<close> of \<open>load_pci_drivers\<close> is set on every path.\<close>

definition intel_devices :: "u16 set" where
  "intel_devices = {0x1019, 0x101A, 0x1010, 0x1015, 0x1012, 0x101D, 0x1079, 0x107A,
     0x107B, 0x100F, 0x1011, 0x1026, 0x1027, 0x1028, 0x1107, 0x1112,
     0x1013, 0x1018, 0x1076, 0x1077, 0x1078, 0x1017, 0x1016, 0x100E}"

definition load_intel_devdrv ::
  "('a nic_scheme \<Rightarrow> 'a nic_scheme) \<Rightarrow> u32 \<Rightarrow> 'a nic_scheme \<Rightarrow> u32 \<Rightarrow> (status_t \<times> 'a nic_scheme) option" where
  "load_intel_devdrv hw tx_fn s dev = do {
     device_id \<leftarrow> rd16 s (dev + 6);
     if device_id \<in> intel_devices then do {
       (n, s1) \<leftarrow> kmalloc s 16;
       load_driver_eth_intel_8254x hw tx_fn (s1\<lparr>netcard1 := n\<rparr>) dev
     }
     else Some (STATUS_NO_DRIVER, s)
   }"

definition print_dev :: "'a nic_scheme \<Rightarrow> u8 list \<Rightarrow> u32 \<Rightarrow> 'a nic_scheme option" where
  "print_dev s fmt dev = do {
     bus \<leftarrow> rd8 s dev;
     slot \<leftarrow> rd8 s (dev + 1);
     func \<leftarrow> rd8 s (dev + 2);
     printk s fmt [ucast bus, ucast slot, ucast func]
   }"

definition load_pci_driver ::
  "('a nic_scheme \<Rightarrow> 'a nic_scheme) \<Rightarrow> u32 \<Rightarrow> 'a nic_scheme \<Rightarrow> u32 \<Rightarrow> 'a nic_scheme option" where
  "load_pci_driver hw tx_fn s dev = do {
     vendor_id \<leftarrow> rd16 s (dev + 4);
     (status, s1) \<leftarrow> (if vendor_id = 0x8086 then load_intel_devdrv hw tx_fn s dev
                     else Some (STATUS_NO_DRIVER, s));
     if status = STATUS_NO_DRIVER then
       print_dev s1 (lit ''No driver found for PCI[%d:%d](%d)...'' @ [10]) dev
     else if status \<noteq> STATUS_OK then
       print_dev s1 (lit ''Failed to initialize driver for PCI[%d:%d](%d)...'' @ [10]) dev
     else Some s1
   }"

text \<open>The loop compares with the current number of devices in every round.\<close>

partial_function (option) load_pci_loop ::
  "('a nic_scheme \<Rightarrow> 'a nic_scheme) \<Rightarrow> u32 \<Rightarrow> 'a nic_scheme \<Rightarrow> u32 \<Rightarrow> 'a nic_scheme option" where
  "load_pci_loop hw tx_fn s i =
     (if i < gpci_devs_n s then do {
        dev \<leftarrow> rd32 s (gpci_devs s + 4 * i);
        s1 \<leftarrow> load_pci_driver hw tx_fn s dev;
        load_pci_loop hw tx_fn s1 (i + 1)
      } else Some s)"

definition load_pci_drivers ::
  "('a nic_scheme \<Rightarrow> 'a nic_scheme) \<Rightarrow> u32 \<Rightarrow> 'a nic_scheme \<Rightarrow> (status_t \<times> 'a nic_scheme) option" where
  "load_pci_drivers hw tx_fn s = do { s1 \<leftarrow> load_pci_loop hw tx_fn s 0; Some (STATUS_OK, s1) }"

section \<open>The main program\<close>

text \<open>The keyboard handler, which nothing registers; the state in which it stays (\<open>KBREAK\<close>).\<close>

definition keypress :: "'a kheap_scheme \<Rightarrow> 'a kheap_scheme option" where
  "keypress s = do { s1 \<leftarrow> vga_clear s; vga_print s1 (lit ''Pressed a key!'') }"

text \<open>
  A guarded initialisation step: \<open>_kguard\<close> of its status.  The parameters stand for what the
  linker and the hardware give: the addresses of the trap handlers and of \<open>add_tx_buffer\<close>, the
  card, the contents of the stack.  The result is the state in which the program loops at
  its end (\<open>KBREAK\<close>).  The first part, up to the interrupt controllers, does not touch the bus.
\<close>

definition guarded :: "(status_t \<times> 'a kheap_scheme) option \<Rightarrow> 'a kheap_scheme option" where
  "guarded r = do { (st, s) \<leftarrow> r; kguard s st }"

definition kernel_init_base :: "(isr \<Rightarrow> u32) \<Rightarrow> 'a cpu_scheme \<Rightarrow> 'a cpu_scheme option" where
  "kernel_init_base isr_addr s = do {
     s1 \<leftarrow> guarded (Some (init_serial s));
     s2 \<leftarrow> vga_clear s1;
     s3 \<leftarrow> vga_print s2 (lit ''Booting OS2 written by tjz...'' @ [10, 13]);
     s4 \<leftarrow> guarded (init_phymm s3);
     s5 \<leftarrow> guarded (init_virtmm s4);
     s6 \<leftarrow> guarded (init_gdt s5);
     s7 \<leftarrow> guarded (init_idt s6);
     s8 \<leftarrow> guarded (init_cpu_traps isr_addr s7);
     guarded (Some (init_pic s8))
   }"

text \<open>The whole of \<open>kernel_init\<close>.\<close>

definition kernel_init ::
  "(isr \<Rightarrow> u32) \<Rightarrow> ('a nic_scheme \<Rightarrow> 'a nic_scheme) \<Rightarrow> u32 \<Rightarrow> u64 \<Rightarrow> 'a nic_scheme \<Rightarrow> 'a nic_scheme option" where
  "kernel_init isr_addr hw tx_fn garbage s = do {
     s9 \<leftarrow> kernel_init_base isr_addr s;
     s10 \<leftarrow> guarded (init_pci s9);
     let s11 = s10\<lparr>cpu_if := True\<rparr>;
     (_, s12) \<leftarrow> load_pci_drivers hw tx_fn s11;
     s13 \<leftarrow> vga_print s12 (lit ''This is string'');
     (p, s14) \<leftarrow> itoa s13 0xb23 16;
     s15 \<leftarrow> vga_print_ptr s14 p;
     s16 \<leftarrow> vga_print s15 [10, 13];
     m \<leftarrow> rd32 s16 (netcard1 s16 + 8);
     str \<leftarrow> rd32 s16 (m + 8);
     s17 \<leftarrow> printk s16 (lit ''Loaded netcard with MAC: %s'') [str];
     s18 \<leftarrow> netd_send_ipv4_arp_packet hw tx_fn garbage s17 (netcard1 s17) 0 0x123456 ARP_OP_REQ;
     s19 \<leftarrow> netd_send_ipv4_arp_packet hw tx_fn garbage s18 (netcard1 s18) 0 0x123456 ARP_OP_REQ;
     s20 \<leftarrow> netd_send_ipv4_arp_packet hw tx_fn garbage s19 (netcard1 s19) 0 0x123456 ARP_OP_REQ;
     printk s20 ([10] @ lit ''End of kernel'') []
   }"

end
