(* ===== verification/Layouts.thy ===== *)
theory Layouts
  imports BootNic Ranges Kernel
begin

text \<open>
  The structures of the headers as records, with their layout in memory as a C compiler for
  little-endian x86 chooses it; every field is aligned by itself, so packed or not makes no
  difference (the two table registers are padded to eight bytes after their six).  The operations
  work on the fields at their offsets; here is what the bytes mean.
\<close>

section \<open>Little-endian numbers\<close>

definition bytes48 :: "u64 \<Rightarrow> u8 list" where
  "bytes48 v = bytes32 (ucast v) @ bytes16 (ucast (drop_bit 32 v))"

definition bytes64 :: "u64 \<Rightarrow> u8 list" where
  "bytes64 v = bytes32 (ucast v) @ bytes32 (ucast (drop_bit 32 v))"

definition le16 :: "u8 list \<Rightarrow> nat \<Rightarrow> u16" where
  "le16 bs i = ucast (bs ! i) OR push_bit 8 (ucast (bs ! (i + 1)))"

definition le32 :: "u8 list \<Rightarrow> nat \<Rightarrow> u32" where
  "le32 bs i = cat32 (bs ! i) (bs ! (i + 1)) (bs ! (i + 2)) (bs ! (i + 3))"

definition le48 :: "u8 list \<Rightarrow> nat \<Rightarrow> 48 word" where
  "le48 bs i = ucast (le32 bs i) OR push_bit 32 (ucast (le16 bs (i + 4)))"

definition le64 :: "u8 list \<Rightarrow> nat \<Rightarrow> u64" where
  "le64 bs i = ucast (le32 bs i) OR push_bit 32 (ucast (le32 bs (i + 4)))"

lemma length_bytes48 [simp]: "length (bytes48 v) = 6"
  by (simp add: bytes48_def)

lemma length_bytes64 [simp]: "length (bytes64 v) = 8"
  by (simp add: bytes64_def)

lemma join16: "ucast (ucast v :: u8) OR push_bit 8 (ucast (ucast (drop_bit 8 v) :: u8)) = v" for v :: u16
  by (rule bit_word_eqI) (auto simp: bit_simps dest: bit_imp_le_length)

lemma join48: "ucast (ucast (ucast v :: u64) :: u32) OR push_bit 32 (ucast (ucast (drop_bit 32 (ucast v :: u64)) :: u16)) = v"
  for v :: "48 word"
  by (rule bit_word_eqI) (auto simp: bit_simps dest: bit_imp_le_length)

lemma join64: "ucast (ucast v :: u32) OR push_bit 32 (ucast (ucast (drop_bit 32 v) :: u32)) = v" for v :: u64
  by (rule bit_word_eqI) (auto simp: bit_simps dest: bit_imp_le_length)

lemma status_nibbles: "ucast (ucast a OR push_bit 4 (ucast b) :: u8) = a"
    "ucast (drop_bit 4 (ucast a) OR drop_bit 4 (push_bit 4 (ucast b)) :: u8) = b"
  for a b :: "4 word"
  by (rule bit_word_eqI; auto simp: bit_simps dest: bit_imp_le_length)+

lemmas bytes_defs = bytes16_def bytes32_def bytes48_def bytes64_def
lemmas le_defs = le16_def le32_def le48_def le64_def
lemmas joins = join16 join48 join64 status_nibbles

section \<open>Layouts\<close>

text \<open>What a reader of a structure relies on: its size, and that its fields come back as they were put.\<close>

locale layout =
  fixes encode :: "'r \<Rightarrow> u8 list" and decode :: "u8 list \<Rightarrow> 'r" and bytes :: nat
  assumes length_encode: "length (encode r) = bytes" and small: "bytes \<le> 4096"
    and decode_encode: "decode (encode r) = r"
begin

text \<open>A structure that is stored to memory is loaded as it was, and two different ones differ in memory.\<close>

lemma store_load:
  assumes "data_range s p bytes"
  shows "\<exists>t. wrn s p (encode r) = Some t \<and> map_option decode (rdn t p bytes) = Some r"
proof -
  have d: "data_range s p (length (encode r))" using assms by (simp add: length_encode)
  show ?thesis using wrn_data [OF d] rdn_stn_same [OF d] small by (simp add: length_encode decode_encode)
qed

lemma encode_inject: "encode r = encode r' \<longleftrightarrow> r = r'"
  using decode_encode by metis

end

section \<open>The structures\<close>

text \<open>\<open>struct _malloc_h\<close> of \<open>kmalloc.h\<close>.\<close>

record malloc_h =
  mh_free :: u32
  mh_magic :: u32
  mh_next_block :: u32
  mh_prev_block :: u32
  mh_size :: u32

definition enc_malloc_h :: "malloc_h \<Rightarrow> u8 list" where
  "enc_malloc_h r = bytes32 (mh_free r) @ bytes32 (mh_magic r) @ bytes32 (mh_next_block r) @
     bytes32 (mh_prev_block r) @ bytes32 (mh_size r)"

definition dec_malloc_h :: "u8 list \<Rightarrow> malloc_h" where
  "dec_malloc_h bs = \<lparr>mh_free = le32 bs 0, mh_magic = le32 bs 4, mh_next_block = le32 bs 8,
     mh_prev_block = le32 bs 12, mh_size = le32 bs 16\<rparr>"

text \<open>\<open>struct bios_mmap_entry\<close> of \<open>phy-mm.h\<close>.\<close>

record bios_mmap_entry =
  be_entry_size :: u32
  be_base_addr :: u64
  be_length :: u64
  be_type :: u32

definition enc_bios_mmap_entry :: "bios_mmap_entry \<Rightarrow> u8 list" where
  "enc_bios_mmap_entry r = bytes32 (be_entry_size r) @ bytes64 (be_base_addr r) @ bytes64 (be_length r) @ bytes32 (be_type r)"

definition dec_bios_mmap_entry :: "u8 list \<Rightarrow> bios_mmap_entry" where
  "dec_bios_mmap_entry bs = \<lparr>be_entry_size = le32 bs 0, be_base_addr = le64 bs 4, be_length = le64 bs 12, be_type = le32 bs 20\<rparr>"

text \<open>\<open>struct idt_entry\<close> of \<open>idt.h\<close>; \<open>struct idtr\<close> of \<open>idt.h\<close> and \<open>struct gdtr\<close> of \<open>gdt.h\<close> (alike).\<close>

record idt_entry =
  ie_offset_1 :: u16
  ie_selector :: u16
  ie_zero :: u8
  ie_type_attr :: u8
  ie_offset_2 :: u16

definition enc_idt_entry :: "idt_entry \<Rightarrow> u8 list" where
  "enc_idt_entry r = bytes16 (ie_offset_1 r) @ bytes16 (ie_selector r) @ [ie_zero r, ie_type_attr r] @ bytes16 (ie_offset_2 r)"

definition dec_idt_entry :: "u8 list \<Rightarrow> idt_entry" where
  "dec_idt_entry bs = \<lparr>ie_offset_1 = le16 bs 0, ie_selector = le16 bs 2, ie_zero = bs ! 4, ie_type_attr = bs ! 5, ie_offset_2 = le16 bs 6\<rparr>"

record idtr =
  tr_limit :: u16
  tr_base :: u32

type_synonym gdtr = idtr

definition enc_idtr :: "idtr \<Rightarrow> u8 list" where
  "enc_idtr r = bytes16 (tr_limit r) @ bytes32 (tr_base r)"

definition dec_idtr :: "u8 list \<Rightarrow> idtr" where
  "dec_idtr bs = \<lparr>tr_limit = le16 bs 0, tr_base = le32 bs 2\<rparr>"

text \<open>\<open>struct gpci_dev\<close> and \<open>struct netdev\<close> of \<open>devices.h\<close>.\<close>

record gpci_dev =
  gd_bus :: u8
  gd_slot :: u8
  gd_func :: u8
  gd_header_typ :: u8
  gd_vendor_id :: u16
  gd_device_id :: u16
  gd_mainclass :: u32

definition enc_gpci_dev :: "gpci_dev \<Rightarrow> u8 list" where
  "enc_gpci_dev r = [gd_bus r, gd_slot r, gd_func r, gd_header_typ r] @ bytes16 (gd_vendor_id r) @ bytes16 (gd_device_id r) @
     bytes32 (gd_mainclass r)"

definition dec_gpci_dev :: "u8 list \<Rightarrow> gpci_dev" where
  "dec_gpci_dev bs = \<lparr>gd_bus = bs ! 0, gd_slot = bs ! 1, gd_func = bs ! 2, gd_header_typ = bs ! 3, gd_vendor_id = le16 bs 4,
     gd_device_id = le16 bs 6, gd_mainclass = le32 bs 8\<rparr>"

record netdev =
  nd_write_partial_packet :: u32
  nd_pcidev :: u32
  nd_mac_addr :: u32
  nd_ip_addr :: u32

definition enc_netdev :: "netdev \<Rightarrow> u8 list" where
  "enc_netdev r = bytes32 (nd_write_partial_packet r) @ bytes32 (nd_pcidev r) @ bytes32 (nd_mac_addr r) @ bytes32 (nd_ip_addr r)"

definition dec_netdev :: "u8 list \<Rightarrow> netdev" where
  "dec_netdev bs = \<lparr>nd_write_partial_packet = le32 bs 0, nd_pcidev = le32 bs 4, nd_mac_addr = le32 bs 8, nd_ip_addr = le32 bs 12\<rparr>"

text \<open>\<open>struct mac_addr\<close>, \<open>struct ip_addr\<close>, \<open>struct eth_header\<close>, \<open>struct arp_frame\<close> of \<open>netdev.h\<close>.\<close>

record mac_addr =
  ma_bytes :: "48 word"
  ma_reserved :: u16
  ma_str :: u32

definition enc_mac_addr :: "mac_addr \<Rightarrow> u8 list" where
  "enc_mac_addr r = bytes48 (ucast (ma_bytes r)) @ bytes16 (ma_reserved r) @ bytes32 (ma_str r)"

definition dec_mac_addr :: "u8 list \<Rightarrow> mac_addr" where
  "dec_mac_addr bs = \<lparr>ma_bytes = le48 bs 0, ma_reserved = le16 bs 6, ma_str = le32 bs 8\<rparr>"

record ip_addr =
  ia_bytes :: u32
  ia_str :: u32

definition enc_ip_addr :: "ip_addr \<Rightarrow> u8 list" where
  "enc_ip_addr r = bytes32 (ia_bytes r) @ bytes32 (ia_str r)"

definition dec_ip_addr :: "u8 list \<Rightarrow> ip_addr" where
  "dec_ip_addr bs = \<lparr>ia_bytes = le32 bs 0, ia_str = le32 bs 4\<rparr>"

record eth_header =
  eh_dst :: "48 word"
  eh_src :: "48 word"
  eh_type :: u16

definition enc_eth_header :: "eth_header \<Rightarrow> u8 list" where
  "enc_eth_header r = bytes48 (ucast (eh_dst r)) @ bytes48 (ucast (eh_src r)) @ bytes16 (eh_type r)"

definition dec_eth_header :: "u8 list \<Rightarrow> eth_header" where
  "dec_eth_header bs = \<lparr>eh_dst = le48 bs 0, eh_src = le48 bs 6, eh_type = le16 bs 12\<rparr>"

record arp_frame =
  af_htype :: u16
  af_ptype :: u16
  af_hlen :: u8
  af_plen :: u8
  af_operation :: u16
  af_sender_hwaddr :: "48 word"
  af_sender_paddr :: u32
  af_target_hwaddr :: "48 word"
  af_target_paddr :: u32

definition enc_arp_frame :: "arp_frame \<Rightarrow> u8 list" where
  "enc_arp_frame r = bytes16 (af_htype r) @ bytes16 (af_ptype r) @ [af_hlen r, af_plen r] @ bytes16 (af_operation r) @
     bytes48 (ucast (af_sender_hwaddr r)) @ bytes32 (af_sender_paddr r) @
     bytes48 (ucast (af_target_hwaddr r)) @ bytes32 (af_target_paddr r)"

definition dec_arp_frame :: "u8 list \<Rightarrow> arp_frame" where
  "dec_arp_frame bs = \<lparr>af_htype = le16 bs 0, af_ptype = le16 bs 2, af_hlen = bs ! 4, af_plen = bs ! 5, af_operation = le16 bs 6,
     af_sender_hwaddr = le48 bs 8, af_sender_paddr = le32 bs 14, af_target_hwaddr = le48 bs 18, af_target_paddr = le32 bs 24\<rparr>"

text \<open>\<open>struct tdesc\<close> of \<open>driver/intel_8254x.h\<close>.\<close>

record tdesc =
  td_buffer :: u64
  td_length :: u16
  td_cso :: u8
  td_cmd :: u8
  td_sta :: "4 word"
  td_rsv :: "4 word"
  td_css :: u8
  td_special :: u16

definition enc_tdesc :: "tdesc \<Rightarrow> u8 list" where
  "enc_tdesc r = bytes64 (td_buffer r) @ bytes16 (td_length r) @ [td_cso r, td_cmd r, ucast (td_sta r) OR push_bit 4 (ucast (td_rsv r)), td_css r] @
     bytes16 (td_special r)"

definition dec_tdesc :: "u8 list \<Rightarrow> tdesc" where
  "dec_tdesc bs = \<lparr>td_buffer = le64 bs 0, td_length = le16 bs 8, td_cso = bs ! 10, td_cmd = bs ! 11, td_sta = ucast (bs ! 12),
     td_rsv = ucast (drop_bit 4 (bs ! 12)), td_css = bs ! 13, td_special = le16 bs 14\<rparr>"

lemmas enc_defs = enc_malloc_h_def enc_bios_mmap_entry_def enc_idt_entry_def enc_idtr_def enc_gpci_dev_def enc_netdev_def
  enc_mac_addr_def enc_ip_addr_def enc_eth_header_def enc_arp_frame_def enc_tdesc_def
lemmas dec_defs = dec_malloc_h_def dec_bios_mmap_entry_def dec_idt_entry_def dec_idtr_def dec_gpci_dev_def dec_netdev_def
  dec_mac_addr_def dec_ip_addr_def dec_eth_header_def dec_arp_frame_def dec_tdesc_def
lemmas layout_eval = enc_defs dec_defs bytes_defs le_defs joins

interpretation malloc_h: layout enc_malloc_h dec_malloc_h 20 by unfold_locales (simp_all add: layout_eval)
interpretation bios_mmap_entry: layout enc_bios_mmap_entry dec_bios_mmap_entry 24 by unfold_locales (simp_all add: layout_eval)
interpretation idt_entry: layout enc_idt_entry dec_idt_entry 8 by unfold_locales (simp_all add: layout_eval)
interpretation idtr: layout enc_idtr dec_idtr 6 by unfold_locales (simp_all add: layout_eval)
interpretation gpci_dev: layout enc_gpci_dev dec_gpci_dev 12 by unfold_locales (simp_all add: layout_eval)
interpretation netdev: layout enc_netdev dec_netdev 16 by unfold_locales (simp_all add: layout_eval)
interpretation mac_addr: layout enc_mac_addr dec_mac_addr 12 by unfold_locales (simp_all add: layout_eval)
interpretation ip_addr: layout enc_ip_addr dec_ip_addr 8 by unfold_locales (simp_all add: layout_eval)
interpretation eth_header: layout enc_eth_header dec_eth_header 14 by unfold_locales (simp_all add: layout_eval)
interpretation arp_frame: layout enc_arp_frame dec_arp_frame 28 by unfold_locales (simp_all add: layout_eval)
interpretation tdesc: layout enc_tdesc dec_tdesc 16 by unfold_locales (simp_all add: layout_eval)

section \<open>Where the code looks\<close>

text \<open>What a load at an offset yields, in terms of the bytes of the structure.\<close>

lemma load_le32: "rdn s p n = Some xs \<Longrightarrow> off + 4 \<le> n \<Longrightarrow> a = p + word_of_nat off \<Longrightarrow> rd32 s a = Some (le32 xs off)"
  by (simp add: range_rd32 le32_def)

lemma load_le16:
  assumes "rdn s p n = Some xs" and "length xs = n" and "off + 2 \<le> n" and "a = p + word_of_nat off"
  shows "rd16 s a = Some (le16 xs off)"
  using rdn_part [OF assms(1,3,2)] assms(2-4) by (simp add: rd16_def le16_def)

lemma load_le64:
  assumes "rdn s p n = Some xs" and "off + 8 \<le> n" and "a = p + word_of_nat off"
  shows "rd64 s a = Some (le64 xs off)"
  using load_le32 [OF assms(1), of off a] load_le32 [OF assms(1), of "off + 4" "a + 4"] assms(2,3)
  by (simp add: rd64_def le64_def add.assoc)

lemma load_le48:
  assumes "rdn s p n = Some xs" and "length xs = n" and "off + 6 \<le> n" and "a = p + word_of_nat off"
  shows "rd48 s a = Some (ucast (le48 xs off))"
proof -
  have "ucast (le48 xs off) = (ucast (le32 xs off) OR push_bit 32 (ucast (le16 xs (off + 4))) :: u64)"
    unfolding le48_def by (rule bit_word_eqI) (auto simp: bit_simps dest: bit_imp_le_length)
  moreover have "rd32 s a = Some (le32 xs off)" "rd16 s (a + 4) = Some (le16 xs (off + 4))"
    using load_le32 [OF assms(1), of off a] load_le16 [OF assms(1,2), of "off + 4" "a + 4"] assms(3,4) by (simp_all add: add.assoc)
  ultimately show ?thesis by (simp add: rd48_def)
qed

lemmas loads = load_le16 load_le32 load_le48 load_le64

text \<open>A stored structure is in memory as its layout says.\<close>

lemma struct_stored:
  assumes "data_range s p n" and "n \<le> 4096" and "length bs \<le> n"
  obtains t where "wrn s p bs = Some t" and "rdn t p (length bs) = Some bs"
proof -
  have d: "data_range s p (length bs)" using assms(1,3) by (rule data_range_sub)
  show ?thesis by (rule that [OF wrn_data [OF d] rdn_stn_same [OF d]]) (use assms in simp)
qed

lemma malloc_h_fields:
  assumes "rdn t p 20 = Some (enc_malloc_h h)"
  shows "rd32 t (blk_free p) = Some (mh_free h) \<and> rd32 t (blk_magic p) = Some (mh_magic h) \<and>
    rd32 t (blk_next p) = Some (mh_next_block h) \<and> rd32 t (blk_prev p) = Some (mh_prev_block h) \<and>
    rd32 t (blk_size p) = Some (mh_size h)"
proof -
  note r = load_le32 [OF assms]
  show ?thesis
    using malloc_h.decode_encode [of h] r [of 0 p] r [of 4 "p + 4"] r [of 8 "p + 8"] r [of 12 "p + 12"] r [of 16 "p + 16"]
    by (cases h) (auto simp: dec_malloc_h_def blk_field_defs)
qed

lemma bios_mmap_entry_fields:
  assumes "rdn t p 24 = Some (enc_bios_mmap_entry e)"
  shows "rd32 t p = Some (be_entry_size e) \<and> rd64 t (p + 4) = Some (be_base_addr e) \<and>
    rd64 t (p + 12) = Some (be_length e) \<and> rd32 t (p + 20) = Some (be_type e)"
proof -
  note r = load_le32 [OF assms] and r64 = load_le64 [OF assms]
  show ?thesis
    using bios_mmap_entry.decode_encode [of e] r [of 0 p] r64 [of 4 "p + 4"] r64 [of 12 "p + 12"] r [of 20 "p + 20"]
    by (cases e) (auto simp: dec_bios_mmap_entry_def)
qed

lemma gpci_dev_fields:
  assumes "rdn t p 12 = Some (enc_gpci_dev d)"
  shows "rd16 t (p + 4) = Some (gd_vendor_id d) \<and> rd16 t (p + 6) = Some (gd_device_id d) \<and>
    rd32 t (p + 8) = Some (gd_mainclass d)"
proof -
  note r = load_le32 [OF assms] and r16 = load_le16 [OF assms gpci_dev.length_encode]
  show ?thesis
    using gpci_dev.decode_encode [of d] r16 [of 4 "p + 4"] r16 [of 6 "p + 6"] r [of 8 "p + 8"]
    by (cases d) (auto simp: dec_gpci_dev_def)
qed

lemma netdev_fields:
  assumes "rdn t p 16 = Some (enc_netdev n)"
  shows "rd32 t p = Some (nd_write_partial_packet n) \<and> rd32 t (p + 4) = Some (nd_pcidev n) \<and>
    rd32 t (p + 8) = Some (nd_mac_addr n) \<and> rd32 t (p + 12) = Some (nd_ip_addr n)"
proof -
  note r = load_le32 [OF assms]
  show ?thesis
    using netdev.decode_encode [of n] r [of 0 p] r [of 4 "p + 4"] r [of 8 "p + 8"] r [of 12 "p + 12"]
    by (cases n) (auto simp: dec_netdev_def)
qed

lemma mac_addr_fields:
  assumes "rdn t p 12 = Some (enc_mac_addr m)"
  shows "rd48 t p = Some (ucast (ma_bytes m)) \<and> rd32 t (p + 8) = Some (ma_str m)"
proof -
  note r = load_le32 [OF assms] and r48 = load_le48 [OF assms mac_addr.length_encode]
  show ?thesis
    using mac_addr.decode_encode [of m] r48 [of 0 p] r [of 8 "p + 8"] by (cases m) (auto simp: dec_mac_addr_def)
qed

end
