(* ===== verification/PagingTrace.thy ===== *)
theory PagingTrace
  imports PagingProps KHeap
begin

text \<open>
  The paging service over time: the kernel's requests for frames and mappings
  (\<open>hwpalloc\<close>, \<open>mapfr\<close>, \<open>mmap\<close>), the stores of its programs and the processor, which fills and drops
  its cache of translations whenever it likes, in any order.
\<close>

section \<open>Events\<close>

text \<open>\<open>w\<close> is the number of the first frame that the allocator grants.\<close>

datatype vm_event = Alloc u16 nat | Map u32 u32 | Mmap u32 u32 nat | Put u32 "u8 list" | Fill u32 | Drop u32 | Flush

inductive vm_step :: "'a virtmm_scheme \<Rightarrow> vm_event \<Rightarrow> 'a virtmm_scheme \<Rightarrow> bool" where
  alloc: "vm_step s (Alloc n w) s'"
    if "alloc_spec (nframes s) (used_set s) (stack_top s) (unat n) = Some (w, U, t)"
      and "hwpalloc s n = Some (a, s')"
| map: "vm_step s (Map hw lg) s'"
    if "\<not> in_window lg" and "walk s lg = None" and "spare s (page hw)" and "table_ok s (pd_index lg) U t"
      and "mapfr s hw lg = Some s'"
| mmap: "vm_step s (Mmap addr len w) s'"
    if "mmap_ok s addr len w U t" and "mmap s addr len = Some (r, s')"
| put: "vm_step s (Put a bs) s'"
    if "clear_range s a (length bs)" and "length bs \<le> 4294967296" and "wrn s a bs = Some s'"
| fill: "vm_step s (Fill a) (s\<lparr>tlb := (tlb s)(page a \<mapsto> f)\<rparr>)" if "walk s a = Some f"
| drop: "vm_step s (Drop a) (invlpg s a)"
| flush: "vm_step s Flush (flush_all_tlb s)"

inductive vm_run :: "'a virtmm_scheme \<Rightarrow> vm_event list \<Rightarrow> 'a virtmm_scheme \<Rightarrow> bool" for s where
  start: "vm_run s [] s"
| step: "vm_run s (es @ [e]) s2" if "vm_run s es s1" and "vm_step s1 e s2"

text \<open>What an event does to the map from pages to frames, and where it stores.\<close>

fun remap :: "(nat \<Rightarrow> u32) \<Rightarrow> (u32 \<rightharpoonup> u32) \<Rightarrow> vm_event \<Rightarrow> (u32 \<rightharpoonup> u32)" where
  "remap F m (Map hw lg) = m(page lg \<mapsto> page hw)"
| "remap F m (Mmap addr len w) = m ++ map_of (map (\<lambda>k. (page (nth_page addr k), F (w + k))) [0..<npages len])"
| "remap F m e = m"

fun stores :: "vm_event \<Rightarrow> u32 set" where
  "stores (Put a bs) = {a + word_of_nat k | k. k < length bs}"
| "stores e = {}"

text \<open>The state maps pages as \<open>m\<close> says, outside the window; what every event keeps, beside the invariants.\<close>

definition maps_as :: "'a virtmm_scheme \<Rightarrow> (u32 \<rightharpoonup> u32) \<Rightarrow> bool" where
  "maps_as s m \<longleftrightarrow> (\<forall>a. \<not> in_window a \<longrightarrow> walk s a = m (page a))"

text \<open>
  The frames that the code hands out in a step from \<open>s\<close> to \<open>s'\<close>, read off what it returns and leaves: the run of
  frames at the address that \<open>hwpalloc\<close> returns; the frames to which the pages lead after \<open>mmap\<close>;
  and for \<open>mmap\<close> and \<open>mapfr\<close> every frame that has become a page table.
\<close>

definition new_tables :: "'a machine_scheme \<Rightarrow> 'a machine_scheme \<Rightarrow> u32 set" where
  "new_tables s s' = {f. is_table s' f \<and> \<not> is_table s f}"

fun taken :: "'a virtmm_scheme \<Rightarrow> vm_event \<Rightarrow> 'a virtmm_scheme \<Rightarrow> u32 set" where
  "taken s (Alloc n w) s' =
     (case hwpalloc s n of Some (a, t) \<Rightarrow> (\<lambda>k. page (nth_page a k)) ` {0..<unat n} | None \<Rightarrow> {})"
| "taken s (Mmap addr len w) s' =
     {f. \<exists>k<npages len. walk s' (nth_page addr k) = Some f} \<union> new_tables s s'"
| "taken s (Map hw lg) s' = new_tables s s'"
| "taken s e s' = {}"

definition in_use :: "'a virtmm_scheme \<Rightarrow> u32 set" where
  "in_use s = frame_no s ` used_set s"

text \<open>A run with the frames taken in each of its steps.\<close>

inductive vm_log :: "'a virtmm_scheme \<Rightarrow> vm_event list \<Rightarrow> u32 set list \<Rightarrow> 'a virtmm_scheme \<Rightarrow> bool" for s where
  log_start: "vm_log s [] [] s"
| log_step: "vm_log s (es @ [e]) (gs @ [taken s1 e s2]) s2" if "vm_log s es gs s1" and "vm_step s1 e s2"

lemma run_log: "vm_run s es s' \<Longrightarrow> \<exists>gs. vm_log s es gs s'"
  by (induction rule: vm_run.induct) (blast intro: log_start log_step)+

lemma log_run: "vm_log s es gs s' \<Longrightarrow> vm_run s es s' \<and> length gs = length es"
  by (induction rule: vm_log.induct) (auto intro: vm_run.intros)

definition evolves :: "'a virtmm_scheme \<Rightarrow> vm_event \<Rightarrow> 'a virtmm_scheme \<Rightarrow> bool" where
  "evolves s e s' \<longleftrightarrow> vm_wf s' \<and> frame_no s' = frame_no s \<and> bm_vaddr s' = bm_vaddr s \<and>
     (\<forall>m. maps_as s m \<longrightarrow> maps_as s' (remap (frame_no s) m e)) \<and>
     used_set s \<subseteq> used_set s' \<and> taken s e s' \<subseteq> frame_no s ` (used_set s' - used_set s) \<and>
     (\<forall>b. data s b \<longrightarrow> data s' b \<and> (\<not> bm_vaddr s b \<and> b \<notin> stores e \<longrightarrow> rd8 s' b = rd8 s b))"

section \<open>Every event evolves the state\<close>

lemma phymm_top: "vm_wf s \<Longrightarrow> stack_top s < nframes s" and phymm_ok: "vm_wf s \<Longrightarrow> phymm_static s"
  by (simp_all add: vm_wf_def phymm_wf_def)

lemma evolves_keep:
  assumes "vm_wf s'" and "vm_keep s s'" and "\<And>m. maps_as s m \<Longrightarrow> maps_as s' (remap (frame_no s) m e)"
    and "used_set s \<subseteq> used_set s'" and "taken s e s' \<subseteq> frame_no s ` (used_set s' - used_set s)"
  shows "evolves s e s'"
  using assms vm_only_fields(14,16) [of s s'] by (simp add: evolves_def vm_keep_def)

lemma evolves_alloc:
  fixes s :: "'a virtmm_scheme"
  assumes wf: "vm_wf s" and sp: "alloc_spec (nframes s) (used_set s) (stack_top s) (unat n) = Some (w, U, t)"
    and run: "hwpalloc s n = Some (a, s')"
  shows "evolves s (Alloc n w) s'"
proof -
  have phy: "phymm_wf s" using wf by (simp add: vm_wf_def)
  note aw = alloc_spec_window [OF sp phymm_top [OF wf]]
  have 1: "phymm_wf s'" "bm_only s s'" "used_set s' = U" using hwpalloc_refines [OF phy sp] run by auto
  have u: "used_set s \<union> {w..<w + unat n} \<subseteq> used_set s'" using aw(4) 1(3) by simp
  have a: "a = frame_addr s w" using hwpalloc_refines [OF phy sp] run by auto
  have "page (nth_page a k) = frame_no s (w + k)" for k
    by (simp add: a nth_page_def frame_addr_def frame_no_def algebra_simps)
  then have "taken s (Alloc n w) s' \<subseteq> frame_no s ` {w..<w + unat n}" using run by auto
  moreover have "{w..<w + unat n} \<subseteq> used_set s' - used_set s" using u aw(3) by blast
  ultimately have tk: "taken s (Alloc n w) s' \<subseteq> frame_no s ` (used_set s' - used_set s)" by blast
  have "vm_wf s'" by (rule bm_only_vm_wf [OF wf 1(2,1)]) (use u in simp)
  then show ?thesis
    by (rule evolves_keep [OF _ bm_only_vm_keep [OF phymm_ok [OF wf] 1(2)] _ _ tk])
      (use u bm_only_tables(1) [OF phymm_ok [OF wf] 1(2)] in \<open>simp_all add: maps_as_def\<close>)
qed

lemma tables_from_new: "tables_from s (used_set s') s' \<Longrightarrow> new_tables s s' \<subseteq> frame_no s ` (used_set s' - used_set s)"
  by (auto simp: tables_from_def new_tables_def)

lemma evolves_map:
  fixes s :: "'a virtmm_scheme"
  assumes wf: "vm_wf s" and ok: "\<not> in_window lg" "walk s lg = None" "spare s (page hw)" "table_ok s (pd_index lg) U t"
    and run: "mapfr s hw lg = Some s'"
  shows "evolves s (Map hw lg) s'"
proof -
  obtain s1 where 1: "mapfr s hw lg = Some s1" "vm_wf s1" "vm_keep s s1" "used_set s1 = U"
    "\<forall>a. \<not> in_window a \<longrightarrow> walk s1 a = (if page a = page lg then Some (page hw) else walk s a)"
    "tables_from s U s1"
    by (rule mapfr_spec [OF wf ok])
  have e: "s1 = s'" using 1(1) run by simp
  show ?thesis
    by (rule evolves_keep [OF 1(2,3) [unfolded e]])
      (use 1(4-6) tables_from_new [of s s1] in \<open>simp_all add: e maps_as_def tables_from_def\<close>)
qed

lemma remap_in:
  assumes "n < 1048576" and "k < n"
  shows "map_of (map (\<lambda>k. (page (nth_page addr k), F (w + k))) [0..<n]) (page (nth_page addr k)) = Some (F (w + k))"
proof (rule map_of_is_SomeI)
  show "distinct (map fst (map (\<lambda>k. (page (nth_page addr k), F (w + k))) [0..<n]))"
    using nth_page_inj assms(1) by (auto simp: comp_def distinct_map inj_on_def)
qed (use assms(2) in auto)

lemma remap_out:
  "\<forall>k<n. p \<noteq> page (nth_page addr k) \<Longrightarrow> map_of (map (\<lambda>k. (page (nth_page addr k), F (w + k))) [0..<n]) p = None"
  by (auto simp: map_of_eq_None_iff)

lemma mmap_window:
  assumes ok: "mmap_ok s addr len w U t" and top: "stack_top s < nframes s"
  shows "npages len < 65536" and "{w..<w + npages len} \<inter> used_set s = {}" and "{w..<w + npages len} \<subseteq> U"
proof -
  obtain U1 t1 where o: "alloc_spec (nframes s) (used_set s) (stack_top s) (npages len) = Some (w, U1, t1)"
    and tab: "if present (pde s (pd_index addr)) then U = U1 \<and> t = t1
         else \<exists>m. alloc_spec (nframes s) U1 t1 1 = Some (m, U, t)"
    using ok unfolding mmap_ok_def by blast
  note aw = alloc_spec_window [OF o top]
  show "npages len < 65536" using ok by (simp add: mmap_ok_def)
  show "{w..<w + npages len} \<inter> used_set s = {}" by (rule aw(3))
  have "U1 \<subseteq> U"
    using tab alloc_spec_window(4) [of "nframes s" U1 t1 1 _ U t] aw(5) top by (auto split: if_splits)
  then show "{w..<w + npages len} \<subseteq> U" using aw(4) by blast
qed

lemma evolves_mmap:
  fixes s :: "'a virtmm_scheme"
  assumes wf: "vm_wf s" and ok: "mmap_ok s addr len w U t" and run: "mmap s addr len = Some (r, s')"
  shows "evolves s (Mmap addr len w) s'"
proof -
  obtain s1 where 1: "mmap s addr len = Some (STATUS_OK, s1)" "vm_wf s1" "vm_keep s s1" "used_set s1 = U"
    and in1: "\<forall>k<npages len. \<forall>a. page a = page (nth_page addr k) \<longrightarrow> walk s1 a = Some (frame_no s (w + k)) \<and> data s1 a"
    and out1: "\<forall>a. \<not> in_window a \<and> (\<forall>k<npages len. page a \<noteq> page (nth_page addr k)) \<longrightarrow> walk s1 a = walk s a"
    and tf: "tables_from s U s1"
    by (rule mmap_spec [OF wf ok])
  have e: "s' = s1" using 1(1) run by simp
  note g = mmap_window [OF ok phymm_top [OF wf]]
  have n: "npages len < 1048576" using g(1) by simp
  have "maps_as s1 (remap (frame_no s) m (Mmap addr len w))" if m: "maps_as s m" for m
    unfolding maps_as_def
  proof (intro allI impI)
    fix a assume a: "\<not> in_window a"
    show "walk s1 a = remap (frame_no s) m (Mmap addr len w) (page a)"
    proof (cases "\<exists>k<npages len. page a = page (nth_page addr k)")
      case True
      then obtain k where k: "k < npages len" "page a = page (nth_page addr k)" by blast
      then show ?thesis using in1 remap_in [OF n k(1), of addr "frame_no s" w] by (simp add: map_add_def)
    next
      case False
      then show ?thesis
        using out1 a m remap_out [of "npages len" "page a" addr "frame_no s" w] by (simp add: map_add_def maps_as_def)
    qed
  qed
  moreover have "taken s (Mmap addr len w) s1 \<subseteq> frame_no s ` (used_set s1 - used_set s)"
  proof -
    have "f \<in> frame_no s ` {w..<w + npages len}" if "walk s1 (nth_page addr k) = Some f" "k < npages len" for f k
      using in1 that by auto
    moreover have "{w..<w + npages len} \<subseteq> used_set s1 - used_set s" using g(2,3) 1(4) by blast
    moreover have "new_tables s s1 \<subseteq> frame_no s ` (used_set s1 - used_set s)"
      by (rule tables_from_new) (use tf 1(4) in simp)
    ultimately show ?thesis unfolding taken.simps by blast
  qed
  moreover have "used_set s \<subseteq> used_set s1" using tf by (simp add: tables_from_def)
  ultimately show ?thesis unfolding e by (intro evolves_keep [OF 1(2,3)])
qed

lemma evolves_put:
  fixes s :: "'a virtmm_scheme"
  assumes wf: "vm_wf s" and c: "clear_range s a (length bs)" "length bs \<le> 4294967296" and run: "wrn s a bs = Some s'"
  shows "evolves s (Put a bs) s'"
proof -
  have d: "data_range s a (length bs)" using c(1) by (simp add: clear_range_def)
  have e: "s' = stn s a bs" using run wrn_data [OF d] by simp
  note st = stn_vm_wf [OF wf c] and tb = stn_tables [OF d]
  have "rd8 s' b = rd8 s b" if "b \<notin> stores (Put a bs)" "data s b" for b
  proof -
    have "\<not> unat (b - a) < length bs"
    proof
      assume "unat (b - a) < length bs"
      moreover have "b = a + word_of_nat (unat (b - a))" by simp
      ultimately show False using that(1) by auto
    qed
    then show ?thesis using data_not_shadow [OF that(2)] by (simp add: e rd8_stn [OF d c(2)])
  qed
  moreover have "bm_vaddr s' = bm_vaddr s" by (simp add: e bm_vaddr_def fun_eq_iff)
  ultimately show ?thesis
    using st tb(1) data_stn [OF d] by (simp add: evolves_def e maps_as_def)
qed

lemma evolves_tlb:
  fixes s :: "'a virtmm_scheme"
  assumes wf: "vm_wf s" and ok: "tlb_ok (s\<lparr>tlb := t\<rparr>)" and e: "taken s e (s\<lparr>tlb := t\<rparr>) = {}" "\<And>m. remap (frame_no s) m e = m"
  shows "evolves s e (s\<lparr>tlb := t\<rparr>)"
  using tlb_change [OF wf ok] e by (simp add: evolves_def maps_as_def)

lemma step_evolves:
  fixes s :: "'a virtmm_scheme"
  assumes "vm_step s e s'" and wf: "vm_wf s"
  shows "evolves s e s'"
  using assms(1)
proof cases
  case (alloc n w U t a)
  then show ?thesis using evolves_alloc [OF wf] by blast
next
  case (map lg hw U t)
  then show ?thesis using evolves_map [OF wf] by blast
next
  case (mmap addr len w U t r)
  then show ?thesis using evolves_mmap [OF wf] by blast
next
  case (put a bs)
  then show ?thesis using evolves_put [OF wf] by blast
next
  case (fill a f)
  have "tlb_ok s" using wf by (simp add: vm_wf_def)
  then show ?thesis unfolding fill(1,2) by (intro evolves_tlb [OF wf] tlb_ok_fill [OF _ fill(3)]) simp_all
next
  case (drop a)
  then show ?thesis unfolding drop invlpg_def
    by (intro evolves_tlb [OF wf] tlb_ok_drop) (use wf in \<open>simp_all add: vm_wf_def\<close>)
next
  case flush
  then show ?thesis unfolding flush flush_all_tlb_def
    by (intro evolves_tlb [OF wf] tlb_ok_drop) (use wf in \<open>simp_all add: vm_wf_def\<close>)
qed

section \<open>Runs\<close>

definition history :: "'a virtmm_scheme \<Rightarrow> vm_event list \<Rightarrow> u32 set list \<Rightarrow> 'a virtmm_scheme \<Rightarrow> bool" where
  "history s es gs s' \<longleftrightarrow> vm_wf s' \<and> frame_no s' = frame_no s \<and> bm_vaddr s' = bm_vaddr s \<and>
     (\<forall>m. maps_as s m \<longrightarrow> maps_as s' (foldl (remap (frame_no s)) m es)) \<and>
     sorted_wrt (\<lambda>A B. A \<inter> B = {}) (in_use s # gs) \<and> (\<forall>A\<in>set (in_use s # gs). A \<subseteq> in_use s') \<and>
     (\<forall>b. data s b \<longrightarrow> data s' b \<and> (\<not> bm_vaddr s b \<and> b \<notin> \<Union> (set (map stores es)) \<longrightarrow> rd8 s' b = rd8 s b))"

text \<open>What a step takes was not in use before and is in use afterwards.\<close>

lemma evolves_fresh:
  assumes "evolves s e s'" and "vm_wf s"
  shows "taken s e s' \<inter> in_use s = {}" and "taken s e s' \<union> in_use s \<subseteq> in_use s'"
proof -
  have wf': "vm_wf s'" and fn: "frame_no s' = frame_no s" and u: "used_set s \<subseteq> used_set s'"
    and t: "taken s e s' \<subseteq> frame_no s ` (used_set s' - used_set s)"
    using assms(1) by (simp_all add: evolves_def)
  have "inj_on (frame_no s') (used_set s')"
    using frame_no_inj [OF phymm_ok [OF wf']] by (auto simp: inj_on_def used_set_def)
  then have "frame_no s ` (used_set s' - used_set s) \<inter> frame_no s ` used_set s = {}"
    using u unfolding fn by (auto dest: inj_onD)
  then show "taken s e s' \<inter> in_use s = {}" using t unfolding in_use_def by blast
  show "taken s e s' \<union> in_use s \<subseteq> in_use s'" using t u unfolding in_use_def fn by blast
qed

lemma log_history:
  fixes s :: "'a virtmm_scheme"
  assumes "vm_log s es gs s'" and wf: "vm_wf s"
  shows "history s es gs s'"
  using assms(1)
proof (induction rule: vm_log.induct)
  case log_start
  then show ?case using wf by (simp add: history_def)
next
  case (log_step es gs s1 e s2)
  have h: "history s es gs s1" by (rule log_step.IH)
  then have wf1: "vm_wf s1" by (simp add: history_def)
  then have e: "evolves s1 e s2" by (rule step_evolves [OF log_step.hyps(2)])
  note f = evolves_fresh [OF e wf1]
  have old: "\<forall>A\<in>set (in_use s # gs). A \<subseteq> in_use s1" using h unfolding history_def by blast
  then have "\<forall>A\<in>set (in_use s # gs). A \<inter> taken s1 e s2 = {}" using f(1) by blast
  then have "sorted_wrt (\<lambda>A B. A \<inter> B = {}) ((in_use s # gs) @ [taken s1 e s2])"
    using h unfolding sorted_wrt_append history_def by simp
  moreover have "\<forall>A\<in>set (in_use s # gs @ [taken s1 e s2]). A \<subseteq> in_use s2"
    using old f(2) by (auto simp: subset_iff)
  moreover have "maps_as s2 (foldl (remap (frame_no s)) m (es @ [e]))" if "maps_as s m" for m
    using h e that unfolding history_def evolves_def by simp
  moreover have "data s2 b \<and> (\<not> bm_vaddr s b \<and> b \<notin> \<Union> (set (map stores (es @ [e]))) \<longrightarrow> rd8 s2 b = rd8 s b)" if "data s b" for b
    using h e that unfolding history_def evolves_def by simp
  ultimately show ?case using h e unfolding history_def evolves_def by simp
qed

section \<open>The properties\<close>

text \<open>C3: However mappings, requests for frames, stores and the processor's use of its cache follow each other,
  tables and cache agree: every address outside the table window goes where the mappings made so
  far say, whether its translation is cached or not; the invariants of paging and allocator hold;
  every address that was good for data still is, and unless somebody stored there it holds what
  it held.\<close>

theorem paging_stays_coherent:
  fixes s :: "'a virtmm_scheme"
  assumes "vm_run s es s'" and "vm_wf s" and "maps_as s m"
  shows "vm_wf s' \<and>
    (\<forall>a. \<not> in_window a \<longrightarrow> translate s' a =
      map_option (\<lambda>f. mkaddr f (pgoff a)) (foldl (remap (frame_no s)) m es (page a))) \<and>
    (\<forall>b. data s b \<longrightarrow> data s' b \<and> (\<not> bm_vaddr s b \<and> b \<notin> \<Union> (set (map stores es)) \<longrightarrow> rd8 s' b = rd8 s b))"
proof -
  obtain gs where "vm_log s es gs s'" using run_log [OF assms(1)] by blast
  then have h: "history s es gs s'" by (rule log_history [OF _ assms(2)])
  then have wf: "vm_wf s'" and m: "maps_as s' (foldl (remap (frame_no s)) m es)" using assms(3) by (simp_all add: history_def)
  have "translate s' a = map_option (\<lambda>f. mkaddr f (pgoff a)) (foldl (remap (frame_no s)) m es (page a))"
    if "\<not> in_window a" for a
    using m that wf by (simp add: maps_as_def translate_walk vm_wf_def)
  then show ?thesis using wf h by (simp add: history_def)
qed

lemma maps_as_self: "maps_as s (\<lambda>p. walk s (mkaddr p 0))"
  unfolding maps_as_def walk_def by (intro allI impI walk_frame_page) (simp add: page_less)

theorem paging_stays_coherent_witness:
  "\<exists>s'. vm_run boot [Map 0x200000 0xd0000000, Fill 0xd0000000] s' \<and> tlb s' 0xd0000 = Some 0x200 \<and>
    translate s' 0xd0000123 = Some 0x200123"
proof -
  have ok: "\<not> in_window 0xd0000000" "walk boot 0xd0000000 = None" "spare boot (page 0x200000)"
    "table_ok boot (pd_index 0xd0000000) {7} 6"
    using boot_spare [of "0x200000"] boot_table_ok [of "pd_index 0xd0000000"]
    by (simp_all add: in_window_def pd_index_def page_def)
  obtain s1 where 1: "mapfr boot 0x200000 0xd0000000 = Some s1"
    "\<forall>a. \<not> in_window a \<longrightarrow> walk s1 a = (if page a = page 0xd0000000 then Some (page 0x200000) else walk boot a)"
    by (rule mapfr_spec [OF boot_vm_wf ok])
  have pg: "page 0xd0000000 = 0xd0000" "page 0x200000 = 0x200" "page 0xd0000123 = 0xd0000" by (simp_all add: page_def)
  have w: "walk s1 0xd0000000 = Some 0x200" using 1(2) ok(1) by (simp add: pg)
  let ?s = "s1\<lparr>tlb := (tlb s1)(page 0xd0000000 \<mapsto> 0x200)\<rparr>"
  have "vm_run boot ([] @ [Map 0x200000 0xd0000000]) s1"
    by (rule vm_run.step [OF vm_run.start vm_step.map [OF ok 1(1)]])
  then have "vm_run boot (([] @ [Map 0x200000 0xd0000000]) @ [Fill 0xd0000000]) ?s"
    by (rule vm_run.step) (rule vm_step.fill [OF w])
  then have r: "vm_run boot [Map 0x200000 0xd0000000, Fill 0xd0000000] ?s" by simp
  have "\<not> in_window 0xd0000123" by (simp add: in_window_def pd_index_def)
  then have "translate ?s 0xd0000123 = Some (mkaddr 0x200 (pgoff 0xd0000123))"
    using paging_stays_coherent [OF r boot_vm_wf maps_as_self] by (simp add: pg)
  then show ?thesis using r by (auto simp: pg mkaddr_def pgoff_def)
qed

text \<open>C9: No frame is ever granted twice.  What each step of a run takes, read off the code's results (the run of
  frames at the address \<open>hwpalloc\<close> returned, the frames behind the pages that \<open>mmap\<close> mapped, every
  frame that \<open>mmap\<close> or \<open>mapfr\<close> made a page table), is disjoint from what every other step takes and from
  the frames in use at the beginning, and all of it stays in use.\<close>

theorem frames_granted_once:
  fixes s :: "'a virtmm_scheme"
  assumes "vm_log s es gs s'" and "vm_wf s"
  shows "sorted_wrt (\<lambda>A B. A \<inter> B = {}) (in_use s # gs) \<and> (\<forall>A\<in>set (in_use s # gs). A \<subseteq> in_use s')"
  using log_history [OF assms] unfolding history_def by (elim conjE, intro conjI)

theorem frames_granted_once_witness:
  "\<exists>gs s'. vm_log boot [Alloc 1 7, Mmap 0xd0000000 0x1000 6] gs s' \<and> gs ! 0 = {0x115} \<and> 0x114 \<in> gs ! 1 \<and>
    gs ! 0 \<inter> gs ! 1 = {} \<and> {0x114, 0x115} \<subseteq> in_use s'"
proof -
  have sp: "alloc_spec (nframes boot) (used_set boot) (stack_top boot) (unat (1 :: u16)) = Some (7, {7}, 6)"
    using boot_single [of 0] by simp
  obtain s1 where 1: "hwpalloc boot 1 = Some (frame_addr boot 7, s1)" "phymm_wf s1" "bm_only boot s1"
    "used_set s1 = {7}" "stack_top s1 = 6"
    using hwpalloc_refines [OF boot_phymm_wf sp] by blast
  have wf1: "vm_wf s1" by (rule bm_only_vm_wf [OF boot_vm_wf 1(3,2)]) (simp add: 1(4))
  note tb = bm_only_tables [OF boot_static 1(3)] and bm = bm_only_mem [OF boot_static 1(3)]
  have n1: "nframes s1 = 8" "frame_no s1 = frame_no boot" using bm by (simp_all add: frame_no_def fun_eq_iff boot_sizes)
  have one: "npages 0x1000 = 1" by (simp add: npages_def)
  have "alloc_spec 8 {7} 6 (Suc 0) = Some (6, {6, 7}, 5)" "alloc_spec 8 {6, 7} 5 (Suc 0) = Some (5, {5, 6, 7}, 4)" by (simp_all add: alloc_spec_def eval_nat_numeral)
  then have ok: "mmap_ok s1 0xd0000000 0x1000 6 {5, 6, 7} 4"
    unfolding mmap_ok_def one n1 1(4,5) tb by (auto simp: tb boot_pde nth_page_def in_window_def pd_index_def)
  obtain s2 where 2: "mmap s1 0xd0000000 0x1000 = Some (STATUS_OK, s2)"
    "\<forall>k<npages 0x1000. \<forall>a. page a = page (nth_page 0xd0000000 k) \<longrightarrow> walk s2 a = Some (frame_no s1 (6 + k)) \<and> data s2 a"
    by (rule mmap_spec [OF wf1 ok])
  let ?g = "[taken boot (Alloc 1 7) s1, taken s1 (Mmap 0xd0000000 0x1000 6) s2]"
  have "vm_log boot ([] @ [Alloc 1 7]) ([] @ [taken boot (Alloc 1 7) s1]) s1"
    by (rule log_step [OF log_start vm_step.alloc [OF sp 1(1)]])
  from log_step [OF this vm_step.mmap [OF ok 2(1)]]
  have r: "vm_log boot [Alloc 1 7, Mmap 0xd0000000 0x1000 6] ?g s2" by simp
  have f: "frame_no boot 6 = 0x114" "frame_no boot 7 = 0x115"
    using unat_boot_frame [of 6] unat_boot_frame [of 7] by (simp_all add: word_unat_eq_iff)
  have g0: "?g ! 0 = {0x115}" using 1(1) f(2) by (simp add: nth_page_def frame_no_def)
  have "walk s2 (nth_page 0xd0000000 0) = Some 0x114" using 2(2) one f(1) by (simp add: n1)
  then have g1: "0x114 \<in> ?g ! 1" using one by auto
  have "?g ! 0 \<inter> ?g ! 1 = {}" "?g ! 0 \<union> ?g ! 1 \<subseteq> in_use s2"
    using frames_granted_once [OF r boot_vm_wf] by auto
  then show ?thesis using r g0 g1 by (intro exI [of _ ?g] exI [of _ s2]) auto
qed

end
