(* ===== verification/HeapTrace.thy ===== *)
theory HeapTrace
  imports HeapProps
begin

text \<open>
  The kernel heap as its users see it over time: a user makes any sequence of calls of
  \<open>kmalloc.c\<close> and stores into the ranges it holds.  The abstract heap is a ledger, a map from the
  pointers in use to the bytes that lie there; \<open>ledger_step\<close> says what each call may do to it.  The
  code, call by call, implements the ledger.
\<close>

section \<open>The two machines\<close>

datatype heap_call = Malloc u32 | Calloc u32 u32 | Free u32 | Realloc u32 u32 | Store u32 nat "u8 list"

type_synonym ledger = "u32 \<rightharpoonup> u8 list"

text \<open>A call of the code: the pointer or the status that it returns (0 for a store), the next state.\<close>

fun run_call :: "'a kheap_scheme \<Rightarrow> heap_call \<Rightarrow> (u32 \<times> 'a kheap_scheme) option" where
  "run_call s (Malloc n) = kmalloc s n"
| "run_call s (Calloc n m) = kcalloc s n m"
| "run_call s (Free p) = map_option (map_prod ucast id) (kfree s p)"
| "run_call s (Realloc p n) = krealloc s p n"
| "run_call s (Store p off bs) = map_option (Pair 0) (wrn s (p + word_of_nat off) bs)"

text \<open>The calls that a correct user makes in a state: requests for which there is memory, pointers in use, stores inside a range.\<close>

fun permitted :: "'a kheap_scheme \<Rightarrow> blk list \<Rightarrow> heap_call \<Rightarrow> bool" where
  "permitted s h (Malloc n) \<longleftrightarrow> unat n \<le> 0xfffffff0 \<and> alloc_ready s h n"
| "permitted s h (Calloc n m) \<longleftrightarrow> unat n * unat m \<le> 0xfffffff0 \<and> alloc_ready s h (n * m)"
| "permitted s h (Free p) \<longleftrightarrow> (\<exists>m. (p, m) \<in> live h)"
| "permitted s h (Realloc p n) \<longleftrightarrow> (\<exists>m. (p, m) \<in> live h \<and> (m < unat n \<longrightarrow> unat n \<le> 0xfffffff0 \<and> alloc_ready s h n))"
| "permitted s h (Store p off bs) \<longleftrightarrow> (\<exists>m. (p, m) \<in> live h \<and> off + length bs \<le> m)"

inductive ledger_step :: "ledger \<Rightarrow> heap_call \<Rightarrow> u32 \<Rightarrow> ledger \<Rightarrow> bool" where
  malloc: "ledger_step L (Malloc n) p (L(p \<mapsto> xs))"
    if "L p = None" and "p \<noteq> 0" and "unat n \<le> length xs"
| calloc: "ledger_step L (Calloc n m) p (L(p \<mapsto> replicate (unat n * unat m) 0 @ xs))"
    if "L p = None" and "p \<noteq> 0"
| free: "ledger_step L (Free p) 0 (L(p := None))" if "L p = Some xs"
| keep: "ledger_step L (Realloc p n) p L" if "L p = Some xs" and "unat n \<le> length xs"
| move: "ledger_step L (Realloc p n) q (L(p := None, q \<mapsto> xs @ ys))"
    if "L p = Some xs" and "length xs < unat n" and "L q = None" and "q \<noteq> 0" and "unat n \<le> length (xs @ ys)"
| store: "ledger_step L (Store p off bs) 0 (L(p \<mapsto> patch off bs xs))"
    if "L p = Some xs" and "off + length bs \<le> length xs"

inductive_cases ledger_stepE: "ledger_step L c r L'"

text \<open>Sequences of calls with their results, of the code and of the ledger.\<close>

inductive heap_run :: "'a kheap_scheme \<Rightarrow> (heap_call \<times> u32) list \<Rightarrow> 'a kheap_scheme \<Rightarrow> bool" for s where
  start: "heap_run s [] s"
| call: "heap_run s (cs @ [(c, r)]) s2"
    if "heap_run s cs s1" and "heap_inv s1 h" and "permitted s1 h c" and "run_call s1 c = Some (r, s2)"

inductive ledger_run :: "ledger \<Rightarrow> (heap_call \<times> u32) list \<Rightarrow> ledger \<Rightarrow> bool" for L where
  start: "ledger_run L [] L"
| call: "ledger_run L (cs @ [(c, r)]) L2" if "ledger_run L cs L1" and "ledger_step L1 c r L2"

text \<open>The ledger that belongs to a state of the code.\<close>

definition ledger_ranges :: "ledger \<Rightarrow> (u32 \<times> nat) set" where
  "ledger_ranges L = {(p, length xs) | p xs. L p = Some xs}"

definition keeps_ledger :: "'a kheap_scheme \<Rightarrow> blk list \<Rightarrow> ledger \<Rightarrow> bool" where
  "keeps_ledger s h L \<longleftrightarrow> heap_inv s h \<and> live h = ledger_ranges L \<and>
     (\<forall>p xs. L p = Some xs \<longrightarrow> rdn s p (length xs) = Some xs)"

section \<open>The block list of a state\<close>

lemma seg_unique:
  "seg s p xs 0 \<Longrightarrow> seg s p ys 0 \<Longrightarrow> fst_addr xs 0 = fst_addr ys 0 \<Longrightarrow>
    0 \<notin> addrs xs \<Longrightarrow> 0 \<notin> addrs ys \<Longrightarrow> xs = ys"
proof (induction xs arbitrary: p ys)
  case Nil
  then show ?case by (cases ys) (auto simp: addrs_def)
next
  case (Cons x xs)
  obtain a z f where x: "x = (a, z, f)" by (cases x)
  obtain y g ys' where ys: "ys = (a, y, g) # ys'"
    using Cons.prems(3,4) by (cases ys) (auto simp: x addrs_def)
  have h: "hdr s a f (fst_addr xs 0) p z" "hdr s a g (fst_addr ys' 0) p y" "seg s a xs 0" "seg s a ys' 0"
    using Cons.prems(1,2) by (simp_all add: x ys)
  then have "f = g" "z = y" "fst_addr xs 0 = fst_addr ys' 0"
    by (auto simp: hdr_def MBLKFREE_def MBLKINUSE_def split: if_splits)
  then show ?case using Cons.IH [OF h(3,4)] Cons.prems(4,5) by (auto simp: x ys addrs_def)
qed

lemma heap_inv_unique:
  assumes "heap_inv s h" and "heap_inv s h'"
  shows "h = h'"
proof (rule seg_unique)
  have "0 \<notin> addrs k" if "heap_inv s k" for k
  proof
    assume "0 \<in> addrs k"
    then obtain z f where b: "(0, z, f) \<in> set k" by (auto simp: addrs_def)
    have "laid (unat (heap_start s)) k (heap_end s)" "4096 \<le> unat (heap_start s)"
      using that by (auto simp: heap_inv_def heap_ok_def)
    then show False using laid_bounds [OF _ b] by fastforce
  qed
  then show "0 \<notin> addrs h" "0 \<notin> addrs h'" using assms by blast+
qed (use assms in \<open>auto simp: heap_inv_def\<close>)

section \<open>One call\<close>

lemma keeps_ledgerD:
  assumes "keeps_ledger s h L"
  shows "heap_inv s h" and "(p, m) \<in> live h \<longleftrightarrow> (\<exists>xs. L p = Some xs \<and> length xs = m)"
    and "p \<in> fst ` live h \<longleftrightarrow> L p \<noteq> None" and "L p = Some xs \<Longrightarrow> rdn s p (length xs) = Some xs"
  using assms by (auto simp: keeps_ledger_def ledger_ranges_def image_iff)

lemma keeps_ledgerI:
  assumes "heap_inv s h" and "\<And>p m. (p, m) \<in> live h \<longleftrightarrow> (\<exists>xs. L p = Some xs \<and> length xs = m)"
    and "\<And>p xs. L p = Some xs \<Longrightarrow> rdn s p (length xs) = Some xs"
  shows "keeps_ledger s h L"
  using assms by (auto simp: keeps_ledger_def ledger_ranges_def)

lemma ledger_entry:
  assumes "keeps_ledger s h L" and "(p, m) \<in> live h"
  obtains xs where "L p = Some xs" and "length xs = m" and "rdn s p m = Some xs"
proof -
  obtain xs where "L p = Some xs" "length xs = m" using keeps_ledgerD(2) [OF assms(1), THEN iffD1, OF assms(2)] by blast
  then show ?thesis using that keeps_ledgerD(4) [OF assms(1)] by blast
qed

lemma rdn_live_length:
  assumes "heap_inv s h" and "(p, m) \<in> live h" and "rdn s p m = Some xs"
  shows "length xs = m"
  using live_contents [OF assms(1,2)] assms(3) by auto

lemma ledger_upd:
  assumes k: "keeps_ledger s h L" and inv: "heap_inv s' h'" and l: "live h' = insert (q, m) (live h - {q} \<times> UNIV)"
    and zs: "rdn s' q m = Some zs" and c: "\<And>r l. (r, l) \<in> live h \<Longrightarrow> r \<noteq> q \<Longrightarrow> rdn s' r l = rdn s r l"
  shows "keeps_ledger s' h' (L(q \<mapsto> zs))"
proof -
  note d = keeps_ledgerD [OF k]
  have "length zs = m" by (rule rdn_live_length [OF inv _ zs]) (simp add: l)
  show ?thesis
  proof (rule keeps_ledgerI [OF inv])
    show "(r, w) \<in> live h' \<longleftrightarrow> (\<exists>xs. (L(q \<mapsto> zs)) r = Some xs \<and> length xs = w)" for r w
      unfolding l by (cases "r = q") (auto simp: d(2) \<open>length zs = m\<close>)
    show "rdn s' r (length xs) = Some xs" if "(L(q \<mapsto> zs)) r = Some xs" for r xs
    proof (cases "r = q")
      case True
      then show ?thesis using that zs \<open>length zs = m\<close> by simp
    next
      case False
      then have "L r = Some xs" using that by simp
      then show ?thesis using c [OF _ False, of "length xs"] d(2,4) by simp
    qed
  qed
qed

lemma ledger_del:
  assumes k: "keeps_ledger s h L" and inv: "heap_inv s' h'" and l: "live h' = live h - {(p, m)}" and pm: "(p, m) \<in> live h"
    and c: "\<forall>(q, k)\<in>live h. rdn s' q k = rdn s q k"
  shows "keeps_ledger s' h' (L(p := None))"
proof -
  note d = keeps_ledgerD [OF k]
  show ?thesis
  proof (rule keeps_ledgerI [OF inv])
    show "(r, w) \<in> live h' \<longleftrightarrow> (\<exists>xs. (L(p := None)) r = Some xs \<and> length xs = w)" for r w
      using d(2) pm unfolding l by (cases "r = p") auto
    show "rdn s' r (length xs) = Some xs" if "(L(p := None)) r = Some xs" for r xs
      using bspec [OF c, of "(r, length xs)"] d(2) d(4) [of r xs] that by (auto split: if_splits)
  qed
qed

lemma call_malloc:
  assumes k: "keeps_ledger s h L" and n: "unat n \<le> 0xfffffff0" "alloc_ready s h n"
  shows "\<exists>p s' h' L'. kmalloc s n = Some (p, s') \<and> ledger_step L (Malloc n) p L' \<and> keeps_ledger s' h' L'"
proof -
  note d = keeps_ledgerD [OF k]
  obtain p m s' where 1: "kmalloc s n = Some (p, s')" "heap_inv s' (snd (alloc_abs s h n))" "unat (round16 n) \<le> m"
    "p \<notin> fst ` live h" "live (snd (alloc_abs s h n)) = insert (p, m) (live h)"
    and c: "\<forall>(q, k)\<in>live h. rdn s' q k = rdn s q k"
    using kh.alloc_law [OF d(1) n(2)] by blast
  have pm: "(p, m) \<in> live (snd (alloc_abs s h n))" by (simp add: 1(5))
  obtain xs where xs: "rdn s' p m = Some xs" "length xs = m" by (rule live_contents [OF 1(2) pm])
  have "keeps_ledger s' (snd (alloc_abs s h n)) (L(p \<mapsto> xs))"
    by (rule ledger_upd [OF k 1(2) _ xs(1)]) (use 1(4,5) c in \<open>force simp: image_iff\<close>)+
  moreover have "ledger_step L (Malloc n) p (L(p \<mapsto> xs))"
    using 1(3,4) d(3) xs(2) round16_ge [OF n(1)] live_addr(3) [OF 1(2) pm] by (intro ledger_step.malloc) auto
  ultimately show ?thesis using 1(1) by blast
qed

lemma call_calloc:
  assumes k: "keeps_ledger s h L" and n: "unat n * unat m \<le> 0xfffffff0" "alloc_ready s h (n * m)"
  shows "\<exists>p s' h' L'. kcalloc s n m = Some (p, s') \<and> ledger_step L (Calloc n m) p L' \<and> keeps_ledger s' h' L'"
proof -
  note d = keeps_ledgerD [OF k]
  obtain p w s' ys where 1: "kcalloc s n m = Some (p, s')" "heap_inv s' (snd (alloc_abs s h (n * m)))"
    "live (snd (alloc_abs s h (n * m))) = insert (p, w) (live h)" "p \<notin> fst ` live h"
    and xs: "rdn s' p w = Some (replicate (unat n * unat m) 0 @ ys)"
    and c: "\<forall>(q, k)\<in>live h. rdn s' q k = rdn s q k"
    using kcalloc_run [OF d(1) n(2,1)] by blast
  have pm: "(p, w) \<in> live (snd (alloc_abs s h (n * m)))" by (simp add: 1(3))
  have "keeps_ledger s' (snd (alloc_abs s h (n * m))) (L(p \<mapsto> replicate (unat n * unat m) 0 @ ys))"
    by (rule ledger_upd [OF k 1(2) _ xs]) (use 1(3,4) c in \<open>force simp: image_iff\<close>)+
  moreover have "ledger_step L (Calloc n m) p (L(p \<mapsto> replicate (unat n * unat m) 0 @ ys))"
    using 1(4) d(3) live_addr(3) [OF 1(2) pm] by (intro ledger_step.calloc) auto
  ultimately show ?thesis using 1(1) by blast
qed

lemma call_free:
  assumes k: "keeps_ledger s h L" and pm: "(p, m) \<in> live h"
  shows "\<exists>s' h' L'. kfree s p = Some (STATUS_OK, s') \<and> ledger_step L (Free p) 0 L' \<and> keeps_ledger s' h' L'"
proof -
  note d = keeps_ledgerD [OF k]
  obtain s' h' where 1: "kfree s p = Some (STATUS_OK, s')" "heap_inv s' h'" "live h' = live h - {(p, m)}"
    "\<forall>(q, k)\<in>live h. rdn s' q k = rdn s q k"
    using hc.free_law [OF d(1) pm] by blast
  have "keeps_ledger s' h' (L(p := None))" by (rule ledger_del [OF k 1(2,3) pm 1(4)])
  moreover have "ledger_step L (Free p) 0 (L(p := None))" using d(2) pm by (auto intro: ledger_step.free)
  ultimately show ?thesis using 1(1) by blast
qed

lemma call_realloc:
  assumes k: "keeps_ledger s h L" and pm: "(p, m) \<in> live h"
    and n: "m < unat n \<longrightarrow> unat n \<le> 0xfffffff0 \<and> alloc_ready s h n"
  shows "\<exists>q s' h' L'. krealloc s p n = Some (q, s') \<and> ledger_step L (Realloc p n) q L' \<and> keeps_ledger s' h' L'"
proof -
  note d = keeps_ledgerD [OF k]
  obtain xs where xs: "L p = Some xs" "length xs = m" "rdn s p m = Some xs" by (rule ledger_entry [OF k pm])
  show ?thesis
  proof (cases "unat n \<le> m")
    case True
    then show ?thesis using krealloc_keeps [OF d(1) pm True] xs k by (auto intro: ledger_step.keep)
  next
    case False
    then have big: "m < unat n" "unat n \<le> 0xfffffff0" "alloc_ready s h n" using n by auto
    obtain q w ys s' h' where 1: "krealloc s p n = Some (q, s')" "heap_inv s' h'"
      "live h' = insert (q, w) (live h - {(p, m)})" "unat n \<le> w" "q \<notin> fst ` live h"
      "rdn s' q w = Some (xs @ ys)" "\<forall>r l. (r, l) \<in> live h \<longrightarrow> rdn s' r l = rdn s r l"
      by (rule krealloc_grow [OF d(1) pm big xs(3)])
    have qw: "(q, w) \<in> live h'" by (simp add: 1(3))
    have lw: "length (xs @ ys) = w" by (rule rdn_live_length [OF 1(2) qw 1(6)])
    have Lq: "L q = None" and qp: "q \<noteq> p" using 1(5) d(3) xs(1) by auto
    have "keeps_ledger s' h' (L(p := None, q \<mapsto> xs @ ys))"
    proof (rule keeps_ledgerI [OF 1(2)])
      show "(r, l) \<in> live h' \<longleftrightarrow> (\<exists>zs. (L(p := None, q \<mapsto> xs @ ys)) r = Some zs \<and> length zs = l)" for r l
        using d(2) xs(1,2) Lq qp lw unfolding 1(3) by (cases "r = q"; cases "r = p") auto
      show "rdn s' r (length zs) = Some zs" if "(L(p := None, q \<mapsto> xs @ ys)) r = Some zs" for r zs
      proof (cases "r = q")
        case True
        then show ?thesis using that 1(6) lw by simp
      next
        case False
        then have "L r = Some zs" using that by (simp split: if_splits)
        then show ?thesis using 1(7) d(2,4) by simp
      qed
    qed
    moreover have "ledger_step L (Realloc p n) q (L(p := None, q \<mapsto> xs @ ys))"
      using xs(1,2) big(1) Lq live_addr(3) [OF 1(2) qw] 1(4) lw by (intro ledger_step.move) simp_all
    ultimately show ?thesis using 1(1) by blast
  qed
qed

lemma call_store:
  assumes k: "keeps_ledger s h L" and pm: "(p, m) \<in> live h" and len: "off + length bs \<le> m"
  shows "\<exists>s' h' L'. wrn s (p + word_of_nat off) bs = Some s' \<and> ledger_step L (Store p off bs) 0 L' \<and> keeps_ledger s' h' L'"
proof -
  note d = keeps_ledgerD [OF k]
  obtain xs where xs: "L p = Some xs" "length xs = m" "rdn s p m = Some xs" by (rule ledger_entry [OF k pm])
  obtain s' where 1: "wrn s (p + word_of_nat off) bs = Some s'" "heap_inv s' h"
    "rdn s' p m = map_option (patch off bs) (rdn s p m)" "\<forall>(q, k)\<in>live h. q \<noteq> p \<longrightarrow> rdn s' q k = rdn s q k"
    using hc.store_law [OF d(1) pm len] by blast
  have "live h = insert (p, m) (live h - {p} \<times> UNIV)" using live_inj [OF d(1)] pm by auto
  then have "keeps_ledger s' h (L(p \<mapsto> patch off bs xs))"
    by (rule ledger_upd [OF k 1(2)]) (use 1(3,4) xs(3) in auto)
  moreover have "ledger_step L (Store p off bs) 0 (L(p \<mapsto> patch off bs xs))"
    using xs(1,2) len by (intro ledger_step.store) simp_all
  ultimately show ?thesis using 1(1) by blast
qed

lemma call_simulates:
  assumes k: "keeps_ledger s h L" and c: "permitted s h c"
  shows "\<exists>r s' h' L'. run_call s c = Some (r, s') \<and> ledger_step L c r L' \<and> keeps_ledger s' h' L'"
proof (cases c)
  case (Malloc n)
  then show ?thesis using call_malloc [OF k] c by simp
next
  case (Calloc n m)
  then show ?thesis using call_calloc [OF k] c by simp
next
  case (Free p)
  then obtain m where "(p, m) \<in> live h" using c by auto
  from call_free [OF k this] show ?thesis by (force simp: Free STATUS_OK_def)
next
  case (Realloc p n)
  then obtain m where "(p, m) \<in> live h" "m < unat n \<longrightarrow> unat n \<le> 0xfffffff0 \<and> alloc_ready s h n" using c by auto
  from call_realloc [OF k this] show ?thesis by (simp add: Realloc)
next
  case (Store p off bs)
  then obtain m where "(p, m) \<in> live h" "off + length bs \<le> m" using c by auto
  from call_store [OF k this] show ?thesis by (force simp: Store)
qed

section \<open>Sequences of calls\<close>

lemma heap_run_refines:
  assumes "heap_run s cs s'" and "keeps_ledger s h L"
  shows "\<exists>h' L'. ledger_run L cs L' \<and> keeps_ledger s' h' L'"
  using assms(1)
proof (induction rule: heap_run.induct)
  case start
  then show ?case using assms(2) ledger_run.start by blast
next
  case (call cs s1 h1 c r s2)
  obtain h0 L1 where L1: "ledger_run L cs L1" "keeps_ledger s1 h0 L1" using call.IH by blast
  have "h0 = h1" by (rule heap_inv_unique [OF keeps_ledgerD(1) [OF L1(2)] call.hyps(2)])
  then obtain h2 L2 where "ledger_step L1 c r L2" "keeps_ledger s2 h2 L2"
    using call_simulates [OF L1(2), of c] call.hyps(3,4) by auto
  then show ?case using ledger_run.call [OF L1(1)] by blast
qed

text \<open>The pointers that a call gives up or writes to.\<close>

fun touches :: "heap_call \<Rightarrow> u32 set" where
  "touches (Free p) = {p}"
| "touches (Realloc p n) = {p}"
| "touches (Store p off bs) = {p}"
| "touches c = {}"

lemma ledger_step_keeps: "ledger_step L c r L' \<Longrightarrow> p \<notin> touches c \<Longrightarrow> L p = Some xs \<Longrightarrow> L' p = Some xs"
  by (erule ledger_stepE) auto

lemma ledger_run_keeps:
  assumes "ledger_run L cs L'" and "L p = Some xs"
  shows "\<forall>(c, r)\<in>set cs. p \<notin> touches c \<Longrightarrow> L' p = Some xs"
  using assms(1)
proof (induction rule: ledger_run.induct)
  case start
  then show ?case using assms(2) by simp
next
  case (call cs L1 c r L2)
  then show ?case using ledger_step_keeps by auto
qed

lemma ledger_exists:
  assumes "heap_inv s h"
  obtains L where "keeps_ledger s h L"
proof -
  define L where "L p = (if p \<in> fst ` live h then rdn s p (THE m. (p, m) \<in> live h) else None)" for p
  have Lp: "L p = rdn s p m" if "(p, m) \<in> live h" for p m
  proof -
    have "(THE m. (p, m) \<in> live h) = m" using that live_inj [OF assms] by blast
    then show ?thesis using that by (force simp: L_def image_iff)
  qed
  have "keeps_ledger s h L"
  proof (rule keeps_ledgerI [OF assms])
    show "(p, m) \<in> live h \<longleftrightarrow> (\<exists>xs. L p = Some xs \<and> length xs = m)" for p m
    proof
      assume pm: "(p, m) \<in> live h"
      then show "\<exists>xs. L p = Some xs \<and> length xs = m" using live_contents [OF assms pm] Lp [OF pm] by metis
    next
      assume "\<exists>xs. L p = Some xs \<and> length xs = m"
      then obtain xs k where xs: "L p = Some xs" "length xs = m" "(p, k) \<in> live h"
        by (auto simp: L_def split: if_splits)
      then show "(p, m) \<in> live h" using rdn_live_length [OF assms xs(3)] Lp [OF xs(3)] by simp
    qed
    fix p xs assume L: "L p = Some xs"
    then obtain k where k: "(p, k) \<in> live h" by (auto simp: L_def split: if_splits)
    then show "rdn s p (length xs) = Some xs" using rdn_live_length [OF assms k] Lp [OF k] L by simp
  qed
  then show ?thesis by (rule that)
qed

lemma heap_run_append:
  assumes "heap_run s1 ds s2" and "heap_run s cs s1"
  shows "heap_run s (cs @ ds) s2"
  using assms(1)
proof (induction rule: heap_run.induct)
  case start
  then show ?case using assms(2) by simp
next
  case (call ds s2 h c r s3)
  then show ?case using heap_run.call [OF call.IH call.hyps(2-4)] by simp
qed

lemma heap_run_one:
  assumes "heap_inv s h" and "permitted s h c" and "run_call s c = Some (r, s')"
  shows "heap_run s [(c, r)] s'"
  using heap_run.call [OF heap_run.start assms] by simp

lemma drain_run:
  assumes "keeps_ledger s h L" and "distinct ps" and "set ps = dom L"
  shows "\<exists>s' h'. heap_run s (map (\<lambda>p. (Free p, 0)) ps) s' \<and> keeps_ledger s' h' Map.empty"
  using assms
proof (induction ps arbitrary: s h L)
  case Nil
  then have "dom L = {}" by simp
  then have "L = Map.empty" by (simp only: dom_eq_empty_conv)
  then show ?case using Nil.prems(1) heap_run.start by auto
next
  case (Cons p ps)
  have "p \<in> fst ` live h" using keeps_ledgerD(3) [OF Cons.prems(1)] Cons.prems(3) by auto
  then obtain m where pm: "(p, m) \<in> live h" by auto
  obtain s1 h1 L1 where 1: "kfree s p = Some (STATUS_OK, s1)" "ledger_step L (Free p) 0 L1" "keeps_ledger s1 h1 L1"
    using call_free [OF Cons.prems(1) pm] by blast
  have "L1 = L(p := None)" using 1(2) by (auto elim: ledger_stepE)
  then have "set ps = dom L1" using Cons.prems(2,3) by auto
  then obtain s' h' where 2: "heap_run s1 (map (\<lambda>p. (Free p, 0)) ps) s'" "keeps_ledger s' h' Map.empty"
    using Cons.IH [OF 1(3)] Cons.prems(2) by auto
  have r: "heap_run s [(Free p, 0)] s1"
    by (rule heap_run_one [OF keeps_ledgerD(1) [OF Cons.prems(1)]]) (use pm 1(1) in \<open>auto simp: STATUS_OK_def\<close>)
  have "heap_run s ([(Free p, 0)] @ map (\<lambda>p. (Free p, 0)) ps) s'" by (rule heap_run_append [OF 2(1) r])
  then show ?case using 2(2) by auto
qed

section \<open>The properties\<close>

text \<open>C2: Every sequence of permitted calls of \<open>kmalloc\<close>, \<open>kcalloc\<close>, \<open>krealloc\<close>, \<open>kfree\<close> and stores into ranges in
  use is a sequence of steps of the ledger with the same results; the memory then holds what the
  ledger says, the ranges in use do not overlap, and the next permitted call runs.\<close>

theorem heap_calls_refine_ledger:
  fixes s :: "'a kheap_scheme"
  assumes "heap_run s cs s'" and "keeps_ledger s h L"
  shows "\<exists>h' L'. ledger_run L cs L' \<and> keeps_ledger s' h' L' \<and>
    (\<forall>p xs q ys. L' p = Some xs \<and> L' q = Some ys \<and> p \<noteq> q \<longrightarrow> sep p (length xs) q (length ys)) \<and>
    (\<forall>c. permitted s' h' c \<longrightarrow> run_call s' c \<noteq> None)"
proof -
  obtain h' L' where 1: "ledger_run L cs L'" "keeps_ledger s' h' L'" using heap_run_refines [OF assms] by blast
  have "sep p (length xs) q (length ys)" if "L' p = Some xs" "L' q = Some ys" "p \<noteq> q" for p xs q ys
    by (rule kh.apart [OF keeps_ledgerD(1) [OF 1(2)]]) (use that keeps_ledgerD(2) [OF 1(2)] in auto)
  moreover have "run_call s' c \<noteq> None" if "permitted s' h' c" for c using call_simulates [OF 1(2) that] by auto
  ultimately show ?thesis using 1 by blast
qed

theorem heap_calls_refine_ledger_witness:
  "\<exists>s h L. heap_run boot [(Malloc 16, 0xd0000014)] s \<and> ledger_run Map.empty [(Malloc 16, 0xd0000014)] L \<and> keeps_ledger s h L"
proof -
  obtain s where s: "kmalloc boot 16 = Some (0xd0000014, s)" "heap_inv s one_block" by (rule boot_one)
  have "heap_run boot [(Malloc 16, 0xd0000014)] s"
    by (rule heap_run_one [OF boot_heap]) (simp_all add: boot_grow s(1))
  moreover have "keeps_ledger boot [] Map.empty" by (rule keeps_ledgerI [OF boot_heap]) simp_all
  ultimately show ?thesis using heap_calls_refine_ledger by blast
qed

text \<open>C10: A range in use keeps its contents through every sequence of permitted calls that neither releases or
  reallocates it nor stores into it, whatever the calls do to other ranges.\<close>

theorem heap_calls_keep_untouched:
  fixes s :: "'a kheap_scheme"
  assumes "heap_run s cs s'" and "heap_inv s h" and "(p, m) \<in> live h" and "rdn s p m = Some xs"
    and "\<forall>(c, r)\<in>set cs. p \<notin> touches c"
  shows "\<exists>h'. heap_inv s' h' \<and> (p, m) \<in> live h' \<and> rdn s' p m = Some xs"
proof -
  obtain L where L: "keeps_ledger s h L" by (rule ledger_exists [OF assms(2)])
  obtain ys where "L p = Some ys" "length ys = m" "rdn s p m = Some ys" by (rule ledger_entry [OF L assms(3)])
  then have Lp: "L p = Some xs" "length xs = m" using assms(4) by simp_all
  obtain h' L' where 1: "ledger_run L cs L'" "keeps_ledger s' h' L'" using heap_run_refines [OF assms(1) L] by blast
  have "L' p = Some xs" by (rule ledger_run_keeps [OF 1(1) Lp(1) assms(5)])
  then show ?thesis using keeps_ledgerD(1,2,4) [OF 1(2)] Lp(2) by blast
qed

theorem heap_calls_keep_untouched_witness:
  "\<exists>s xs q s1 s2. kmalloc boot 16 = Some (0xd0000014, s) \<and> rdn s 0xd0000014 16 = Some xs \<and>
    heap_run s [(Malloc 16, q), (Free q, 0)] s2 \<and> rdn s2 0xd0000014 16 = Some xs"
proof -
  obtain s where s: "kmalloc boot 16 = Some (0xd0000014, s)" "heap_inv s one_block" by (rule boot_one)
  have pm: "(0xd0000014, 16) \<in> live one_block" by (simp add: one_block_live)
  obtain xs where xs: "rdn s 0xd0000014 16 = Some xs" by (rule live_contents [OF s(2) pm])
  obtain q m s1 where 1: "kmalloc s 16 = Some (q, s1)" "heap_inv s1 (snd (alloc_abs s one_block 16))"
    "q \<notin> fst ` live one_block" "live (snd (alloc_abs s one_block 16)) = insert (q, m) (live one_block)"
    using kh.alloc_law [OF s(2) one_block_ready] by blast
  have qm: "(q, m) \<in> live (snd (alloc_abs s one_block 16))" by (simp add: 1(4))
  obtain s2 where 2: "kfree s1 q = Some (STATUS_OK, s2)" using hc.free_law [OF 1(2) qm] by blast
  have "heap_run s [(Malloc 16, q)] s1" by (rule heap_run_one [OF s(2)]) (simp_all add: one_block_ready 1(1))
  moreover have "heap_run s1 [(Free q, 0)] s2"
    by (rule heap_run_one [OF 1(2)]) (use qm in \<open>auto simp: 2 STATUS_OK_def\<close>)
  ultimately have r: "heap_run s ([(Malloc 16, q)] @ [(Free q, 0)]) s2" by (intro heap_run_append)
  have "q \<noteq> 0xd0000014" using 1(3) by (auto simp: one_block_live)
  then have "rdn s2 0xd0000014 16 = Some xs" using heap_calls_keep_untouched [OF r s(2) pm xs] by auto
  then show ?thesis using s(1) xs r by auto
qed

text \<open>C16: Everything that is in use can be given back, in any order: releasing the pointers in use one after the
  other always succeeds and ends with no range in use.\<close>

theorem heap_drains:
  fixes s :: "'a kheap_scheme"
  assumes "heap_inv s h" and "distinct ps" and "set ps = fst ` live h"
  shows "\<exists>s' h'. heap_run s (map (\<lambda>p. (Free p, 0)) ps) s' \<and> heap_inv s' h' \<and> live h' = {}"
proof -
  obtain L where L: "keeps_ledger s h L" by (rule ledger_exists [OF assms(1)])
  have "set ps = dom L" using assms(3) keeps_ledgerD(3) [OF L] by auto
  then obtain s' h' where 1: "heap_run s (map (\<lambda>p. (Free p, 0)) ps) s'" "keeps_ledger s' h' Map.empty"
    using drain_run [OF L assms(2)] by blast
  then show ?thesis by (auto simp: keeps_ledger_def ledger_ranges_def)
qed

theorem heap_drains_witness:
  "\<exists>s s' h'. kmalloc boot 16 = Some (0xd0000014, s) \<and> heap_run s [(Free 0xd0000014, 0)] s' \<and> heap_inv s' h' \<and> live h' = {}"
proof -
  obtain s where s: "kmalloc boot 16 = Some (0xd0000014, s)" "heap_inv s one_block" by (rule boot_one)
  have "distinct [0xd0000014 :: u32]" "set [0xd0000014] = fst ` live one_block" by (simp_all add: one_block_live)
  from heap_drains [OF s(2) this] s(1) show ?thesis by auto
qed

end
