(* ===== verification/TableProps.thy ===== *)
theory TableProps
  imports Layouts
begin

text \<open>
  The descriptor tables: the encoding of a segment descriptor, the global table that
  \<open>init_gdt\<close> builds in a range of the heap, the gates of the interrupt table and the trap
  handlers that \<open>init_cpu_traps\<close> installs.
\<close>

section \<open>Segment descriptors\<close>

text \<open>The fields of a descriptor as the processor reads them.\<close>

definition desc_base :: "u64 \<Rightarrow> u32" where
  "desc_base d = ucast (take_bit 24 (drop_bit 16 d)) OR push_bit 24 (ucast (drop_bit 56 d))"

definition desc_limit :: "u64 \<Rightarrow> u32" where
  "desc_limit d = ucast (take_bit 16 d) OR push_bit 16 (ucast (take_bit 4 (drop_bit 48 d)))"

definition desc_access :: "u64 \<Rightarrow> u8" where
  "desc_access d = ucast (drop_bit 40 d)"

definition desc_flags :: "u64 \<Rightarrow> u8" where
  "desc_flags d = ucast (take_bit 4 (drop_bit 52 d))"

text \<open>The layout of the 64 bits.\<close>

lemma bit_make_gdt_desc:
  "bit (make_gdt_desc base limit access flag) n \<longleftrightarrow>
    (if n < 16 then bit limit n else if n < 40 then bit base (n - 16) else if n < 48 then bit access (n - 40)
     else if n < 52 then bit limit (n - 32) else if n < 56 then bit flag (n - 52)
     else n < 64 \<and> bit base (n - 32))"
proof -
  have e: "(0xff0000 :: u32) = push_bit 16 (mask 8)" "(0x000f0000 :: u32) = push_bit 16 (mask 4)"
    "(0xff000000 :: u32) = push_bit 24 (mask 8)" "(0xffff :: u32) = mask 16" "(0xf :: u8) = mask 4"
    by (simp_all add: mask_eq_exp_minus_1 push_bit_eq_mult)
  have "n < 16 \<or> (\<exists>j<16. n = 16 + j) \<or> (\<exists>j<8. n = 32 + j) \<or> (\<exists>j<8. n = 40 + j) \<or>
    (\<exists>j<4. n = 48 + j) \<or> (\<exists>j<4. n = 52 + j) \<or> (\<exists>j<8. n = 56 + j) \<or> 64 \<le> n" by presburger
  moreover have "\<not> bit access (8 + j)" "\<not> bit access (12 + j)" "\<not> bit access (16 + j)" for j
    by (auto dest: bit_imp_le_length)
  ultimately show ?thesis
    unfolding make_gdt_desc_def Let_def e
    by (elim disjE exE conjE) (simp_all add: bit_simps)
qed

text \<open>C23: The processor reads back from \<open>make_gdt_desc\<close> the base, the low twenty bits of the limit, the
  access byte and the low four bits of the flags.\<close>

theorem make_gdt_desc_decodes:
  "desc_base (make_gdt_desc base limit access flag) = base \<and>
   desc_limit (make_gdt_desc base limit access flag) = take_bit 20 limit \<and>
   desc_access (make_gdt_desc base limit access flag) = access \<and>
   desc_flags (make_gdt_desc base limit access flag) = take_bit 4 flag"
  unfolding desc_base_def desc_limit_def desc_access_def desc_flags_def
  by (intro conjI bit_word_eqI) (simp_all add: bit_simps bit_make_gdt_desc, auto)

section \<open>The global table\<close>

lemma range_wr64:
  fixes t :: "'a cpu_scheme"
  assumes u: "range_upd s h p m xs t" and len: "off + 8 \<le> m" and a: "a = p + word_of_nat off"
  obtains t' where "wr64 t a v = Some t'" and "range_upd s h p m (patch off (bytes64 v) xs) t'"
proof -
  obtain t1 where 1: "wr32 t a (ucast v) = Some t1" "range_upd s h p m (patch off (bytes32 (ucast v)) xs) t1"
    by (rule range_wr32 [OF u _ a]) (use len in simp_all)
  have a4: "a + 4 = p + word_of_nat (off + 4)" by (simp add: a add.assoc)
  obtain t2 where 2: "wr32 t1 (a + 4) (ucast (drop_bit 32 v)) = Some t2"
    "range_upd s h p m (patch (off + 4) (bytes32 (ucast (drop_bit 32 v))) (patch off (bytes32 (ucast v)) xs)) t2"
    by (rule range_wr32 [OF 1(2) _ a4]) (use len in simp_all)
  have "patch (off + 4) (bytes32 (ucast (drop_bit 32 v))) (patch off (bytes32 (ucast v)) xs) = patch off (bytes64 v) xs"
    using patch_patch [of off "bytes32 (ucast v)" "bytes32 (ucast (drop_bit 32 v))" xs] range_updD(4) [OF u] len
    by (simp add: bytes64_def)
  then show ?thesis using that [of t2] 1(1) 2 by (simp add: wr64_def)
qed

lemma heap_frame_cpu:
  fixes s :: "'a cpu_scheme"
  assumes "heap_frame s s'"
  shows "gdt_base s' = gdt_base s" "idt_base s' = idt_base s" "cpu_cr2 s' = cpu_cr2 s"
    "cpu_gdtr s' = cpu_gdtr s" "cpu_idtr s' = cpu_idtr s" "cpu_cs s' = cpu_cs s" "cpu_ds s' = cpu_ds s"
  using assms by (auto simp: heap_frame_def heap_only_def)

lemma gdt_entries_length: "length gdt_entries = 5"
  by (simp add: gdt_entries_def)

lemma concat_bytes64: "length (concat (map bytes64 vs)) = 8 * length vs"
  by (induction vs) simp_all

lemma init_gdt_run:
  fixes s :: "'a cpu_scheme"
  assumes "heap_inv s h" and "alloc_ready s h 40"
  shows "\<exists>s' p m ys. init_gdt s = Some (STATUS_OK, s') \<and> heap_inv s' (snd (alloc_abs s h 40)) \<and>
    live (snd (alloc_abs s h 40)) = insert (p, m) (live h) \<and> p \<notin> fst ` live h \<and>
    rdn s' p m = Some (concat (map bytes64 gdt_entries) @ ys) \<and>
    (\<forall>q k. (q, k) \<in> live h \<longrightarrow> rdn s' q k = rdn s q k) \<and>
    cpu_gdtr s' = (40, p) \<and> cpu_cs s' = 0x8 \<and> cpu_ds s' = 0x10"
proof -
  let ?h = "snd (alloc_abs s h 40)"
  obtain p m s1 xs where 1: "kmalloc s 40 = Some (p, s1)" "unat (round16 40) \<le> m"
    "live ?h = insert (p, m) (live h)" "p \<notin> fst ` live h" "range_upd s1 ?h p m xs s1"
    and c: "\<forall>q k. (q, k) \<in> live h \<longrightarrow> rdn s1 q k = rdn s q k" and "heap_frame s s1"
    by (rule new_range [OF assms])
  have m: "40 \<le> m" using 1(2) by (simp add: round16_def)
  note d1 = range_updD [OF 1(5)]
  define s2 where "s2 = s1\<lparr>gdt_base := p\<rparr>"
  have "heap_same s1 s2" by (simp add: s2_def heap_same_def vm_same_def)
  note sm = heap_same_inv [OF this]
  have u2: "range_upd s2 ?h p m xs s2" using d1 by (intro range_updI) (simp_all add: sm)
  let ?f = "\<lambda>i t. wr64 t (gdt_base t + 8 * word_of_nat i) (gdt_entries ! i)"
  let ?x = "\<lambda>i. concat (map bytes64 (take i gdt_entries)) @ drop (8 * i) xs"
  have "\<exists>s3. for_loop 0 5 ?f s2 = Some s3 \<and> range_upd s2 ?h p m (?x (0 + 5)) s3"
  proof (rule for_loop_inv)
    show "range_upd s2 ?h p m (?x 0) s2" using u2 by simp
    fix i t assume i: "i < 0 + 5" and P: "range_upd s2 ?h p m (?x i) t"
    have g: "gdt_base t + 8 * word_of_nat i = p + word_of_nat (8 * i)"
      using heap_frame_cpu(1) [OF range_updD(6) [OF P]] by (simp add: s2_def)
    obtain t' where t': "wr64 t (gdt_base t + 8 * word_of_nat i) (gdt_entries ! i) = Some t'"
      "range_upd s2 ?h p m (patch (8 * i) (bytes64 (gdt_entries ! i)) (?x i)) t'"
      by (rule range_wr64 [OF P _ g]) (use i m in simp_all)
    have "patch (8 * i) (bytes64 (gdt_entries ! i)) (?x i) = ?x (Suc i)"
      using i m d1(4) by (subst patch_prefix)
        (simp_all add: concat_bytes64 gdt_entries_length take_Suc_conv_app_nth)
    then show "\<exists>t'. ?f i t = Some t' \<and> range_upd s2 ?h p m (?x (Suc i)) t'" using t' by auto
  qed
  then obtain s3 where 3: "for_loop 0 5 ?f s2 = Some s3" "range_upd s2 ?h p m (?x 5) s3" by auto
  note d3 = range_updD [OF 3(2)]
  have g3: "gdt_base s3 = p" using heap_frame_cpu(1) [OF d3(6)] by (simp add: s2_def)
  define s4 where "s4 = s3\<lparr>gdtr_base := p, gdtr_limit := 40, cpu_gdtr := (40, p), cpu_cs := 0x8, cpu_ds := 0x10\<rparr>"
  have "heap_same s3 s4" by (simp add: s4_def heap_same_def vm_same_def)
  note sm4 = heap_same_inv [OF this]
  have "init_gdt s = Some (STATUS_OK, s4)"
    using 1(1) 3(1) g3
    by (simp add: init_gdt_def Let_def s2_def [symmetric] s4_def load_gdt_def reload_segments_def)
  moreover have "rdn s4 q k = rdn s q k" if qk: "(q, k) \<in> live h" for q k
  proof -
    have "q \<noteq> p" using 1(4) qk by (force simp: image_iff)
    then show ?thesis using d3(7) [of q k] qk by (simp add: sm4 sm 1(3) c)
  qed
  moreover have "heap_inv s4 ?h" "rdn s4 p m = Some (concat (map bytes64 gdt_entries) @ drop (8 * 5) xs)"
    using d3(1,3) by (simp_all add: sm4 gdt_entries_length)
  moreover have "cpu_gdtr s4 = (40, p)" "cpu_cs s4 = 0x8" "cpu_ds s4 = 0x10" by (simp_all add: s4_def)
  ultimately show ?thesis using 1(3,4) by blast
qed

text \<open>C32: \<open>init_gdt\<close> takes a new range from the heap, stores the five descriptors there one after the other,
  loads the table register with the range's address and the limit 40 (one more than the offset of
  the last byte) and reloads the segment registers; other ranges are unchanged.\<close>

theorem init_gdt_loads_table:
  fixes s :: "'a cpu_scheme"
  assumes "heap_inv s h" and "alloc_ready s h 40"
  shows "\<exists>s' h' p m ys. init_gdt s = Some (STATUS_OK, s') \<and> heap_inv s' h' \<and>
    live h' = insert (p, m) (live h) \<and> p \<notin> fst ` live h \<and>
    rdn s' p m = Some (concat (map bytes64 gdt_entries) @ ys) \<and>
    (\<forall>q k. (q, k) \<in> live h \<longrightarrow> rdn s' q k = rdn s q k) \<and>
    cpu_gdtr s' = (40, p) \<and> cpu_cs s' = 0x8 \<and> cpu_ds s' = 0x10"
  using init_gdt_run [OF assms] by blast

lemma boot_nic_ready: "alloc_ready boot_nic [] 40" "alloc_ready boot_nic [] 2040"
proof -
  have "alloc_ready boot [] 40" "alloc_ready boot [] 2040"
    unfolding alloc_ready_def grow_ok_def grow_request_def round16_def
    using boot_mmap_page by (auto simp: heap_end_def)
  then show "alloc_ready boot_nic [] 40" "alloc_ready boot_nic [] 2040" by (simp_all add: boot_nic_inv)
qed

theorem init_gdt_loads_table_witness:
  "\<exists>s' h' p m ys. init_gdt boot_nic = Some (STATUS_OK, s') \<and> heap_inv s' h' \<and> live h' = {(p, m)} \<and>
    rdn s' p m = Some (concat (map bytes64 gdt_entries) @ ys) \<and> cpu_gdtr s' = (40, p)"
proof -
  obtain s' h' p m ys where "init_gdt boot_nic = Some (STATUS_OK, s')" "heap_inv s' h'"
    "live h' = insert (p, m) (live [])" "rdn s' p m = Some (concat (map bytes64 gdt_entries) @ ys)"
    "cpu_gdtr s' = (40, p)"
    using init_gdt_loads_table [OF boot_nic_heap boot_nic_ready(1)] by blast
  then show ?thesis by auto
qed

section \<open>Interrupt gates\<close>

text \<open>A gate: handler address, code selector 8, gate type, in the layout of \<open>struct idt_entry\<close>.\<close>

definition gate :: "u32 \<Rightarrow> u8 \<Rightarrow> u8 list" where
  "gate isr type = enc_idt_entry \<lparr>ie_offset_1 = ucast isr, ie_selector = 8, ie_zero = 0, ie_type_attr = type,
     ie_offset_2 = ucast (drop_bit 16 isr)\<rparr>"

lemma length_gate [simp]: "length (gate isr type) = 8"
  by (simp add: gate_def idt_entry.length_encode)

lemma low_half: "(ucast (ucast isr :: u16) :: u8) = byte_of 0 isr" "(ucast (drop_bit 8 (ucast isr :: u16)) :: u8) = byte_of 1 isr"
  for isr :: u32
  unfolding byte_of_def by (intro bit_word_eqI; simp add: bit_simps ac_simps)+

lemma high_half: "byte_of 0 (drop_bit 16 isr) = byte_of 2 isr" "byte_of 1 (drop_bit 16 isr) = byte_of 3 isr"
  unfolding byte_of_def by (intro bit_word_eqI; simp add: bit_simps ac_simps)+

lemma gate_bytes: "gate isr type = [byte_of 0 isr, byte_of 1 isr, 8, 0, 0, type, byte_of 2 isr, byte_of 3 isr]"
proof -
  have "(ucast (ucast (drop_bit 16 isr) :: u16) :: u8) = byte_of 2 isr"
    "(ucast (drop_bit 8 (ucast (drop_bit 16 isr) :: u16)) :: u8) = byte_of 3 isr"
    by (simp_all only: low_half high_half)
  then show ?thesis by (simp add: gate_def enc_idt_entry_def bytes16_def low_half)
qed

lemma patch_gate:
  assumes "8 \<le> length xs"
  shows "patch 6 [e, f] (patch 5 [d] (patch 4 [c] (patch 2 [b0, b1] (patch 0 [a0, a1] xs)))) =
    [a0, a1, b0, b1, c, d, e, f] @ drop 8 xs"
proof -
  define ys where "ys = take 8 xs"
  have "xs = ys @ drop 8 xs" and "length ys = 8" using assms by (simp_all add: ys_def)
  moreover from this(2) obtain x0 x1 x2 x3 x4 x5 x6 x7 where "ys = [x0, x1, x2, x3, x4, x5, x6, x7]"
    by (auto simp: eval_nat_numeral length_Suc_conv)
  ultimately obtain zs where z: "xs = [x0, x1, x2, x3, x4, x5, x6, x7] @ zs" by metis
  show ?thesis unfolding z by (simp add: patch_def)
qed

lemma make_idt_desc_run:
  fixes s :: "'a cpu_scheme"
  assumes "heap_inv s h" and "alloc_ready s h 8"
  obtains p m t xs where "make_idt_desc s isr ty = Some (p, t)" and "8 \<le> m"
    and "live (snd (alloc_abs s h 8)) = insert (p, m) (live h)" and "p \<notin> fst ` live h"
    and "range_upd t (snd (alloc_abs s h 8)) p m (gate isr ty @ xs) t"
    and "\<forall>q k. (q, k) \<in> live h \<longrightarrow> rdn t q k = rdn s q k" and "heap_frame s t"
proof -
  let ?h = "snd (alloc_abs s h 8)"
  obtain p m s1 xs where 1: "kmalloc s 8 = Some (p, s1)" "unat (round16 8) \<le> m"
    "live ?h = insert (p, m) (live h)" "p \<notin> fst ` live h" "range_upd s1 ?h p m xs s1"
    and c: "\<forall>q k. (q, k) \<in> live h \<longrightarrow> rdn s1 q k = rdn s q k" and f: "heap_frame s s1"
    by (rule new_range [OF assms])
  have m: "8 \<le> m" using 1(2) by (simp add: round16_def)
  have lx: "length xs = m" by (rule range_updD(4) [OF 1(5)])
  note u = 1(5)
  let ?lo = "ucast isr :: u16" and ?hi = "ucast (drop_bit 16 isr) :: u16"
  obtain s2 where 2: "wr16 s1 p ?lo = Some s2" and u2: "range_upd s1 ?h p m (patch 0 [ucast ?lo, ucast (drop_bit 8 ?lo)] xs) s2"
    by (rule range_wr16 [OF u, where off = 0 and v = ?lo]) (use m in simp_all)
  obtain s3 where 3: "wr16 s2 (p + 2) 0x8 = Some s3"
    and u3: "range_upd s1 ?h p m (patch 2 [ucast (0x8 :: u16), ucast (drop_bit 8 (0x8 :: u16))]
      (patch 0 [ucast ?lo, ucast (drop_bit 8 ?lo)] xs)) s3"
    by (rule range_wr16 [OF u2, where off = 2 and v = "0x8"]) (use m in simp_all)
  obtain s4 where 4: "wr8 s3 (p + 4) 0 = Some s4" and u4: "range_upd s1 ?h p m (patch 4 [0] (patch 2
      [ucast (0x8 :: u16), ucast (drop_bit 8 (0x8 :: u16))] (patch 0 [ucast ?lo, ucast (drop_bit 8 ?lo)] xs))) s4"
    by (rule range_wr8 [OF u3, where off = 4 and v = 0]) (use m in simp_all)
  obtain s5 where 5: "wr8 s4 (p + 5) ty = Some s5" and u5: "range_upd s1 ?h p m (patch 5 [ty] (patch 4 [0] (patch 2
      [ucast (0x8 :: u16), ucast (drop_bit 8 (0x8 :: u16))] (patch 0 [ucast ?lo, ucast (drop_bit 8 ?lo)] xs)))) s5"
    by (rule range_wr8 [OF u4, where off = 5 and v = ty]) (use m in simp_all)
  obtain s6 where 6: "wr16 s5 (p + 6) ?hi = Some s6" and u6: "range_upd s1 ?h p m
      (patch 6 [ucast ?hi, ucast (drop_bit 8 ?hi)] (patch 5 [ty] (patch 4 [0] (patch 2
      [ucast (0x8 :: u16), ucast (drop_bit 8 (0x8 :: u16))] (patch 0 [ucast ?lo, ucast (drop_bit 8 ?lo)] xs))))) s6"
    by (rule range_wr16 [OF u5, where off = 6 and v = ?hi]) (use m in simp_all)
  have "patch 6 [ucast ?hi, ucast (drop_bit 8 ?hi)] (patch 5 [ty] (patch 4 [0] (patch 2
      [ucast (0x8 :: u16), ucast (drop_bit 8 (0x8 :: u16))] (patch 0 [ucast ?lo, ucast (drop_bit 8 ?lo)] xs)))) =
      gate isr ty @ drop 8 xs"
    using lx m unfolding low_half high_half gate_bytes by (subst patch_gate) simp_all
  note u6 = u6 [unfolded this]
  have "make_idt_desc s isr ty = Some (p, s6)"
    using 1(1) 2 3 4 5 6 by (simp add: make_idt_desc_def)
  moreover have "\<forall>q k. (q, k) \<in> live h \<longrightarrow> rdn s6 q k = rdn s q k"
  proof (intro allI impI)
    fix q k assume qk: "(q, k) \<in> live h"
    then have "q \<noteq> p" using 1(4) by (force simp: image_iff)
    then show "rdn s6 q k = rdn s q k" using range_updD(7) [OF u6, of q k] qk c by (simp add: 1(3))
  qed
  moreover have "range_upd s6 ?h p m (gate isr ty @ drop 8 xs) s6"
    by (rule range_updI [OF range_updD(1-3) [OF u6]])
  ultimately show ?thesis
    using that m 1(3,4) heap_frame_trans [OF f range_updD(6) [OF u6]] by blast
qed

text \<open>One registration: a gate in a new range, copied to its slot of the table.\<close>

lemma idt_store_run:
  fixes t :: "'a cpu_scheme"
  assumes e: "range_upd t h p m (gate isr ty @ xs) t" and b: "(idt_base t, k) \<in> live h" "idt_base t \<noteq> p"
    and len: "8 * unat irq + 8 \<le> k" and tab: "rdn t (idt_base t) k = Some tab"
  obtains t' where "idt_store t irq p = Some t'"
    and "range_upd t h (idt_base t) k (patch (8 * unat irq) (gate isr ty) tab) t'"
proof -
  note d = range_updD [OF e]
  let ?b = "idt_base t" and ?o = "8 * unat irq"
  have m: "8 \<le> m" using d(4) by auto
  obtain lo where lo: "rd32 t (p + word_of_nat 0) = Some lo" "bytes32 lo = take 4 (drop 0 (gate isr ty @ xs))"
    by (rule range_rd32_bytes [OF d(3,4), of 0]) (use m in simp_all)
  obtain hi where hi: "rd32 t (p + word_of_nat 4) = Some hi" "bytes32 hi = take 4 (drop 4 (gate isr ty @ xs))"
    by (rule range_rd32_bytes [OF d(3,4), of 4]) (use m in simp_all)
  have u: "range_upd t h ?b k tab t" by (rule range_updI [OF d(1) b(1) tab])
  have a: "?b + 8 * ucast irq = ?b + word_of_nat ?o" by simp
  obtain t1 where 1: "wr32 t (?b + 8 * ucast irq) lo = Some t1" and u1: "range_upd t h ?b k (patch ?o (bytes32 lo) tab) t1"
    by (rule range_wr32 [OF u _ a, of lo]) (use len in simp_all)
  have a4: "?b + 8 * ucast irq + 4 = ?b + word_of_nat (?o + 4)" by (simp add: add.assoc)
  obtain t2 where 2: "wr32 t1 (?b + 8 * ucast irq + 4) hi = Some t2"
    and u2: "range_upd t h ?b k (patch (?o + 4) (bytes32 hi) (patch ?o (bytes32 lo) tab)) t2"
    by (rule range_wr32 [OF u1 _ a4, of hi]) (use len in simp_all)
  have "bytes32 lo @ bytes32 hi = gate isr ty" unfolding lo(2) hi(2) by (simp add: gate_bytes)
  then have "patch (?o + 4) (bytes32 hi) (patch ?o (bytes32 lo) tab) = patch ?o (gate isr ty) tab"
    using patch_patch [of ?o "bytes32 lo" "bytes32 hi" tab] len range_updD(4) [OF u] by simp
  then show ?thesis using that [of t2] lo(1) hi(1) 1 2 u2 by (simp add: idt_store_def)
qed

text \<open>A heap that has room for \<open>n\<close> requests of sixteen bytes without growing.\<close>

fun roomy :: "nat \<Rightarrow> blk list \<Rightarrow> bool" where
  "roomy 0 h = True"
| "roomy (Suc n) h = (case fit 16 h of None \<Rightarrow> False | Some (a, h') \<Rightarrow> roomy n h')"

lemma roomy_ready:
  assumes "roomy (Suc n) h"
  shows "alloc_ready s h 8" and "roomy n (snd (alloc_abs s h 8))"
proof -
  have r: "round16 8 = 16" by (simp add: round16_def)
  obtain a h' where "fit 16 h = Some (a, h')" "roomy n h'" using assms by (auto split: option.splits)
  then show "alloc_ready s h 8" and "roomy n (snd (alloc_abs s h 8))"
    by (simp_all add: alloc_ready_def alloc_abs_def r)
qed

text \<open>A free block at the end is enough.\<close>

lemma fit_skip: "\<forall>x\<in>set pre. \<not> snd (snd x) \<Longrightarrow> len \<le> z \<Longrightarrow>
    fit len (pre @ [(a, z, True)]) = Some (a, pre @ carve a z len)"
  by (induction pre) auto

lemma roomy_end:
  "\<forall>x\<in>set pre. \<not> snd (snd x) \<Longrightarrow> 36 * n + 256 < unat z \<Longrightarrow> roomy n (pre @ [(a, z, True)])"
proof (induction n arbitrary: pre a z)
  case (Suc n)
  have big: "292 < unat z" using Suc.prems(2) by simp
  then have le: "16 \<le> z" by (simp add: word_le_nat_alt)
  have "unat (z - 20 - 16) = unat z - 36" using big by (simp add: unat_sub word_le_nat_alt)
  then have "roomy n ((pre @ [(a, 16, False)]) @ [(a + 20 + 16, z - 20 - 16, True)])"
    using Suc.prems by (intro Suc.IH) auto
  moreover have "carve a z 16 = [(a, 16, False), (a + 20 + 16, z - 20 - 16, True)]"
    using big by (simp add: carve_def)
  ultimately show ?case by (simp add: fit_skip [OF Suc.prems(1) le])
qed simp

definition gate_type :: "bool \<Rightarrow> u8" where
  "gate_type trap = (if trap then IDT_FLG_TRAPGATE else IDT_FLG_INTGATE)"

lemma map_gate_run:
  fixes s :: "'a cpu_scheme"
  assumes inv: "heap_inv s h" and room: "roomy (Suc n) h" and b: "(idt_base s, k) \<in> live h"
    and len: "8 * unat irq + 8 \<le> k" and tab: "rdn s (idt_base s) k = Some tab"
  obtains s' h' p m where "(if trap then idt_maptrap s irq isr else idt_mapint s irq isr) = Some s'"
    and "heap_inv s' h'" and "roomy n h'" and "live h' = insert (p, m) (live h)" and "8 \<le> m"
    and "idt_base s' = idt_base s" and "heap_frame s s'"
    and "rdn s' (idt_base s) k = Some (patch (8 * unat irq) (gate isr (gate_type trap)) tab)"
    and "\<forall>q l. (q, l) \<in> live h \<and> q \<noteq> idt_base s \<longrightarrow> rdn s' q l = rdn s q l"
proof -
  let ?h = "snd (alloc_abs s h 8)" and ?ty = "gate_type trap"
  obtain p m t xs where 1: "make_idt_desc s isr ?ty = Some (p, t)" "8 \<le> m"
    "live ?h = insert (p, m) (live h)" "p \<notin> fst ` live h" "range_upd t ?h p m (gate isr ?ty @ xs) t"
    and c: "\<forall>q l. (q, l) \<in> live h \<longrightarrow> rdn t q l = rdn s q l" and f: "heap_frame s t"
    by (rule make_idt_desc_run [OF inv roomy_ready(1) [OF room]])
  have bt: "idt_base t = idt_base s" by (rule heap_frame_cpu(2) [OF f])
  have bp: "idt_base t \<noteq> p" using b 1(4) bt by (force simp: image_iff)
  have b': "(idt_base t, k) \<in> live ?h" using b by (simp add: 1(3) bt)
  have tab': "rdn t (idt_base t) k = Some tab" using c b tab by (simp add: bt)
  obtain t' where t': "idt_store t irq p = Some t'"
    "range_upd t ?h (idt_base t) k (patch (8 * unat irq) (gate isr ?ty) tab) t'"
    by (rule idt_store_run [OF 1(5) b' bp len tab'])
  note d = range_updD [OF t'(2)]
  have "(if trap then idt_maptrap s irq isr else idt_mapint s irq isr) = Some t'"
    using 1(1) t'(1) by (simp add: idt_maptrap_def idt_mapint_def gate_type_def split: if_splits)
  moreover have "\<forall>q l. (q, l) \<in> live h \<and> q \<noteq> idt_base s \<longrightarrow> rdn t' q l = rdn s q l"
    using d(7) c by (simp add: 1(3) bt)
  moreover have "idt_base t' = idt_base s" using heap_frame_cpu(2) [OF d(6)] bt by simp
  ultimately show ?thesis
    using that [of t' ?h p m] d(1,3) 1(2,3) roomy_ready(2) [OF room, of s] heap_frame_trans [OF f d(6)] by (simp add: bt)
qed

section \<open>The trap handlers\<close>

text \<open>The table after a list of registrations, and one of its slots.\<close>

fun install :: "(isr \<Rightarrow> u32) \<Rightarrow> (u8 \<times> bool \<times> isr) list \<Rightarrow> u8 list \<Rightarrow> u8 list" where
  "install isr_addr [] tab = tab"
| "install isr_addr ((v, trap, f) # rest) tab =
     install isr_addr rest (patch (8 * unat v) (gate (isr_addr f) (gate_type trap)) tab)"

definition slot :: "u8 \<Rightarrow> u8 list \<Rightarrow> u8 list" where
  "slot v tab = take 8 (drop (8 * unat v) tab)"

lemma before_patch: "a + n \<le> b \<Longrightarrow> b \<le> length tab \<Longrightarrow> take n (drop a (patch b g tab)) = take n (drop a tab)"
  by (rule nth_equalityI) (auto simp: patch_def nth_append)

lemma after_patch: "b + length g \<le> a \<Longrightarrow> b \<le> length tab \<Longrightarrow> drop a (patch b g tab) = drop a tab"
  by (simp add: patch_def)

lemma slot_patch:
  assumes "8 * unat v + 8 \<le> length tab" and "length g = 8"
  shows "slot w (patch (8 * unat v) g tab) = (if w = v then g else slot w tab)"
proof (cases "w = v")
  case True
  then show ?thesis using assms by (simp add: slot_def patch_def)
next
  case False
  then have "unat w < unat v \<or> unat v < unat w" by (metis less_linear word_unat_eq_iff)
  then consider "8 * unat w + 8 \<le> 8 * unat v" | "8 * unat v + 8 \<le> 8 * unat w" by linarith
  then show ?thesis
  proof cases
    case 1
    then show ?thesis using assms False before_patch [of "8 * unat w" 8 "8 * unat v" tab g] by (simp add: slot_def)
  next
    case 2
    then show ?thesis using assms False after_patch [of "8 * unat v" g "8 * unat w" tab] by (simp add: slot_def)
  qed
qed

lemma install_slots:
  "(\<forall>x\<in>set tr. 8 * unat (fst x) + 8 \<le> length tab) \<Longrightarrow> distinct (map fst tr) \<Longrightarrow>
    length (install isr_addr tr tab) = length tab \<and>
    (\<forall>(v, trap, f)\<in>set tr. slot v (install isr_addr tr tab) = gate (isr_addr f) (gate_type trap)) \<and>
    (\<forall>v. v \<notin> fst ` set tr \<longrightarrow> slot v (install isr_addr tr tab) = slot v tab)"
proof (induction isr_addr tr tab rule: install.induct)
  case (2 isr_addr v trap f rest tab)
  let ?tab = "patch (8 * unat v) (gate (isr_addr f) (gate_type trap)) tab"
  have len: "8 * unat v + 8 \<le> length tab" using "2.prems"(1) by simp
  then have l: "length ?tab = length tab" by simp
  have sl: "slot w ?tab = (if w = v then gate (isr_addr f) (gate_type trap) else slot w tab)" for w
    by (rule slot_patch [OF len]) simp
  have v: "v \<notin> fst ` set rest" using "2.prems"(2) by simp
  have "\<forall>x\<in>set rest. 8 * unat (fst x) + 8 \<le> length ?tab" using "2.prems"(1) l by simp
  then have "length (install isr_addr rest ?tab) = length ?tab \<and>
    (\<forall>(v, trap, f)\<in>set rest. slot v (install isr_addr rest ?tab) = gate (isr_addr f) (gate_type trap)) \<and>
    (\<forall>v. v \<notin> fst ` set rest \<longrightarrow> slot v (install isr_addr rest ?tab) = slot v ?tab)"
    using "2.prems"(2) by (intro "2.IH") simp_all
  then show ?case using l v sl by simp
qed simp

lemma map_traps_run:
  fixes s :: "'a cpu_scheme"
  shows "heap_inv s h \<Longrightarrow> roomy (length tr) h \<Longrightarrow> (idt_base s, k) \<in> live h \<Longrightarrow>
    (\<forall>x\<in>set tr. 8 * unat (fst x) + 8 \<le> k) \<Longrightarrow> rdn s (idt_base s) k = Some tab \<Longrightarrow>
    \<exists>s' h'. map_traps isr_addr tr s = Some s' \<and> heap_inv s' h' \<and> live h \<subseteq> live h' \<and>
      idt_base s' = idt_base s \<and> heap_frame s s' \<and> rdn s' (idt_base s) k = Some (install isr_addr tr tab) \<and>
      (\<forall>q l. (q, l) \<in> live h \<and> q \<noteq> idt_base s \<longrightarrow> rdn s' q l = rdn s q l)"
proof (induction tr arbitrary: s h tab)
  case Nil
  then show ?case using heap_frame_refl by auto
next
  case (Cons x tr)
  obtain v trap f where x: "x = (v, trap, f)" by (cases x)
  have room: "roomy (Suc (length tr)) h" and len: "8 * unat v + 8 \<le> k" using Cons.prems(2,4) by (simp_all add: x)
  obtain s1 h1 p m where 1: "(if trap then idt_maptrap s v (isr_addr f) else idt_mapint s v (isr_addr f)) = Some s1"
    "heap_inv s1 h1" "roomy (length tr) h1" "live h1 = insert (p, m) (live h)" "8 \<le> m"
    "idt_base s1 = idt_base s" "heap_frame s s1"
    "rdn s1 (idt_base s) k = Some (patch (8 * unat v) (gate (isr_addr f) (gate_type trap)) tab)"
    "\<forall>q l. (q, l) \<in> live h \<and> q \<noteq> idt_base s \<longrightarrow> rdn s1 q l = rdn s q l"
    by (rule map_gate_run [OF Cons.prems(1) room Cons.prems(3) len Cons.prems(5)])
  have b: "(idt_base s1, k) \<in> live h1" using Cons.prems(3) by (simp add: 1(4,6))
  have all: "\<forall>x\<in>set tr. 8 * unat (fst x) + 8 \<le> k" using Cons.prems(4) by (simp add: x)
  obtain s2 h2 where 2: "map_traps isr_addr tr s1 = Some s2" "heap_inv s2 h2" "live h1 \<subseteq> live h2"
    "idt_base s2 = idt_base s1" "heap_frame s1 s2"
    "rdn s2 (idt_base s1) k = Some (install isr_addr tr (patch (8 * unat v) (gate (isr_addr f) (gate_type trap)) tab))"
    "\<forall>q l. (q, l) \<in> live h1 \<and> q \<noteq> idt_base s1 \<longrightarrow> rdn s2 q l = rdn s1 q l"
    using Cons.IH [OF 1(2,3) b all] 1(6,8) by auto
  have "map_traps isr_addr (x # tr) s = Some s2" using 1(1) 2(1) by (simp add: x)
  moreover have "heap_frame s s2" by (rule heap_frame_trans [OF 1(7) 2(5)])
  moreover have "rdn s2 (idt_base s) k = Some (install isr_addr (x # tr) tab)" using 2(6) by (simp add: x 1(6))
  moreover have "\<forall>q l. (q, l) \<in> live h \<and> q \<noteq> idt_base s \<longrightarrow> rdn s2 q l = rdn s q l"
    using 2(7) 1(9) by (simp add: 1(4,6))
  moreover have "live h \<subseteq> live h2" using 2(3) by (simp add: 1(4))
  ultimately show ?case using 2(2,4) 1(6) by auto
qed

lemma init_cpu_traps_run:
  fixes s :: "'a cpu_scheme"
  assumes "heap_inv s h" and "roomy 20 h" and "(idt_base s, k) \<in> live h" and "2040 \<le> k"
    and "rdn s (idt_base s) k = Some tab"
  shows "\<exists>s' h' tab'. init_cpu_traps isr_addr s = Some (STATUS_OK, s') \<and> heap_inv s' h' \<and>
    live h \<subseteq> live h' \<and> rdn s' (idt_base s) k = Some tab' \<and>
    (\<forall>v trap f. (v, trap, f) \<in> set trap_table \<longrightarrow> slot v tab' = gate (isr_addr f) (gate_type trap)) \<and>
    (\<forall>v. v \<notin> fst ` set trap_table \<longrightarrow> slot v tab' = slot v tab) \<and>
    heap_frame s s' \<and> (\<forall>q l. (q, l) \<in> live h \<and> q \<noteq> idt_base s \<longrightarrow> rdn s' q l = rdn s q l)"
proof -
  have lt: "length tab = k" using live_contents [OF assms(1,3)] assms(5) by auto
  have n: "length trap_table = 20" and dist: "distinct (map fst trap_table)" by (simp_all add: trap_table_def)
  have all: "\<forall>x\<in>set trap_table. 8 * unat (fst x) + 8 \<le> k" using assms(4) by (simp add: trap_table_def)
  obtain s' h' where 1: "map_traps isr_addr trap_table s = Some s'" "heap_inv s' h'" "live h \<subseteq> live h'"
    "rdn s' (idt_base s) k = Some (install isr_addr trap_table tab)"
    "heap_frame s s'" "\<forall>q l. (q, l) \<in> live h \<and> q \<noteq> idt_base s \<longrightarrow> rdn s' q l = rdn s q l"
    using map_traps_run [OF assms(1) _ assms(3) all assms(5), of isr_addr] assms(2) n by auto
  have "\<forall>(v, trap, f)\<in>set trap_table. slot v (install isr_addr trap_table tab) = gate (isr_addr f) (gate_type trap)"
    "\<forall>v. v \<notin> fst ` set trap_table \<longrightarrow> slot v (install isr_addr trap_table tab) = slot v tab"
    using install_slots [of trap_table tab isr_addr] all lt dist by simp_all
  then have sl: "\<forall>v trap f. (v, trap, f) \<in> set trap_table \<longrightarrow>
      slot v (install isr_addr trap_table tab) = gate (isr_addr f) (gate_type trap)"
    "\<forall>v. v \<notin> fst ` set trap_table \<longrightarrow> slot v (install isr_addr trap_table tab) = slot v tab" by blast+
  have "init_cpu_traps isr_addr s = Some (STATUS_OK, s')" using 1(1) by (simp add: init_cpu_traps_def)
  then show ?thesis using 1(2-6) sl by blast
qed

text \<open>C19: \<open>init_cpu_traps\<close>, on a heap with room for twenty small requests and an interrupt table in a
  range of at least 255 slots, puts the gate of every handler into the handler's slot (a trap
  gate, for the non-maskable interrupt an interrupt gate) and changes no other slot.\<close>

theorem init_cpu_traps_installs:
  fixes s :: "'a cpu_scheme"
  assumes "heap_inv s h" and "roomy 20 h" and "(idt_base s, k) \<in> live h" and "2040 \<le> k"
    and "rdn s (idt_base s) k = Some tab"
  shows "\<exists>s' h' tab'. init_cpu_traps isr_addr s = Some (STATUS_OK, s') \<and> heap_inv s' h' \<and>
    live h \<subseteq> live h' \<and> rdn s' (idt_base s) k = Some tab' \<and>
    (\<forall>v trap f. (v, trap, f) \<in> set trap_table \<longrightarrow> slot v tab' = gate (isr_addr f) (gate_type trap)) \<and>
    (\<forall>v. v \<notin> fst ` set trap_table \<longrightarrow> slot v tab' = slot v tab)"
  using init_cpu_traps_run [OF assms] by blast

lemma init_idt_run:
  fixes s :: "'a cpu_scheme"
  assumes "heap_inv s h" and "alloc_ready s h 2040"
  obtains s' p m where "init_idt s = Some (STATUS_OK, s')" and "heap_inv s' (snd (alloc_abs s h 2040))"
    and "live (snd (alloc_abs s h 2040)) = insert (p, m) (live h)" and "2048 \<le> m"
    and "idt_base s' = p" and "cpu_idtr s' = (2040, p)" and "p \<notin> fst ` live h"
    and "\<forall>q k. (q, k) \<in> live h \<longrightarrow> rdn s' q k = rdn s q k" and "cpu_gdtr s' = cpu_gdtr s"
    and "cpu_cs s' = cpu_cs s" and "cpu_ds s' = cpu_ds s"
proof -
  obtain p m s1 xs where 1: "kmalloc s 2040 = Some (p, s1)" "unat (round16 2040) \<le> m"
    "live (snd (alloc_abs s h 2040)) = insert (p, m) (live h)" "p \<notin> fst ` live h"
    "range_upd s1 (snd (alloc_abs s h 2040)) p m xs s1"
    and c: "\<forall>q k. (q, k) \<in> live h \<longrightarrow> rdn s1 q k = rdn s q k" and f: "heap_frame s s1"
    by (rule new_range [OF assms])
  define s2 where "s2 = s1\<lparr>idt_base := p, idtr_base := p, idtr_limit := 2040, cpu_idtr := (2040, p)\<rparr>"
  have "heap_same s1 s2" by (simp add: s2_def heap_same_def vm_same_def)
  note sm = heap_same_inv [OF this]
  have "heap_inv s2 (snd (alloc_abs s h 2040))" using range_updD(1) [OF 1(5)] by (simp add: sm)
  moreover have "\<forall>q k. (q, k) \<in> live h \<longrightarrow> rdn s2 q k = rdn s q k" using c by (simp add: sm)
  moreover have "cpu_gdtr s2 = cpu_gdtr s" "cpu_cs s2 = cpu_cs s" "cpu_ds s2 = cpu_ds s"
    using heap_frame_cpu [OF f] by (simp_all add: s2_def)
  moreover have "init_idt s = Some (STATUS_OK, s2)" using 1(1) by (simp add: init_idt_def Let_def load_idt_def s2_def)
  ultimately show ?thesis using that [of s2 p m] 1(2-4) by (simp add: s2_def round16_def)
qed

theorem init_cpu_traps_installs_witness:
  "\<exists>s s' h' k tab'. init_idt boot_nic = Some (STATUS_OK, s) \<and>
    init_cpu_traps (\<lambda>_. 0xc0100000) s = Some (STATUS_OK, s') \<and> heap_inv s' h' \<and>
    rdn s' (idt_base s) k = Some tab' \<and> slot 14 tab' = gate 0xc0100000 IDT_FLG_TRAPGATE"
proof -
  obtain s p m where s: "init_idt boot_nic = Some (STATUS_OK, s)"
    "heap_inv s (snd (alloc_abs boot_nic [] 2040))"
    "live (snd (alloc_abs boot_nic [] 2040)) = insert (p, m) (live [])" "2048 \<le> m"
    "idt_base s = p"
    by (rule init_idt_run [OF boot_nic_heap boot_nic_ready(2)])
  have h: "snd (alloc_abs boot_nic [] 2040) = [(0xd0000000, 2048, False), (0xd0000814, 2008, True)]"
    by (simp add: boot_nic_inv alloc_abs_def grow_request_def round16_def grow_bytes_def carve_def)
  have room: "roomy 20 (snd (alloc_abs boot_nic [] 2040))"
    using roomy_end [of "[(0xd0000000, 2048, False)]" 20 2008 "0xd0000814"] unfolding h by simp
  have pm: "(idt_base s, m) \<in> live (snd (alloc_abs boot_nic [] 2040))" using s(3,5) by simp
  obtain tab where tab: "rdn s (idt_base s) m = Some tab" by (rule live_contents [OF s(2) pm])
  have pf: "(14, True, Fault_pf) \<in> set trap_table" by (simp add: trap_table_def)
  have "2040 \<le> m" using s(4) by simp
  from init_cpu_traps_installs [OF s(2) room pm this tab, of "\<lambda>_. 0xc0100000"]
  obtain s' h' tab' where "init_cpu_traps (\<lambda>_. 0xc0100000) s = Some (STATUS_OK, s')" "heap_inv s' h'"
    "rdn s' (idt_base s) m = Some tab'"
    "\<forall>v trap f. (v, trap, f) \<in> set trap_table \<longrightarrow> slot v tab' = gate 0xc0100000 (gate_type trap)"
    by blast
  then show ?thesis using s(1) pf by (fastforce simp: gate_type_def)
qed

end
