(* ===== verification/LibProps.thy ===== *)
theory LibProps
  imports Ranges BootNic
begin

text \<open>
  The C library of the kernel (\<open>klibc/\<close>) and the hexadecimal output of the screen driver.
\<close>

section \<open>Moving memory\<close>

text \<open>C17: \<open>memmove\<close> copies \<open>n\<close> bytes between two ranges of the heap, or within one range with any overlap: the
  destination holds what the source held before, every other byte is unchanged, and the buffer
  it used is released.\<close>

theorem memmove_moves:
  fixes s :: "'a kheap_scheme"
  assumes "heap_inv s h" and "(p, m) \<in> live h" and "i + unat n \<le> m" and "rdn s p m = Some xs"
    and "(q, k) \<in> live h" and "j + unat n \<le> k" and "rdn s q k = Some ys"
    and "alloc_ready s h n" and "unat n \<le> 0xfffffff0"
  shows "\<exists>s' h'. memmove s (q + word_of_nat j) (p + word_of_nat i) n = Some (q + word_of_nat j, s') \<and>
    heap_inv s' h' \<and> live h' = live h \<and> rdn s' q k = Some (patch j (take (unat n) (drop i xs)) ys) \<and>
    (\<forall>r l. (r, l) \<in> live h \<and> r \<noteq> q \<longrightarrow> rdn s' r l = rdn s r l) \<and> heap_frame s s'"
proof -
  let ?h = "snd (alloc_abs s h n)"
  obtain b w s1 zs where 1: "kmalloc s n = Some (b, s1)" "unat (round16 n) \<le> w"
    "live ?h = insert (b, w) (live h)" "b \<notin> fst ` live h" "range_upd s1 ?h b w zs s1"
    and c1: "\<forall>q k. (q, k) \<in> live h \<longrightarrow> rdn s1 q k = rdn s q k" and f1: "heap_frame s s1"
    by (rule new_range [OF assms(1,8)])
  note u1 = range_updD [OF 1(5)]
  have bw: "(b, w) \<in> live ?h" and pm: "(p, m) \<in> live ?h" and qk: "(q, k) \<in> live ?h"
    using assms(2,5) by (simp_all add: 1(3))
  have nw: "0 + unat n \<le> w" using round16_ge [OF assms(9)] 1(2) by simp
  have ne: "r \<noteq> b" if "(r, l) \<in> live h" for r l using 1(4) that by (force simp: image_iff)
  have p1: "rdn s1 p m = Some xs" using c1 assms(2,4) by simp
  obtain s2 where 2: "for_loop 0 (unat n) (\<lambda>l t. do { c \<leftarrow> rd8 t (p + word_of_nat i + word_of_nat l);
      wrn t (b + word_of_nat 0 + word_of_nat l) [c] }) s1 = Some s2" "heap_inv s2 ?h"
    "rdn s2 b w = Some (patch 0 (take (unat n) (drop i xs)) zs)" "heap_frame s1 s2"
    and c2: "\<forall>(r, l)\<in>live ?h. r \<noteq> b \<longrightarrow> rdn s2 r l = rdn s1 r l"
    using hc.copy [OF u1(1) pm assms(3) p1 bw nw u1(3) ne [OF assms(2)]] by blast
  have c2': "rdn s2 r l = rdn s r l" if "(r, l) \<in> live h" for r l
    using bspec [OF c2, of "(r, l)"] c1 ne [OF that] that by (simp add: 1(3))
  have q2: "rdn s2 q k = Some ys" using c2' [OF assms(5)] assms(7) by simp
  obtain s3 where 3: "for_loop 0 (unat n) (\<lambda>l t. do { c \<leftarrow> rd8 t (b + word_of_nat 0 + word_of_nat l);
      wrn t (q + word_of_nat j + word_of_nat l) [c] }) s2 = Some s3" "heap_inv s3 ?h"
    "rdn s3 q k = Some (patch j (take (unat n) (drop 0 (patch 0 (take (unat n) (drop i xs)) zs))) ys)" "heap_frame s2 s3"
    and c3: "\<forall>(r, l)\<in>live ?h. r \<noteq> q \<longrightarrow> rdn s3 r l = rdn s2 r l"
    using hc.copy [OF 2(2) bw nw 2(3) qk assms(6) q2 ne [OF assms(5), symmetric]] by blast
  have lx: "length xs = m" using live_contents [OF assms(1,2)] assms(4) by auto
  have d: "take (unat n) (drop 0 (patch 0 (take (unat n) (drop i xs)) zs)) = take (unat n) (drop i xs)"
    using lx assms(3) u1(4) nw by (simp add: patch_def)
  obtain s4 h4 where 4: "kfree s3 b = Some (STATUS_OK, s4)" "heap_inv s4 h4" "live h4 = live ?h - {(b, w)}"
    "heap_frame s3 s4" and c4: "\<forall>(r, l)\<in>live ?h. rdn s4 r l = rdn s3 r l"
    using hc.free_law [OF 3(2) bw] by blast
  have c4': "rdn s4 r l = rdn s3 r l" if "(r, l) \<in> live ?h" for r l using bspec [OF c4 that] by simp
  have "memmove s (q + word_of_nat j) (p + word_of_nat i) n = Some (q + word_of_nat j, s4)"
    using 1(1) 2(1) 3(1) 4(1)
    by (simp add: memmove_def memmove_with_def copy_bytes_def wr8_def kfree_def)
  moreover have "live h4 = live h" using 4(3) 1(3) ne by blast
  moreover have "rdn s4 q k = Some (patch j (take (unat n) (drop i xs)) ys)"
    using c4' [OF qk] 3(3) unfolding d by simp
  moreover have "rdn s4 r l = rdn s r l" if "(r, l) \<in> live h" "r \<noteq> q" for r l
    using c4' [of r l] bspec [OF c3, of "(r, l)"] c2' that by (simp add: 1(3))
  moreover have "heap_frame s s4"
    using f1 2(4) 3(4) 4(4) heap_frame_trans by blast
  ultimately show ?thesis using 4(2) by blast
qed

theorem memmove_moves_witness:
  "\<exists>s xs s' h'. kmalloc boot 16 = Some (0xd0000014, s) \<and> rdn s 0xd0000014 16 = Some xs \<and>
    memmove s (0xd0000014 + word_of_nat 2) (0xd0000014 + word_of_nat 0) 12 = Some (0xd0000014 + word_of_nat 2, s') \<and>
    heap_inv s' h' \<and> rdn s' 0xd0000014 16 = Some (patch 2 (take 12 (drop 0 xs)) xs)"
proof -
  obtain s where s: "kmalloc boot 16 = Some (0xd0000014, s)" "heap_inv s one_block" by (rule boot_one)
  have pm: "(0xd0000014, 16) \<in> live one_block" by (simp add: one_block_live)
  obtain xs where xs: "rdn s 0xd0000014 16 = Some xs" by (rule live_contents [OF s(2) pm])
  have "alloc_ready s one_block 12" by (simp add: alloc_ready_def one_block_def round16_def)
  from memmove_moves [OF s(2) pm _ xs pm _ xs this, of 0 2]
  obtain s' h' where "memmove s (0xd0000014 + word_of_nat 2) (0xd0000014 + word_of_nat 0) 12 =
      Some (0xd0000014 + word_of_nat 2, s')"
    "heap_inv s' h'" "rdn s' 0xd0000014 16 = Some (patch 2 (take (unat (12 :: u32)) (drop 0 xs)) xs)"
    by auto
  then show ?thesis using s(1) xs by auto
qed

section \<open>Strings\<close>

text \<open>\<open>strlen\<close> of a string in memory returns the number of its characters plus one: it counts the
  terminating zero.\<close>

theorem strlen_counts_zero:
  assumes "rdn s p (length cs + 1) = Some (cs @ [0])" and "0 \<notin> set cs"
  shows "strlen s p = Some (word_of_nat (length cs + 1))"
proof -
  have r: "rd8 s (p + word_of_nat i) = Some ((cs @ [0]) ! i)" if "i \<le> length cs" for i
    using rdn_nth [OF assms(1)] that by simp
  have "strlen_from s p (word_of_nat i) = Some (word_of_nat (length cs + 1))" if "i \<le> length cs" for i
    using that
  proof (induction "length cs - i" arbitrary: i)
    case 0
    then have "i = length cs" by simp
    then show ?case using r [of i] by (subst strlen_from.simps) (simp add: add.commute)
  next
    case (Suc n)
    then have i: "i < length cs" by simp
    then have "(cs @ [0]) ! i \<noteq> 0" using assms(2) by (auto simp: nth_append dest: nth_mem)
    moreover have "strlen_from s p (word_of_nat (Suc i)) = Some (word_of_nat (length cs + 1))"
      using Suc i by (intro Suc.hyps(1)) simp_all
    ultimately show ?case using r [of i] i by (subst strlen_from.simps) (simp add: add.commute)
  qed
  from this [of 0] show ?thesis by (simp add: strlen_def)
qed

lemma boot_string: "rdn boot 0xc010d002 2 = Some [0x10, 0]"
proof -
  have t: "translate boot 0xc010d002 = Some 0x10d002" "translate boot 0xc010d003 = Some 0x10d003"
    by (simp_all add: translate_walk [OF boot_tlb_ok] boot_walk pd_index_def pt_index_def mkaddr_def pgoff_def)
  have "boot_ram 0x10d002 = 0x10" "boot_ram 0x10d003 = 0"
    by (simp_all add: boot_ram_def boot_entry_def page_def pgoff_def byte_of_def)
  then have "rd8 boot 0xc010d002 = Some 0x10" "rd8 boot 0xc010d003 = Some 0" using t by (simp_all add: rd8_def)
  then show ?thesis by (simp add: rdn_rd8 eval_nat_numeral upt_conv_Cons)
qed

theorem strlen_counts_zero_witness: "strlen boot 0xc010d002 = Some 2"
proof -
  have "length [0x10 :: u8] + 1 = 2" and "[0x10, 0] = [0x10] @ [0 :: u8]" by simp_all
  then have "rdn boot 0xc010d002 (length [0x10 :: u8] + 1) = Some ([0x10] @ [0])" using boot_string by metis
  from strlen_counts_zero [OF this] show ?thesis by simp
qed

section \<open>Numbers\<close>

text \<open>The number that a string of hexadecimal digits stands for.\<close>

definition hex_digit :: "u8 \<Rightarrow> u8" where
  "hex_digit c = (if c \<le> 57 then c - 48 else c - 55)"

fun hex_value :: "u8 list \<Rightarrow> u32 \<Rightarrow> u32" where
  "hex_value [] v = v"
| "hex_value (c # cs) v = hex_value cs (push_bit 4 v OR ucast (hex_digit c))"

lemma hex_digit_char: "n \<le> 15 \<Longrightarrow> hex_digit (hex_char n) = n"
proof -
  assume "n \<le> 15"
  then have u: "unat n \<le> 15" by (simp add: word_le_nat_alt)
  show "hex_digit (hex_char n) = n"
  proof (cases "n \<le> 9")
    case True
    then have "unat (n + 48) = unat n + 48" using u by (simp add: unat_word_ariths)
    then show ?thesis using True by (simp add: hex_char_def hex_digit_def word_le_nat_alt)
  next
    case False
    then have "unat (n + 55) = unat n + 55" using u by (simp add: unat_word_ariths)
    then show ?thesis using False by (simp add: hex_char_def hex_digit_def word_le_nat_alt)
  qed
qed

lemma nibbles: "drop_bit 4 (b :: u8) \<le> 15" "(b :: u8) AND 0x0f \<le> 15"
proof -
  have "unat b < 256" using unsigned_less [of b] by simp
  then show "drop_bit 4 b \<le> 15" by (simp add: word_le_nat_alt drop_bit_eq_div unat_div)
  show "b AND 0x0f \<le> 15" by (rule word_and_le1)
qed

lemma hex_byte:
  "push_bit 4 (push_bit 4 v OR ucast (drop_bit 4 b)) OR ucast (b AND 0x0f) = push_bit 8 v OR (ucast b :: u32)"
  for b :: u8
proof -
  have m: "(0x0f :: u8) = mask 4" by (simp add: mask_eq_exp_minus_1)
  show ?thesis
  proof (rule bit_word_eqI)
    fix n assume "n < LENGTH(32)"
    have "n < 4 \<or> (\<exists>j<4. n = 4 + j) \<or> (\<exists>j. n = 8 + j)" by presburger
    then show "bit (push_bit 4 (push_bit 4 v OR ucast (drop_bit 4 b)) OR ucast (b AND 0x0f)) n =
        bit (push_bit 8 v OR (ucast b :: u32)) n"
      unfolding m by (elim disjE exE conjE) (auto simp: bit_simps dest: bit_imp_le_length)
  qed
qed

lemma hex_value_byte:
  "hex_value (hex_char (drop_bit 4 b) # hex_char (b AND 0x0f) # cs) v = hex_value cs (push_bit 8 v OR ucast b)"
  unfolding hex_value.simps hex_digit_char [OF nibbles(1)] hex_digit_char [OF nibbles(2)] hex_byte by (rule refl)

text \<open>The eight digits that \<open>vga_puthex\<close> prints stand for the number.\<close>

theorem hex_chars_value: "hex_value (hex_chars v) 0 = v"
proof -
  have "hex_value (hex_chars v) 0 = push_bit 8 (push_bit 8 (push_bit 8 (push_bit 8 0 OR ucast (byte_of 3 v)) OR
      ucast (byte_of 2 v)) OR ucast (byte_of 1 v)) OR ucast (byte_of 0 v)"
    unfolding hex_chars_def Let_def
    by (simp only: list.map concat.simps append.simps hex_value_byte hex_value.simps(1))
  also have "\<dots> = cat32 (byte_of 0 v) (byte_of 1 v) (byte_of 2 v) (byte_of 3 v)"
    by (simp add: cat32_def push_bit_or ac_simps)
  finally show ?thesis by simp
qed

end
