(* ===== verification/ItoaProps.thy ===== *)
theory ItoaProps
  imports LibProps
begin

text \<open>
  \<open>itoa\<close> of \<open>klibc/kstdlib.c\<close>: the digits it produces, and the byte it writes behind its buffer.
\<close>

section \<open>Digits\<close>

text \<open>The digits of a number, the most significant first.\<close>

function digits :: "nat \<Rightarrow> nat \<Rightarrow> u8 list" where
  "digits b n = (if n = 0 \<or> b < 2 then [] else digits b (n div b) @ [digit_char (word_of_nat (n mod b))])"
  by pat_completeness auto

termination
  by (relation "measure snd") auto

declare digits.simps [simp del]

lemma digits_0 [simp]: "digits b 0 = []"
  by (simp add: digits.simps)

lemma digits_word:
  assumes "v \<noteq> 0" and "2 \<le> unat base"
  shows "digits (unat base) (unat v) = digits (unat base) (unat (v div base)) @ [digit_char (v mod base)]"
proof -
  have "unat v \<noteq> 0" using assms(1) by (simp add: unat_eq_0)
  moreover have "word_of_nat (unat v mod unat base) = v mod base" by (simp flip: unat_mod)
  ultimately show ?thesis using assms(2) by (subst digits.simps) (simp add: unat_div)
qed

lemma patch_before:
  "a + length ds + length es \<le> length xs \<Longrightarrow>
    patch a ds (patch (a + length ds) es xs) = patch a (ds @ es) xs"
  by (rule nth_equalityI) (auto simp: nth_patch nth_append)

text \<open>The loop fills the buffer from the end.\<close>

lemma itoa_digits_run:
  fixes t :: "'a kheap_scheme"
  assumes "range_upd s h p m xs t" and "32 \<le> m" and "2 \<le> unat base"
    and "i + length (digits (unat base) (unat v)) \<le> 32"
  shows "\<exists>t'. itoa_digits t p 31 base v (word_of_nat i) =
      Some (word_of_nat (i + length (digits (unat base) (unat v))), t') \<and>
    range_upd s h p m (patch (32 - i - length (digits (unat base) (unat v))) (digits (unat base) (unat v)) xs) t'"
  using assms
proof (induction "unat v" arbitrary: v t xs i rule: less_induct)
  case less
  have lx: "length xs = m" by (rule range_updD(4) [OF less.prems(1)])
  show ?case
  proof (cases "v = 0")
    case True
    then show ?thesis using less.prems(1) by (subst itoa_digits.simps) (simp add: patch_def)
  next
    case False
    let ?ds = "digits (unat base) (unat (v div base))" and ?d = "digit_char (v mod base)"
    have ds: "digits (unat base) (unat v) = ?ds @ [?d]" by (rule digits_word [OF False less.prems(3)])
    have i: "i < 32" and il: "Suc i + length ?ds \<le> 32" using less.prems(4) by (simp_all add: ds)
    have b0: "base \<noteq> 0" using less.prems(3) by auto
    have "unat (ucast (word_of_nat i :: u8) :: u32) = i"
      using i by (simp add: unsigned_ucast_eq unat_of_nat take_bit_eq_mod)
    then have "(ucast (word_of_nat i :: u8) :: u32) = word_of_nat i" using i by (simp add: word_unat_eq_iff unat_of_nat)
    then have a: "p + (ucast (31 :: u8) - ucast (word_of_nat i :: u8)) = p + word_of_nat (31 - i)"
      using i by (simp add: of_nat_diff)
    obtain t1 where 1: "wr8 t (p + (ucast (31 :: u8) - ucast (word_of_nat i :: u8))) ?d = Some t1"
      and u1: "range_upd s h p m (patch (31 - i) [?d] xs) t1"
      by (rule range_wr8 [OF less.prems(1) _ a, of ?d]) (use less.prems(2) in simp)
    have "unat (v div base) < unat v"
      using False less.prems(3) by (simp add: unat_div unat_eq_0 [symmetric])
    from less.hyps [OF this u1 less.prems(2,3) il]
    obtain t2 where 2: "itoa_digits t1 p 31 base (v div base) (word_of_nat (Suc i)) =
        Some (word_of_nat (Suc i + length ?ds), t2)"
      "range_upd s h p m (patch (32 - Suc i - length ?ds) ?ds (patch (31 - i) [?d] xs)) t2" by blast
    have "31 - i = (32 - Suc i - length ?ds) + length ?ds" using il by simp
    then have "patch (32 - Suc i - length ?ds) ?ds (patch (31 - i) [?d] xs) =
        patch (32 - Suc i - length ?ds) (?ds @ [?d]) xs"
      using patch_before [of "32 - Suc i - length ?ds" ?ds "[?d]" xs] il lx less.prems(2) by simp
    then have u2: "range_upd s h p m (patch (32 - i - length (?ds @ [?d])) (?ds @ [?d]) xs) t2"
      using 2(2) by simp
    have "itoa_digits t p 31 base v (word_of_nat i) = Some (word_of_nat (i + length (?ds @ [?d])), t2)"
    proof -
      have "itoa_digits t p 31 base v (word_of_nat i) =
          itoa_digits t1 p 31 base (v div base) ((word_of_nat i :: u8) + 1)"
        by (subst itoa_digits.simps) (simp only: False b0 if_False 1 bind.bind_lunit)
      also have "\<dots> = Some (word_of_nat (Suc i + length ?ds), t2)" using 2(1) by (simp add: add.commute)
      finally show ?thesis by simp
    qed
    then show ?thesis using u2 unfolding ds by (intro exI [of _ t2] conjI)
  qed
qed

text \<open>Copying towards lower addresses within one range.\<close>

lemma copy_down:
  fixes t :: "'a kheap_scheme"
  assumes u: "range_upd s h p m xs t" and len: "off + unat n \<le> m"
  obtains t' where "copy_bytes t p (p + word_of_nat off) n = Some t'"
    and "range_upd s h p m (take (unat n) (drop off xs) @ drop (unat n) xs) t'"
proof -
  have lx: "length xs = m" by (rule range_updD(4) [OF u])
  let ?f = "\<lambda>l t. do { b \<leftarrow> rd8 t (p + word_of_nat off + word_of_nat l); wr8 t (p + word_of_nat l) b }"
  let ?x = "\<lambda>l. take l (drop off xs) @ drop l xs"
  have "\<exists>t'. for_loop 0 (unat n) ?f t = Some t' \<and> range_upd s h p m (?x (0 + unat n)) t'"
  proof (rule for_loop_inv)
    show "range_upd s h p m (?x 0) t" using u by simp
    fix l t1 assume l: "l < 0 + unat n" and P: "range_upd s h p m (?x l) t1"
    have "?x l ! (off + l) = xs ! (off + l)" using l len lx by (auto simp: nth_append add.commute)
    then have r: "rd8 t1 (p + word_of_nat off + word_of_nat l) = Some (xs ! (off + l))"
      using rdn_nth [OF range_updD(3) [OF P], of "off + l"] l len by (simp add: add.assoc)
    obtain t2 where 2: "wr8 t1 (p + word_of_nat l) (xs ! (off + l)) = Some t2"
      "range_upd s h p m (patch l [xs ! (off + l)] (?x l)) t2"
      by (rule range_wr8 [OF P _ refl, of l "xs ! (off + l)"]) (use l len in simp)
    have "patch l [xs ! (off + l)] (?x l) = ?x (Suc l)"
      using l len lx by (subst patch_prefix) (simp_all add: take_Suc_conv_app_nth)
    then show "\<exists>t2. ?f l t1 = Some t2 \<and> range_upd s h p m (?x (Suc l)) t2" using r 2 by auto
  qed
  then show ?thesis using that unfolding copy_bytes_def by auto
qed

section \<open>The byte behind the buffer\<close>

text \<open>
  When the block of 32 bytes is followed by another block, the terminating zero that \<open>itoa\<close> first
  writes at index 32 is the low byte of that block's \<open>free\<close> field: the field becomes
  \<open>MBLKINUSE\<close>, whatever it was.
\<close>

lemma flag_bytes:
  assumes "rd32 s b = Some v" and "v = MBLKFREE \<or> v = MBLKINUSE" and "data_range s b 4"
  shows "\<exists>c. rdn s b 4 = Some [c, 0, 0, 0]"
proof -
  obtain bs where bs: "rdn s b 4 = Some bs" "length bs = 4" using data_rdn [OF assms(3)] by blast
  then obtain b0 b1 b2 b3 where b: "bs = [b0, b1, b2, b3]" by (auto simp: eval_nat_numeral length_Suc_conv)
  have "cat32 b0 b1 b2 b3 = v" using assms(1) bs(1) by (simp add: rd32_def b)
  then have "[b0, b1, b2, b3] = bytes32 v" using bytes32_cat32 [of b0 b1 b2 b3] by simp
  then show ?thesis using bs(1) assms(2) by (auto simp: b bytes32_def byte_of_def MBLKFREE_def MBLKINUSE_def)
qed

lemma clear_flag_byte:
  assumes r: "rd32 s b = Some v" "v = MBLKFREE \<or> v = MBLKINUSE" and d: "data_range s b 4" and hi: "unat b + 4 < 4294967296"
  shows "wr8 s b 0 = wr32 s b MBLKINUSE"
proof -
  have d1: "data_range s b (length [0 :: u8])" using data_range_sub [OF d] by simp
  have d3: "data_range s (b + word_of_nat 1) 3" by (rule data_range_add [OF d]) simp
  have u: "unat (b + 1) = unat b + 1" using hi by (simp add: unat_add_small)
  obtain c where c: "rdn s b 4 = Some [c, 0, 0, 0]" using flag_bytes [OF r d] by blast
  have nth: "rd8 s (b + word_of_nat k) = Some ([c, 0, 0, 0] ! k)" if "k < 4" for k
    by (rule rdn_nth [OF c that])
  have "rd8 s (b + 1) = Some 0" "rd8 s (b + 2) = Some 0" "rd8 s (b + 3) = Some 0"
    using nth [of 1] nth [of 2] nth [of 3] by simp_all
  then have "rdn s (b + 1) 3 = Some [0, 0, 0]"
    by (simp add: rdn_rd8 eval_nat_numeral upt_conv_Cons add.assoc)
  moreover have "sep b 1 (b + 1) 3" using hi u by (simp add: sep_def)
  ultimately have "rdn (stn s b [0]) (b + 1) 3 = Some [0, 0, 0]" using rdn_stn_sep [OF d1, of "b + 1" 3] data_range_unshadowed [OF d3] by simp
  then have "stn (stn s b [0]) (b + 1) [0, 0, 0] = stn s b [0]"
    using stn_id [of "stn s b [0]" "b + 1" "[0, 0, 0]"] d3 by (simp add: data_range_stn [OF d1] eval_nat_numeral)
  then have "stn s b [0, 0, 0, 0] = stn s b [0]" using stn_append [OF d1, of "[0, 0, 0]"] by simp
  moreover have "wr32 s b MBLKINUSE = Some (stn s b [0, 0, 0, 0])"
    using wr32_data [OF d, of MBLKINUSE] by (simp add: st32_def MBLKINUSE_def byte_of_def)
  moreover have "wr8 s b 0 = Some (stn s b [0])" using wrn_data [OF d1] by (simp add: wr8_def)
  ultimately show ?thesis by simp
qed

text \<open>So a zero behind a block marks the block that follows as used, and does nothing else.\<close>

lemma zero_behind:
  fixes s :: "'a kheap_scheme"
  assumes inv: "heap_inv s (pre @ (b, y, f) # post)"
  obtains s' where "wr8 s b 0 = Some s'" and "heap_inv s' (pre @ (b, y, False) # post)"
    and "\<forall>(q, k)\<in>live (pre @ (b, y, f) # post). rdn s' q k = rdn s q k" and "heap_frame s s'"
proof -
  obtain s' where 2: "wr32 s (blk_free b) MBLKINUSE = Some s'" "heap_inv s' (pre @ (b, y, False) # post)"
    "only_hdrs s (addrs (pre @ (b, y, False) # post)) s'"
    by (rule mark_used [OF inv])
  have l: "laid (unat (heap_start s)) (pre @ (b, y, f) # post) (heap_end s)" and hi: "heap_end s < 4294967296" and ok: "heap_ok s"
    using inv by (auto simp: heap_inv_def heap_ok_def)
  have bd: "unat (heap_start s) \<le> unat b" "unat b + 20 \<le> heap_end s" using laid_bounds [OF l, of b y f] by auto
  have "seg s 0 (pre @ (b, y, f) # post) 0" using inv by (simp add: heap_inv_def)
  then have fr: "rd32 s b = Some (if f then MBLKFREE else MBLKINUSE)"
    by (auto simp: seg_append hdr_def fget_def faddr_def)
  have "clear_range s b 4" by (rule clear_sub [OF ok]) (use bd in simp_all)
  then have d: "data_range s b 4" by (simp add: clear_range_def)
  have "wr8 s b 0 = wr32 s b MBLKINUSE" by (rule clear_flag_byte [OF fr _ d]) (use bd hi in simp_all)
  then have w: "wr8 s b 0 = Some s'" using 2(1) by (simp add: blk_free_def)
  have ad: "addrs (pre @ (b, y, False) # post) = addrs (pre @ (b, y, f) # post)" by simp
  have "\<forall>(q, k)\<in>live (pre @ (b, y, f) # post). rdn s' q k = rdn s q k"
    using only_hdrs_data_pre [OF 2(3) [unfolded ad] l hi] by (auto simp: live_def)
  moreover have "heap_frame s s'" by (rule heap_frame_hdrs [OF 2(3) [unfolded ad] laid_headers [OF l hi] hi])
  ultimately show ?thesis using that w 2(2) by blast
qed

lemma itoa_halves:
  fixes val :: u64
  assumes "unat val < 4294967296"
  shows "unat (ucast val :: u32) = unat val" and "(ucast (drop_bit 32 val) :: u32) = 0"
proof -
  show "unat (ucast val :: u32) = unat val"
    using assms by (simp add: unsigned_ucast_eq take_bit_nat_eq_self)
  have "unat (drop_bit 32 val) = 0" using assms by (simp add: drop_bit_eq_div unat_div)
  then have "drop_bit 32 val = 0" by (simp add: unat_eq_0)
  then show "(ucast (drop_bit 32 val) :: u32) = 0" by simp
qed

text \<open>The rest of \<open>itoa\<close>, from the loops on, in a state whose range \<open>(p, m)\<close> is the buffer.\<close>

lemma itoa_tail:
  fixes t :: "'a kheap_scheme"
  assumes u: "range_upd t h p m xs t" and m: "32 \<le> m" and v: "unat val < 4294967296" and b: "2 \<le> unat base"
    and n: "length (digits (unat base) (unat (val :: u64))) < 32"
  shows "\<exists>s' ys. (do {
      (i, s3) \<leftarrow> itoa_digits t p 31 base (ucast val) 0;
      (i', s4) \<leftarrow> itoa_digits s3 p 31 base (ucast (drop_bit 32 val)) i;
      (_, s5) \<leftarrow> memcpy s4 p (p + ucast (31 :: u8) - ucast i' + 1) (ucast i');
      s6 \<leftarrow> wr8 s5 (p + ucast i') 0;
      Some (p, s6) }) = Some (p, s') \<and>
    range_upd t h p m (digits (unat base) (unat val) @ 0 # ys) s'"
proof -
  let ?ds = "digits (unat base) (unat val)"
  let ?n = "length ?ds"
  note hv = itoa_halves [OF v]
  have lx: "length xs = m" by (rule range_updD(4) [OF u])
  have le: "0 + length (digits (unat base) (unat (ucast val :: u32))) \<le> 32" using n by (simp add: hv)
  obtain s3 where 3: "itoa_digits t p 31 base (ucast val) (word_of_nat 0) = Some (word_of_nat (0 + ?n), s3)"
    and u3: "range_upd t h p m (patch (32 - 0 - ?n) ?ds xs) s3"
    using itoa_digits_run [OF u m b le] unfolding hv(1) by (elim exE conjE)
  have un: "unat (word_of_nat ?n :: u8) = ?n" using n by (simp add: unat_of_nat)
  have nn: "unat (ucast (word_of_nat ?n :: u8) :: u32) = ?n"
    using n un by (simp add: unsigned_ucast_eq take_bit_nat_eq_self)
  then have cn: "(ucast (word_of_nat ?n :: u8) :: u32) = word_of_nat ?n"
    using n by (simp add: word_unat_eq_iff unat_of_nat)
  have 4: "itoa_digits s3 p 31 base (ucast (drop_bit 32 val)) (word_of_nat ?n) = Some (word_of_nat ?n, s3)"
    by (subst itoa_digits.simps) (simp add: hv)
  have a: "p + ucast (31 :: u8) - ucast (word_of_nat ?n :: u8) + 1 = p + word_of_nat (32 - ?n)"
    using n unfolding cn by (simp add: of_nat_diff)
  obtain s5 where 5: "copy_bytes s3 p (p + word_of_nat (32 - ?n)) (ucast (word_of_nat ?n :: u8)) = Some s5"
    and u5: "range_upd t h p m (take ?n (drop (32 - ?n) (patch (32 - 0 - ?n) ?ds xs)) @
      drop ?n (patch (32 - 0 - ?n) ?ds xs)) s5"
    using copy_down [OF u3, of "32 - ?n" "ucast (word_of_nat ?n :: u8)"] n m unfolding nn by auto
  have "take ?n (drop (32 - ?n) (patch (32 - 0 - ?n) ?ds xs)) = ?ds" using n m lx by (simp add: patch_def)
  note u5 = u5 [unfolded this]
  let ?r = "drop ?n (patch (32 - 0 - ?n) ?ds xs)"
  have a6: "p + ucast (word_of_nat ?n :: u8) = p + word_of_nat ?n" unfolding cn by (rule refl)
  obtain s6 where 6: "wr8 s5 (p + ucast (word_of_nat ?n :: u8)) 0 = Some s6"
    and u6: "range_upd t h p m (patch ?n [0] (?ds @ ?r)) s6"
    by (rule range_wr8 [OF u5 _ a6, of 0]) (use n m in simp)
  have "patch ?n [0] (?ds @ ?r) = ?ds @ 0 # drop 1 ?r"
    using n m lx by (subst patch_prefix) simp_all
  moreover have "memcpy s3 p (p + ucast (31 :: u8) - ucast (word_of_nat ?n :: u8) + 1) (ucast (word_of_nat ?n :: u8)) = Some (p, s5)"
    unfolding memcpy_def a 5 by simp
  ultimately show ?thesis using 3 4 6 u6 by (intro exI [of _ s6] exI [of _ "drop 1 ?r"]) simp
qed

fun first_used :: "blk list \<Rightarrow> blk list" where
  "first_used [] = []"
| "first_used ((b, y, f) # bs) = (b, y, False) # bs"

lemma live_first_used: "live bs \<subseteq> live (first_used bs)"
proof (cases bs)
  case (Cons x xs)
  then show ?thesis by (cases x; cases "snd (snd x)") auto
qed simp

text \<open>The buffer is a block of at least 32 bytes; when it has exactly 32, the block behind it is marked.\<close>

definition behind :: "u32 \<Rightarrow> u32 \<Rightarrow> blk list \<Rightarrow> bool" where
  "behind a z post \<longleftrightarrow> 32 \<le> unat z \<and> (z = 32 \<longrightarrow> (\<exists>y f bs. post = (a + 52, y, f) # bs))"

lemma itoa_run:
  fixes s :: "'a kheap_scheme"
  assumes inv: "heap_inv s h" and rd: "alloc_ready s h 32"
    and al: "alloc_abs s h 32 = (a, pre @ (a, z, False) # post)" and bh: "behind a z post"
    and v: "val \<noteq> 0" "unat val < 4294967296" "2 \<le> unat base" "length (digits (unat base) (unat val)) < 32"
  shows "\<exists>s' ys. itoa s val base = Some (a + 20, s') \<and>
    heap_inv s' (pre @ (a, z, False) # (if z = 32 then first_used post else post)) \<and>
    rdn s' (a + 20) (unat z) = Some (digits (unat base) (unat val) @ 0 # ys) \<and>
    (\<forall>(q, k)\<in>live h. rdn s' q k = rdn s q k) \<and> heap_frame s s'"
proof -
  let ?h1 = "pre @ (a, z, False) # post" and ?p = "a + 20"
  let ?h2 = "pre @ (a, z, False) # (if z = 32 then first_used post else post)"
  have rd1: "alloc_ready s h (32 * 1)" using rd by simp
  obtain p m s1 where 1: "kcalloc s 32 1 = Some (p, s1)" "heap_inv s1 (snd (alloc_abs s h (32 * 1)))"
    "live (snd (alloc_abs s h (32 * 1))) = insert (p, m) (live h)" "p \<notin> fst ` live h"
    and c1: "\<forall>(q, k)\<in>live h. rdn s1 q k = rdn s q k" "heap_frame s s1"
    using kcalloc_run [OF inv rd1] by auto
  obtain s0 where "kmalloc s 32 = Some (?p, s0)" using kmalloc_refine [OF inv rd] by (auto simp: al)
  then have p: "p = ?p" using 1(1) by (auto simp: kcalloc_def split: bind_splits)
  have inv1: "heap_inv s1 ?h1" and lv: "live ?h1 = insert (?p, m) (live h)" using 1(2,3) by (simp_all add: al p)
  have np: "?p \<notin> fst ` live h" using 1(4) by (simp add: p)
  have pm1: "(?p, unat z) \<in> live ?h1" by simp
  obtain s2 where 2: "wr8 s1 (?p + 32) 0 = Some s2" "heap_inv s2 ?h2" "\<forall>(q, k)\<in>live h. rdn s2 q k = rdn s1 q k" "heap_frame s1 s2"
  proof (cases "z = 32")
    case True
    obtain y f bs where po: "post = (a + 52, y, f) # bs" using bh True by (auto simp: behind_def)
    have "heap_inv s1 ((pre @ [(a, z, False)]) @ (a + 52, y, f) # bs)" using inv1 by (simp add: po)
    then obtain s2 where s2: "wr8 s1 (a + 52) 0 = Some s2" "heap_inv s2 ((pre @ [(a, z, False)]) @ (a + 52, y, False) # bs)"
      "\<forall>(q, k)\<in>live ((pre @ [(a, z, False)]) @ (a + 52, y, f) # bs). rdn s2 q k = rdn s1 q k" "heap_frame s1 s2"
      by (rule zero_behind)
    have "live h \<subseteq> live ((pre @ [(a, z, False)]) @ (a + 52, y, f) # bs)" using lv by (auto simp: po)
    then show ?thesis using that [of s2] s2 True by (auto simp: po add.assoc)
  next
    case False
    obtain xs where xs: "rdn s1 ?p (unat z) = Some xs" by (rule live_contents [OF inv1 pm1])
    have z: "32 < unat z" using bh False by (simp add: behind_def word_unat_eq_iff)
    obtain s2 where s2: "wr8 s1 (?p + 32) 0 = Some s2" "range_upd s1 ?h1 ?p (unat z) (patch 32 [0] xs) s2"
      by (rule range_wr8 [OF range_updI [OF inv1 pm1 xs], where off = 32 and v = 0 and a = "?p + 32"]) (use z in simp_all)
    note d = range_updD [OF s2(2)]
    have "rdn s2 q k = rdn s1 q k" if "(q, k) \<in> live h" for q k
    proof -
      have "(q, k) \<in> live ?h1" "q \<noteq> ?p" using that lv np by (force simp: image_iff)+
      then show ?thesis by (rule d(7))
    qed
    then show ?thesis using that [of s2] s2(1) d(1,6) False by auto
  qed
  have pm: "(?p, unat z) \<in> live ?h2" by simp
  obtain xs where xs: "rdn s2 ?p (unat z) = Some xs" by (rule live_contents [OF 2(2) pm])
  have u: "range_upd s2 ?h2 ?p (unat z) xs s2" by (rule range_updI [OF 2(2) pm xs])
  have z32: "32 \<le> unat z" using bh by (simp add: behind_def)
  from itoa_tail [OF u z32 v(2-4)] obtain s' ys where t: "(do {
      (i, s3) \<leftarrow> itoa_digits s2 ?p 31 base (ucast val) 0;
      (i', s4) \<leftarrow> itoa_digits s3 ?p 31 base (ucast (drop_bit 32 val)) i;
      (_, s5) \<leftarrow> memcpy s4 ?p (?p + ucast (31 :: u8) - ucast i' + 1) (ucast i');
      s6 \<leftarrow> wr8 s5 (?p + ucast i') 0;
      Some (?p, s6) }) = Some (?p, s')"
    "range_upd s2 ?h2 ?p (unat z) (digits (unat base) (unat val) @ 0 # ys) s'" by blast
  have "itoa s val base = Some (?p, s')"
    using t(1) 1(1) 2(1) v(1) by (simp add: itoa_def Let_def p)
  moreover have "live ?h1 \<subseteq> live ?h2" using live_first_used [of post] by auto
  then have "live h \<subseteq> live ?h2" using lv by blast
  then have r: "rdn s' q k = rdn s q k" if "(q, k) \<in> live h" for q k
  proof -
    have "(q, k) \<in> live ?h2" "q \<noteq> ?p" using that \<open>live h \<subseteq> live ?h2\<close> np by (force simp: image_iff)+
    then show ?thesis using range_updD(7) [OF t(2)] bspec [OF 2(3) that] bspec [OF c1(1) that] by simp
  qed
  then have "\<forall>(q, k)\<in>live h. rdn s' q k = rdn s q k" by auto
  moreover have "heap_frame s s'"
    using heap_frame_trans [OF c1(2) heap_frame_trans [OF 2(4) range_updD(6) [OF t(2)]]] .
  ultimately show ?thesis using range_updD(1,3) [OF t(2)] by blast
qed

text \<open>C33: \<open>itoa\<close> of a number below \<open>2\<^sup>3\<^sup>2\<close> returns a new string that holds the digits of the number; but when its
  buffer is followed by a free block, that block is marked as used, so it is lost to the heap.\<close>

theorem itoa_marks_next_block:
  fixes s :: "'a kheap_scheme"
  assumes "heap_inv s h" and "alloc_ready s h 32"
    and "alloc_abs s h 32 = (a, pre @ (a, 32, False) # (a + 52, z, True) # post)"
    and "val \<noteq> 0" and "unat val < 4294967296" and "2 \<le> unat base"
    and "length (digits (unat base) (unat val)) < 32"
  shows "\<exists>s' ys. itoa s val base = Some (a + 20, s') \<and>
    heap_inv s' (pre @ (a, 32, False) # (a + 52, z, False) # post) \<and>
    rdn s' (a + 20) 32 = Some (digits (unat base) (unat val) @ 0 # ys)"
proof -
  let ?po = "(a + 52, z, True) # post"
  have "behind a 32 ?po" unfolding behind_def by auto
  from itoa_run [OF assms(1-3) this assms(4-7)] obtain s' ys where "itoa s val base = Some (a + 20, s')"
    "heap_inv s' (pre @ (a, 32, False) # first_used ?po)" "rdn s' (a + 20) 32 = Some (digits (unat base) (unat val) @ 0 # ys)"
    by auto
  then show ?thesis by auto
qed

theorem itoa_marks_next_block_witness:
  "\<exists>s' ys. itoa boot 0xb23 16 = Some (0xd0000014, s') \<and>
    heap_inv s' [(0xd0000000, 32, False), (0xd0000034, 4024, False)] \<and>
    rdn s' 0xd0000014 32 = Some (lit ''B23'' @ 0 # ys)"
proof -
  have rd: "alloc_ready boot [] 32"
    unfolding alloc_ready_def grow_ok_def grow_request_def round16_def
    using boot_mmap_page by (auto simp: heap_end_def)
  have al: "alloc_abs boot [] 32 = (0xd0000000, [] @ (0xd0000000, 32, False) # (0xd0000000 + 52, 4024, True) # [])"
    by (simp add: alloc_abs_def grow_request_def round16_def grow_bytes_def carve_def)
  have d: "digits 16 0xb23 = lit ''B23''"
    by (simp add: digits.simps digit_char_def lit_def of_char_def)
  show ?thesis using itoa_marks_next_block [OF boot_heap rd al, of "0xb23" 16] d by (simp add: lit_def)
qed

end
