(* ===== verification/IoProps.thy ===== *)
theory IoProps
  imports Kernel BootNic
begin

text \<open>
  What the port-driven parts of the kernel do: the serial port, the interrupt controllers, the
  configuration space of the PCI bus.  Each statement is about the port traffic, whatever the
  devices answer.
\<close>

section \<open>The serial port\<close>

text \<open>The state after \<open>k\<close> reads of the line status, and whether the next read finds the port ready.\<close>

definition polled :: "nat \<Rightarrow> 'a console_scheme \<Rightarrow> 'a console_scheme" where
  "polled k s = ((\<lambda>t. snd (is_transmit_empty t)) ^^ k) s"

definition port_ready :: "'a console_scheme \<Rightarrow> bool" where
  "port_ready s \<longleftrightarrow> fst (is_transmit_empty s) \<noteq> 0"

lemma polled_Suc: "polled (Suc k) s = polled k (snd (is_transmit_empty s))"
  by (simp add: polled_def funpow_swap1 [where f = "\<lambda>t. snd (is_transmit_empty t)"])

lemma serial_wait_ready: "port_ready s \<Longrightarrow> serial_wait s = Some (polled 1 s)"
  by (subst serial_wait.simps) (cases "is_transmit_empty s"; simp add: port_ready_def polled_def)

lemma serial_wait_busy: "\<not> port_ready s \<Longrightarrow> serial_wait s = serial_wait (polled 1 s)"
  by (subst serial_wait.simps) (cases "is_transmit_empty s"; simp add: port_ready_def polled_def)

lemma serial_wait_Some:
  "port_ready (polled k s) \<Longrightarrow> (\<And>j. j < k \<Longrightarrow> \<not> port_ready (polled j s)) \<Longrightarrow>
    serial_wait s = Some (polled (Suc k) s)"
proof (induction k arbitrary: s)
  case 0
  then show ?case using serial_wait_ready [of s] by (simp add: polled_def)
next
  case (Suc k)
  have "\<not> port_ready s" using Suc.prems(2) [of 0] by (simp add: polled_def)
  then have "serial_wait s = serial_wait (snd (is_transmit_empty s))"
    by (simp add: serial_wait_busy polled_def)
  also have "\<dots> = Some (polled (Suc k) (snd (is_transmit_empty s)))"
    by (rule Suc.IH) (use Suc.prems(1) Suc.prems(2) [of "Suc _"] in \<open>simp_all add: polled_Suc\<close>)
  finally show ?case by (simp add: polled_Suc)
qed

lemma serial_wait_returns:
  fixes s :: "'a console_scheme"
  shows "serial_wait s = Some t \<Longrightarrow> \<exists>k. port_ready (polled k s)"
proof (rule serial_wait.raw_induct [where P = "\<lambda>s t. \<exists>k. port_ready (polled k s)"])
  fix f and s t :: "'a console_scheme"
  assume IH: "\<And>s t. f s = Some t \<Longrightarrow> \<exists>k. port_ready (polled k s)"
    and step: "(let (e, s1) = is_transmit_empty s in if e = 0 then f s1 else Some s1) = Some t"
  show "\<exists>k. port_ready (polled k s)"
  proof (cases "port_ready s")
    case True
    then show ?thesis by (intro exI [of _ 0]) (simp add: polled_def)
  next
    case False
    then have "f (snd (is_transmit_empty s)) = Some t"
      using step by (cases "is_transmit_empty s") (simp add: port_ready_def)
    then obtain k where "port_ready (polled k (snd (is_transmit_empty s)))" using IH by blast
    then show ?thesis by (intro exI [of _ "Suc k"]) (simp add: polled_Suc)
  qed
qed

text \<open>C34: \<open>serial_putchar\<close> returns if and only if the port reports ready at some time; then it has polled up
  to and including the first such report, and the byte is the only output.\<close>

theorem serial_putchar_polls:
  "serial_putchar s c =
    (if \<exists>k. port_ready (polled k s)
     then Some (outb (polled (Suc (LEAST k. port_ready (polled k s))) s) COM1PORT c) else None)"
proof (cases "\<exists>k. port_ready (polled k s)")
  case True
  let ?k = "LEAST k. port_ready (polled k s)"
  have "port_ready (polled ?k s)" by (rule LeastI_ex [OF True])
  then have "serial_wait s = Some (polled (Suc ?k) s)" by (rule serial_wait_Some) (rule not_less_Least)
  then show ?thesis using True by (simp add: serial_putchar_def)
next
  case False
  then have "serial_wait s = None" using serial_wait_returns [of s] by (cases "serial_wait s") auto
  then show ?thesis using False by (simp add: serial_putchar_def)
qed

text \<open>The bytes sent to the port, in order.\<close>

fun sent :: "io_event list \<Rightarrow> u8 list" where
  "sent [] = []"
| "sent (Out8 p b # tr) = sent tr @ (if p = COM1PORT then [b] else [])"
| "sent (e # tr) = sent tr"

text \<open>A port that is ready whenever it is asked.\<close>

definition always_ready :: "'a console_scheme \<Rightarrow> bool" where
  "always_ready s \<longleftrightarrow> (\<forall>tr. (ucast (io_dev s tr (COM1PORT + 5)) :: u8) AND 0x20 \<noteq> 0)"

lemma putchar_sends:
  assumes "always_ready s"
  shows "\<exists>tr. serial_putchar s c = Some (s\<lparr>io_trace := tr\<rparr>) \<and> sent tr = sent (io_trace s) @ [c]"
proof -
  have "(ucast (io_dev s (io_trace s) (COM1PORT + 5)) :: u8) AND 0x20 \<noteq> 0"
    using assms by (simp add: always_ready_def)
  then have "port_ready s" by (simp add: port_ready_def is_transmit_empty_def inb_def Let_def)
  then show ?thesis
    by (intro exI [of _ "io_trace (outb (polled 1 s) COM1PORT c)"])
       (simp add: serial_putchar_def serial_wait_ready polled_def is_transmit_empty_def inb_def outb_def Let_def)
qed

lemma always_ready_trace [simp]: "always_ready (s\<lparr>io_trace := tr\<rparr>) = always_ready s"
  by (simp add: always_ready_def)

text \<open>C35: On a port that is ready \<open>serial_print\<close> sends the string together with its terminating zero, cut to
  its length modulo 256: a string of 255 characters is not sent at all.\<close>

theorem serial_print_sends:
  assumes "always_ready s"
  shows "\<exists>s'. serial_print s str = Some s' \<and>
    sent (io_trace s') = sent (io_trace s) @ take ((length str + 1) mod 256) (str @ [0])"
proof -
  let ?n = "(length str + 1) mod 256"
  let ?P = "\<lambda>i t. always_ready t \<and> sent (io_trace t) = sent (io_trace s) @ take i (str @ [0])"
  have n: "unat (word_of_nat (length str + 1) :: u8) = ?n" by (simp only: unat_of_nat) simp
  have le: "?n \<le> length (str @ [0])" using mod_less_eq_dividend [of "length str + 1" 256] by simp
  have "\<exists>s'. for_loop 0 ?n (\<lambda>i t. serial_putchar t ((str @ [0]) ! i)) s = Some s' \<and> ?P (0 + ?n) s'"
  proof (rule for_loop_inv)
    show "?P 0 s" using assms by simp
    fix i t assume i: "i < 0 + ?n" and P: "?P i t"
    have "take (Suc i) (str @ [0]) = take i (str @ [0]) @ [(str @ [0]) ! i]"
      using i le by (intro take_Suc_conv_app_nth) simp
    then show "\<exists>t'. serial_putchar t ((str @ [0]) ! i) = Some t' \<and> ?P (Suc i) t'"
      using putchar_sends [of t "(str @ [0]) ! i"] P by auto
  qed
  then show ?thesis unfolding serial_print_def Let_def n by auto
qed

theorem serial_print_sends_witness:
  "\<exists>s'. serial_print boot (lit ''ok'') = Some s' \<and> sent (io_trace s') = lit ''ok'' @ [0]"
proof -
  have r: "always_ready boot" and t: "sent (io_trace boot) = []" by (simp_all add: always_ready_def boot_def)
  show ?thesis using serial_print_sends [OF r, of "lit ''ok''"] t by (simp add: lit_def)
qed

section \<open>The interrupt controllers\<close>

text \<open>
  A controller (8259A) as its data sheet has it: a command with bit 4 begins the initialisation
  and clears the mask; the next three data bytes are the vector base, the cascade and the mode;
  any other data byte is the mask.
\<close>

record controller =
  ctl_expects :: nat
  ctl_base :: u8
  ctl_cascade :: u8
  ctl_mode :: u8
  ctl_mask :: u8

definition ctl_command :: "u8 \<Rightarrow> controller \<Rightarrow> controller" where
  "ctl_command v c = (if bit v 4 then c\<lparr>ctl_expects := 1, ctl_mask := 0\<rparr> else c)"

definition ctl_data :: "u8 \<Rightarrow> controller \<Rightarrow> controller" where
  "ctl_data v c =
     (if ctl_expects c = 1 then c\<lparr>ctl_base := v, ctl_expects := 2\<rparr>
      else if ctl_expects c = 2 then c\<lparr>ctl_cascade := v, ctl_expects := 3\<rparr>
      else if ctl_expects c = 3 then c\<lparr>ctl_mode := v, ctl_expects := 0\<rparr>
      else c\<lparr>ctl_mask := v\<rparr>)"

text \<open>The controller at two ports after some traffic (the latest event first).\<close>

fun ctl_run :: "u16 \<Rightarrow> u16 \<Rightarrow> io_event list \<Rightarrow> controller \<Rightarrow> controller" where
  "ctl_run cmd dat [] c = c"
| "ctl_run cmd dat (Out8 p v # tr) c =
     (let c' = ctl_run cmd dat tr c
      in if p = cmd then ctl_command v c' else if p = dat then ctl_data v c' else c')"
| "ctl_run cmd dat (e # tr) c = ctl_run cmd dat tr c"

lemmas pic_ports = PIC1_def PIC2_def PIC1_COMMAND_def PIC1_DATA_def PIC2_COMMAND_def PIC2_DATA_def
lemmas io_defs = inb_def outb_def inl_def outl_def io_wait_def

lemma init_pic_run:
  "ctl_run PIC1_COMMAND PIC1_DATA (io_trace (snd (init_pic s))) c =
      \<lparr>ctl_expects = 0, ctl_base = 0x20, ctl_cascade = 4, ctl_mode = ICW4_8086, ctl_mask = 0xfb\<rparr> \<and>
    ctl_run PIC2_COMMAND PIC2_DATA (io_trace (snd (init_pic s))) c =
      \<lparr>ctl_expects = 0, ctl_base = 0x28, ctl_cascade = 2, ctl_mode = ICW4_8086, ctl_mask = 0xfd\<rparr>"
proof -
  note defs = init_pic_def pic_noirqs_def pic_remap_def pic_ports io_defs ICW1_INIT_def ICW1_ICW4_def
    ICW4_8086_def
  show ?thesis
    by (intro conjI; cases "ctl_run PIC1_COMMAND PIC1_DATA (io_trace s) c";
        cases "ctl_run PIC2_COMMAND PIC2_DATA (io_trace s) c";
        simp add: defs Let_def ctl_command_def ctl_data_def)
qed

lemma init_pic_only: "\<exists>tr. init_pic s = (STATUS_OK, s\<lparr>io_trace := tr\<rparr>)"
proof (intro exI)
  show "init_pic s = (STATUS_OK, s\<lparr>io_trace := io_trace (snd (init_pic s))\<rparr>)"
    by (simp add: init_pic_def pic_noirqs_def pic_remap_def io_defs Let_def)
qed

text \<open>C36: \<open>init_pic\<close> programs both controllers in the order they require, whatever their state was: vectors
  from 0x20 and 0x28, the cascade on line 2, 8086 mode; masked are all lines except line 2 of the
  master and line 1 of the slave.\<close>

theorem init_pic_programs_controllers:
  "ctl_run PIC1_COMMAND PIC1_DATA (io_trace (snd (init_pic s))) c =
      \<lparr>ctl_expects = 0, ctl_base = 0x20, ctl_cascade = 4, ctl_mode = ICW4_8086, ctl_mask = 0xfb\<rparr> \<and>
    ctl_run PIC2_COMMAND PIC2_DATA (io_trace (snd (init_pic s))) c =
      \<lparr>ctl_expects = 0, ctl_base = 0x28, ctl_cascade = 2, ctl_mode = ICW4_8086, ctl_mask = 0xfd\<rparr>"
  by (rule init_pic_run)

text \<open>The number of an interrupt line at its controller; it exceeds 7 for lines that do not exist.\<close>

definition line_no :: "u8 \<Rightarrow> nat" where
  "line_no irq = (if irq < 8 then unat irq else unat irq - 8)"

lemma pic_bit_iff: "bit (pic_bit irq) j \<longleftrightarrow> j = line_no irq \<and> j < 32"
proof -
  have "unat (irq - 8) = unat irq - 8" if "\<not> irq < 8"
    using that by (simp add: unat_sub word_le_nat_alt word_less_nat_alt)
  then have "pic_bit irq = push_bit (line_no irq) 1" by (simp add: pic_bit_def line_no_def)
  then show ?thesis by (auto simp: bit_simps)
qed

text \<open>\<open>pic_noirq\<close> and \<open>pic_yesirq\<close> write back the mask they read with exactly the line's bit set or
  cleared; for a line above 15 the mask is written back as it was read.\<close>

theorem pic_line_masks:
  "\<exists>v w x. io_trace (pic_noirq s irq) = Out8 (pic_port irq) w # In8 (pic_port irq) v # io_trace s \<and>
    io_trace (pic_yesirq s irq) = Out8 (pic_port irq) x # In8 (pic_port irq) v # io_trace s \<and>
    (\<forall>j. bit w j \<longleftrightarrow> bit v j \<or> j = line_no irq \<and> j < 8) \<and>
    (\<forall>j. bit x j \<longleftrightarrow> bit v j \<and> j \<noteq> line_no irq)"
proof -
  let ?port = "pic_port irq"
  let ?v = "ucast (io_dev s (io_trace s) ?port) :: u8"
  let ?w = "ucast (ucast ?v OR pic_bit irq) :: u8" and ?x = "ucast (ucast ?v AND NOT (pic_bit irq)) :: u8"
  have "bit ?w j \<longleftrightarrow> bit ?v j \<or> j = line_no irq \<and> j < 8" for j by (auto simp: bit_simps pic_bit_iff)
  moreover have "bit ?x j \<longleftrightarrow> bit ?v j \<and> j \<noteq> line_no irq" for j by (auto simp: bit_simps pic_bit_iff)
  moreover have "io_trace (pic_noirq s irq) = Out8 ?port ?w # In8 ?port ?v # io_trace s"
    "io_trace (pic_yesirq s irq) = Out8 ?port ?x # In8 ?port ?v # io_trace s"
    by (simp_all add: pic_noirq_def pic_yesirq_def io_defs Let_def)
  ultimately show ?thesis by blast
qed

section \<open>The PCI configuration space\<close>

text \<open>The address that \<open>pci_cfg_addr\<close> builds has the enable bit and each argument in its own field: bus,
  slot modulo 32, function modulo 8 and register number can be read back, the two lowest bits
  are zero.\<close>

theorem pci_cfg_addr_fields:
  "let a = pci_cfg_addr bus slot fun_no reg
   in drop_bit 24 a = 0x80 \<and> take_bit 8 (drop_bit 16 a) = ucast bus \<and>
     take_bit 5 (drop_bit 11 a) = ucast (take_bit 5 slot) \<and> take_bit 3 (drop_bit 8 a) = ucast (take_bit 3 fun_no) \<and>
     take_bit 8 a = ucast (reg AND 0xfc)"
proof -
  have e: "(0x80000000 :: u32) = push_bit 31 1" "(0x1f :: u8) = mask 5" "(7 :: u8) = mask 3"
    "(0xfc :: u8) = NOT (mask 2)" "(0x80 :: u32) = push_bit 7 1"
    by (simp_all add: mask_eq_exp_minus_1)
  show ?thesis
    unfolding pci_cfg_addr_def Let_def e
    by (intro conjI bit_word_eqI) (auto simp: bit_simps dest: bit_imp_le_length)
qed

text \<open>\<open>pci_add_dev\<close> on a function that does not answer (vendor 0xffff) returns the null pointer after
  one read of the configuration space; no memory is taken and no device is entered.\<close>

theorem pci_add_dev_absent:
  assumes "take_bit 16 (io_dev s (Out32 PCI_CFGADDR (pci_cfg_addr bus slot f 0) # io_trace s) PCI_CFGDATA) = 0xffff"
  shows "\<exists>v. pci_add_dev s bus slot f = Some (0, s\<lparr>io_trace :=
    In32 PCI_CFGDATA v # Out32 PCI_CFGADDR (pci_cfg_addr bus slot f 0) # io_trace s\<rparr>)"
proof -
  let ?d = "io_dev s (Out32 PCI_CFGADDR (pci_cfg_addr bus slot f 0) # io_trace s) PCI_CFGDATA"
  have m: "(0xffff :: u32) = mask 16" by (simp add: mask_eq_exp_minus_1)
  have "(ucast (?d AND 0xffff) :: u16) = ucast (take_bit 16 ?d)" unfolding m by (simp add: take_bit_eq_mask)
  also have "\<dots> = 0xffff" by (simp add: assms)
  finally have w: "(ucast (?d AND 0xffff) :: u16) = 0xffff" .
  show ?thesis
    by (intro exI [of _ ?d])
       (simp add: pci_add_dev_def pci_get_vendor_def pci_cfg_rword_at_def pci_cfg_rdword_at_def io_defs Let_def w)
qed

theorem pci_add_dev_absent_witness:
  "\<exists>v. pci_add_dev (boot_nic\<lparr>io_dev := \<lambda>_ _. 0xffffffff\<rparr>) 0 3 0 = Some (0, boot_nic\<lparr>io_dev := \<lambda>_ _. 0xffffffff,
    io_trace := [In32 PCI_CFGDATA v, Out32 PCI_CFGADDR 0x80001800]\<rparr>)"
proof -
  let ?s = "boot_nic\<lparr>io_dev := \<lambda>_ _. 0xffffffff\<rparr>"
  have a: "pci_cfg_addr 0 3 0 0 = 0x80001800" by (simp add: pci_cfg_addr_def)
  have "take_bit 16 (io_dev ?s (Out32 PCI_CFGADDR (pci_cfg_addr 0 3 0 0) # io_trace ?s) PCI_CFGDATA) = 0xffff"
    by (simp add: take_bit_eq_mod)
  from pci_add_dev_absent [OF this] show ?thesis by (simp add: a boot_nic_def boot_def)
qed

end
