(* ===== verification/Terminal.thy ===== *)
theory Terminal
  imports Ranges IoProps
begin

text \<open>
  An abstract terminal, and what \<open>vga_putchar\<close> (\<open>kernel/vga/vga.c\<close>) does up to its decision to scroll, as one
  store to the screen's memory.  It needs no heap, so it also holds while the kernel starts.
\<close>

section \<open>The terminal\<close>

text \<open>The two bytes of a character cell.  The attribute is white on black; a character above 127 is
  negative as a \<open>char\<close>, and its sign fills the attribute.\<close>

definition cell :: "u8 \<Rightarrow> u8 list" where
  "cell ch = [ch, if bit ch 7 then 0xff else 0x0f]"

lemma length_cell [simp]: "length (cell ch) = 2"
  by (simp add: cell_def)

text \<open>An abstract terminal: 25 lines of 80 cells, of which the last is never the cursor's, and a cursor.\<close>

record terminal =
  t_cells :: "u8 list"
  t_row :: nat
  t_col :: nat

definition term_mark :: "terminal \<Rightarrow> u8 \<Rightarrow> terminal" where
  "term_mark t ch =
     (if ch = 10 then t\<lparr>t_row := t_row t + 1\<rparr>
      else if ch = 13 then t\<lparr>t_col := 0\<rparr>
      else if ch = 9 then t\<lparr>t_col := t_col t + 4\<rparr>
      else t\<lparr>t_cells := patch (160 * t_row t + 2 * t_col t) (cell ch) (t_cells t), t_col := t_col t + 1\<rparr>)"

definition term_wrap :: "terminal \<Rightarrow> terminal" where
  "term_wrap t = (if 80 \<le> t_col t then t\<lparr>t_col := 0, t_row := t_row t + 1\<rparr> else t)"

definition term_scrolls :: "terminal \<Rightarrow> u8 \<Rightarrow> bool" where
  "term_scrolls t ch \<longleftrightarrow> 24 \<le> t_row (term_wrap (term_mark t ch))"

definition term_put :: "terminal \<Rightarrow> u8 \<Rightarrow> terminal" where
  "term_put t ch = (let u = term_wrap (term_mark t ch)
     in if term_scrolls t ch
        then u\<lparr>t_cells := drop 160 (t_cells u) @ drop 3840 (t_cells u), t_row := t_row u - 1\<rparr> else u)"

text \<open>The cursor's cell stays on the screen, above its last line.\<close>

lemma term_bounds:
  assumes "t_row t < 24" and "t_col t < 80"
  shows "t_row (term_mark t ch) \<le> 24" and "t_row (term_wrap (term_mark t ch)) \<le> 24"
    and "t_col (term_wrap (term_mark t ch)) < 80"
  using assms by (auto simp: term_mark_def term_wrap_def)

text \<open>A string that does not scroll the terminal.\<close>

fun term_fits :: "terminal \<Rightarrow> u8 list \<Rightarrow> bool" where
  "term_fits t [] = True"
| "term_fits t (c # cs) = (\<not> term_scrolls t c \<and> term_fits (term_put t c) cs)"

lemmas term_eval = term_scrolls_def term_put_def term_wrap_def term_mark_def Let_def

section \<open>One store\<close>

lemma unat_VGA_BASE: "unat VGA_BASE = 0xc00ff000"
  by (simp add: VGA_BASE_def)

lemma cell_bytes:
  fixes ch :: u8
  shows "ucast ((scast ch :: u16) OR 3840) = ch"
    and "ucast (drop_bit 8 (scast ch :: u16) OR 15) = (if bit ch 7 then 0xff else 0x0f :: u8)"
proof -
  have e: "(3840 :: u16) = push_bit 8 (mask 4)" "(15 :: u16) = mask 4" "(0x0f :: u8) = mask 4"
    "(0xff :: u8) = mask 8"
    by (simp_all add: mask_eq_exp_minus_1)
  have 7: "n = 7" if "n < 8" "7 \<le> n" for n :: nat using that by simp
  show "ucast ((scast ch :: u16) OR 3840) = ch"
    unfolding e by (rule bit_word_eqI) (auto simp: bit_simps min_def dest: 7)
  show "ucast (drop_bit 8 (scast ch :: u16) OR 15) = (if bit ch 7 then 0xff else 0x0f :: u8)"
    unfolding e by (rule bit_word_eqI) (auto simp: bit_simps min_def)
qed

lemma vga_set_char_stn:
  fixes s :: "'a kheap_scheme"
  assumes d: "data_range s VGA_BASE 4000" and r: "unat r < 25" and c: "unat c < 80"
  shows "vga_set_char s r c ch = Some (stn s (VGA_BASE + word_of_nat (160 * unat r + 2 * unat c)) (cell ch))"
proof -
  define off where "off = 160 * unat r + 2 * unat c"
  have off: "off + 2 \<le> 4000" using r c by (simp add: off_def)
  have "data_range s (VGA_BASE + word_of_nat off) (length (cell ch))"
    using data_range_add [OF d, of off 2] off by simp
  then have w: "wrn s (VGA_BASE + word_of_nat off) (cell ch) = Some (stn s (VGA_BASE + word_of_nat off) (cell ch))"
    by (rule wrn_data)
  have "word_of_nat off = (160 * ucast r + 2 * ucast c :: u32)" by (simp add: off_def)
  then have a: "VGA_BASE + 2 * (ucast r * ucast VGA_WIDTH + ucast c) = VGA_BASE + word_of_nat off"
    by (simp add: VGA_WIDTH_def distrib_left mult.commute)
  show ?thesis
    using w unfolding vga_set_char_def Let_def a wr16_def off_def [symmetric] by (simp add: VGA_COLOR_WHITE_def VGA_COLOR_BLACK_def cell_bytes cell_def)
qed

text \<open>The cursor, and the state after the \<open>switch\<close> and the wrap: the mark of the character has been stored at
  offset \<open>off\<close> of the screen (nothing has been stored for a control character).\<close>

definition cursor_at :: "'a console_scheme \<Rightarrow> terminal \<Rightarrow> bool" where
  "cursor_at s t \<longleftrightarrow> unat (vga_cursor_r s) = t_row t \<and> unat (vga_cursor_c s) = t_col t"

definition marked :: "'a kheap_scheme \<Rightarrow> io_event list \<Rightarrow> u8 \<Rightarrow> u8 \<Rightarrow> nat \<Rightarrow> u8 list \<Rightarrow> 'a kheap_scheme" where
  "marked s tr r c off bs =
     stn (s\<lparr>io_trace := tr, vga_cursor_r := r, vga_cursor_c := c\<rparr>) (VGA_BASE + word_of_nat off) bs"

lemma marked_fields [simp]:
  "vga_cursor_r (marked s tr r c off bs) = r" "vga_cursor_c (marked s tr r c off bs) = c"
  "io_trace (marked s tr r c off bs) = tr" "io_dev (marked s tr r c off bs) = io_dev s"
  "always_ready (marked s tr r c off bs) = always_ready s"
  by (simp_all add: marked_def stn_def always_ready_def)

lemma marked_cursor:
  "(marked s tr r c off bs)\<lparr>vga_cursor_c := c', vga_cursor_r := r'\<rparr> = marked s tr r' c' off bs"
proof -
  have "translate (s\<lparr>io_trace := tr, vga_cursor_r := x, vga_cursor_c := y\<rparr>) = translate s" for x y
    by (intro ext) (simp add: translate_def split: option.split)
  then show ?thesis by (simp add: marked_def stn_def)
qed

lemma place_marks:
  fixes s :: "'a kheap_scheme"
  assumes d: "data_range s VGA_BASE 4000" and cur: "cursor_at s t" and lt: "t_row t < 24" "t_col t < 80"
  shows "\<exists>r c off bs. vga_place (s\<lparr>io_trace := tr\<rparr>) ch = Some (marked s tr r c off bs) \<and> off + length bs \<le> 4000 \<and>
    t_cells (term_mark t ch) = patch off bs (t_cells t) \<and>
    unat r = t_row (term_mark t ch) \<and> unat c = t_col (term_mark t ch)"
proof -
  have row: "unat (vga_cursor_r s) = t_row t" and col: "unat (vga_cursor_c s) = t_col t"
    using cur by (simp_all add: cursor_at_def)
  have inc: "unat (vga_cursor_r s + 1) = t_row t + 1" "unat (vga_cursor_c s + 1) = t_col t + 1"
    "unat (vga_cursor_c s + 4) = t_col t + 4"
    using row col lt by (simp_all add: unat_word_ariths)
  show ?thesis
  proof (cases "ch \<in> {9, 10, 13}")
    case True
    define r where "r = (if ch = 10 then vga_cursor_r s + 1 else vga_cursor_r s)"
    define c where "c = (if ch = 13 then 0 else if ch = 9 then vga_cursor_c s + 4 else vga_cursor_c s)"
    have "vga_place (s\<lparr>io_trace := tr\<rparr>) ch = Some (marked s tr r c 0 [])"
      using True by (auto simp: vga_place_def r_def c_def marked_def stn_def)
    moreover have "t_cells (term_mark t ch) = patch 0 [] (t_cells t)" "unat r = t_row (term_mark t ch)"
      "unat c = t_col (term_mark t ch)"
      using True inc row col by (auto simp: term_mark_def r_def c_def patch_def)
    ultimately show ?thesis by (intro exI [of _ r] exI [of _ c] exI [of _ 0] exI [of _ "[]"]) simp
  next
    case False
    let ?s1 = "s\<lparr>io_trace := tr, vga_cursor_r := vga_cursor_r s, vga_cursor_c := vga_cursor_c s + 1\<rparr>"
    let ?off = "160 * t_row t + 2 * t_col t"
    have "translate ?s1 = translate s" by (intro ext) (simp add: translate_def split: option.split)
    moreover have "shadow ?s1 = shadow s" by (rule shadow_eq) simp
    ultimately have d1: "data_range ?s1 VGA_BASE 4000" using d by (simp add: data_range_def data_def)
    have "vga_place (s\<lparr>io_trace := tr\<rparr>) ch = Some (marked s tr (vga_cursor_r s) (vga_cursor_c s + 1) ?off (cell ch))"
      using False vga_set_char_stn [OF d1, of "vga_cursor_r s" "vga_cursor_c s" ch] row col lt
      by (simp add: vga_place_def marked_def)
    then show ?thesis
      using False lt inc(2) row
      by (intro exI [of _ "vga_cursor_r s"] exI [of _ "vga_cursor_c s + 1"] exI [of _ ?off] exI [of _ "cell ch"])
         (simp add: term_mark_def)
  qed
qed

lemma wrap_marks:
  assumes "unat r = t_row t" and "unat c = t_col t" and "t_row t < 255"
  shows "\<exists>r' c'. vga_wrap (marked s tr r c off bs) = marked s tr r' c' off bs \<and>
    unat r' = t_row (term_wrap t) \<and> unat c' = t_col (term_wrap t)"
proof -
  have w: "VGA_WIDTH \<le> c \<longleftrightarrow> 80 \<le> t_col t" by (simp add: VGA_WIDTH_def word_le_nat_alt assms)
  have "unat (r + 1) = t_row t + 1" using assms by (simp add: unat_word_ariths)
  then have "vga_wrap (marked s tr r c off bs) =
      marked s tr (if 80 \<le> t_col t then r + 1 else r) (if 80 \<le> t_col t then 0 else c) off bs \<and>
    unat (if 80 \<le> t_col t then r + 1 else r) = t_row (term_wrap t) \<and>
    unat (if 80 \<le> t_col t then 0 else c) = t_col (term_wrap t)"
    using assms by (simp add: vga_wrap_def w marked_cursor term_wrap_def)
  then show ?thesis by blast
qed

lemma putchar_marks:
  fixes s :: "'a kheap_scheme"
  assumes d: "data_range s VGA_BASE 4000" and rdy: "always_ready s" and cur: "cursor_at s t"
    and lt: "t_row t < 24" "t_col t < 80"
  shows "\<exists>tr r c off bs. off + length bs \<le> 4000 \<and> sent tr = sent (io_trace s) @ [ch] \<and>
    t_cells (term_wrap (term_mark t ch)) = patch off bs (t_cells t) \<and>
    unat r = t_row (term_wrap (term_mark t ch)) \<and> unat c = t_col (term_wrap (term_mark t ch)) \<and>
    vga_putchar (s, ch) = (if term_scrolls t ch
      then do { s4 \<leftarrow> vga_scrolldown_with vga_putchar (marked s tr r c off bs) 1;
                Some (s4\<lparr>vga_cursor_r := vga_cursor_r s4 - 1\<rparr>) }
      else Some (marked s tr r c off bs))"
proof -
  obtain tr where tr: "serial_putchar s ch = Some (s\<lparr>io_trace := tr\<rparr>)" "sent tr = sent (io_trace s) @ [ch]"
    using putchar_sends [OF rdy] by blast
  obtain r c off bs where 1: "vga_place (s\<lparr>io_trace := tr\<rparr>) ch = Some (marked s tr r c off bs)"
    "off + length bs \<le> 4000" "t_cells (term_mark t ch) = patch off bs (t_cells t)"
    "unat r = t_row (term_mark t ch)" "unat c = t_col (term_mark t ch)"
    using place_marks [OF d cur lt] by blast
  have "t_row (term_mark t ch) < 255" using term_bounds(1) [OF lt, of ch] by simp
  from wrap_marks [OF 1(4,5) this]
  obtain r' c' where 2: "vga_wrap (marked s tr r c off bs) = marked s tr r' c' off bs"
    "unat r' = t_row (term_wrap (term_mark t ch))" "unat c' = t_col (term_wrap (term_mark t ch))"
    by blast
  have sc: "VGA_HEIGHT - 1 \<le> r' \<longleftrightarrow> term_scrolls t ch"
    by (simp add: VGA_HEIGHT_def word_le_nat_alt 2 term_scrolls_def)
  have "t_cells (term_wrap (term_mark t ch)) = patch off bs (t_cells t)" using 1(3) by (simp add: term_wrap_def)
  then show ?thesis
    using 1(2) 2 tr(2)
    by (intro exI [of _ tr] exI [of _ r'] exI [of _ c'] exI [of _ off] exI [of _ bs])
       (subst vga_putchar.simps, simp add: tr(1) 1(1) 2(1) Let_def sc)
qed

section \<open>Clearing the screen\<close>

definition blank_cells :: "nat \<Rightarrow> u8 list" where
  "blank_cells n = concat (replicate n (cell 32))"

lemma length_blank_cells [simp]: "length (blank_cells n) = 2 * n"
  by (induction n) (simp_all add: blank_cells_def)

lemma blank_cells_Suc: "blank_cells (Suc n) = blank_cells n @ cell 32"
  by (induction n) (simp_all add: blank_cells_def)

lemma vga_clear_stn:
  fixes s :: "'a kheap_scheme"
  assumes d: "data_range s VGA_BASE 4000"
  shows "vga_clear s = Some ((stn s VGA_BASE (blank_cells 2000))\<lparr>vga_cursor_r := 0, vga_cursor_c := 0\<rparr>)"
proof -
  let ?f = "\<lambda>r c u. vga_set_char u (word_of_nat r) (word_of_nat c) 32"
  let ?P = "\<lambda>n t. t = stn s VGA_BASE (blank_cells n)"
  have step: "\<exists>t'. ?f r c t = Some t' \<and> ?P (80 * r + Suc c) t'" if "r < 25" "c < 80" "?P (80 * r + c) t" for r c t
  proof -
    let ?n = "80 * r + c"
    have r: "unat (word_of_nat r :: u8) = r" and c: "unat (word_of_nat c :: u8) = c"
      using that(1,2) by (simp_all add: unat_of_nat)
    have dn: "data_range s VGA_BASE (length (blank_cells ?n))"
      using data_range_add [OF d, of 0 "2 * ?n"] that by simp
    have dt: "data_range t VGA_BASE 4000" using that(3) data_range_stn [OF dn] d by simp
    have "stn s VGA_BASE (blank_cells (Suc ?n)) = stn t (VGA_BASE + word_of_nat (160 * r + 2 * c)) (cell 32)"
      using stn_append [OF dn, of "cell 32"] that(3) by (simp add: blank_cells_Suc algebra_simps)
    then show ?thesis using vga_set_char_stn [OF dt, of "word_of_nat r" "word_of_nat c"] that(1,2) by (simp add: r c)
  qed
  have row: "\<exists>t'. for_loop 0 80 (?f r) t = Some t' \<and> ?P (80 * Suc r) t'" if "r < 25" "?P (80 * r) t" for r t
    using for_loop_inv [of "\<lambda>c. ?P (80 * r + c)" 0 t 80 "?f r"] step [OF that(1)] that(2) by (auto simp: add.commute)
  have "stn s VGA_BASE (blank_cells 0) = s" by (simp add: blank_cells_def stn_def)
  then have "\<exists>t'. for_loop 0 25 (\<lambda>r. for_loop 0 80 (?f r)) s = Some t' \<and> ?P (80 * (0 + 25)) t'"
    by (intro for_loop_inv [where P = "\<lambda>r. ?P (80 * r)"]) (use row in auto)
  then show ?thesis by (simp add: vga_clear_def VGA_HEIGHT_def VGA_WIDTH_def)
qed

text \<open>Printing in parts; a number is printed as \<open>0x\<close> and its digits.\<close>

lemma vga_print_append: "vga_print s (xs @ ys) = do { s1 \<leftarrow> vga_print s xs; vga_print s1 ys }"
  by (induction xs arbitrary: s) (auto simp: vga_print_def)

lemma vga_puthex_print: "vga_puthex s i = vga_print s (lit ''0x'' @ hex_chars i)"
  by (simp add: vga_print_append) (simp add: vga_puthex_def vga_puthex_with_def vga_print_def)

end
