(* ===== verification/ScreenProps.thy ===== *)
theory ScreenProps
  imports LibProps Terminal
begin

text \<open>
  The text screen (\<open>kernel/vga/vga.c\<close>): scrolling, which goes through a buffer from the heap, and
  the terminal that \<open>vga_putchar\<close> implements.
\<close>

section \<open>The screen's memory\<close>

definition screen_mem :: "'a kheap_scheme \<Rightarrow> bool" where
  "screen_mem s \<longleftrightarrow> (\<forall>k<4000. foreign s (VGA_BASE + word_of_nat k))"

lemma frame_rdn:
  assumes "heap_frame s s'" and "\<And>k. k < n \<Longrightarrow> foreign s (a + word_of_nat k)"
  shows "rdn s' a n = rdn s a n"
  unfolding rdn_rd8 using assms by (intro arg_cong [of _ _ those] map_cong) (auto simp: heap_frame_def)

lemma frame_screen: "heap_frame s s' \<Longrightarrow> screen_mem s \<Longrightarrow> screen_mem s'"
  by (auto simp: heap_frame_def screen_mem_def)

lemma foreign_sep:
  assumes inv: "heap_inv s h" and qk: "(q, k) \<in> live h" and f: "\<And>j. j < n \<Longrightarrow> foreign s (a + word_of_nat j)"
    and hi: "unat a + n < 4294967296" and pos: "0 < n" "0 < k"
  shows "sep q k a n"
proof (rule ccontr)
  assume "\<not> sep q k a n"
  have l: "laid (unat (heap_start s)) h (heap_end s)" and he: "heap_end s < 4294967296"
    using inv by (auto simp: heap_inv_def heap_ok_def)
  obtain b z where e: "q = b + 20" "k = unat z" "(b, z, False) \<in> set h" using qk by (auto simp: live_def)
  note bd = laid_bounds [OF l e(3)]
  have uq: "unat q = unat b + 20" using bd he by (simp add: e(1) unat_add_small)
  define x where "x = max (unat q) (unat a)"
  have x: "unat a \<le> x" "x < unat a + n" "unat q \<le> x" "x < unat q + k"
    using \<open>\<not> sep q k a n\<close> hi pos live_addr(1) [OF inv qk] unfolding sep_def x_def by auto
  have "foreign s (a + word_of_nat (x - unat a))" using x by (intro f) simp
  moreover have "unat (a + word_of_nat (x - unat a)) = x"
  proof -
    have "unat (word_of_nat (x - unat a) :: u32) = (x - unat a) mod 4294967296"
      by (simp only: unat_of_nat) simp
    also have "\<dots> = x - unat a" using x hi by simp
    finally have "unat (word_of_nat (x - unat a) :: u32) = x - unat a" .
    then show ?thesis using x hi by (simp only: unat_add_small le_add_diff_inverse)
  qed
  ultimately show False using x bd uq e(2) by (auto simp: foreign_def)
qed

lemma heap_only_stn:
  fixes s :: "'a kheap_scheme"
  shows "heap_only s (stn s a bs)"
  by (rule heap_onlyI [where r = "ram (stn s a bs)" and t = "tlb s" and x = "hwas_sp s" and f = "first_blk s"
    and h = "heap_size s" and m = "min_heap_size s"]) (simp add: stn_def)

section \<open>Scrolling\<close>

lemma scroll_run:
  fixes s :: "'a kheap_scheme"
  assumes inv: "heap_inv s h" and scr: "screen_mem s" and rd: "alloc_ready s h 3840"
    and xs: "rdn s VGA_BASE 4000 = Some xs"
  shows "\<exists>s' h'. vga_scrolldown_with vga_putchar s 1 = Some s' \<and> heap_inv s' h' \<and> live h' = live h \<and>
    screen_mem s' \<and> rdn s' VGA_BASE 4000 = Some (drop 160 xs @ drop 3840 xs) \<and>
    (\<forall>q k. (q, k) \<in> live h \<longrightarrow> rdn s' q k = rdn s q k) \<and> heap_only s s'"
proof -
  let ?h = "snd (alloc_abs s h 3840)"
  obtain b w s1 zs where 1: "kmalloc s 3840 = Some (b, s1)" "unat (round16 3840) \<le> w"
    "live ?h = insert (b, w) (live h)" "b \<notin> fst ` live h" "range_upd s1 ?h b w zs s1"
    and c1: "\<forall>q k. (q, k) \<in> live h \<longrightarrow> rdn s1 q k = rdn s q k" and f1: "heap_frame s s1"
    by (rule new_range [OF inv rd])
  note u1 = range_updD [OF 1(5)]
  have w: "3840 \<le> w" using 1(2) by (simp add: round16_def)
  have f0: "foreign s (VGA_BASE + word_of_nat k)" if "k < 4000" for k using scr that by (simp add: screen_mem_def)
  have s1: "screen_mem s1" by (rule frame_screen [OF f1 scr])
  then have fs1: "foreign s1 (VGA_BASE + word_of_nat k)" if "k < 4000" for k using that by (simp add: screen_mem_def)
  have x1: "rdn s1 VGA_BASE 4000 = Some xs" using frame_rdn [OF f1 f0] xs by simp
  have d: "data_range s1 VGA_BASE 4000" using fs1 by (simp add: data_range_def foreign_def)
  have lx: "length xs = 4000" using data_rdn [OF d] x1 by auto
  define bs where "bs = take 3840 (drop 160 xs)"
  have lb: "length bs = 3840" and bs: "bs = drop 160 xs" using lx by (simp_all add: bs_def)
  have src: "rdn s1 (VGA_BASE + word_of_nat 160) 3840 = Some bs"
    unfolding bs_def by (rule rdn_part [OF x1 _ lx]) simp
  have d1: "data_range s1 VGA_BASE 4000" using fs1 by (simp add: data_range_def foreign_def)
  have ns1: "unshadowed s1 (VGA_BASE + word_of_nat 160) 3840"
    by (rule data_range_unshadowed [OF data_range_add [OF d1]]) simp
  have sw: "sep b w VGA_BASE 4000"
    by (rule foreign_sep [OF u1(1,2) fs1]) (use w in \<open>simp_all add: unat_VGA_BASE\<close>)
  have sp: "sep b 3840 (VGA_BASE + word_of_nat 160) 3840" "sep VGA_BASE 3840 b 3840"
    using sw w by (auto simp: sep_def VGA_BASE_def)
  have db: "data_range s1 b 3840"
    using live_addr(2) [OF u1(1,2)] w by (auto simp: clear_range_def intro: data_range_sub)
  have n: "unat (3840 :: u32) = 3840" by simp
  have 2: "copy_bytes s1 b (VGA_BASE + 160) 3840 = Some (stn s1 b bs)"
    using copy_data [where s = s1 and dst = b and src = "VGA_BASE + word_of_nat 160" and n = 3840 and bs = bs]
      db src lb sp(1) ns1 by simp
  define s2 where "s2 = stn s1 b bs"
  have len: "0 + length bs \<le> w" using lb w by simp
  note l2 = live_stn [OF u1(1,2) len, simplified, folded s2_def]
  have s2: "screen_mem s2" by (rule frame_screen [OF l2(7) s1])
  then have fs2: "foreign s2 (VGA_BASE + word_of_nat k)" if "k < 4000" for k using that by (simp add: screen_mem_def)
  have x2: "rdn s2 VGA_BASE 4000 = Some xs" using frame_rdn [OF l2(7) fs1] x1 by simp
  have b2: "rdn s2 b 3840 = Some bs" using rdn_stn_same [of s1 b bs] db lb by (simp add: s2_def)
  have ns2: "unshadowed s2 b 3840"
    using db by (simp add: s2_def)
  have d2: "data_range s2 VGA_BASE 4000" using fs2 by (simp add: data_range_def foreign_def)
  have 3: "copy_bytes s2 VGA_BASE b 3840 = Some (stn s2 VGA_BASE bs)"
    using copy_data [where s = s2 and dst = VGA_BASE and src = b and n = 3840 and bs = bs]
      data_range_sub [OF d2, of 3840] b2 lb sp(2) ns2 by simp
  define s3 where "s3 = stn s2 VGA_BASE bs"
  have fb: "foreign s2 (VGA_BASE + word_of_nat k)" if "k < length bs" for k using fs2 that lb by simp
  note f3 = foreign_stn [OF l2(2) fb]
  have lb32: "length bs \<le> 4294967296" using lb by simp
  have s3: "screen_mem s3" using s2 f3(4) [OF _ lb32] by (simp add: screen_mem_def s3_def)
  have x3: "rdn s3 VGA_BASE 4000 = Some (patch 0 bs xs)"
    using rdn_stn_patch [of s2 VGA_BASE 0 bs 4000 xs] data_range_sub [OF d2, of 3840] d2 lb x2 lx
    by (simp add: s3_def unat_VGA_BASE)
  have inv3: "heap_inv s3 ?h" using f3(2) [OF _ lb32] by (simp add: s3_def)
  obtain s4 h4 where 4: "kfree s3 b = Some (STATUS_OK, s4)" "heap_inv s4 h4" "live h4 = live ?h - {(b, w)}"
    "heap_frame s3 s4" and c4: "\<forall>(r, l)\<in>live ?h. rdn s4 r l = rdn s3 r l"
    using hc.free_law [OF inv3 u1(2)] by blast
  have "vga_scrolldown_with vga_putchar s 1 = Some s4"
    using 1(1) 2 3 4(1)
    by (simp add: vga_scrolldown_with_def memmove_with_def VGA_WIDTH_def VGA_HEIGHT_def Let_def s2_def s3_def kfree_def)
  moreover have "live h4 = live h" using 4(3) 1(3,4) by (force simp: image_iff)
  moreover have "rdn s4 VGA_BASE 4000 = Some (drop 160 xs @ drop 3840 xs)"
    using frame_rdn [OF 4(4), of 4000 VGA_BASE] s3 x3 lx by (simp add: screen_mem_def patch_def bs)
  moreover have "rdn s4 q k = rdn s q k" if qk: "(q, k) \<in> live h" for q k
  proof -
    have q1: "(q, k) \<in> live ?h" using qk by (simp add: 1(3))
    have nb: "q \<noteq> b" using 1(4) qk by (force simp: image_iff)
    have "rdn s4 q k = rdn s3 q k" using bspec [OF c4 q1] by simp
    also have "\<dots> = rdn s2 q k" unfolding s3_def by (rule f3(5) [OF _ lb32 q1])
    also have "\<dots> = rdn s1 q k" by (rule l2(3) [OF q1 nb])
    also have "\<dots> = rdn s q k" using c1 qk by blast
    finally show ?thesis .
  qed
  moreover have "heap_only s s4"
  proof -
    have o: "heap_only s s1" "heap_only s1 s2" "heap_only s3 s4"
      using f1 l2(7) 4(4) by (simp_all add: heap_frame_def)
    have "heap_only s2 s3" unfolding s3_def by (rule heap_only_stn)
    then show ?thesis by (rule heap_only_trans [OF heap_only_trans [OF o(1,2)] heap_only_trans [OF _ o(3)]])
  qed
  ultimately show ?thesis using 4(2) frame_screen [OF 4(4) s3] by blast
qed

section \<open>The terminal\<close>

text \<open>The memory of the screen next to a well-formed heap, and the state that shows a terminal.\<close>

definition on_screen :: "'a kheap_scheme \<Rightarrow> blk list \<Rightarrow> u8 list \<Rightarrow> bool" where
  "on_screen s h xs \<longleftrightarrow> heap_inv s h \<and> screen_mem s \<and> rdn s VGA_BASE 4000 = Some xs"

definition screen_shows :: "'a kheap_scheme \<Rightarrow> blk list \<Rightarrow> terminal \<Rightarrow> bool" where
  "screen_shows s h t \<longleftrightarrow> on_screen s h (t_cells t) \<and> always_ready s \<and>
     unat (vga_cursor_r s) = t_row t \<and> unat (vga_cursor_c s) = t_col t \<and> t_row t < 24 \<and> t_col t < 80"

lemma on_screen_same:
  fixes s :: "'a kheap_scheme" and s' :: "'b kheap_scheme"
  assumes "heap_same s s'"
  shows "on_screen s' h xs = on_screen s h xs" and "foreign s' = foreign s"
proof -
  note i = heap_same_inv [OF assms]
  have v: "vm_same s s'" and g: "heap_start s' = heap_start s" "heap_size s' = heap_size s"
    using assms by (auto simp: heap_same_def)
  then show f: "foreign s' = foreign s"
    using vm_same_mem [OF v] vm_same_wf(1,5) [OF v] v
    by (intro ext) (simp add: foreign_def heap_end_def alloc_vaddr_def vm_same_def)
  show "on_screen s' h xs = on_screen s h xs" by (simp add: on_screen_def screen_mem_def i f)
qed

lemma on_screen_length:
  assumes "on_screen s h xs"
  shows "length xs = 4000"
proof -
  have "data_range s VGA_BASE 4000"
    using assms by (simp add: on_screen_def screen_mem_def data_range_def foreign_def)
  from data_rdn [OF this] assms show ?thesis by (auto simp: on_screen_def)
qed

text \<open>A store to the screen, and the state in which \<open>vga_putchar\<close> decides whether to scroll.\<close>

text \<open>The ranges of the heap have their contents, and the components above the heap their state.\<close>

definition kept :: "blk list \<Rightarrow> 'a kheap_scheme \<Rightarrow> 'a kheap_scheme \<Rightarrow> bool" where
  "kept h s s' \<longleftrightarrow> kheap.more s' = kheap.more s \<and> (\<forall>q k. (q, k) \<in> live h \<longrightarrow> rdn s' q k = rdn s q k)"

lemma screen_data: "on_screen s h xs \<Longrightarrow> data_range s VGA_BASE 4000"
  by (simp add: on_screen_def screen_mem_def data_range_def foreign_def)

lemma screen_stn:
  fixes s :: "'a kheap_scheme"
  assumes on: "on_screen s h xs" and off: "off + length bs \<le> 4000"
  defines "s' \<equiv> stn s (VGA_BASE + word_of_nat off) bs"
  shows "on_screen s' h (patch off bs xs)" and "kept h s s'" and "alloc_ready s' = alloc_ready s"
proof -
  have scr: "screen_mem s" and inv: "heap_inv s h" and xs: "rdn s VGA_BASE 4000 = Some xs"
    using on by (auto simp: on_screen_def)
  have f: "foreign s (VGA_BASE + word_of_nat off + word_of_nat k)" if "k < length bs" for k
  proof -
    have "off + k < 4000" using that off by simp
    then have "foreign s (VGA_BASE + word_of_nat (off + k))" using scr by (simp only: screen_mem_def)
    then show ?thesis by (simp add: add.assoc)
  qed
  have lc: "length bs \<le> 4294967296" using off by simp
  note fs = foreign_stn [OF inv f lc, folded s'_def]
  have d: "data_range s (VGA_BASE + word_of_nat off) (length bs)"
    using f by (simp add: data_range_def foreign_def)
  have "rdn s' VGA_BASE 4000 = Some (patch off bs xs)"
    unfolding s'_def using off screen_data [OF on]
    by (intro rdn_stn_patch [OF d _ _ xs]) (simp_all add: unat_VGA_BASE on_screen_length [OF on])
  then show "on_screen s' h (patch off bs xs)"
    using fs(2) scr fs(4) by (simp add: on_screen_def screen_mem_def)
  show "alloc_ready s' = alloc_ready s" by (rule fs(3))
  show "kept h s s'" unfolding kept_def using fs(5) by (simp add: s'_def stn_def)
qed

lemma cursor_same: "heap_same s (s\<lparr>io_trace := tr, vga_cursor_r := r, vga_cursor_c := c\<rparr>)"
  by (simp add: heap_same_def vm_same_def)

lemma marked_run:
  fixes s :: "'a kheap_scheme"
  assumes on: "on_screen s h xs" and off: "off + length bs \<le> 4000"
  shows "on_screen (marked s tr r c off bs) h (patch off bs xs)" and "kept h s (marked s tr r c off bs)"
    and "alloc_ready (marked s tr r c off bs) = alloc_ready s"
proof -
  let ?u = "s\<lparr>io_trace := tr, vga_cursor_r := r, vga_cursor_c := c\<rparr>"
  note sm = on_screen_same(1) [OF cursor_same [where s = s and tr = tr and r = r and c = c]] heap_same_inv [OF cursor_same [where s = s and tr = tr and r = r and c = c]]
  have u: "on_screen ?u h xs" using on sm by simp
  note st = screen_stn [OF u off, folded marked_def]
  show "on_screen (marked s tr r c off bs) h (patch off bs xs)" by (rule st(1))
  show "alloc_ready (marked s tr r c off bs) = alloc_ready s" using st(3) sm by simp
  show "kept h s (marked s tr r c off bs)" using st(2) sm by (simp add: kept_def)
qed

lemma putchar_run:
  fixes s :: "'a kheap_scheme"
  assumes sh: "screen_shows s h t" and rd: "term_scrolls t ch \<Longrightarrow> alloc_ready s h 3840"
  shows "\<exists>s' h'. vga_putchar (s, ch) = Some s' \<and> screen_shows s' h' (term_put t ch) \<and> live h' = live h \<and>
    kept h s s' \<and> sent (io_trace s') = sent (io_trace s) @ [ch] \<and>
    (\<not> term_scrolls t ch \<longrightarrow> h' = h \<and> alloc_ready s' = alloc_ready s)"
proof -
  have on: "on_screen s h (t_cells t)" and rdy: "always_ready s" and cur: "cursor_at s t"
    and lt: "t_row t < 24" "t_col t < 80"
    using sh by (auto simp: screen_shows_def cursor_at_def)
  note tb = term_bounds [OF lt, of ch]
  let ?u = "term_wrap (term_mark t ch)"
  obtain tr r c off bs where 1: "off + length bs \<le> 4000" "sent tr = sent (io_trace s) @ [ch]"
    "t_cells ?u = patch off bs (t_cells t)" "unat r = t_row ?u" "unat c = t_col ?u"
    "vga_putchar (s, ch) = (if term_scrolls t ch
      then do { s4 \<leftarrow> vga_scrolldown_with vga_putchar (marked s tr r c off bs) 1;
                Some (s4\<lparr>vga_cursor_r := vga_cursor_r s4 - 1\<rparr>) }
      else Some (marked s tr r c off bs))"
    using putchar_marks [OF screen_data [OF on] rdy cur lt, of ch] by blast
  define s3 where "s3 = marked s tr r c off bs"
  note m = marked_run [OF on 1(1), where tr = tr and r = r and c = c, folded s3_def 1(3)]
  have f3: "vga_cursor_r s3 = r" "vga_cursor_c s3 = c" "io_trace s3 = tr" "always_ready s3"
    using rdy by (simp_all add: s3_def)
  show ?thesis
  proof (cases "term_scrolls t ch")
    case False
    then have "screen_shows s3 h (term_put t ch)"
      using m(1) f3 1(4,5) tb(3) by (simp add: screen_shows_def term_put_def Let_def term_scrolls_def)
    then show ?thesis using 1(2,6) f3 m False by (intro exI [of _ s3] exI [of _ h]) (simp add: s3_def)
  next
    case True
    have i3: "heap_inv s3 h" "screen_mem s3" "rdn s3 VGA_BASE 4000 = Some (t_cells ?u)"
      using m(1) by (auto simp: on_screen_def)
    have "alloc_ready s3 h 3840" using rd [OF True] m(3) by simp
    from scroll_run [OF i3(1,2) this i3(3)]
    obtain s4 h' where 4: "vga_scrolldown_with vga_putchar s3 1 = Some s4" "heap_inv s4 h'" "live h' = live h"
      "screen_mem s4" "rdn s4 VGA_BASE 4000 = Some (drop 160 (t_cells ?u) @ drop 3840 (t_cells ?u))"
      "\<forall>q k. (q, k) \<in> live h \<longrightarrow> rdn s4 q k = rdn s3 q k" "heap_only s3 s4"
      by blast
    have g: "vga_cursor_r s4 = r" "vga_cursor_c s4 = c" "io_trace s4 = tr" "io_dev s4 = io_dev s3"
      using 4(7) f3 by (auto simp: heap_only_def)
    let ?s5 = "s4\<lparr>vga_cursor_r := vga_cursor_r s4 - 1\<rparr>"
    have "heap_same s4 ?s5" by (simp add: heap_same_def vm_same_def)
    note sm = on_screen_same [OF this] heap_same_inv [OF this]
    have r24: "t_row ?u = 24" using tb(2) True by (simp add: term_scrolls_def)
    have "on_screen ?s5 h' (t_cells (term_put t ch))"
      unfolding sm(1) using 4(2,4,5) True by (simp add: on_screen_def term_put_def Let_def)
    moreover have "always_ready ?s5" using f3(4) g(4) by (simp add: always_ready_def)
    moreover have "unat (vga_cursor_r s4 - 1) = 23" using 1(4) r24 g(1) by (simp add: unat_sub word_le_nat_alt)
    ultimately have "screen_shows ?s5 h' (term_put t ch)"
      using True r24 1(5) tb(3) g by (simp add: screen_shows_def term_put_def Let_def)
    moreover have "kept h s ?s5" using m(2) 4(6) sm heap_only_fields(6) [OF 4(7)] by (simp add: kept_def)
    ultimately show ?thesis
      using 1(2,6) True 4(1,3) g(3) by (intro exI [of _ ?s5] exI [of _ h']) (simp add: s3_def)
  qed
qed

section \<open>Strings\<close>

lemma print_run:
  fixes s :: "'a kheap_scheme"
  assumes "screen_shows s h t" and "term_fits t cs"
  shows "\<exists>s'. vga_print s cs = Some s' \<and> screen_shows s' h (foldl term_put t cs) \<and> kept h s s' \<and>
    alloc_ready s' = alloc_ready s \<and> sent (io_trace s') = sent (io_trace s) @ cs"
  using assms
proof (induction cs arbitrary: s t)
  case Nil
  then show ?case by (simp add: vga_print_def kept_def)
next
  case (Cons c cs)
  then have ns: "\<not> term_scrolls t c" and fit: "term_fits (term_put t c) cs" by simp_all
  obtain s1 where 1: "vga_putchar (s, c) = Some s1" "screen_shows s1 h (term_put t c)" "kept h s s1"
    "sent (io_trace s1) = sent (io_trace s) @ [c]" "alloc_ready s1 = alloc_ready s"
    using putchar_run [OF Cons.prems(1), of c] ns by blast
  obtain s2 where 2: "vga_print s1 cs = Some s2" "screen_shows s2 h (foldl term_put (term_put t c) cs)"
    "kept h s1 s2" "alloc_ready s2 = alloc_ready s1" "sent (io_trace s2) = sent (io_trace s1) @ cs"
    using Cons.IH [OF 1(2) fit] by blast
  show ?case using 1 2 by (intro exI [of _ s2]) (simp add: vga_print_def kept_def)
qed

section \<open>What the operations do\<close>

text \<open>C12: \<open>vga_putchar\<close> implements the abstract terminal: when the screen shows \<open>t\<close>, it shows \<open>term_put t ch\<close>
  afterwards, the byte has gone to the serial port, and the heap's ranges and their contents are
  as before.  The heap needs room for the copy of the screen only when the terminal scrolls.\<close>

theorem vga_putchar_implements:
  fixes s :: "'a kheap_scheme"
  assumes "screen_shows s h t" and "term_scrolls t ch \<Longrightarrow> alloc_ready s h 3840"
  shows "\<exists>s' h'. vga_putchar (s, ch) = Some s' \<and> screen_shows s' h' (term_put t ch) \<and> live h' = live h \<and>
    kept h s s' \<and> sent (io_trace s') = sent (io_trace s) @ [ch]"
  using putchar_run [OF assms] by blast

text \<open>\<open>vga_print\<close> of a string that does not scroll puts its characters one after the other, sends the same
  bytes to the serial port and leaves the heap alone.\<close>

theorem vga_print_implements:
  fixes s :: "'a kheap_scheme"
  assumes "screen_shows s h t" and "term_fits t cs"
  shows "\<exists>s'. vga_print s cs = Some s' \<and> screen_shows s' h (foldl term_put t cs) \<and> kept h s s' \<and>
    sent (io_trace s') = sent (io_trace s) @ cs"
  using print_run [OF assms] by blast

text \<open>\<open>vga_scrolldown\<close> by one line moves lines 1 to 24 up by one; the last line is not blanked but stays.
  It returns although it borrows a buffer from the heap, and that buffer is released again.\<close>

theorem vga_scrolldown_moves:
  fixes s :: "'a kheap_scheme"
  assumes "on_screen s h xs" and "alloc_ready s h 3840"
  shows "\<exists>s' h'. vga_scrolldown s 1 = Some s' \<and> on_screen s' h' (drop 160 xs @ drop 3840 xs) \<and>
    live h' = live h \<and> kept h s s'"
proof -
  have "heap_inv s h" "screen_mem s" "rdn s VGA_BASE 4000 = Some xs" using assms(1) by (auto simp: on_screen_def)
  from scroll_run [OF this(1,2) assms(2) this(3)] show ?thesis
    unfolding vga_scrolldown_def on_screen_def kept_def using heap_only_fields(6) by blast
qed

text \<open>\<open>vga_clear\<close> makes the screen show the empty terminal with the cursor at its origin.\<close>

theorem vga_clear_blanks:
  fixes s :: "'a kheap_scheme"
  assumes "on_screen s h xs" and "always_ready s"
  shows "\<exists>s'. vga_clear s = Some s' \<and> kept h s s' \<and> io_trace s' = io_trace s \<and>
    screen_shows s' h \<lparr>t_cells = concat (replicate 2000 (cell 32)), t_row = 0, t_col = 0\<rparr>"
proof -
  let ?t = "stn s VGA_BASE (blank_cells 2000)"
  let ?u = "?t\<lparr>vga_cursor_r := 0, vga_cursor_c := 0\<rparr>"
  have "0 + length (blank_cells 2000) \<le> 4000" by simp
  note st = screen_stn [OF assms(1) this, simplified]
  have "patch 0 (blank_cells 2000) xs = blank_cells 2000"
    using on_screen_length [OF assms(1)] by (simp add: patch_def)
  then have t: "on_screen ?t h (blank_cells 2000)" using st(1) by simp
  have "heap_same ?t ?u" by (simp add: heap_same_def vm_same_def)
  note sm = on_screen_same(1) [OF this] heap_same_inv [OF this]
  have "always_ready ?u" using assms(2) by (simp add: always_ready_def)
  then have "screen_shows ?u h \<lparr>t_cells = blank_cells 2000, t_row = 0, t_col = 0\<rparr>"
    using t sm(1) by (simp add: screen_shows_def)
  moreover have "kept h s ?u" using st(2) sm by (simp add: kept_def)
  ultimately show ?thesis
    using vga_clear_stn [OF screen_data [OF assms(1)]] by (simp add: blank_cells_def)
qed

section \<open>The first screen\<close>

lemma boot_foreign: "k < 4000 \<Longrightarrow> foreign boot (VGA_BASE + word_of_nat k)"
proof -
  assume k: "k < 4000"
  then have uk: "unat (word_of_nat k :: u32) = k" by (simp add: unat_of_nat)
  have o: "unat (pgoff VGA_BASE) + unat (word_of_nat k :: u32) < 4096"
    unfolding uk using k by (simp add: unat_pgoff VGA_BASE_def)
  have "page (VGA_BASE + word_of_nat k) = 0xc00ff" unfolding page_add [OF o] by (simp add: page_def VGA_BASE_def)
  then have d: "data boot (VGA_BASE + word_of_nat k)" by (intro boot_data) (simp_all add: index_page)
  have u: "unat (VGA_BASE + word_of_nat k) = 0xc00ff000 + k"
    using uk k by (simp add: unat_add_small unat_VGA_BASE)
  have ne: "VGA_BASE + word_of_nat k \<noteq> a" if "0xc010d000 \<le> unat a" for a using u that k by auto
  have small: "0xc010d000 \<le> unat (0xc010d000 + word_of_nat j :: u32)" "0xc010d000 \<le> unat (0xc010d100 + word_of_nat j :: u32)"
    if "j < 32" for j
    using that by (simp_all add: unat_add_small unat_of_nat)
  show ?thesis
    using d u ne small by (simp add: foreign_def alloc_vaddr_def boot_sizes heap_end_def)
qed

lemma boot_screen: "\<exists>xs. on_screen boot [] xs" "always_ready boot"
proof -
  have scr: "screen_mem boot" using boot_foreign by (simp add: screen_mem_def)
  then have "data_range boot VGA_BASE 4000" by (simp add: screen_mem_def data_range_def foreign_def)
  then obtain xs where "rdn boot VGA_BASE 4000 = Some xs" using data_rdn by blast
  then show "\<exists>xs. on_screen boot [] xs" using scr boot_heap by (auto simp: on_screen_def)
  show "always_ready boot" by (simp add: always_ready_def boot_def)
qed

lemma boot_shows:
  "\<exists>xs. on_screen boot [] xs \<and>
    screen_shows boot [] \<lparr>t_cells = xs, t_row = 0, t_col = 0\<rparr> \<and>
    screen_shows (boot\<lparr>vga_cursor_r := 23\<rparr>) [] \<lparr>t_cells = xs, t_row = 23, t_col = 0\<rparr>"
proof -
  obtain xs where xs: "on_screen boot [] xs" using boot_screen(1) by blast
  have "heap_same boot (boot\<lparr>vga_cursor_r := 23\<rparr>)" by (simp add: heap_same_def vm_same_def)
  note sm = on_screen_same(1) [OF this]
  have "always_ready (boot\<lparr>vga_cursor_r := 23\<rparr>)" "vga_cursor_r boot = 0" "vga_cursor_c boot = 0"
    using boot_screen(2) by (simp_all add: always_ready_def boot_def)
  then show ?thesis using xs boot_screen(2) sm by (intro exI [of _ xs]) (simp add: screen_shows_def)
qed

lemma boot_scroll_ready: "alloc_ready boot [] 3840" "alloc_ready (boot\<lparr>vga_cursor_r := 23\<rparr>) [] 3840"
proof -
  show r: "alloc_ready boot [] 3840"
    unfolding alloc_ready_def grow_ok_def grow_request_def round16_def
    using boot_mmap_page by (auto simp: heap_end_def)
  have "heap_same boot (boot\<lparr>vga_cursor_r := 23\<rparr>)" by (simp add: heap_same_def vm_same_def)
  from heap_same_inv [OF this] r show "alloc_ready (boot\<lparr>vga_cursor_r := 23\<rparr>) [] 3840" by simp
qed

theorem vga_putchar_implements_witness:
  "\<exists>xs s' h'. on_screen boot [] xs \<and> vga_putchar (boot\<lparr>vga_cursor_r := 23\<rparr>, 10) = Some s' \<and>
    screen_shows s' h' \<lparr>t_cells = drop 160 xs @ drop 3840 xs, t_row = 23, t_col = 0\<rparr> \<and> live h' = {}"
proof -
  obtain xs where xs: "on_screen boot [] xs"
    "screen_shows (boot\<lparr>vga_cursor_r := 23\<rparr>) [] \<lparr>t_cells = xs, t_row = 23, t_col = 0\<rparr>"
    using boot_shows by blast
  from vga_putchar_implements [OF xs(2) boot_scroll_ready(2), of 10] xs(1)
  show ?thesis by (auto simp: term_eval live_def)
qed

theorem vga_print_implements_witness:
  "\<exists>xs s'. vga_print boot (lit ''ok'') = Some s' \<and> sent (io_trace s') = lit ''ok'' \<and>
    screen_shows s' [] \<lparr>t_cells = patch 2 (cell 107) (patch 0 (cell 111) xs), t_row = 0, t_col = 2\<rparr>"
proof -
  obtain xs where xs: "screen_shows boot [] \<lparr>t_cells = xs, t_row = 0, t_col = 0\<rparr>" using boot_shows by blast
  have l: "lit ''ok'' = [111, 107]" by (simp add: lit_def of_char_def)
  have "term_fits \<lparr>t_cells = xs, t_row = 0, t_col = 0\<rparr> (lit ''ok'')" unfolding l by (simp add: term_eval)
  moreover have "foldl term_put \<lparr>t_cells = xs, t_row = 0, t_col = 0\<rparr> (lit ''ok'') =
      \<lparr>t_cells = patch 2 (cell 107) (patch 0 (cell 111) xs), t_row = 0, t_col = 2\<rparr>"
    unfolding l by (simp add: term_eval, simp only: numeral_2_eq_2)
  moreover have "sent (io_trace boot) = []" by (simp add: boot_def)
  ultimately show ?thesis using vga_print_implements [OF xs] by fastforce
qed

theorem vga_scrolldown_moves_witness:
  "\<exists>xs s' h'. on_screen boot [] xs \<and> vga_scrolldown boot 1 = Some s' \<and>
    on_screen s' h' (drop 160 xs @ drop 3840 xs) \<and> live h' = {}"
proof -
  obtain xs where xs: "on_screen boot [] xs" using boot_shows by blast
  from vga_scrolldown_moves [OF xs boot_scroll_ready(1)] xs show ?thesis by (auto simp: live_def)
qed

theorem vga_clear_blanks_witness:
  "\<exists>s'. vga_clear boot = Some s' \<and>
    screen_shows s' [] \<lparr>t_cells = concat (replicate 2000 (cell 32)), t_row = 0, t_col = 0\<rparr>"
proof -
  obtain xs where xs: "on_screen boot [] xs" using boot_shows by blast
  from vga_clear_blanks [OF xs boot_screen(2)] show ?thesis by blast
qed

end
