(* ===== verification/Early.thy ===== *)
theory Early
  imports Terminal
begin

text \<open>
  Memory while the kernel starts: page tables, but no frame allocator and no heap yet.  What a store to
  data leaves unchanged, and the terminal on such a machine.
\<close>

section \<open>Stores to data\<close>

text \<open>The part of the paging invariant \<open>vm_wf\<close> that \<open>boot.s\<close> establishes.\<close>

definition paged :: "'a virtmm_scheme \<Rightarrow> bool" where
  "paged s \<longleftrightarrow> pt_wf (ram s) (cr3 s) \<and> tlb_ok s \<and> pgoff (pde_table s) = 0 \<and>
     \<not> in_window (pde_table s) \<and> walk s (pde_table s) = Some (page (cr3 s)) \<and> shadow_mapped s"

lemma vm_wf_paged: "vm_wf s \<longleftrightarrow> phymm_wf s \<and> paged s \<and> free_frames_ok s"
  by (auto simp: vm_wf_def paged_def)

definition span :: "u32 \<Rightarrow> nat \<Rightarrow> u32 set" where
  "span a n = {a + word_of_nat k | k. k < n}"

lemma spanI: "k < n \<Longrightarrow> a + word_of_nat k \<in> span a n"
  by (auto simp: span_def)

lemma span_part: "off + m \<le> n \<Longrightarrow> span (a + word_of_nat off) m \<subseteq> span a n"
proof
  fix x assume le: "off + m \<le> n" and "x \<in> span (a + word_of_nat off) m"
  then obtain k where "k < m" "x = a + word_of_nat (off + k)" by (auto simp: span_def add.assoc)
  then show "x \<in> span a n" using le spanI [of "off + k" n a] by simp
qed

lemma span_sep:
  assumes "sep a n b m"
  shows "span a n \<inter> span b m = {}"
proof (rule ccontr)
  assume "span a n \<inter> span b m \<noteq> {}"
  then obtain j k where jk: "j < n" "k < m" and eq: "a + word_of_nat j = b + word_of_nat k" by (auto simp: span_def)
  have "unat a + n \<le> 4294967296" "unat b + m \<le> 4294967296" using assms u32_less [of a] u32_less [of b]
    by (auto simp: sep_def)
  then have "unat (a + word_of_nat j) = unat a + j" "unat (b + word_of_nat k) = unat b + k"
    using jk by (simp_all add: unat_add_small unat_of_nat)
  then show False using eq assms jk by (auto simp: sep_def)
qed

text \<open>\<open>s'\<close> differs from \<open>s\<close> by stores to the addresses \<open>A\<close>, and in registers and globals that do not matter.\<close>

definition stored :: "u32 set \<Rightarrow> 'a virtmm_scheme \<Rightarrow> 'a virtmm_scheme \<Rightarrow> bool" where
  "stored A s s' \<longleftrightarrow>
     cr3 s' = cr3 s \<and> kernel_end s' = kernel_end s \<and> pde_table s' = pde_table s \<and> translate s' = translate s \<and> data s' = data s \<and>
     walk s' = walk s \<and> is_table s' = is_table s \<and> tlb_ok s' = tlb_ok s \<and>
     (\<forall>i. unat i < 1024 \<longrightarrow> pde s' i = pde s i) \<and>
     (\<forall>b. b \<notin> A \<and> \<not> shadow s b \<longrightarrow> rd8 s' b = rd8 s b) \<and>
     (\<forall>p. (\<forall>a. walk s a = Some (page p) \<longrightarrow> shadow s a) \<longrightarrow> ram s' p = ram s p)"

lemma storedD:
  assumes "stored A s s'"
  shows "cr3 s' = cr3 s" "pde_table s' = pde_table s" "translate s' = translate s" "data s' = data s"
    "walk s' = walk s" "is_table s' = is_table s" "tlb_ok s' = tlb_ok s" "data_range s' = data_range s"
    "\<And>i. unat i < 1024 \<Longrightarrow> pde s' i = pde s i" "\<And>b. b \<notin> A \<Longrightarrow> \<not> shadow s b \<Longrightarrow> rd8 s' b = rd8 s b"
    "\<And>p. (\<And>a. walk s a = Some (page p) \<Longrightarrow> shadow s a) \<Longrightarrow> ram s' p = ram s p"
    "kernel_end s' = kernel_end s"
  using assms by (auto simp: stored_def data_range_def fun_eq_iff)

lemma stored_shadow:
  assumes "stored A s s'"
  shows "shadow s' = shadow s" and "unshadowed s' = unshadowed s"
  by (rule shadow_eq [OF storedD(12) [OF assms]])+

lemma stored_refl: "stored A s s"
  by (simp add: stored_def)

lemma stored_trans: "stored A s s1 \<Longrightarrow> stored B s1 s2 \<Longrightarrow> stored (A \<union> B) s s2"
  using stored_shadow [of A s s1] by (simp add: stored_def)

lemma stored_same_trans: "stored A s s1 \<Longrightarrow> stored A s1 s2 \<Longrightarrow> stored A s s2"
  using stored_trans [of A s s1 A s2] by simp

lemma stored_mono: "stored A s s' \<Longrightarrow> A \<subseteq> B \<Longrightarrow> stored B s s'"
  unfolding stored_def by blast

lemma stored_paged:
  assumes "stored A s s'"
  shows "paged s' = paged s"
proof -
  note d = storedD [OF assms]
  have e: "entry (ram s') (page (cr3 s)) i = entry (ram s) (page (cr3 s)) i" if "unat i < 1024" for i
    using d(9) [OF that] by (simp add: pde_def d(1))
  have e2: "entry (ram s') (page (cr3 s)) i = entry (ram s) (page (cr3 s)) i" if "unat i < 1023" for i
    using e [of i] that by simp
  have "pt_wf (ram s') (cr3 s) = pt_wf (ram s) (cr3 s)"
    unfolding pt_wf_def by (simp add: e e2 cong: conj_cong)
  then show ?thesis by (simp add: paged_def shadow_mapped_def d stored_shadow [OF assms])
qed

lemma stored_rdn: "stored A s s' \<Longrightarrow> span a n \<inter> A = {} \<Longrightarrow> unshadowed s a n \<Longrightarrow> rdn s' a n = rdn s a n"
  unfolding rdn_rd8
  using spanI [of _ n a] by (intro arg_cong [of _ _ those] map_cong refl storedD(10)) (auto dest: unshadowedD)

lemma stored_rd32: "stored A s s' \<Longrightarrow> span a 4 \<inter> A = {} \<Longrightarrow> unshadowed s a 4 \<Longrightarrow> rd32 s' a = rd32 s a"
  unfolding rd32_def by (simp add: stored_rdn)

lemma stored_stn:
  fixes s :: "'a virtmm_scheme"
  assumes p: "paged s" and d: "data_range s a (length bs)" and len: "length bs \<le> 4294967296"
  shows "stored (span a (length bs)) s (stn s a bs)"
proof -
  note tb = stn_tables [OF d]
  have "rd8 (stn s a bs) b = rd8 s b" if "b \<notin> span a (length bs)" "\<not> shadow s b" for b
  proof -
    have "\<not> unat (b - a) < length bs" using that(1) spanI [of "unat (b - a)" "length bs" a] by auto
    then show ?thesis using that(2) by (simp add: rd8_stn [OF d len])
  qed
  moreover have "ram (stn s a bs) q = ram s q" if un: "\<And>x. walk s x = Some (page q) \<Longrightarrow> shadow s x" for q
  proof (rule store_addrs_notin)
    fix j assume "j < length bs"
    then have da: "data s (a + word_of_nat j)" using d by (simp add: data_range_def)
    then have t: "translate s (a + word_of_nat j) = Some (the (translate s (a + word_of_nat j)))"
      by (rule data_trans)
    obtain g where g: "walk s (a + word_of_nat j) = Some g"
      "the (translate s (a + word_of_nat j)) = mkaddr g (pgoff (a + word_of_nat j))"
      using t p by (auto simp: paged_def translate_walk)
    have "page (the (translate s (a + word_of_nat j))) = g" using g walk_lt [OF g(1)] by simp
    then show "q \<noteq> the (translate s (a + word_of_nat j))" using un g(1) data_not_shadow [OF da] by auto
  qed
  ultimately show ?thesis using tb by (simp add: stored_def data_stn [OF d] translate_stn [OF d])
qed

text \<open>The fields above the machine's do not matter, except for the address of the directory.\<close>

lemma stored_globals:
  fixes s s' :: "'a virtmm_scheme"
  assumes "ram s' = ram s" and "cr3 s' = cr3 s" and "tlb s' = tlb s" and "pde_table s' = pde_table s"
    and "kernel_end s' = kernel_end s"
  shows "stored A s s'"
proof -
  have t: "translate s' = translate s"
    using assms by (intro ext) (simp add: translate_def split: option.split)
  have r: "rd8 s' = rd8 s" by (intro ext) (simp add: rd8_def t assms)
  have d: "data s' = data s" by (intro ext) (simp add: data_def t assms shadow_eq [OF assms(5)])
  have w: "walk s' = walk s" by (intro ext) (simp add: walk_def assms)
  show ?thesis
    unfolding stored_def by (simp add: assms t r d w tlb_ok_def pde_def is_table_def fun_eq_iff)
qed

lemma same_reads:
  fixes s :: "'a machine_scheme" and s' :: "'b machine_scheme"
  assumes "ram s' = ram s" and "cr3 s' = cr3 s" and "tlb s' = tlb s"
  shows "rd8 s' = rd8 s" and "rdn s' = rdn s" and "rd32 s' = rd32 s"
proof -
  have t: "translate s' = translate s"
    using assms by (intro ext) (simp add: translate_def split: option.split)
  show "rd8 s' = rd8 s" by (intro ext) (simp add: rd8_def t assms)
  show r: "rdn s' = rdn s" by (intro ext) (simp add: rdn_def phys_addrs_def t assms)
  show "rd32 s' = rd32 s" by (intro ext) (simp add: rd32_def r)
qed

text \<open>A loop that stores pieces of \<open>k\<close> bytes one after the other.\<close>

lemma stn_loop:
  fixes s :: "'a machine_scheme"
  assumes d: "data_range s a (k * n)" and k: "\<And>i. length (f i) = k"
    and body: "\<And>i t. i < n \<Longrightarrow> t = stn s a (concat (map f [0..<i])) \<Longrightarrow> F i t = wrn t (a + word_of_nat (k * i)) (f i)"
  shows "for_loop 0 n F s = Some (stn s a (concat (map f [0..<n])))"
proof -
  have len: "length (concat (map f [0..<i])) = k * i" for i by (induction i) (simp_all add: k)
  have "\<exists>t. for_loop 0 n F s = Some t \<and> t = stn s a (concat (map f [0..<0 + n]))"
  proof (rule for_loop_inv)
    show "s = stn s a (concat (map f [0..<0]))" by (simp add: stn_def)
    fix i t assume i: "i < 0 + n" and t: "t = stn s a (concat (map f [0..<i]))"
    have le: "k * i + k \<le> k * n" using i mult_le_mono2 [of "Suc i" n k] by simp
    have d1: "data_range s a (length (concat (map f [0..<i])))"
      unfolding len by (rule data_range_sub [OF d]) (rule add_leD1 [OF le])
    have "data_range s (a + word_of_nat (k * i)) k" by (rule data_range_add [OF d le])
    then have d2: "data_range t (a + word_of_nat (k * i)) (length (f i))"
      unfolding t k using data_range_stn [OF d1] by simp
    have "F i t = Some (stn t (a + word_of_nat (k * i)) (f i))"
      using body [OF _ t] i wrn_data [OF d2] by simp
    moreover have "stn t (a + word_of_nat (k * i)) (f i) = stn s a (concat (map f [0..<Suc i]))"
      using stn_append [OF d1, of "f i"] by (simp add: t len)
    ultimately show "\<exists>t'. F i t = Some t' \<and> t' = stn s a (concat (map f [0..<Suc i]))" by simp
  qed
  then show ?thesis by simp
qed

section \<open>The terminal before the heap\<close>

definition early_shows :: "'a kheap_scheme \<Rightarrow> terminal \<Rightarrow> bool" where
  "early_shows s t \<longleftrightarrow> paged s \<and> data_range s VGA_BASE 4000 \<and> rdn s VGA_BASE 4000 = Some (t_cells t) \<and>
     always_ready s \<and> cursor_at s t \<and> t_row t < 24 \<and> t_col t < 80"

text \<open>What printing changes: the screen's memory, the port traffic and the cursor.\<close>

definition printed :: "'a kheap_scheme \<Rightarrow> 'a kheap_scheme \<Rightarrow> bool" where
  "printed s s' \<longleftrightarrow> stored (span VGA_BASE 4000) s s' \<and>
     (\<exists>m tr r c. s' = s\<lparr>ram := m, io_trace := tr, vga_cursor_r := r, vga_cursor_c := c\<rparr>)"

lemma printed_trans:
  assumes "printed s s1" and "printed s1 s2"
  shows "printed s s2"
proof -
  have "stored (span VGA_BASE 4000) s s2"
    using stored_same_trans assms unfolding printed_def by blast
  moreover have "\<exists>m tr r c. s2 = s\<lparr>ram := m, io_trace := tr, vga_cursor_r := r, vga_cursor_c := c\<rparr>"
    using assms unfolding printed_def by fastforce
  ultimately show ?thesis by (simp add: printed_def)
qed

lemma early_marked:
  fixes s :: "'a kheap_scheme"
  assumes p: "paged s" and d: "data_range s VGA_BASE 4000" and off: "off + length bs \<le> 4000"
    and xs: "rdn s VGA_BASE 4000 = Some xs"
  shows "printed s (marked s tr r c off bs)" and "rdn (marked s tr r c off bs) VGA_BASE 4000 = Some (patch off bs xs)"
proof -
  let ?u = "s\<lparr>io_trace := tr, vga_cursor_r := r, vga_cursor_c := c\<rparr>"
  have u: "stored A s ?u" for A by (rule stored_globals) simp_all
  note ud = storedD [OF u]
  have pu: "paged ?u" using stored_paged [OF u] p by simp
  have du: "data_range ?u (VGA_BASE + word_of_nat off) (length bs)"
    using data_range_add [OF d off] by (simp add: ud)
  have len: "length bs \<le> 4294967296" using off by simp
  have "stored (span VGA_BASE 4000) ?u (marked s tr r c off bs)"
    unfolding marked_def by (rule stored_mono [OF stored_stn [OF pu du len] span_part [OF off]])
  then have "stored (span VGA_BASE 4000) s (marked s tr r c off bs)"
    by (rule stored_same_trans [OF u])
  moreover have "marked s tr r c off bs =
      s\<lparr>ram := ram (marked s tr r c off bs), io_trace := tr, vga_cursor_r := r, vga_cursor_c := c\<rparr>"
    by (simp add: marked_def stn_def)
  ultimately show "printed s (marked s tr r c off bs)" unfolding printed_def by blast
  have lx: "length xs = 4000" using data_rdn [OF d] xs by auto
  have "rdn ?u VGA_BASE 4000 = Some xs" using xs same_reads(2) [of ?u s] by simp
  then show "rdn (marked s tr r c off bs) VGA_BASE 4000 = Some (patch off bs xs)"
    unfolding marked_def by (intro rdn_stn_patch [OF du off]) (simp_all add: unat_VGA_BASE lx d data_range_unshadowed stored_shadow [OF u])
qed

lemma printed_shows:
  "printed s s' \<Longrightarrow> early_shows s t \<Longrightarrow> always_ready s' \<and> paged s' \<and> data_range s' VGA_BASE 4000"
  by (auto simp: printed_def early_shows_def stored_paged storedD(8) always_ready_def)

lemma printed_refl: "printed s s"
  unfolding printed_def
  by (intro conjI stored_refl exI [of _ "ram s"] exI [of _ "io_trace s"] exI [of _ "vga_cursor_r s"]
      exI [of _ "vga_cursor_c s"]) simp

lemma early_putchar:
  fixes s :: "'a kheap_scheme"
  assumes sh: "early_shows s t" and ns: "\<not> term_scrolls t ch"
  shows "\<exists>s'. vga_putchar (s, ch) = Some s' \<and> early_shows s' (term_put t ch) \<and> printed s s' \<and>
    sent (io_trace s') = sent (io_trace s) @ [ch]"
proof -
  have p: "paged s" and d: "data_range s VGA_BASE 4000" and xs: "rdn s VGA_BASE 4000 = Some (t_cells t)"
    and rdy: "always_ready s" and cur: "cursor_at s t" and lt: "t_row t < 24" "t_col t < 80"
    using sh by (auto simp: early_shows_def)
  let ?u = "term_wrap (term_mark t ch)"
  obtain tr r c off bs where 1: "off + length bs \<le> 4000" "sent tr = sent (io_trace s) @ [ch]"
    "t_cells ?u = patch off bs (t_cells t)" "unat r = t_row ?u" "unat c = t_col ?u"
    "vga_putchar (s, ch) = Some (marked s tr r c off bs)"
    using putchar_marks [OF d rdy cur lt, of ch] ns by auto
  note m = early_marked [OF p d 1(1) xs, where tr = tr and r = r and c = c]
  have "t_row ?u < 24" "t_col ?u < 80" "term_put t ch = ?u"
    using ns term_bounds(3) [OF lt, of ch] by (simp_all add: term_scrolls_def term_put_def Let_def)
  then have "early_shows (marked s tr r c off bs) (term_put t ch)"
    using m(2) printed_shows [OF m(1) sh] 1(3-5) by (simp add: early_shows_def cursor_at_def)
  then show ?thesis using 1(2,6) m(1) by (intro exI [of _ "marked s tr r c off bs"]) simp
qed

lemma early_print:
  fixes s :: "'a kheap_scheme"
  assumes "early_shows s t" and "term_fits t cs"
  shows "\<exists>s'. vga_print s cs = Some s' \<and> early_shows s' (foldl term_put t cs) \<and> printed s s' \<and>
    sent (io_trace s') = sent (io_trace s) @ cs"
  using assms
proof (induction cs arbitrary: s t)
  case Nil
  then show ?case by (simp add: vga_print_def printed_refl)
next
  case (Cons c cs)
  then have ns: "\<not> term_scrolls t c" and fit: "term_fits (term_put t c) cs" by simp_all
  obtain s1 where 1: "vga_putchar (s, c) = Some s1" "early_shows s1 (term_put t c)" "printed s s1"
    "sent (io_trace s1) = sent (io_trace s) @ [c]"
    using early_putchar [OF Cons.prems(1) ns] by blast
  obtain s2 where 2: "vga_print s1 cs = Some s2" "early_shows s2 (foldl term_put (term_put t c) cs)"
    "printed s1 s2" "sent (io_trace s2) = sent (io_trace s1) @ cs"
    using Cons.IH [OF 1(2) fit] by blast
  show ?case using 1 2 printed_trans [OF 1(3) 2(3)] by (intro exI [of _ s2]) (simp add: vga_print_def)
qed

lemma early_clear:
  fixes s :: "'a kheap_scheme"
  assumes p: "paged s" and d: "data_range s VGA_BASE 4000" and rdy: "always_ready s"
  shows "\<exists>s'. vga_clear s = Some s' \<and> early_shows s' \<lparr>t_cells = blank_cells 2000, t_row = 0, t_col = 0\<rparr> \<and>
    printed s s' \<and> io_trace s' = io_trace s"
proof -
  let ?t = "stn s VGA_BASE (blank_cells 2000)"
  let ?u = "?t\<lparr>vga_cursor_r := 0, vga_cursor_c := 0\<rparr>"
  have d0: "data_range s VGA_BASE (length (blank_cells 2000))" using d by simp
  have "stored (span VGA_BASE (length (blank_cells 2000))) s ?t" by (rule stored_stn [OF p d0]) simp
  then have "stored (span VGA_BASE 4000) s ?t" by simp
  moreover have g: "stored (span VGA_BASE 4000) ?t ?u" by (rule stored_globals) simp_all
  ultimately have st: "stored (span VGA_BASE 4000) s ?u" using stored_same_trans by blast
  have pr: "printed s ?u"
    unfolding printed_def
    by (intro conjI st exI [of _ "ram ?t"] exI [of _ "io_trace s"] exI [of _ 0]) (simp add: stn_def)
  have "rdn ?t VGA_BASE (length (blank_cells 2000)) = Some (blank_cells 2000)"
    by (rule rdn_stn_same [OF d0]) simp
  moreover have "rdn ?u = rdn ?t" using storedD(3) [OF g] by (intro ext) (simp add: rdn_rd8 rd8_def)
  ultimately have "rdn ?u VGA_BASE 4000 = Some (blank_cells 2000)" by simp
  then have "early_shows ?u \<lparr>t_cells = blank_cells 2000, t_row = 0, t_col = 0\<rparr>"
    using stored_paged [OF st] storedD(8) [OF st] p d rdy
    by (simp add: early_shows_def cursor_at_def always_ready_def)
  then show ?thesis using vga_clear_stn [OF d] pr by simp
qed

section \<open>Strings on one line\<close>

definition plain :: "u8 list \<Rightarrow> bool" where
  "plain cs \<longleftrightarrow> set cs \<inter> {9, 10, 13} = {}"

lemma plain_fits:
  assumes "plain cs" and "t_row t < 24" and "t_col t + length cs < 80"
  shows "term_fits t cs" and "t_row (foldl term_put t cs) = t_row t"
    and "t_col (foldl term_put t cs) = t_col t + length cs"
proof -
  have "term_fits t cs \<and> t_row (foldl term_put t cs) = t_row t \<and>
      t_col (foldl term_put t cs) = t_col t + length cs"
    using assms
  proof (induction cs arbitrary: t)
    case (Cons c cs)
    have e: "term_wrap (term_mark t c) = term_mark t c" "t_row (term_mark t c) = t_row t"
      "t_col (term_mark t c) = t_col t + 1"
      using Cons.prems by (auto simp: plain_def term_mark_def term_wrap_def)
    then have ns: "\<not> term_scrolls t c" using Cons.prems by (simp add: term_scrolls_def)
    then have p: "term_put t c = term_mark t c" using e by (simp add: term_put_def)
    show ?case using Cons.IH [of "term_put t c"] Cons.prems ns e p by (simp add: plain_def)
  qed simp
  then show "term_fits t cs" "t_row (foldl term_put t cs) = t_row t"
    "t_col (foldl term_put t cs) = t_col t + length cs" by simp_all
qed

lemma newline_fits:
  assumes "t_row t + 1 < 24" and "t_col t < 80" and "nl = [13, 10] \<or> nl = [10, 13]"
  shows "term_fits t nl" and "t_row (foldl term_put t nl) = t_row t + 1" and "t_col (foldl term_put t nl) = 0"
  using assms by (auto simp: term_eval)

lemma term_fits_append: "term_fits t (xs @ ys) \<longleftrightarrow> term_fits t xs \<and> term_fits (foldl term_put t xs) ys"
  by (induction xs arbitrary: t) auto

lemma hex_chars_plain: "plain (hex_chars v)" "length (hex_chars v) = 8"
proof -
  have "hex_char n \<notin> {9, 10, 13}" if "n \<le> 15" for n
  proof -
    have "unat n \<le> 15" using that by (simp add: word_le_nat_alt)
    then have "unat (hex_char n) \<ge> 48"
      by (auto simp: hex_char_def word_le_nat_alt unat_word_ariths)
    then show ?thesis by auto
  qed
  moreover have "drop_bit 4 (b :: u8) \<le> 15" "b AND 0x0f \<le> 15" for b :: u8
  proof -
    have "unat b < 2 ^ LENGTH(8)" by (rule unsigned_less)
    then have "unat (drop_bit 4 b) \<le> 15" by (simp add: drop_bit_eq_div unat_div_distrib)
    then show "drop_bit 4 b \<le> 15" by (simp add: word_le_nat_alt)
    show "b AND 0x0f \<le> 15" by (simp add: word_and_le1)
  qed
  ultimately show "plain (hex_chars v)" by (auto simp: plain_def hex_chars_def Let_def)
  show "length (hex_chars v) = 8" by (simp add: hex_chars_def Let_def)
qed

end
