(* ===== verification/PrintNum.thy ===== *)
theory PrintNum
  imports ItoaProps
begin

text \<open>
  The conversions of \<open>printk\<close> (\<open>klibc/kstdio.c\<close>): a string, and a number that \<open>itoa\<close> writes into
  a block of the heap which is released again, are copied into the output buffer.
\<close>

section \<open>Strings\<close>

text \<open>A string in a range in use, short enough for the eight bits in which \<open>printk\<close> keeps its length.\<close>

definition holds_string :: "'a kheap_scheme \<Rightarrow> blk list \<Rightarrow> u32 \<Rightarrow> u8 list \<Rightarrow> bool" where
  "holds_string s h q str \<longleftrightarrow> (\<exists>k ws. (q, k) \<in> live h \<and> rdn s q k = Some (str @ 0 # ws)) \<and> 0 \<notin> set str \<and> length str < 256"

lemma idx_addr: "n < 65536 \<Longrightarrow> ucast (word_of_nat n :: u16) = (word_of_nat n :: u32)"
  by (simp add: word_unat_eq_iff unsigned_ucast_eq unat_of_nat take_bit_nat_eq_self)

lemma fills_string:
  assumes f: "fills s h p m zs t" and st: "holds_string s h q str" and qp: "q \<noteq> p"
  shows "strlen t q = Some (word_of_nat (length str + 1))"
    and "\<exists>k xs. (q, k) \<in> live h \<and> rdn t q k = Some (str @ xs) \<and> length str < k"
proof -
  obtain k tl where k: "(q, k) \<in> live h" "rdn s q k = Some (str @ 0 # tl)" and z: "0 \<notin> set str"
    using st by (auto simp: holds_string_def)
  obtain ws where u: "range_upd s h p m (zs @ ws) t" using f by (auto simp: fills_def)
  have r: "rdn t q k = Some (str @ 0 # tl)" using range_updD(7) [OF u k(1) qp] k(2) by simp
  have lk: "length (str @ 0 # tl) = k"
    using live_contents [OF range_updD(1) [OF u] k(1)] r by auto
  have "rdn t (q + word_of_nat 0) (length str + 1) = Some (take (length str + 1) (drop 0 (str @ 0 # tl)))"
    by (rule rdn_part [OF r _ lk]) (use lk in simp)
  then have "rdn t q (length str + 1) = Some (str @ [0])" by simp
  then show "strlen t q = Some (word_of_nat (length str + 1))" by (rule strlen_counts_zero [OF _ z])
  show "\<exists>k xs. (q, k) \<in> live h \<and> rdn t q k = Some (str @ xs) \<and> length str < k" using k(1) r lk by auto
qed

lemma fills_copy:
  assumes f: "fills s h p m zs t" and st: "holds_string s h q str" and qp: "q \<noteq> p" and len: "length zs + length str \<le> m"
  obtains t' where "copy_bytes t (p + word_of_nat (length zs)) q (word_of_nat (length str)) = Some t'"
    and "fills s h p m (zs @ str) t'"
proof -
  obtain k xs where k: "(q, k) \<in> live h" "rdn t q k = Some (str @ xs)" "length str < k"
    using fills_string(2) [OF f st qp] by blast
  obtain ws where u: "range_upd s h p m (zs @ ws) t" using f by (auto simp: fills_def)
  note d = range_updD [OF u]
  have l: "length str < 256" using st by (simp add: holds_string_def)
  have le: "0 + length str \<le> k" using k(3) by simp
  obtain t' where t': "for_loop 0 (length str) (\<lambda>l t. do { b \<leftarrow> rd8 t (q + word_of_nat 0 + word_of_nat l);
      wrn t (p + word_of_nat (length zs) + word_of_nat l) [b] }) t = Some t'" "heap_inv t' h"
    "rdn t' p m = Some (patch (length zs) (take (length str) (drop 0 (str @ xs))) (zs @ ws))"
    "\<forall>(r, l)\<in>live h. r \<noteq> p \<longrightarrow> rdn t' r l = rdn t r l" "alloc_ready t' h = alloc_ready t h" "heap_frame t t'"
    using hc.copy [OF d(1) k(1) le k(2) d(2) len d(3) qp] by blast
  have c: "rdn t' p m = Some ((zs @ str) @ drop (length str) ws)"
    using t'(3) len d(4) by (simp add: patch_prefix)
  have "length ((zs @ str) @ drop (length str) ws) = m" using len d(4) by simp
  moreover have "rdn t' r w = rdn s r w" if "(r, w) \<in> live h" "r \<noteq> p" for r w
    using bspec [OF t'(4) that(1)] d(7) [OF that] that(2) by simp
  then have "\<forall>(r, w)\<in>live h. r \<noteq> p \<longrightarrow> rdn t' r w = rdn s r w" by auto
  ultimately have "range_upd s h p m ((zs @ str) @ drop (length str) ws) t'"
    using t'(2,5) d(2,5) c heap_frame_trans [OF d(6) t'(6)] by (simp add: range_upd_def)
  then have "fills s h p m (zs @ str) t'" unfolding fills_def by blast
  moreover have "copy_bytes t (p + word_of_nat (length zs)) q (word_of_nat (length str)) = Some t'"
    using t'(1) l by (simp add: copy_bytes_def wr8_def unat_of_nat)
  ultimately show ?thesis using that by blast
qed

lemma str_run:
  assumes f: "fills s h p m zs t" and st: "holds_string s h q str" and qp: "q \<noteq> p" and len: "length zs + length str \<le> m"
    and m: "length zs < 65536"
  obtains t' where "printk_str t p (word_of_nat (length zs)) q = Some (word_of_nat (length (zs @ str)), t')"
    and "fills s h p m (zs @ str) t'"
proof -
  have l: "length str < 256" using st by (simp add: holds_string_def)
  obtain t' where t': "copy_bytes t (p + word_of_nat (length zs)) q (word_of_nat (length str)) = Some t'" "fills s h p m (zs @ str) t'"
    by (rule fills_copy [OF f st qp len])
  have "(word_of_nat (length str + 1) - 1 :: u32) = word_of_nat (length str)" by simp
  moreover have "ucast (word_of_nat (length str) :: u32) = (word_of_nat (length str) :: u8)"
    "ucast (word_of_nat (length str) :: u8) = (word_of_nat (length str) :: u32)"
    "ucast (word_of_nat (length str) :: u8) = (word_of_nat (length str) :: u16)"
    using l by (simp_all add: word_unat_eq_iff unsigned_ucast_eq unat_of_nat take_bit_nat_eq_self)
  ultimately have "printk_str t p (word_of_nat (length zs)) q = Some (word_of_nat (length (zs @ str)), t')"
    using fills_string(1) [OF f st qp] t'(1) idx_addr [OF m]
    by (simp add: printk_str_def memcpy_def Let_def)
  then show ?thesis using that t'(2) by blast
qed

section \<open>The digits of a number\<close>

definition number_text :: "u32 \<Rightarrow> u32 \<Rightarrow> u8 list" where
  "number_text base v = (if v = 0 then [48] else digits (unat base) (unat v))"

lemma digit_char_nonzero: "d < 16 \<Longrightarrow> digit_char (word_of_nat d) \<noteq> 0"
proof -
  have "list_all (\<lambda>d. digit_char (word_of_nat d) \<noteq> 0) [0..<16]" by code_simp
  then show "d < 16 \<Longrightarrow> digit_char (word_of_nat d) \<noteq> 0" by (simp add: list_all_iff)
qed

lemma digits_nonzero: "b \<le> 16 \<Longrightarrow> 0 \<notin> set (digits b n)"
proof (induction b n rule: digits.induct)
  case (1 b n)
  show ?case
  proof (cases "n = 0 \<or> b < 2")
    case False
    then have "n mod b < b" by simp
    then have "n mod b < 16" using 1(2) by linarith
    then have "digit_char (word_of_nat (n mod b)) \<noteq> 0" by (rule digit_char_nonzero)
    then show ?thesis using 1 False by (subst digits.simps) (auto dest: sym)
  qed (simp add: digits.simps)
qed

lemma digits_length: "n < b ^ k \<Longrightarrow> length (digits b n) \<le> k"
proof (induction k arbitrary: n)
  case (Suc k)
  show ?case
  proof (cases "n = 0 \<or> b < 2")
    case False
    then have "n div b < b ^ k" using Suc.prems by (simp add: div_less_iff_less_mult mult.commute)
    then show ?thesis using Suc.IH False by (subst digits.simps) simp
  qed (simp add: digits.simps)
qed simp

lemma number_text_string:
  assumes "base = 10 \<or> base = 16"
  shows "0 \<notin> set (number_text base v)" and "length (number_text base v) \<le> 10" and "length (digits (unat base) (unat v)) < 32"
proof -
  have "unat v < unat base ^ 10" using assms u32_less [of v] by auto
  then have l: "length (digits (unat base) (unat v)) \<le> 10" by (rule digits_length)
  then show "length (digits (unat base) (unat v)) < 32" by simp
  show "length (number_text base v) \<le> 10" using l by (simp add: number_text_def)
  have "unat base \<le> 16" using assms by auto
  then show "0 \<notin> set (number_text base v)" using digits_nonzero by (simp add: number_text_def)
qed

section \<open>What a number does to the heap\<close>

text \<open>
  The blocks after a number was printed: the first free block large enough is taken (16 bytes for
  zero, 32 for the buffer of \<open>itoa\<close>), the block behind a buffer of exactly 32 bytes is marked as
  used, and the buffer is released.
\<close>

definition number_len :: "u32 \<Rightarrow> u32" where
  "number_len v = (if v = 0 then 16 else 32)"

fun number_done :: "u32 \<Rightarrow> blk list \<Rightarrow> blk list \<Rightarrow> blk list option" where
  "number_done v pre [] = None"
| "number_done v pre ((a, z, f) # post) =
     (if v = 0 \<or> z \<noteq> 32 then Some (release_abs pre a z post)
      else if post \<noteq> [] \<and> fst (hd post) = a + 52 then Some (release_abs pre a z (first_used post))
      else None)"

fun number_heap :: "u32 \<Rightarrow> blk list \<Rightarrow> blk list \<Rightarrow> blk list option" where
  "number_heap v pre [] = None"
| "number_heap v pre ((a, z, f) # bs) =
     (if f \<and> number_len v \<le> z then number_done v pre (carve a z (number_len v) @ bs)
      else number_heap v (pre @ [(a, z, f)]) bs)"

fun numbers_heap :: "u32 list \<Rightarrow> blk list \<Rightarrow> blk list option" where
  "numbers_heap [] h = Some h"
| "numbers_heap (v # vs) h = Option.bind (number_heap v [] h) (numbers_heap vs)"

definition number_post :: "u32 \<Rightarrow> u32 \<Rightarrow> blk list \<Rightarrow> blk list" where
  "number_post v z post = (if v \<noteq> 0 \<and> z = 32 then first_used post else post)"

lemma number_heap_fit:
  "number_heap v pre h = Some h' \<Longrightarrow>
    \<exists>pre2 a z post. fit (number_len v) h = Some (a, pre2 @ (a, z, False) # post) \<and> number_len v \<le> z \<and>
      (v \<noteq> 0 \<longrightarrow> behind a z post) \<and> h' = release_abs (pre @ pre2) a z (number_post v z post)"
proof (induction v pre h rule: number_heap.induct)
  case (2 v pre a z f bs)
  show ?case
  proof (cases "f \<and> number_len v \<le> z")
    case True
    obtain y post where c: "carve a z (number_len v) @ bs = (a, y, False) # post" "number_len v \<le> y"
      using that [of z bs] that [of "number_len v"] True by (cases "276 + unat (number_len v) < unat z") (simp_all add: carve_def)
    have "number_done v pre ((a, y, False) # post) = Some h'" using 2(2) True c(1) by simp
    then have "h' = release_abs pre a y (number_post v y post) \<and> (v \<noteq> 0 \<longrightarrow> behind a y post)"
      using c(2) by (cases post) (auto simp: behind_def number_post_def number_len_def word_le_nat_alt split: if_splits)
    then show ?thesis using True c by (intro exI [of _ "[]"] exI [of _ a] exI [of _ y] exI [of _ post]) auto
  next
    case False
    then have "number_heap v (pre @ [(a, z, f)]) bs = Some h'" using 2(2) by auto
    from 2(1) [OF False this] obtain pre2 b y post where
      "fit (number_len v) bs = Some (b, pre2 @ (b, y, False) # post)" "number_len v \<le> y"
      "v \<noteq> 0 \<longrightarrow> behind b y post" "h' = release_abs ((pre @ [(a, z, f)]) @ pre2) b y (number_post v y post)" by blast
    then show ?thesis using False
      by (intro exI [of _ "(a, z, f) # pre2"] exI [of _ b] exI [of _ y] exI [of _ post]) auto
  qed
qed simp

section \<open>A number into the buffer\<close>

lemma zero_run:
  fixes s :: "'a kheap_scheme"
  assumes inv: "heap_inv s h" and rd: "alloc_ready s h 2" and al: "alloc_abs s h 2 = (a, pre @ (a, z, False) # post)"
    and z: "2 \<le> unat z"
  shows "\<exists>s' ys. itoa s 0 base = Some (a + 20, s') \<and> heap_inv s' (pre @ (a, z, False) # post) \<and>
    rdn s' (a + 20) (unat z) = Some ([48] @ 0 # ys) \<and> (\<forall>(q, k)\<in>live h. rdn s' q k = rdn s q k) \<and> heap_frame s s'"
proof -
  let ?h1 = "pre @ (a, z, False) # post" and ?p = "a + 20"
  obtain p m s1 xs where 1: "kmalloc s 2 = Some (p, s1)" "live (snd (alloc_abs s h 2)) = insert (p, m) (live h)"
    "p \<notin> fst ` live h" "range_upd s1 (snd (alloc_abs s h 2)) p m xs s1"
    and c1: "\<forall>q k. (q, k) \<in> live h \<longrightarrow> rdn s1 q k = rdn s q k" "heap_frame s s1"
    by (rule new_range [OF inv rd])
  obtain s0 where "kmalloc s 2 = Some (?p, s0)" using kmalloc_refine [OF inv rd] by (auto simp: al)
  then have p: "p = ?p" using 1(1) by simp
  have inv1: "heap_inv s1 ?h1" and pm: "(?p, unat z) \<in> live ?h1" using range_updD(1) [OF 1(4)] by (simp_all add: al)
  obtain us where us: "rdn s1 ?p (unat z) = Some us" by (rule live_contents [OF inv1 pm])
  have f0: "fills s1 ?h1 ?p (unat z) [] s1" by (rule fills_start [OF range_updI [OF inv1 pm us]])
  obtain s2 where 2: "wr8 s1 ?p 48 = Some s2" "fills s1 ?h1 ?p (unat z) ([] @ [48]) s2"
    by (rule fills_wr8 [OF f0, where a = ?p and v = 48]) (use z in simp_all)
  obtain s3 where 3: "wr8 s2 (?p + 1) 0 = Some s3" "fills s1 ?h1 ?p (unat z) (([] @ [48]) @ [0]) s3"
    by (rule fills_wr8 [OF 2(2), where a = "?p + 1" and v = 0]) (use z in simp_all)
  obtain ys where u: "range_upd s1 ?h1 ?p (unat z) ([48] @ 0 # ys) s3" using 3(2) by (auto simp: fills_def)
  have "rdn s3 q k = rdn s q k" if qk: "(q, k) \<in> live h" for q k
  proof -
    have "(q, k) \<in> live ?h1" "q \<noteq> ?p" using qk 1(2,3) by (force simp: al p image_iff)+
    then show ?thesis using range_updD(7) [OF u] c1(1) qk by simp
  qed
  then have "\<forall>(q, k)\<in>live h. rdn s3 q k = rdn s q k" by auto
  moreover have "itoa s 0 base = Some (?p, s3)" using 1(1) 2(1) 3(1) by (simp add: itoa_def p)
  ultimately show ?thesis using range_updD(1,3) [OF u] heap_frame_trans [OF c1(2) range_updD(6) [OF u]] by blast
qed

lemma number_string:
  fixes s :: "'a kheap_scheme"
  assumes inv: "heap_inv s h" and b: "base = 10 \<or> base = 16"
    and f: "fit (number_len v) h = Some (a, pre @ (a, z, False) # post)" and z: "number_len v \<le> z"
    and bh: "v \<noteq> 0 \<longrightarrow> behind a z post"
  shows "\<exists>s' ys. itoa s (ucast v) base = Some (a + 20, s') \<and> heap_inv s' (pre @ (a, z, False) # number_post v z post) \<and>
    rdn s' (a + 20) (unat z) = Some (number_text base v @ 0 # ys) \<and>
    (\<forall>(q, k)\<in>live h. rdn s' q k = rdn s q k) \<and> heap_frame s s'"
proof (cases "v = 0")
  case True
  have r: "round16 2 = 16" by (simp add: round16_def)
  have "alloc_ready s h 2" and "alloc_abs s h 2 = (a, pre @ (a, z, False) # post)"
    using f True by (simp_all add: alloc_ready_def alloc_abs_def r number_len_def)
  moreover have "2 \<le> unat z" using z True by (simp add: number_len_def word_le_nat_alt)
  ultimately show ?thesis using zero_run [OF inv] True by (simp add: number_text_def number_post_def)
next
  case False
  have r: "round16 32 = 32" by (simp add: round16_def)
  have rd: "alloc_ready s h 32" and al: "alloc_abs s h 32 = (a, pre @ (a, z, False) # post)"
    using f False by (simp_all add: alloc_ready_def alloc_abs_def r number_len_def)
  have u: "unat (ucast v :: u64) = unat v" using u32_less [of v] by (simp add: unsigned_ucast_eq take_bit_nat_eq_self)
  have v: "(ucast v :: u64) \<noteq> 0" using False u by (auto simp: word_unat_eq_iff)
  have v2: "unat (ucast v :: u64) < 4294967296" "2 \<le> unat base" using u u32_less [of v] b by auto
  have l: "length (digits (unat base) (unat (ucast v :: u64))) < 32" unfolding u by (rule number_text_string(3) [OF b])
  show ?thesis
    using itoa_run [OF inv rd al bh [rule_format, OF False] v v2 l] False by (simp add: u number_text_def number_post_def)
qed

lemma number_live:
  assumes f: "fit (number_len v) h = Some (a, pre @ (a, z, False) # post)" and inv: "heap_inv s h"
  shows "live h \<subseteq> live pre \<union> live (number_post v z post)" and "a + 20 \<notin> fst ` live h"
proof -
  obtain pre0 z0 post0 where h: "h = pre0 @ (a, z0, True) # post0"
    "pre @ (a, z, False) # post = pre0 @ carve a z0 (number_len v) @ post0"
    using fit_SomeD [OF f] by blast
  have l: "laid (unat (heap_start s)) h (heap_end s)" using inv by (simp add: heap_inv_def)
  have na: "a \<notin> fst ` set pre0" "a \<notin> fst ` set post0" using laid_distinct [OF l] by (auto simp: h(1))
  have np: "a + 20 \<notin> fst ` live h" using na by (force simp: h(1) live_def image_iff)
  then show "a + 20 \<notin> fst ` live h" .
  have "live h \<subseteq> live (pre @ (a, z, False) # post)" unfolding h(2) by (auto simp: h(1) live_carve)
  moreover have "(a + 20, unat z) \<notin> live h" using np by (force simp: image_iff)
  ultimately have "live h \<subseteq> live pre \<union> live post" by auto
  then show "live h \<subseteq> live pre \<union> live (number_post v z post)"
    using live_first_used [of post] by (auto simp: number_post_def)
qed

text \<open>A step of the output: the heap may lose free blocks, other ranges keep their contents.\<close>

definition grows :: "'a kheap_scheme \<Rightarrow> blk list \<Rightarrow> u32 \<Rightarrow> 'a kheap_scheme \<Rightarrow> blk list \<Rightarrow> bool" where
  "grows t h p t' h' \<longleftrightarrow> live h \<subseteq> live h' \<and> (\<forall>q k. (q, k) \<in> live h \<longrightarrow> q \<noteq> p \<longrightarrow> rdn t' q k = rdn t q k) \<and> heap_frame t t'"

lemma grows_trans: "grows t h p t1 h1 \<Longrightarrow> grows t1 h1 p t2 h2 \<Longrightarrow> grows t h p t2 h2"
  unfolding grows_def using heap_frame_trans by (metis subsetD subset_trans)

lemma fills_grows: "fills t h p m zs t' \<Longrightarrow> fills t' h p m zs t' \<and> grows t h p t' h"
  using range_updI range_updD unfolding fills_def grows_def by (meson subset_refl)

lemma grows_string: "grows t h p t' h' \<Longrightarrow> holds_string t h q str \<Longrightarrow> q \<noteq> p \<Longrightarrow> holds_string t' h' q str"
  unfolding grows_def holds_string_def by (metis subsetD)

lemma number_run:
  fixes t :: "'a kheap_scheme"
  assumes f: "fills t h p m zs t" and b: "base = 10 \<or> base = 16" and nh: "number_heap v [] h = Some h'"
    and len: "length zs + length (number_text base v) \<le> m" and m: "length zs < 65536"
  shows "\<exists>t'. printk_int t p (word_of_nat (length zs)) (ucast v) base =
      Some (word_of_nat (length (zs @ number_text base v)), t') \<and>
    fills t' h' p m (zs @ number_text base v) t' \<and> grows t h p t' h'"
proof -
  let ?str = "number_text base v"
  obtain ws where "range_upd t h p m (zs @ ws) t" using f by (auto simp: fills_def)
  note d = range_updD [OF this]
  obtain pre a z post where n: "fit (number_len v) h = Some (a, pre @ (a, z, False) # post)" "number_len v \<le> z"
    "v \<noteq> 0 \<longrightarrow> behind a z post" "h' = release_abs pre a z (number_post v z post)"
    using number_heap_fit [OF nh] by auto
  let ?h1 = "pre @ (a, z, False) # number_post v z post" and ?q = "a + 20"
  obtain s1 ys where 1: "itoa t (ucast v) base = Some (?q, s1)" "heap_inv s1 ?h1" "rdn s1 ?q (unat z) = Some (?str @ 0 # ys)"
    and c1: "\<forall>(q, k)\<in>live h. rdn s1 q k = rdn t q k" "heap_frame t s1"
    using number_string [OF d(1) b n(1-3)] by blast
  have lv: "live h \<subseteq> live h'" "live h' \<subseteq> live ?h1" "?q \<notin> fst ` live h"
    using number_live [OF n(1)] d(1) unfolding n(4) by (auto simp: live_release)
  have qp: "?q \<noteq> p" using lv(3) d(2) by (force simp: image_iff)
  have pm: "(p, m) \<in> live ?h1" using d(2) lv by blast
  have "rdn s1 p m = Some (zs @ ws)" using bspec [OF c1(1) d(2)] d(3) by simp
  then have f1: "fills s1 ?h1 p m zs s1" using range_updI [OF 1(2) pm] by (auto simp: fills_def)
  note nt = number_text_string [OF b, of v]
  have "(?q, unat z) \<in> live ?h1" by simp
  then have st: "holds_string s1 ?h1 ?q ?str" using 1(3) nt(1,2) by (auto simp: holds_string_def)
  obtain t2 where 2: "copy_bytes s1 (p + word_of_nat (length zs)) ?q (word_of_nat (length ?str)) = Some t2"
    "fills s1 ?h1 p m (zs @ ?str) t2"
    by (rule fills_copy [OF f1 st qp len])
  obtain us where u: "range_upd s1 ?h1 p m ((zs @ ?str) @ us) t2" using 2(2) by (auto simp: fills_def)
  obtain t3 where 3: "kfree t2 ?q = Some (STATUS_OK, t3)" "heap_inv t3 h'"
    and c3: "\<forall>(q, k)\<in>live ?h1. rdn t3 q k = rdn t2 q k" "heap_frame t2 t3"
    using kfree_release [OF range_updD(1) [OF u]] unfolding n(4) by blast
  have "rdn t3 p m = Some ((zs @ ?str) @ us)" using bspec [OF c3(1) pm] range_updD(3) [OF u] by simp
  then have "fills t3 h' p m (zs @ ?str) t3" using range_updI [OF 3(2)] d(2) lv(1) unfolding fills_def by blast
  moreover have "grows t h p t3 h'"
  proof -
    have "rdn t3 q k = rdn t q k" if qk: "(q, k) \<in> live h" "q \<noteq> p" for q k
    proof -
      have "(q, k) \<in> live ?h1" using qk lv by blast
      then show ?thesis using bspec [OF c3(1), of "(q, k)"] range_updD(7) [OF u _ qk(2)] bspec [OF c1(1) qk(1)] by simp
    qed
    then show ?thesis
      using lv(1) heap_frame_trans [OF c1(2) heap_frame_trans [OF range_updD(6) [OF u] c3(2)]] by (simp add: grows_def)
  qed
  moreover have "ucast (word_of_nat (length ?str) :: u32) = (word_of_nat (length ?str) :: u8)"
    "ucast (word_of_nat (length ?str) :: u8) = (word_of_nat (length ?str) :: u32)"
    "ucast (word_of_nat (length ?str) :: u8) = (word_of_nat (length ?str) :: u16)"
    using nt(2) by (simp_all add: word_unat_eq_iff unsigned_ucast_eq unat_of_nat take_bit_nat_eq_self)
  moreover have "(word_of_nat (length ?str + 1) - 1 :: u32) = word_of_nat (length ?str)" by simp
  ultimately show ?thesis
    using 1(1) fills_string(1) [OF f1 st qp] 2(1) 3(1) idx_addr [OF m] by (simp add: printk_int_def memcpy_def Let_def)
qed

end
