(* ===== verification/PrintProps.thy ===== *)
theory PrintProps
  imports ScreenProps Early PrintNum
begin

text \<open>
  Formatted output (\<open>printk\<close> of \<open>klibc/kstdio.c\<close>): the heap, the string functions and the screen together.
\<close>

section \<open>What a format denotes\<close>

text \<open>An argument is a string at an address or a number; \<open>%s\<close> takes the one, \<open>%d\<close> and \<open>%x\<close> the other.\<close>

datatype print_arg = PStr u32 "u8 list" | PNum u32

primrec arg_word :: "print_arg \<Rightarrow> u32" where
  "arg_word (PStr q str) = q"
| "arg_word (PNum v) = v"

primrec arg_numbers :: "print_arg \<Rightarrow> u32 list" where
  "arg_numbers (PStr q str) = []"
| "arg_numbers (PNum v) = [v]"

fun conversion :: "u8 \<Rightarrow> print_arg \<Rightarrow> u8 list option" where
  "conversion d (PStr q str) = (if d = 115 then Some str else None)"
| "conversion d (PNum v) = (if d = 100 then Some (number_text 10 v) else if d = 120 then Some (number_text 16 v) else None)"

text \<open>The text of a format whose conversions match the arguments; a line feed gets its carriage return.\<close>

fun rendered :: "u8 list \<Rightarrow> print_arg list \<Rightarrow> u8 list option" where
  "rendered [] args = (if args = [] then Some [] else None)"
| "rendered (c # fmt) args =
     (if c = 37 then
        (case (fmt, args) of
           (d # fmt', x # args') \<Rightarrow>
             (case conversion d x of None \<Rightarrow> None | Some str \<Rightarrow> map_option ((@) str) (rendered fmt' args'))
         | _ \<Rightarrow> None)
      else map_option ((@) (if c = 10 then [10, 13] else [c])) (rendered fmt args))"

text \<open>The strings are there: in ranges in use.\<close>

fun arg_ok :: "'a kheap_scheme \<Rightarrow> blk list \<Rightarrow> print_arg \<Rightarrow> bool" where
  "arg_ok s h (PStr q str) = holds_string s h q str"
| "arg_ok s h (PNum v) = True"

fun arg_apart :: "u32 \<Rightarrow> print_arg \<Rightarrow> bool" where
  "arg_apart p (PStr q str) = (q \<noteq> p)"
| "arg_apart p (PNum v) = True"

lemma conversion_no_zero: "conversion d x = Some str \<Longrightarrow> arg_ok s h x \<Longrightarrow> 0 \<notin> set str"
  using number_text_string(1) by (cases x) (auto simp: holds_string_def split: if_splits)

lemma rendered_no_zero:
  "rendered fmt args = Some out \<Longrightarrow> 0 \<notin> set fmt \<Longrightarrow> list_all (arg_ok s h) args \<Longrightarrow> 0 \<notin> set out"
  by (induction fmt args arbitrary: out rule: rendered.induct)
     (auto split: if_splits list.splits option.splits dest: conversion_no_zero)

section \<open>Into the buffer\<close>

lemma char_run:
  assumes f: "fills s h p m zs t" and len: "length zs + length (if c = 10 then [10, 13] else [c]) \<le> m" and m: "length zs + 1 < 65536"
  obtains t' where
    "printk_char t p (word_of_nat (length zs)) c = Some (word_of_nat (length (zs @ (if c = 10 then [10, 13] else [c]))), t')"
    and "fills s h p m (zs @ (if c = 10 then [10, 13] else [c])) t'"
proof (cases "c = 10")
  case True
  obtain t1 where 1: "wr8 t (p + word_of_nat (length zs)) 10 = Some t1" "fills s h p m (zs @ [10]) t1"
    by (rule fills_wr8 [OF f _ refl]) (use len True in simp_all)
  obtain t2 where 2: "wr8 t1 (p + word_of_nat (length (zs @ [10]))) 13 = Some t2" "fills s h p m ((zs @ [10]) @ [13]) t2"
    by (rule fills_wr8 [OF 1(2) _ refl]) (use len True in simp_all)
  have i: "ucast (word_of_nat (length zs) :: u16) = (word_of_nat (length zs) :: u32)"
    "ucast (word_of_nat (length (zs @ [10])) :: u16) = (word_of_nat (length (zs @ [10])) :: u32)"
    by (rule idx_addr, use len True m in simp)+
  have "(word_of_nat (length zs) + 1 :: u16) = word_of_nat (length (zs @ [10 :: u8]))" by (simp add: add.commute)
  then have "printk_char t p (word_of_nat (length zs)) c = Some (word_of_nat (length zs) + 2, t2)"
    using 1(1) 2(1) i by (simp add: printk_char_def True del: length_append)
  then show ?thesis using that 2(2) True by (simp add: add.commute)
next
  case False
  obtain t1 where 1: "wr8 t (p + word_of_nat (length zs)) c = Some t1" "fills s h p m (zs @ [c]) t1"
    by (rule fills_wr8 [OF f _ refl]) (use len False in simp_all)
  then show ?thesis using that idx_addr [of "length zs"] len False m by (simp add: printk_char_def add.commute)
qed

text \<open>One conversion.\<close>

lemma arg_grows: "grows t h p t' h' \<Longrightarrow> arg_ok t h x \<and> arg_apart p x \<Longrightarrow> arg_ok t' h' x \<and> arg_apart p x"
  using grows_string by (cases x) auto

lemma conversion_run:
  fixes t :: "'a kheap_scheme"
  assumes f: "fills t h p m zs t" and c: "conversion d x = Some str" and x: "arg_ok t h x" "arg_apart p x"
    and nh: "numbers_heap (arg_numbers x @ vs) h = Some h'" and len: "length zs + length str \<le> m" "length zs < 65536"
  shows "\<exists>t1 h1. printk_loop t p (word_of_nat (length zs)) (37 # d # fmt @ [0]) (arg_word x # args) =
      printk_loop t1 p (word_of_nat (length (zs @ str))) (fmt @ [0]) args \<and>
    fills t1 h1 p m (zs @ str) t1 \<and> grows t h p t1 h1 \<and> numbers_heap vs h1 = Some h'"
proof (cases x)
  case (PStr q str')
  then have e: "d = 115" "str' = str" using c by (auto split: if_splits)
  have q: "holds_string t h q str" "q \<noteq> p" using x e PStr by simp_all
  obtain t1 where t1: "printk_str t p (word_of_nat (length zs)) q = Some (word_of_nat (length (zs @ str)), t1)"
    "fills t h p m (zs @ str) t1"
    by (rule str_run [OF f q len])
  then show ?thesis using fills_grows [OF t1(2)] nh
    by (intro exI [of _ t1] exI [of _ h]) (simp add: PStr e del: length_append)
next
  case (PNum v)
  let ?b = "if d = 100 then 10 else 16 :: u32"
  have d: "d = 100 \<or> d = 120" and e: "str = number_text ?b v" using c PNum by (auto split: if_splits)
  obtain h1 where h1: "number_heap v [] h = Some h1" "numbers_heap vs h1 = Some h'"
    using nh PNum by (auto split: bind_splits)
  have b: "?b = 10 \<or> ?b = 16" by simp
  obtain t1 where t1: "printk_int t p (word_of_nat (length zs)) (ucast v) ?b = Some (word_of_nat (length (zs @ str)), t1)"
    "fills t1 h1 p m (zs @ str) t1" "grows t h p t1 h1"
    using number_run [OF f b h1(1) _ len(2)] len(1) unfolding e by blast
  then show ?thesis using d h1(2) by (intro exI [of _ t1] exI [of _ h1]) (simp add: PNum del: length_append)
qed

lemma loop_run:
  fixes t :: "'a kheap_scheme"
  assumes "rendered fmt args = Some out" and "fills t h p m zs t" and "length zs + length out + 1 \<le> m"
    and "length zs + length out + 1 < 65536" and "list_all (\<lambda>x. arg_ok t h x \<and> arg_apart p x) args"
    and "numbers_heap (concat (map arg_numbers args)) h = Some h'"
  shows "\<exists>t'. printk_loop t p (word_of_nat (length zs)) (fmt @ [0]) (map arg_word args) =
      Some (word_of_nat (length (zs @ out @ [0])), t') \<and>
    fills t' h' p m (zs @ out @ [0]) t' \<and> grows t h p t' h'"
  using assms
proof (induction fmt args arbitrary: out zs t h rule: rendered.induct)
  case (1 args)
  then have e: "out = []" "args = []" "h' = h" by (auto split: if_splits)
  obtain t1 where "printk_char t p (word_of_nat (length zs)) 0 = Some (word_of_nat (length (zs @ [0])), t1)"
    "fills t h p m (zs @ [0]) t1"
    using char_run [OF "1.prems"(2), of 0] "1.prems"(3,4) by auto
  then show ?case using fills_grows by (fastforce simp: e)
next
  case (2 c fmt args)
  show ?case
  proof (cases "c = 37")
    case True
    then obtain d fmt' x args' str o' where p: "fmt = d # fmt'" "args = x # args'" "conversion d x = Some str"
      "rendered fmt' args' = Some o'" "out = str @ o'"
      using "2.prems"(1) by (auto split: list.splits if_splits option.splits)
    have x: "arg_ok t h x" "arg_apart p x" "list_all (\<lambda>x. arg_ok t h x \<and> arg_apart p x) args'"
      and nh: "numbers_heap (arg_numbers x @ concat (map arg_numbers args')) h = Some h'"
      using "2.prems"(5,6) by (simp_all add: p(2))
    have le: "length zs + length str \<le> m" "length zs < 65536" using "2.prems"(3,4) by (simp_all add: p(5))
    obtain t1 h1 where 1: "printk_loop t p (word_of_nat (length zs)) (37 # d # fmt' @ [0]) (arg_word x # map arg_word args') =
        printk_loop t1 p (word_of_nat (length (zs @ str))) (fmt' @ [0]) (map arg_word args')"
      "fills t1 h1 p m (zs @ str) t1" "grows t h p t1 h1" "numbers_heap (concat (map arg_numbers args')) h1 = Some h'"
      using conversion_run [OF "2.prems"(2) p(3) x(1,2) nh le, of fmt' "map arg_word args'"] by blast
    have ok: "list_all (\<lambda>x. arg_ok t1 h1 x \<and> arg_apart p x) args'"
      using x(3) arg_grows [OF 1(3)] by (simp add: list_all_iff)
    obtain t2 where 2: "printk_loop t1 p (word_of_nat (length (zs @ str))) (fmt' @ [0]) (map arg_word args') =
        Some (word_of_nat (length ((zs @ str) @ o' @ [0])), t2)" "fills t2 h' p m ((zs @ str) @ o' @ [0]) t2" "grows t1 h1 p t2 h'"
      using "2.IH"(1) [OF True refl p(1,2,3,4) 1(2) _ _ ok 1(4)] "2.prems"(3,4) p(5) by auto
    then show ?thesis using 1(1) grows_trans [OF 1(3) 2(3)] by (simp add: p True)
  next
    case False
    let ?e = "if c = 10 then [10, 13] else [c]"
    obtain o' where p: "rendered fmt args = Some o'" "out = ?e @ o'" using "2.prems"(1) False by auto
    have le: "length zs + length ?e \<le> m" "length (zs @ ?e) + length o' + 1 \<le> m"
      "length (zs @ ?e) + length o' + 1 < 65536" "length zs + 1 < 65536"
      using "2.prems"(3,4) unfolding p(2) length_append by linarith+
    obtain t1 where 1: "printk_char t p (word_of_nat (length zs)) c = Some (word_of_nat (length (zs @ ?e)), t1)"
      "fills t h p m (zs @ ?e) t1"
      by (rule char_run [OF "2.prems"(2) le(1,4)])
    have f1: "fills t1 h p m (zs @ ?e) t1" and g1: "grows t h p t1 h" using fills_grows [OF 1(2)] by simp_all
    have ok: "list_all (\<lambda>x. arg_ok t1 h x \<and> arg_apart p x) args"
      using "2.prems"(5) arg_grows [OF g1] by (simp add: list_all_iff)
    obtain t2 where 2: "printk_loop t1 p (word_of_nat (length (zs @ ?e))) (fmt @ [0]) (map arg_word args) =
        Some (word_of_nat (length ((zs @ ?e) @ o' @ [0])), t2)" "fills t2 h' p m ((zs @ ?e) @ o' @ [0]) t2" "grows t1 h p t2 h'"
      using "2.IH"(2) [OF False p(1) f1 le(2,3) ok "2.prems"(6)] by blast
    have "printk_loop t p (word_of_nat (length zs)) ((c # fmt) @ [0]) (map arg_word args) =
        printk_loop t1 p (word_of_nat (length (zs @ ?e))) (fmt @ [0]) (map arg_word args)"
      using 1(1) False by (cases fmt) (simp_all del: length_append split del: if_split)
    then show ?thesis using 2 grows_trans [OF g1 2(3)] unfolding p(2) by (intro exI [of _ t2]) simp
  qed
qed

section \<open>Onto the screen\<close>

lemma frame_globals:
  assumes "heap_frame s s'"
  shows "io_dev s' = io_dev s" "io_trace s' = io_trace s" "vga_cursor_r s' = vga_cursor_r s" "vga_cursor_c s' = vga_cursor_c s"
    "kheap.more s' = kheap.more s"
  using assms by (auto simp: heap_frame_def heap_only_def)

lemma shows_frame:
  assumes "screen_shows s h t" and "heap_frame s s'" and "heap_inv s' h'"
  shows "screen_shows s' h' t"
proof -
  have on: "on_screen s h (t_cells t)" using assms(1) by (simp add: screen_shows_def)
  have "rdn s' VGA_BASE 4000 = rdn s VGA_BASE 4000"
    by (rule frame_rdn [OF assms(2)]) (use on in \<open>simp add: on_screen_def screen_mem_def\<close>)
  then have "on_screen s' h' (t_cells t)"
    using on assms(3) frame_screen [OF assms(2)] by (simp add: on_screen_def)
  then show ?thesis using assms(1) frame_globals [OF assms(2)] by (simp add: screen_shows_def always_ready_def)
qed

lemma ptr_run:
  fixes s :: "'a kheap_scheme"
  assumes "screen_shows s h t" and "term_fits t cs" and "(p, m) \<in> live h" and "rdn s p m = Some (pre @ cs @ 0 # ws)"
    and "length (pre @ cs @ 0 # ws) = m" and "0 \<notin> set cs"
  shows "\<exists>s'. vga_print_ptr s (p + word_of_nat (length pre)) = Some s' \<and> screen_shows s' h (foldl term_put t cs) \<and>
    kept h s s' \<and> sent (io_trace s') = sent (io_trace s) @ cs"
  using assms
proof (induction cs arbitrary: s t pre)
  case Nil
  have "rd8 s (p + word_of_nat (length pre)) = Some 0"
    using rdn_nth [OF Nil.prems(4), of "length pre"] Nil.prems(5) by simp
  then show ?case using Nil.prems(1) by (subst vga_print_ptr.simps) (simp add: kept_def)
next
  case (Cons c cs)
  have ns: "\<not> term_scrolls t c" and fit: "term_fits (term_put t c) cs" using Cons.prems(2) by simp_all
  obtain s1 where 1: "vga_putchar (s, c) = Some s1" "screen_shows s1 h (term_put t c)" "kept h s s1"
    "sent (io_trace s1) = sent (io_trace s) @ [c]"
    using putchar_run [OF Cons.prems(1), of c] ns by blast
  have r1: "rdn s1 p m = Some ((pre @ [c]) @ cs @ 0 # ws)" using 1(3) Cons.prems(3,4) by (simp add: kept_def)
  have "\<exists>s'. vga_print_ptr s1 (p + word_of_nat (length (pre @ [c]))) = Some s' \<and>
      screen_shows s' h (foldl term_put (term_put t c) cs) \<and> kept h s1 s' \<and> sent (io_trace s') = sent (io_trace s1) @ cs"
    by (rule Cons.IH [OF 1(2) fit Cons.prems(3) r1]) (use Cons.prems(5,6) in simp_all)
  then obtain s2 where 2: "vga_print_ptr s1 (p + word_of_nat (length (pre @ [c]))) = Some s2"
    "screen_shows s2 h (foldl term_put (term_put t c) cs)" "kept h s1 s2" "sent (io_trace s2) = sent (io_trace s1) @ cs"
    by blast
  have "rd8 s (p + word_of_nat (length pre)) = Some c"
    using rdn_nth [OF Cons.prems(4), of "length pre"] Cons.prems(5) by simp
  then have "vga_print_ptr s (p + word_of_nat (length pre)) = Some s2"
    using 1(1) 2(1) Cons.prems(6) by (subst vga_print_ptr.simps) (simp add: add.commute add.left_commute)
  moreover have "kept h s s2" using 1(3) 2(3) by (simp add: kept_def)
  ultimately show ?case using 2(2,4) 1(4) by simp
qed

text \<open>The first half of \<open>printk\<close>: the buffer holds the text and its terminating zero.\<close>

lemma buffer_run:
  fixes s :: "'a kheap_scheme"
  assumes "heap_inv s h" and "alloc_ready s h 200" and "rendered fmt args = Some out" and "length out \<le> 198"
    and "list_all (arg_ok s h) args" and "numbers_heap (concat (map arg_numbers args)) (snd (alloc_abs s h 200)) = Some h2"
  obtains p m s1 i t2 t3 ws where "kmalloc s 200 = Some (p, s1)" and "printk_loop s1 p 0 (fmt @ [0]) (map arg_word args) = Some (i, t2)"
    and "wr8 t2 (p + ucast i) 0 = Some t3" and "live (snd (alloc_abs s h 200)) = insert (p, m) (live h)" and "p \<notin> fst ` live h"
    and "208 \<le> m" and "range_upd t2 h2 p m (out @ 0 # 0 # ws) t3" and "live (snd (alloc_abs s h 200)) \<subseteq> live h2" and "heap_frame s t3"
    and "\<forall>q k. (q, k) \<in> live h \<longrightarrow> rdn t3 q k = rdn s q k"
proof -
  let ?h = "snd (alloc_abs s h 200)"
  obtain p m s1 xs where 1: "kmalloc s 200 = Some (p, s1)" "unat (round16 200) \<le> m" "live ?h = insert (p, m) (live h)"
    "p \<notin> fst ` live h" "range_upd s1 ?h p m xs s1"
    and c1: "\<forall>q k. (q, k) \<in> live h \<longrightarrow> rdn s1 q k = rdn s q k" and f1: "heap_frame s s1"
    by (rule new_range [OF assms(1,2)])
  have ne: "q \<noteq> p" if "(q, k) \<in> live h" for q k using 1(4) that by (force simp: image_iff)
  have m: "208 \<le> m" using 1(2) by (simp add: round16_def)
  have "arg_ok s1 ?h x \<and> arg_apart p x" if "arg_ok s h x" for x
    using that c1 ne by (cases x) (fastforce simp: holds_string_def 1(3))+
  then have ok: "list_all (\<lambda>x. arg_ok s1 ?h x \<and> arg_apart p x) args" using assms(5) by (simp add: list_all_iff)
  obtain t2 where 2: "printk_loop s1 p (word_of_nat (length ([] :: u8 list))) (fmt @ [0]) (map arg_word args) =
      Some (word_of_nat (length ([] @ out @ [0])), t2)" "fills t2 h2 p m ([] @ out @ [0]) t2" "grows s1 ?h p t2 h2"
    using loop_run [OF assms(3) fills_start [OF 1(5)] _ _ ok assms(6)] assms(4) m by auto
  obtain t3 where 3: "wr8 t2 (p + word_of_nat (length ([] @ out @ [0]))) 0 = Some t3" "fills t2 h2 p m (([] @ out @ [0]) @ [0]) t3"
    by (rule fills_wr8 [OF 2(2) _ refl]) (use assms(4) m in simp)
  obtain ws where u: "range_upd t2 h2 p m (out @ 0 # 0 # ws) t3" using 3(2) by (auto simp: fills_def)
  have g: "live ?h \<subseteq> live h2" "heap_frame s1 t2" using 2(3) by (simp_all add: grows_def)
  have i: "ucast (word_of_nat (length (out @ [0 :: u8])) :: u16) = (word_of_nat (length (out @ [0])) :: u32)"
    by (rule idx_addr) (use assms(4) in simp)
  have "rdn t3 q k = rdn s q k" if qk: "(q, k) \<in> live h" for q k
  proof -
    have "(q, k) \<in> live ?h" using qk by (simp add: 1(3))
    then have "rdn t2 q k = rdn s1 q k" "(q, k) \<in> live h2" using 2(3) ne [OF qk] by (auto simp: grows_def)
    then show ?thesis using range_updD(7) [OF u _ ne [OF qk]] c1 qk by simp
  qed
  then show ?thesis
    by (intro that [of p s1 "word_of_nat (length (out @ [0]))" t2 t3 m ws])
      (use 1(1,3,4) m 2(1) 3(1) u i g heap_frame_trans [OF f1 heap_frame_trans [OF g(2) range_updD(6) [OF u]]]
        in \<open>simp_all del: length_append\<close>)
qed

lemma released_ready:
  assumes inv: "heap_inv s (pre @ (a, z, False) # post)" and n: "round16 n \<le> k" "k \<le> z"
  shows "alloc_ready s' (release_abs pre a z post) n"
proof -
  have "laid (unat (heap_start s)) (pre @ (a, z, False) # post) (heap_end s)" "heap_end s < 4294967296"
    using inv by (auto simp: heap_inv_def heap_ok_def)
  moreover have "round16 n \<le> z" using n by simp
  ultimately show ?thesis using fit_released [of _ pre a z False post] by (simp add: alloc_ready_def)
qed

text \<open>The second half: the buffer is printed and released.  Afterwards there is room for a request of up
  to the buffer's size.\<close>

lemma printk_run:
  fixes s :: "'a kheap_scheme"
  assumes "screen_shows s h t" and "alloc_ready s h 200" and "rendered fmt args = Some out" and "0 \<notin> set fmt"
    and "length fmt < 65535" and "length out \<le> 198" and "list_all (arg_ok s h) args" and "term_fits t out"
    and "numbers_heap (concat (map arg_numbers args)) (snd (alloc_abs s h 200)) = Some h2"
  shows "\<exists>s' h'. printk s fmt (map arg_word args) = Some s' \<and> screen_shows s' h' (foldl term_put t out) \<and>
    live h' = live h \<union> (live h2 - live (snd (alloc_abs s h 200))) \<and> kept h s s' \<and>
    sent (io_trace s') = sent (io_trace s) @ out \<and> (\<forall>n. round16 n \<le> 208 \<longrightarrow> alloc_ready s' h' n)"
proof -
  let ?h = "snd (alloc_abs s h 200)"
  have inv: "heap_inv s h" using assms(1) by (simp add: screen_shows_def on_screen_def)
  obtain p m s1 i t2 t3 ws where 1: "kmalloc s 200 = Some (p, s1)" "printk_loop s1 p 0 (fmt @ [0]) (map arg_word args) = Some (i, t2)"
    "wr8 t2 (p + ucast i) 0 = Some t3" "live ?h = insert (p, m) (live h)" "p \<notin> fst ` live h" "208 \<le> m"
    "range_upd t2 h2 p m (out @ 0 # 0 # ws) t3" "live ?h \<subseteq> live h2" "heap_frame s t3"
    "\<forall>q k. (q, k) \<in> live h \<longrightarrow> rdn t3 q k = rdn s q k"
    by (rule buffer_run [OF inv assms(2,3,6,7,9)])
  note d = range_updD [OF 1(7)]
  have ne: "(p, m) \<notin> live h" using 1(5) by (force simp: image_iff)
  have sh3: "screen_shows t3 h2 t" by (rule shows_frame [OF assms(1) 1(9) d(1)])
  have nz: "0 \<notin> set out" by (rule rendered_no_zero [OF assms(3,4,7)])
  have r3: "rdn t3 p m = Some ([] @ out @ 0 # (0 # ws))" "length ([] @ out @ 0 # (0 # ws)) = m" using d(3,4) by simp_all
  obtain t4 where 4: "vga_print_ptr t3 (p + word_of_nat (length ([] :: u8 list))) = Some t4"
    "screen_shows t4 h2 (foldl term_put t out)" "kept h2 t3 t4" "sent (io_trace t4) = sent (io_trace t3) @ out"
    using ptr_run [OF sh3 assms(8) d(2) r3 nz] by blast
  obtain pre a z post where h2: "h2 = pre @ (a, z, False) # post" "p = a + 20" "m = unat z" by (rule live_member [OF d(2)])
  let ?h5 = "release_abs pre a z post"
  have inv4: "heap_inv t4 (pre @ (a, z, False) # post)" using 4(2) by (simp add: screen_shows_def on_screen_def h2(1))
  obtain t5 where 5: "kfree t4 p = Some (STATUS_OK, t5)" "heap_inv t5 ?h5"
    and c5: "\<forall>(q, k)\<in>live h2. rdn t5 q k = rdn t4 q k" "heap_frame t4 t5"
    using kfree_release [OF inv4] unfolding h2(1,2) by blast
  have l5: "live ?h5 = live h2 - {(p, m)}" using live_released [OF inv4] by (simp add: h2)
  have "unat (word_of_nat (length fmt + 1) :: u16) = length fmt + 1" using assms(5) by (simp only: unat_of_nat) simp
  then have "printk s fmt (map arg_word args) = Some t5" using 1(1-3) 4(1) 5(1) by (simp add: printk_def Let_def)
  moreover have "screen_shows t5 ?h5 (foldl term_put t out)" by (rule shows_frame [OF 4(2) c5(2) 5(2)])
  moreover have "live ?h5 = live h \<union> (live h2 - live ?h)" using l5 1(4,8) ne by blast
  moreover have "kept h s t5"
  proof -
    have "rdn t5 q k = rdn s q k" if qk: "(q, k) \<in> live h" for q k
    proof -
      have "(q, k) \<in> live h2" using qk 1(4,8) by blast
      then show ?thesis using bspec [OF c5(1), of "(q, k)"] 4(3) 1(10) qk by (simp add: kept_def)
    qed
    then show ?thesis using frame_globals(5) [OF 1(9)] frame_globals(5) [OF c5(2)] 4(3) by (simp add: kept_def)
  qed
  moreover have "sent (io_trace t5) = sent (io_trace s) @ out"
    using frame_globals(2) [OF c5(2)] frame_globals(2) [OF 1(9)] 4(4) by simp
  moreover have "alloc_ready t5 ?h5 n" if n: "round16 n \<le> 208" for n
    by (rule released_ready [OF inv4 n]) (use 1(6) h2(3) in \<open>simp add: word_le_nat_alt\<close>)
  ultimately show ?thesis by blast
qed

text \<open>C13: \<open>printk\<close> of a format with string and number conversions: the text is put together in a buffer from the
  heap, goes to the screen and the serial port, and the buffer is released; all ranges of the heap keep
  their contents and the components above the heap their state.  The ranges in use afterwards are those
  before and the blocks that \<open>itoa\<close> marked as used behind its own buffers, which no one holds: with
  numbers in the format the heap leaks.\<close>

theorem printk_prints:
  fixes s :: "'a kheap_scheme"
  assumes "screen_shows s h t" and "alloc_ready s h 200" and "rendered fmt args = Some out" and "0 \<notin> set fmt"
    and "length fmt < 65535" and "length out \<le> 198" and "list_all (arg_ok s h) args" and "term_fits t out"
    and "numbers_heap (concat (map arg_numbers args)) (snd (alloc_abs s h 200)) = Some h2"
  shows "\<exists>s' h'. printk s fmt (map arg_word args) = Some s' \<and> screen_shows s' h' (foldl term_put t out) \<and>
    live h' = live h \<union> (live h2 - live (snd (alloc_abs s h 200))) \<and> kept h s s' \<and> sent (io_trace s') = sent (io_trace s) @ out"
  using printk_run [OF assms] by blast

theorem printk_prints_witness:
  "\<exists>s u s' h'. kmalloc boot 16 = Some (0xd0000014, s) \<and> wrn s 0xd0000014 (lit ''ok'' @ [0]) = Some u \<and>
    printk u (lit ''%s %d'' @ [10]) [0xd0000014, 42] = Some s' \<and> sent (io_trace s') = lit ''ok 42'' @ [10, 13] \<and>
    heap_inv s' h' \<and> live h' = {(0xd0000014, 16), (0xd0000150, 3760)}"
proof -
  obtain p m s xs where 1: "kmalloc boot 16 = Some (p, s)" "live (snd (alloc_abs boot [] 16)) = insert (p, m) (live [])"
    "range_upd s (snd (alloc_abs boot [] 16)) p m xs s" and f1: "heap_frame boot s"
    by (rule new_range [OF boot_heap boot_grow])
  have p: "p = 0xd0000014" "m = 16" using 1(2) by (simp_all add: boot_alloc one_block_live)
  have u1: "range_upd s one_block 0xd0000014 16 xs s" using 1(3) by (simp add: boot_alloc p)
  have l: "lit ''ok'' = [111, 107]" "lit ''%s %d'' = [37, 115, 32, 37, 100]" "lit ''ok 42'' = [111, 107, 32, 52, 50]"
    by (simp_all add: lit_def of_char_def)
  obtain u where u: "wrn s (0xd0000014 + word_of_nat 0) [111, 107, 0] = Some u"
    "range_upd s one_block 0xd0000014 16 (patch 0 [111, 107, 0] xs) u"
    by (rule range_store [OF u1, where off = 0 and bs = "[111, 107, 0]"]) simp
  note d = range_updD [OF u(2)]
  obtain zs where "screen_shows boot [] \<lparr>t_cells = zs, t_row = 0, t_col = 0\<rparr>" using boot_shows by blast
  then have sh: "screen_shows u one_block \<lparr>t_cells = zs, t_row = 0, t_col = 0\<rparr>"
    by (rule shows_frame [OF _ heap_frame_trans [OF f1 d(6)] d(1)])
  let ?args = "[PStr 0xd0000014 [111, 107], PNum 42]"
  have "rdn u 0xd0000014 16 = Some ([111, 107] @ 0 # drop 3 xs)" using d(3) by (simp add: patch_def numeral_3_eq_3)
  then have "holds_string u one_block 0xd0000014 [111, 107]"
    unfolding holds_string_def using d(2) by (intro conjI exI) simp_all
  then have args: "list_all (arg_ok u one_block) ?args" by simp
  have rd: "alloc_ready u one_block 200" by (simp add: alloc_ready_def one_block_def round16_def)
  have "number_text 10 42 = [52, 50]" by (simp add: number_text_def digits.simps digit_char_def)
  then have ren: "rendered (lit ''%s %d'' @ [10]) ?args = Some [111, 107, 32, 52, 50, 10, 13]" by (simp add: l)
  have fit: "term_fits \<lparr>t_cells = zs, t_row = 0, t_col = 0\<rparr> [111, 107, 32, 52, 50, 10, 13]" by (simp add: term_eval)
  have al: "snd (alloc_abs u one_block 200) = [(0xd0000000, 16, False), (0xd0000024, 208, False), (0xd0000108, 3812, True)]"
    by (simp add: alloc_abs_def one_block_def round16_def carve_def)
  let ?h2 = "[(0xd0000000, 16, False), (0xd0000024, 208, False), (0xd0000108, 32, True), (0xd000013c, 3760, False)]"
  have nh: "numbers_heap (concat (map arg_numbers ?args)) (snd (alloc_abs u one_block 200)) = Some ?h2"
    unfolding al by (simp add: number_len_def carve_def release_abs_def absorb_next_def)
  have c: "0 \<notin> set (lit ''%s %d'' @ [10])" "length (lit ''%s %d'' @ [10]) < 65535"
    "length [111, 107, 32, 52, 50, 10, 13 :: u8] \<le> 198" by (simp_all add: l)
  obtain s' h' where s': "printk u (lit ''%s %d'' @ [10]) (map arg_word ?args) = Some s'"
    "screen_shows s' h' (foldl term_put \<lparr>t_cells = zs, t_row = 0, t_col = 0\<rparr> [111, 107, 32, 52, 50, 10, 13])"
    "live h' = live one_block \<union> (live ?h2 - live (snd (alloc_abs u one_block 200)))" "kept one_block u s'"
    "sent (io_trace s') = sent (io_trace u) @ [111, 107, 32, 52, 50, 10, 13]"
    using printk_prints [OF sh rd ren c args fit nh] by blast
  have iv: "heap_inv s' h'" using s'(2) by (simp add: screen_shows_def on_screen_def)
  have "live h' = {(0xd0000014, 16), (0xd0000150, 3760)}" using s'(3) unfolding al by (auto simp: one_block_def)
  moreover have "sent (io_trace u) = []" using frame_globals(2) [OF heap_frame_trans [OF f1 d(6)]] by (simp add: boot_def)
  ultimately show ?thesis using 1(1) u(1) s'(1,5) iv unfolding p l by (intro exI [of _ s] exI [of _ u] exI [of _ s'] exI [of _ h']) simp
qed

text \<open>\<open>vga_puthex\<close> puts \<open>0x\<close> and eight digits on the terminal and sends them to the serial port; the digits
  denote the number, and the heap is left alone.\<close>

theorem vga_puthex_prints:
  fixes s :: "'a kheap_scheme"
  assumes "screen_shows s h t" and "t_row t < 24" and "t_col t + 10 < 80"
  shows "\<exists>s' ds. vga_puthex s v = Some s' \<and> length ds = 8 \<and> hex_value ds 0 = v \<and>
    screen_shows s' h (foldl term_put t (lit ''0x'' @ ds)) \<and> kept h s s' \<and>
    sent (io_trace s') = sent (io_trace s) @ lit ''0x'' @ ds"
proof -
  have "lit ''0x'' = [48, 120]" by (simp add: lit_def of_char_def)
  then have p: "plain (lit ''0x'' @ hex_chars v)" "length (lit ''0x'' @ hex_chars v) = 10"
    using hex_chars_plain [of v] by (simp_all add: plain_def)
  have "term_fits t (lit ''0x'' @ hex_chars v)" by (rule plain_fits(1) [OF p(1) assms(2)]) (use assms(3) p(2) in simp)
  from print_run [OF assms(1) this] show ?thesis
    using hex_chars_value [of v] hex_chars_plain(2) [of v] unfolding vga_puthex_print by blast
qed

theorem vga_puthex_prints_witness:
  "\<exists>s' ds. vga_puthex boot 0xdeadbeef = Some s' \<and> length ds = 8 \<and> hex_value ds 0 = 0xdeadbeef \<and>
    sent (io_trace s') = lit ''0x'' @ ds"
proof -
  obtain xs where xs: "screen_shows boot [] \<lparr>t_cells = xs, t_row = 0, t_col = 0\<rparr>" using boot_shows by blast
  have "sent (io_trace boot) = []" by (simp add: boot_def)
  then show ?thesis using vga_puthex_prints [OF xs, of "0xdeadbeef"] by auto
qed

end
