(* ===== verification/BusProps.thy ===== *)
theory BusProps
  imports Layouts
begin

text \<open>
  The network card driver and the packets (\<open>driver/eth/intel_8254x.c\<close>, \<open>kernel/net/netdev.c\<close>): the ring of
  transmit descriptors, the Ethernet header, the frame of an ARP request.
\<close>

section \<open>The transmit ring\<close>

text \<open>The tail points to descriptor \<open>i\<close>.\<close>

definition tail_at :: "'a nic_scheme \<Rightarrow> nat \<Rightarrow> bool" where
  "tail_at s i \<longleftrightarrow> txtail s = txqueue s + 16 * word_of_nat i"

lemma tx_index_tail:
  assumes "tail_at s i" and "i < 134217728"
  shows "tx_index s = word_of_nat i"
proof -
  have e: "txtail s - txqueue s = word_of_nat (16 * i)" using assms(1) by (simp add: tail_at_def)
  have "unat (word_of_nat (16 * i) :: u32) = 16 * i" using assms(2) by (simp only: unat_of_nat) simp
  then have "sint (word_of_nat (16 * i) :: u32) = int (16 * i)"
    using assms(2) by (subst sint_small) (simp_all del: of_nat_mult)
  then have "sint (txtail s - txqueue s) sdiv 16 = int i"
    unfolding e by (cases "i = 0") (simp_all add: signed_divide_int_def del: of_nat_mult)
  then show ?thesis by (simp add: tx_index_def)
qed

lemma tx_advance_tail:
  assumes "tail_at s i" and "i \<le> unat (txqueue_n s)" and "unat (txqueue_n s) < 67108864"
  shows "tail_at (tx_advance s) (if i = unat (txqueue_n s) then 0 else Suc i)"
    and "txqueue (tx_advance s) = txqueue s" and "txqueue_n (tx_advance s) = txqueue_n s"
proof -
  let ?s1 = "s\<lparr>txtail := txtail s + 16\<rparr>"
  have "tail_at ?s1 (Suc i)" using assms(1) by (simp add: tail_at_def algebra_simps)
  then have i: "tx_index ?s1 = word_of_nat (Suc i)" by (rule tx_index_tail) (use assms(2,3) in simp)
  have u: "unat (word_of_nat (Suc i) :: u32) = Suc i" using assms(2,3) by (simp add: unat_of_nat del: of_nat_Suc)
  have "txqueue_n s < tx_index ?s1 \<longleftrightarrow> i = unat (txqueue_n s)"
    unfolding i word_less_nat_alt u using assms(2) by auto
  then show "tail_at (tx_advance s) (if i = unat (txqueue_n s) then 0 else Suc i)"
    "txqueue (tx_advance s) = txqueue s" "txqueue_n (tx_advance s) = txqueue_n s"
    using \<open>tail_at ?s1 (Suc i)\<close> by (auto simp: tx_advance_def Let_def tail_at_def)
qed

text \<open>C22: The tail of the transmit ring cycles through \<open>txqueue_n + 1\<close> positions, one more than the ring has
  descriptors: after \<open>k\<close> packets it is at descriptor \<open>k mod (txqueue_n + 1)\<close>, so position \<open>txqueue_n\<close>, which
  begins at the end of the ring, is used once in every round.\<close>

theorem tx_ring_cycles:
  assumes "txtail s = txqueue s" and "unat (txqueue_n s) < 67108864"
  shows "tx_index ((tx_advance ^^ k) s) = word_of_nat (k mod (unat (txqueue_n s) + 1)) \<and>
    txtail ((tx_advance ^^ k) s) = txqueue s + 16 * word_of_nat (k mod (unat (txqueue_n s) + 1))"
proof -
  let ?n = "unat (txqueue_n s)" and ?t = "(tx_advance ^^ k) s"
  have "tail_at ?t (k mod (?n + 1)) \<and> txqueue ?t = txqueue s \<and> txqueue_n ?t = txqueue_n s"
  proof (induction k)
    case 0
    then show ?case using assms(1) by (simp add: tail_at_def)
  next
    case (Suc k)
    let ?u = "(tx_advance ^^ k) s"
    have le: "k mod (?n + 1) \<le> ?n" using mod_less_divisor [of "?n + 1" k] by linarith
    have "(if k mod (?n + 1) = ?n then 0 else Suc (k mod (?n + 1))) = Suc k mod (?n + 1)"
      by (simp add: mod_Suc)
    then show ?case
      using tx_advance_tail [of ?u "k mod (?n + 1)"] Suc.IH le assms(2) by simp
  qed
  moreover have "k mod (?n + 1) < 134217728"
    using mod_less_divisor [of "?n + 1" k] assms(2) by linarith
  ultimately show ?thesis using tx_index_tail [of ?t] by (simp add: tail_at_def)
qed

theorem tx_ring_cycles_witness:
  "tx_index ((tx_advance ^^ 64) boot_nic) = txqueue_n boot_nic \<and> tx_index ((tx_advance ^^ 65) boot_nic) = 0"
proof -
  have s: "txtail boot_nic = txqueue boot_nic" "unat (txqueue_n boot_nic) = 64" "txqueue_n boot_nic = 64"
    by (simp_all add: boot_nic_def)
  have "64 mod (unat (txqueue_n boot_nic) + 1) = 64" "65 mod (unat (txqueue_n boot_nic) + 1) = 0"
    by (simp_all add: s(2))
  moreover have "unat (txqueue_n boot_nic) < 67108864" by (simp add: s(2))
  ultimately show ?thesis
    using tx_ring_cycles [OF s(1), of 64] tx_ring_cycles [OF s(1), of 65] s(3) by simp
qed

section \<open>Frames\<close>

text \<open>Network byte order.\<close>

definition net16 :: "u16 \<Rightarrow> u8 list" where
  "net16 v = [ucast (drop_bit 8 v), ucast v]"

lemma bytes48_ones: "bytes48 0xffffffffffff = replicate 6 0xff"
proof -
  have w: "ucast (0xffffffffffff :: u64) = (0xffffffff :: u32)"
    "ucast (drop_bit 32 (0xffffffffffff :: u64)) = (0xffff :: u16)" by simp_all
  have "bytes32 0xffffffff = [0xff, 0xff, 0xff, 0xff]" by (simp add: bytes32_def byte_of_def)
  moreover have "bytes16 0xffff = [0xff, 0xff]" by (simp add: bytes16_def)
  ultimately show ?thesis unfolding bytes48_def w by (simp add: numeral_eq_Suc)
qed

lemma length_net16 [simp]: "length (net16 v) = 2"
  by (simp add: net16_def)

lemma bytes16_ble16: "bytes16 (ble16 v) = net16 v"
proof -
  have "ucast (ble16 v) = (ucast (drop_bit 8 v) :: u8)" "ucast (drop_bit 8 (ble16 v)) = (ucast v :: u8)"
    unfolding ble16_def by (rule bit_word_eqI; auto simp: bit_simps dest: bit_imp_le_length)+
  then show ?thesis by (simp add: bytes16_def net16_def)
qed

lemma rd48_bytes:
  assumes "rdn s a 6 = Some bs" and "length bs = 6"
  shows "\<exists>v. rd48 s a = Some v \<and> bytes48 v = bs"
proof -
  obtain b0 b1 b2 b3 b4 b5 where bs: "bs = [b0, b1, b2, b3, b4, b5]"
    using assms(2) by (auto simp: numeral_eq_Suc length_Suc_conv)
  have lo: "rdn s a 4 = Some [b0, b1, b2, b3]" and hi: "rdn s (a + 4) 2 = Some [b4, b5]"
    using rdn_part [OF assms(1), of 0 4] rdn_part [OF assms(1), of 4 2] assms(2) by (simp_all add: bs)
  let ?v = "ucast (cat32 b0 b1 b2 b3) OR push_bit 32 (ucast (ucast b4 OR push_bit 8 (ucast b5) :: u16)) :: u64"
  have "rd48 s a = Some ?v" using lo hi by (simp add: rd48_def rd32_def rd16_def)
  moreover have "ucast ?v = cat32 b0 b1 b2 b3" by (rule bit_word_eqI) (auto simp: bit_simps)
  moreover have "ucast (drop_bit 32 ?v) = (ucast b4 OR push_bit 8 (ucast b5) :: u16)"
    by (rule bit_word_eqI) (auto simp: bit_simps dest: bit_imp_le_length)
  moreover have nb: "\<not> bit b4 (8 + n)" for n by (auto dest: bit_imp_le_length)
  have "bytes16 (ucast b4 OR push_bit 8 (ucast b5)) = [b4, b5]"
    unfolding bytes16_def by (auto intro!: bit_word_eqI simp: bit_simps nb dest: bit_imp_le_length)
  ultimately have "rd48 s a = Some ?v" "bytes48 ?v = bs" by (simp_all add: bytes48_def bytes32_cat32 bs)
  then show ?thesis by blast
qed

lemma fills_wr48:
  assumes u: "fills s h p m zs t" and len: "length zs + 6 \<le> m" and a: "a = p + word_of_nat (length zs)"
  obtains t' where "wr48 t a v = Some t'" and "fills s h p m (zs @ bytes48 v) t'"
proof -
  obtain t1 where 1: "wr32 t a (ucast v) = Some t1" "fills s h p m (zs @ bytes32 (ucast v)) t1"
    by (rule fills_wr32 [OF u _ a]) (use len in simp_all)
  obtain t2 where 2: "wr16 t1 (a + 4) (ucast (drop_bit 32 v)) = Some t2"
    "fills s h p m ((zs @ bytes32 (ucast v)) @ bytes16 (ucast (drop_bit 32 v))) t2"
    by (rule fills_wr16 [OF 1(2), where a = "a + 4"]) (use len a in \<open>simp_all add: add.assoc add.commute\<close>)
  show ?thesis by (rule that [of t2]) (use 1(1) 2 in \<open>simp_all add: wr48_def bytes48_def\<close>)
qed

text \<open>The Ethernet header and the ARP packet for IPv4 (RFC 826), as the bytes on the wire.\<close>

definition wire_header :: "u8 list \<Rightarrow> u8 list \<Rightarrow> u16 \<Rightarrow> u8 list" where
  "wire_header dst src type = dst @ src @ net16 type"

definition arp_packet :: "u16 \<Rightarrow> u8 list \<Rightarrow> u8 list \<Rightarrow> u8 list \<Rightarrow> u8 list \<Rightarrow> u8 list" where
  "arp_packet op smac sip tmac tip =
     net16 1 @ net16 0x0800 @ [6, 4] @ net16 op @ smac @ sip @ tmac @ tip"

text \<open>They are the structures of the headers, with the numbers of two bytes in network order; the wire
  sends an address byte by byte as memory holds it.\<close>

lemma wire_header_layout:
  "wire_header (bytes48 (ucast d)) (bytes48 (ucast s)) type = enc_eth_header \<lparr>eh_dst = d, eh_src = s, eh_type = ble16 type\<rparr>"
  by (simp add: wire_header_def enc_eth_header_def bytes16_ble16)

lemma arp_packet_layout:
  "arp_packet op (bytes48 (ucast sm)) (bytes32 sip) (bytes48 (ucast tm)) (bytes32 tip) =
    enc_arp_frame \<lparr>af_htype = ble16 1, af_ptype = ble16 0x0800, af_hlen = 6, af_plen = 4, af_operation = ble16 op,
      af_sender_hwaddr = sm, af_sender_paddr = sip, af_target_hwaddr = tm, af_target_paddr = tip\<rparr>"
  by (simp add: arp_packet_def enc_arp_frame_def bytes16_ble16)

lemma wire_header_run:
  fixes s :: "'a nic_scheme"
  assumes inv: "heap_inv s h" and rd: "alloc_ready s h (14 + ucast psize)" and big: "unat (ucast psize :: u32) + 14 \<le> 65549"
    and src: "(q, k) \<in> live h" "6 \<le> k" "rdn s q 6 = Some mac"
  obtains p m s1 t where "netd_make_eth2_header s q dst type psize = Some (p, t)"
    and "live (snd (alloc_abs s h (14 + ucast psize))) = insert (p, m) (live h)" and "p \<notin> fst ` live h"
    and "unat (14 + ucast psize :: u32) \<le> m"
    and "fills s1 (snd (alloc_abs s h (14 + ucast psize))) p m (wire_header (bytes48 dst) mac type) t"
    and "\<forall>r l. (r, l) \<in> live h \<longrightarrow> rdn s1 r l = rdn s r l" and "rdn s1 q 6 = Some mac"
proof -
  let ?n = "14 + ucast psize :: u32"
  let ?h = "snd (alloc_abs s h ?n)"
  obtain p m s1 xs where 1: "kmalloc s ?n = Some (p, s1)" "unat (round16 ?n) \<le> m"
    "live ?h = insert (p, m) (live h)" "p \<notin> fst ` live h" "range_upd s1 ?h p m xs s1"
    and c: "\<forall>r l. (r, l) \<in> live h \<longrightarrow> rdn s1 r l = rdn s r l" and "heap_frame s s1"
    by (rule new_range [OF inv rd])
  have un: "unat ?n = 14 + unat (ucast psize :: u32)" using big by (subst unat_add_small) simp_all
  have m: "unat ?n \<le> m" using 1(2) round16_ge [of ?n] un big by simp
  then have m14: "14 \<le> m" using un by simp
  have qp: "(q, k) \<in> live ?h" "q \<noteq> p" using src(1) 1(3,4) by (auto simp: image_iff)
  have s6: "rdn s1 q 6 = Some mac"
  proof -
    obtain ys where ys: "rdn s q k = Some ys" "length ys = k" by (rule live_contents [OF inv src(1)])
    then show ?thesis using c src rdn_part [of s1 q k ys 0 6] rdn_part [of s q k ys 0 6] by simp
  qed
  obtain s2 where 2: "wr48 s1 p dst = Some s2" "fills s1 ?h p m ([] @ bytes48 dst) s2"
    by (rule fills_wr48 [OF fills_start [OF 1(5)], where a = p]) (use m14 in simp_all)
  have "rdn s2 (q + word_of_nat 0) 6 = Some mac"
    by (rule fills_other [OF 2(2) qp]) (use src(2) s6 in simp_all)
  moreover have "length mac = 6"
  proof -
    obtain ys where ys: "rdn s q k = Some ys" "length ys = k" by (rule live_contents [OF inv src(1)])
    then show ?thesis using src rdn_part [of s q k ys 0 6] by auto
  qed
  ultimately obtain sb where sb: "rd48 s2 q = Some sb" "bytes48 sb = mac" using rd48_bytes [of s2 q mac] by auto
  obtain s3 where 3: "wr48 s2 (p + 6) sb = Some s3" "fills s1 ?h p m (([] @ bytes48 dst) @ bytes48 sb) s3"
    by (rule fills_wr48 [OF 2(2), where a = "p + 6"]) (use m14 in simp_all)
  obtain s4 where 4: "wr16 s3 (p + 12) (ble16 type) = Some s4"
    "fills s1 ?h p m ((([] @ bytes48 dst) @ bytes48 sb) @ bytes16 (ble16 type)) s4"
    by (rule fills_wr16 [OF 3(2), where a = "p + 12"]) (use m14 in simp_all)
  show ?thesis
  proof (rule that [of p s4 m s1])
    show "netd_make_eth2_header s q dst type psize = Some (p, s4)"
      using 1(1) 2(1) 3(1) 4(1) sb(1) by (simp add: netd_make_eth2_header_def)
    show "fills s1 ?h p m (wire_header (bytes48 dst) mac type) s4"
      using 4(2) by (simp add: wire_header_def sb(2) bytes16_ble16)
  qed (use 1(3,4) m c s6 in simp_all)
qed

text \<open>The nine stores after the header, with the loads between them.\<close>

lemma arp_fields_run:
  fixes t0 :: "'a nic_scheme"
  assumes z: "fills s1 h p k z t0" "length z = 14" "42 \<le> k" and lm: "length mac = 6"
    and reads: "\<And>zs t. fills s1 h p k zs t \<Longrightarrow> rd32 t (dev + 8) = Some m \<and> rd32 t (dev + 12) = Some i \<and>
      rd32 t i = Some ip \<and> rd32 t dev = Some tx_fn \<and> rdn t m 6 = Some mac"
  obtains t1 t2 t3 t4 t5 t6 t7 t8 t9 mb where
    "wr16 t0 (p + 14) (ble16 ARP_HTYPE_ETH) = Some t1" and "wr16 t1 (p + 16) (ble16 ARP_PTYPE_IPV4) = Some t2"
    and "wr8 t2 (p + 18) 6 = Some t3" and "wr8 t3 (p + 19) 4 = Some t4" and "wr16 t4 (p + 20) (ble16 op) = Some t5"
    and "rd32 t5 (dev + 8) = Some m" and "rd48 t5 m = Some mb" and "wr48 t5 (p + 22) mb = Some t6"
    and "rd32 t6 (dev + 12) = Some i" and "rd32 t6 i = Some ip" and "wr32 t6 (p + 28) ip = Some t7"
    and "wr48 t7 (p + 32) mac_target = Some t8" and "wr32 t8 (p + 38) ip_target = Some t9" and "rd32 t9 dev = Some tx_fn"
    and "fills s1 h p k (z @ arp_packet op mac (bytes32 ip) (bytes48 mac_target) (bytes32 ip_target)) t9"
proof -
  obtain t1 where 1: "wr16 t0 (p + 14) (ble16 ARP_HTYPE_ETH) = Some t1" "fills s1 h p k (z @ bytes16 (ble16 ARP_HTYPE_ETH)) t1"
    by (rule fills_wr16 [OF z(1), where a = "p + 14"]) (use z(2,3) in simp_all)
  let ?z1 = "z @ bytes16 (ble16 ARP_HTYPE_ETH)"
  obtain t2 where 2: "wr16 t1 (p + 16) (ble16 ARP_PTYPE_IPV4) = Some t2" "fills s1 h p k (?z1 @ bytes16 (ble16 ARP_PTYPE_IPV4)) t2"
    by (rule fills_wr16 [OF 1(2), where a = "p + 16"]) (use z(2,3) in simp_all)
  let ?z2 = "?z1 @ bytes16 (ble16 ARP_PTYPE_IPV4)"
  have l2: "length ?z2 = 18" by (simp add: z(2))
  obtain t3 where 3: "wr8 t2 (p + 18) 6 = Some t3" "fills s1 h p k (?z2 @ [6]) t3"
    by (rule fills_wr8 [OF 2(2), where a = "p + 18"]) (use z(3) l2 in simp_all)
  obtain t4 where 4: "wr8 t3 (p + 19) 4 = Some t4" "fills s1 h p k ((?z2 @ [6]) @ [4]) t4"
    by (rule fills_wr8 [OF 3(2), where a = "p + 19"]) (use z(3) l2 in simp_all)
  obtain t5 where 5: "wr16 t4 (p + 20) (ble16 op) = Some t5" "fills s1 h p k (((?z2 @ [6]) @ [4]) @ bytes16 (ble16 op)) t5"
    by (rule fills_wr16 [OF 4(2), where a = "p + 20"]) (use z(3) l2 in simp_all)
  let ?z5 = "((?z2 @ [6]) @ [4]) @ bytes16 (ble16 op)"
  have l5: "length ?z5 = 22" using l2 by simp
  obtain mb where mb: "rd48 t5 m = Some mb" "bytes48 mb = mac" using rd48_bytes [of t5 m mac] reads [OF 5(2)] lm by blast
  obtain t6 where 6: "wr48 t5 (p + 22) mb = Some t6" "fills s1 h p k (?z5 @ bytes48 mb) t6"
    by (rule fills_wr48 [OF 5(2), where a = "p + 22"]) (use z(3) l5 in simp_all)
  obtain t7 where 7: "wr32 t6 (p + 28) ip = Some t7" "fills s1 h p k ((?z5 @ bytes48 mb) @ bytes32 ip) t7"
    by (rule fills_wr32 [OF 6(2), where a = "p + 28"]) (use z(3) l5 in simp_all)
  obtain t8 where 8: "wr48 t7 (p + 32) mac_target = Some t8"
    "fills s1 h p k (((?z5 @ bytes48 mb) @ bytes32 ip) @ bytes48 mac_target) t8"
    by (rule fills_wr48 [OF 7(2), where a = "p + 32"]) (use z(3) l5 in simp_all)
  obtain t9 where 9: "wr32 t8 (p + 38) ip_target = Some t9"
    "fills s1 h p k ((((?z5 @ bytes48 mb) @ bytes32 ip) @ bytes48 mac_target) @ bytes32 ip_target) t9"
    by (rule fills_wr32 [OF 8(2), where a = "p + 38"]) (use z(3) l5 in simp_all)
  have f: "fills s1 h p k (z @ arp_packet op mac (bytes32 ip) (bytes48 mac_target) (bytes32 ip_target)) t9"
    using 9(2) by (simp add: mb(2) bytes16_ble16 arp_packet_def ARP_HTYPE_ETH_def ARP_PTYPE_IPV4_def)
  show ?thesis
    by (rule that [OF 1(1) 2(1) 3(1) 4(1) 5(1) _ mb(1) 6(1) _ _ 7(1) 8(1) 9(1) _ f])
      (use reads [OF 5(2)] reads [OF 6(2)] reads [OF 9(2)] in simp_all)
qed

text \<open>C21: \<open>netd_send_ipv4_arp_packet\<close> builds, in a new range of the heap, exactly the Ethernet frame with the ARP
  packet of RFC 826 in network byte order (broadcast for a request), leaves all other ranges alone and
  hands the frame of 42 bytes to the transmit function of the device.\<close>

theorem arp_frame_on_wire:
  fixes s :: "'a nic_scheme"
  assumes "heap_inv s h" and "alloc_ready s h 42"
    and "(dev, kd) \<in> live h" and "16 \<le> kd" and "rd32 s (dev + 8) = Some m" and "rd32 s (dev + 12) = Some i"
    and "rd32 s dev = Some tx_fn" and "(m, km) \<in> live h" and "6 \<le> km" and "rdn s m 6 = Some mac"
    and "(i, ki) \<in> live h" and "4 \<le> ki" and "rd32 s i = Some ip"
  shows "\<exists>s' p k xs. netd_send_ipv4_arp_packet hw tx_fn garbage s dev mac_target ip_target op =
      add_tx_buffer hw s' p 42 1 \<and>
    heap_inv s' (snd (alloc_abs s h 42)) \<and> live (snd (alloc_abs s h 42)) = insert (p, k) (live h) \<and>
    rdn s' p k = Some (wire_header (if op = ARP_OP_REQ then replicate 6 0xff else bytes48 garbage) mac 0x0806 @
      arp_packet op mac (bytes32 ip) (bytes48 mac_target) (bytes32 ip_target) @ xs) \<and>
    (\<forall>q l. (q, l) \<in> live h \<longrightarrow> rdn s' q l = rdn s q l)"
proof -
  define dst where "dst = (if op = ARP_OP_REQ then 0xffffffffffff else garbage)"
  have bd: "bytes48 dst = (if op = ARP_OP_REQ then replicate 6 0xff else bytes48 garbage)"
    by (simp add: dst_def bytes48_ones)
  let ?h = "snd (alloc_abs s h 42)"
  have n: "14 + ucast (28 :: u16) = (42 :: u32)" by simp
  have rd: "alloc_ready s h (14 + ucast (28 :: u16))" using assms(2) by simp
  obtain p k s1 t0 where 0: "netd_make_eth2_header s m dst ETH_TYPE_ARP 28 = Some (p, t0)"
    "live ?h = insert (p, k) (live h)" "p \<notin> fst ` live h" "42 \<le> k"
    "fills s1 ?h p k (wire_header (bytes48 dst) mac ETH_TYPE_ARP) t0"
    "\<forall>r l. (r, l) \<in> live h \<longrightarrow> rdn s1 r l = rdn s r l" "rdn s1 m 6 = Some mac"
    by (rule wire_header_run [OF assms(1) rd _ assms(8-10), where dst = dst and type = ETH_TYPE_ARP, unfolded n]) simp_all
  have in_h: "(dev, kd) \<in> live ?h" "(m, km) \<in> live ?h" "(i, ki) \<in> live ?h"
    and np: "dev \<noteq> p" "m \<noteq> p" "i \<noteq> p"
    using assms(3,8,11) 0(2,3) by (auto simp: image_iff)
  have held: "rd32 t (q + word_of_nat off) = rd32 s (q + word_of_nat off)"
    if f: "fills s1 ?h p k zs t" and ql0: "(q, l) \<in> live h" and le: "off + 4 \<le> l" for zs t q l off
  proof -
    have ql: "(q, l) \<in> live ?h" "q \<noteq> p" using ql0 0(2,3) by (auto simp: image_iff)
    obtain ys where ys: "rdn s q l = Some ys" "length ys = l" by (rule live_contents [OF assms(1) ql0])
    have y1: "rdn s1 q l = Some ys" using 0(6) ql0 ys(1) by simp
    have "rdn t (q + word_of_nat off) 4 = Some (take 4 (drop off ys))"
      by (rule fills_other [OF f ql le]) (rule rdn_part [OF y1 le ys(2)])
    then show ?thesis using rdn_part [OF ys(1) le ys(2)] by (simp add: rd32_def)
  qed
  have mac6: "rdn t m 6 = Some mac" if "fills s1 ?h p k zs t" for zs t
    using fills_other [OF that in_h(2) np(2), of 0 6 mac] 0(7) assms(9) by simp
  have lm: "length mac = 6"
  proof -
    obtain ys where ys: "rdn s m km = Some ys" "length ys = km" by (rule live_contents [OF assms(1,8)])
    then show ?thesis using assms(9,10) rdn_part [of s m km ys 0 6] by auto
  qed
  let ?z = "wire_header (bytes48 dst) mac ETH_TYPE_ARP"
  have reads: "rd32 t (dev + 8) = Some m \<and> rd32 t (dev + 12) = Some i \<and> rd32 t i = Some ip \<and> rd32 t dev = Some tx_fn \<and>
    rdn t m 6 = Some mac" if f: "fills s1 ?h p k zs t" for zs t
    using held [OF f assms(3), of 8] held [OF f assms(3), of 12] held [OF f assms(3), of 0] held [OF f assms(11), of 0]
      mac6 [OF f] assms(4-7,12,13) by simp
  have lz: "length ?z = 14" by (simp add: wire_header_def lm)
  obtain t1 t2 t3 t4 t5 t6 t7 t8 t9 mb where w:
    "wr16 t0 (p + 14) (ble16 ARP_HTYPE_ETH) = Some t1" "wr16 t1 (p + 16) (ble16 ARP_PTYPE_IPV4) = Some t2"
    "wr8 t2 (p + 18) 6 = Some t3" "wr8 t3 (p + 19) 4 = Some t4" "wr16 t4 (p + 20) (ble16 op) = Some t5"
    "rd32 t5 (dev + 8) = Some m" "rd48 t5 m = Some mb" "wr48 t5 (p + 22) mb = Some t6"
    "rd32 t6 (dev + 12) = Some i" "rd32 t6 i = Some ip" "wr32 t6 (p + 28) ip = Some t7"
    "wr48 t7 (p + 32) mac_target = Some t8" "wr32 t8 (p + 38) ip_target = Some t9" "rd32 t9 dev = Some tx_fn"
    and 9: "fills s1 ?h p k (?z @ arp_packet op mac (bytes32 ip) (bytes48 mac_target) (bytes32 ip_target)) t9"
    by (rule arp_fields_run [OF 0(5) lz 0(4) lm reads]) assumption
  have send: "netd_send_ipv4_arp_packet hw tx_fn garbage s dev mac_target ip_target op = add_tx_buffer hw t9 p 42 1"
    using assms(5) 0(1) w by (simp add: netd_send_ipv4_arp_packet_def Let_def dst_def [symmetric] add.assoc)
  obtain xs where u: "range_upd s1 ?h p k ((?z @ arp_packet op mac (bytes32 ip) (bytes48 mac_target) (bytes32 ip_target)) @ xs) t9"
    using 9 by (auto simp: fills_def)
  have "rdn t9 q l = rdn s q l" if "(q, l) \<in> live h" for q l
  proof -
    have "(q, l) \<in> live ?h" "q \<noteq> p" using that 0(2,3) by (auto simp: image_iff)
    then show ?thesis using range_updD(7) [OF u] 0(6) that by simp
  qed
  moreover have "rdn t9 p k = Some (wire_header (bytes48 dst) mac 0x0806 @
      arp_packet op mac (bytes32 ip) (bytes48 mac_target) (bytes32 ip_target) @ xs)"
    using range_updD(3) [OF u]
    by (simp add: ETH_TYPE_ARP_def)
  ultimately show ?thesis using send range_updD(1) [OF u] 0(2) unfolding bd [symmetric] by blast
qed

text \<open>A device with its two addresses, in three ranges of the heap.\<close>

definition netdev_heap :: "blk list" where
  "netdev_heap = [(0xd0000000, 16, False), (0xd0000024, 16, False), (0xd0000048, 16, False), (0xd000006c, 3968, True)]"

lemma netdev_live: "live netdev_heap = {(0xd0000014, 16), (0xd0000038, 16), (0xd000005c, 16)}"
  by (auto simp: netdev_heap_def live_def)

lemma netdev_alloc: "alloc_ready s netdev_heap 42"
  "snd (alloc_abs s netdev_heap 42) =
    [(0xd0000000, 16, False), (0xd0000024, 16, False), (0xd0000048, 16, False), (0xd000006c, 48, False), (0xd00000b0, 3900, True)]"
  by (simp_all add: alloc_ready_def alloc_abs_def netdev_heap_def round16_def carve_def)

lemma rd32_part:
  assumes "rdn s p m = Some (xs @ bytes32 v @ ys)" and "length (xs @ bytes32 v @ ys) = m" and "a = p + word_of_nat (length xs)"
  shows "rd32 s a = Some v"
  using rdn_part [OF assms(1), of "length xs" 4] assms(2,3) by (simp add: rd32_def bytes32_def)

lemma after_alloc:
  fixes s :: "'a kheap_scheme"
  assumes "heap_inv s h" and "alloc_ready s h n" and "snd (alloc_abs s h n) = h'"
  obtains t :: "'a kheap_scheme" where "heap_inv t h'"
proof -
  obtain p m xs and t :: "'a kheap_scheme" where "range_upd t (snd (alloc_abs s h n)) p m xs t"
    by (rule new_range [OF assms(1,2)]) blast
  from range_updD(1) [OF this] show ?thesis by (rule that [unfolded assms(3) [symmetric]])
qed

lemma netdev_state:
  assumes "length mac = 6"
  obtains s :: nic where "heap_inv s netdev_heap" and "rdn s 0xd0000038 6 = Some mac"
    and "rd32 s 0xd0000014 = Some fn" and "rd32 s 0xd000001c = Some 0xd0000038" and "rd32 s 0xd0000020 = Some 0xd000005c"
    and "rd32 s 0xd000005c = Some ip"
proof -
  have "alloc_ready boot_nic [] 16" "snd (alloc_abs boot_nic [] 16) = one_block"
    using boot_grow boot_alloc by (simp_all add: boot_nic_inv)
  then obtain s1 :: nic where 1: "heap_inv s1 one_block" by (rule after_alloc [OF boot_nic_heap])
  let ?h2 = "[(0xd0000000, 16, False), (0xd0000024, 16, False), (0xd0000048, 4004, True)] :: blk list"
  have "snd (alloc_abs s1 one_block 16) = ?h2" by (simp add: alloc_abs_def one_block_def round16_def carve_def)
  then obtain s2 :: nic where 2: "heap_inv s2 ?h2" by (rule after_alloc [OF 1 one_block_ready])
  have "alloc_ready s2 ?h2 16" "snd (alloc_abs s2 ?h2 16) = netdev_heap"
    by (simp_all add: alloc_abs_def netdev_heap_def round16_def carve_def alloc_ready_def)
  then obtain s3 :: nic where 3: "heap_inv s3 netdev_heap" by (rule after_alloc [OF 2])
  have l: "(0xd0000014, 16) \<in> live netdev_heap" "(0xd0000038, 16) \<in> live netdev_heap" "(0xd000005c, 16) \<in> live netdev_heap"
    by (simp_all add: netdev_live)
  have start: "fills t netdev_heap p 16 [] t" if "heap_inv t netdev_heap" "(p, 16) \<in> live netdev_heap" for t :: nic and p
    using live_contents [OF that] range_updI [OF that] fills_start by metis
  obtain t1 where t1: "fills s3 netdev_heap 0xd0000014 16
      ([] @ (bytes32 fn @ bytes32 0 @ bytes32 0xd0000038 @ bytes32 0xd000005c)) t1"
    by (rule fills_wrn [OF start [OF 3 l(1)], where a = "0xd0000014"
          and bs = "bytes32 fn @ bytes32 0 @ bytes32 0xd0000038 @ bytes32 0xd000005c"]) simp_all
  obtain ws where u1: "range_upd s3 netdev_heap 0xd0000014 16
      (([] @ (bytes32 fn @ bytes32 0 @ bytes32 0xd0000038 @ bytes32 0xd000005c)) @ ws) t1" using t1 by (auto simp: fills_def)
  obtain t2 where t2: "fills t1 netdev_heap 0xd0000038 16 ([] @ mac) t2"
    by (rule fills_wrn [OF start [OF range_updD(1) [OF u1] l(2)], where a = "0xd0000038" and bs = mac]) (use assms in simp_all)
  obtain ws2 where u2: "range_upd t1 netdev_heap 0xd0000038 16 (([] @ mac) @ ws2) t2" using t2 by (auto simp: fills_def)
  obtain t3 where t3: "fills t2 netdev_heap 0xd000005c 16 ([] @ bytes32 ip) t3"
    by (rule fills_wrn [OF start [OF range_updD(1) [OF u2] l(3)], where a = "0xd000005c" and bs = "bytes32 ip"]) simp_all
  obtain ws3 where u3: "range_upd t2 netdev_heap 0xd000005c 16 (([] @ bytes32 ip) @ ws3) t3" using t3 by (auto simp: fills_def)
  have d: "rdn t3 0xd0000014 16 = Some (bytes32 fn @ bytes32 0 @ bytes32 0xd0000038 @ bytes32 0xd000005c)"
    using range_updD(7) [OF u3 l(1)] range_updD(7) [OF u2 l(1)] range_updD(3,4) [OF u1] by simp
  have m: "rdn t3 0xd0000038 16 = Some (mac @ ws2)" "length (mac @ ws2) = 16"
    using range_updD(7) [OF u3 l(2)] range_updD(3,4) [OF u2] by simp_all
  show ?thesis
  proof (rule that [of t3])
    show "heap_inv t3 netdev_heap" by (rule range_updD(1) [OF u3])
    show "rdn t3 0xd0000038 6 = Some mac" using rdn_part [OF m(1), of 0 6] m(2) assms by simp
    show "rd32 t3 0xd0000014 = Some fn"
      by (rule rd32_part [where xs = "[]" and ys = "bytes32 0 @ bytes32 0xd0000038 @ bytes32 0xd000005c" and p = "0xd0000014" and m = 16])
        (use d in simp_all)
    show "rd32 t3 0xd000001c = Some 0xd0000038"
      by (rule rd32_part [where xs = "bytes32 fn @ bytes32 0" and ys = "bytes32 0xd000005c" and p = "0xd0000014" and m = 16])
        (use d in simp_all)
    show "rd32 t3 0xd0000020 = Some 0xd000005c"
      by (rule rd32_part [where xs = "bytes32 fn @ bytes32 0 @ bytes32 0xd0000038" and ys = "[]" and p = "0xd0000014" and m = 16])
        (use d in simp_all)
    show "rd32 t3 0xd000005c = Some ip"
      by (rule rd32_part [where xs = "[]" and ys = ws3 and p = "0xd000005c" and m = 16])
        (use range_updD(3,4) [OF u3] in simp_all)
  qed
qed

theorem arp_frame_on_wire_witness:
  "\<exists>s :: nic. \<exists>s' p k xs. netd_send_ipv4_arp_packet id 0xc0100000 0 s 0xd0000014 0 0x0201a8c0 ARP_OP_REQ =
      add_tx_buffer id s' p 42 1 \<and> rd32 s 0xd000005c = Some 0x0301a8c0 \<and>
    rdn s' p k = Some (replicate 6 0xff @ [82, 84, 0, 18, 52, 86] @ [8, 6] @
      [0, 1, 8, 0, 6, 4, 0, 1] @ [82, 84, 0, 18, 52, 86] @ [192, 168, 1, 3] @ [0, 0, 0, 0, 0, 0] @ [192, 168, 1, 2] @ xs)"
proof -
  obtain s :: nic where s: "heap_inv s netdev_heap" "rdn s 0xd0000038 6 = Some [82, 84, 0, 18, 52, 86]"
    "rd32 s 0xd0000014 = Some 0xc0100000" "rd32 s 0xd000001c = Some 0xd0000038" "rd32 s 0xd0000020 = Some 0xd000005c"
    "rd32 s 0xd000005c = Some 0x0301a8c0"
    by (rule netdev_state [of "[82, 84, 0, 18, 52, 86]"]) simp_all
  have l: "(0xd0000014, 16) \<in> live netdev_heap" "(0xd0000038, 16) \<in> live netdev_heap" "(0xd000005c, 16) \<in> live netdev_heap"
    by (simp_all add: netdev_live)
  have b: "bytes32 0x0301a8c0 = [192, 168, 1, 3]" "bytes32 0x0201a8c0 = [192, 168, 1, 2]" "bytes48 0 = [0, 0, 0, 0, 0, 0]"
    "net16 0x0806 = [8, 6]" "net16 0x0800 = [8, 0]" "net16 1 = [0, 1]"
    by (simp_all add: bytes32_def byte_of_def bytes48_def bytes16_def net16_def)
  obtain s' p k xs where r: "netd_send_ipv4_arp_packet id 0xc0100000 0 s 0xd0000014 0 0x0201a8c0 ARP_OP_REQ =
      add_tx_buffer id s' p 42 1"
    "rdn s' p k = Some (wire_header (replicate 6 0xff) [82, 84, 0, 18, 52, 86] 0x0806 @
      arp_packet ARP_OP_REQ [82, 84, 0, 18, 52, 86] (bytes32 0x0301a8c0) (bytes48 0) (bytes32 0x0201a8c0) @ xs)"
    using arp_frame_on_wire [OF s(1) netdev_alloc(1) l(1) _ _ _ s(3) l(2) _ s(2) l(3) _ s(6),
        where hw = id and garbage = 0 and mac_target = 0 and ip_target = "0x0201a8c0" and op = ARP_OP_REQ] s(4,5) by auto
  have "rdn s' p k = Some (replicate 6 0xff @ [82, 84, 0, 18, 52, 86] @ [8, 6] @
      [0, 1, 8, 0, 6, 4, 0, 1] @ [82, 84, 0, 18, 52, 86] @ [192, 168, 1, 3] @ [0, 0, 0, 0, 0, 0] @ [192, 168, 1, 2] @ xs)"
    using r(2) by (simp only: wire_header_def arp_packet_def b ARP_OP_REQ_def append.simps append_assoc)
  then show ?thesis using r(1) s(6) by blast
qed

end
