(* ===== verification/PciProps.thy ===== *)
theory PciProps
  imports PrintProps BusProps
begin

text \<open>
  The PCI bus (\<open>kernel/pci-bus/pci.c\<close>) with devices that answer: the configuration registers that are
  read and written, the record of a device in the heap and its entry in the table of devices.
\<close>

section \<open>Devices that answer\<close>

text \<open>A function whose configuration registers read as \<open>cfg\<close>, whatever was asked before.\<close>

definition config_space :: "'a machine_scheme \<Rightarrow> u8 \<Rightarrow> u8 \<Rightarrow> u8 \<Rightarrow> (u8 \<Rightarrow> u32) \<Rightarrow> bool" where
  "config_space s bus slot f cfg \<longleftrightarrow>
     (\<forall>tr reg. io_dev s (Out32 PCI_CFGADDR (pci_cfg_addr bus slot f reg) # tr) PCI_CFGDATA = cfg (reg AND 0xfc))"

text \<open>What the header of the function says: vendor and device in register 0, the class in the upper three bytes
  of register 8, the header type in the third byte of register 12.\<close>

definition device_at :: "u8 \<Rightarrow> u8 \<Rightarrow> u8 \<Rightarrow> (u8 \<Rightarrow> u32) \<Rightarrow> gpci_dev" where
  "device_at bus slot f cfg = \<lparr>gd_bus = bus, gd_slot = slot, gd_func = f, gd_header_typ = ucast (drop_bit 16 (cfg 12)),
     gd_vendor_id = ucast (cfg 0), gd_device_id = ucast (drop_bit 16 (cfg 0)), gd_mainclass = drop_bit 8 (cfg 8)\<rparr>"

lemma config_reads:
  assumes "config_space s bus slot f cfg"
  shows "\<exists>tr. pci_cfg_rdword_at (s\<lparr>io_trace := tr0\<rparr>) bus slot f reg = (cfg (reg AND 0xfc), s\<lparr>io_trace := tr\<rparr>) \<and> sent tr = sent tr0"
  by (intro exI [of _ "In32 PCI_CFGDATA (cfg (reg AND 0xfc)) # Out32 PCI_CFGADDR (pci_cfg_addr bus slot f reg) # tr0"])
     (use assms in \<open>simp add: config_space_def pci_cfg_rdword_at_def io_defs Let_def\<close>)

lemma config_words:
  assumes "config_space s bus slot f cfg"
  shows "\<exists>tr. pci_cfg_rword_at (s\<lparr>io_trace := tr0\<rparr>) bus slot f 0 = (ucast (cfg 0), s\<lparr>io_trace := tr\<rparr>) \<and> sent tr = sent tr0"
    and "\<exists>tr. pci_cfg_rword_at (s\<lparr>io_trace := tr0\<rparr>) bus slot f 2 = (ucast (drop_bit 16 (cfg 0)), s\<lparr>io_trace := tr\<rparr>) \<and> sent tr = sent tr0"
    and "\<exists>tr. pci_cfg_rword_at (s\<lparr>io_trace := tr0\<rparr>) bus slot f 14 = (ucast (drop_bit 16 (cfg 12)), s\<lparr>io_trace := tr\<rparr>) \<and> sent tr = sent tr0"
proof -
  have ones: "(0xffff :: u32) = mask 16" by (simp add: mask_eq_exp_minus_1)
  have m: "(ucast (x AND 0xffff) :: u16) = ucast x" for x :: u32
    unfolding ones by (intro bit_word_eqI) (auto simp: bit_simps)
  show "\<exists>tr. pci_cfg_rword_at (s\<lparr>io_trace := tr0\<rparr>) bus slot f 0 = (ucast (cfg 0), s\<lparr>io_trace := tr\<rparr>) \<and> sent tr = sent tr0"
    and "\<exists>tr. pci_cfg_rword_at (s\<lparr>io_trace := tr0\<rparr>) bus slot f 2 = (ucast (drop_bit 16 (cfg 0)), s\<lparr>io_trace := tr\<rparr>) \<and> sent tr = sent tr0"
    and "\<exists>tr. pci_cfg_rword_at (s\<lparr>io_trace := tr0\<rparr>) bus slot f 14 = (ucast (drop_bit 16 (cfg 12)), s\<lparr>io_trace := tr\<rparr>) \<and> sent tr = sent tr0"
    using config_reads [OF assms, of tr0 0] config_reads [OF assms, of tr0 2] config_reads [OF assms, of tr0 14]
    by (auto simp: pci_cfg_rword_at_def m)
qed

section \<open>The line that is printed\<close>

definition dev_numbers :: "gpci_dev \<Rightarrow> u32 list" where
  "dev_numbers d = [ucast (gd_bus d), ucast (gd_slot d), ucast (gd_func d), ucast (gd_vendor_id d), ucast (gd_device_id d),
     gd_mainclass d, ucast (gd_header_typ d)]"

definition dev_line :: "gpci_dev \<Rightarrow> u8 list" where
  "dev_line d = [9] @ lit ''['' @ number_text 10 (ucast (gd_bus d)) @ lit '':'' @ number_text 10 (ucast (gd_slot d)) @ lit ''](''
     @ number_text 10 (ucast (gd_func d)) @ lit '') '' @ number_text 16 (ucast (gd_vendor_id d)) @ lit '':''
     @ number_text 16 (ucast (gd_device_id d)) @ lit '' ('' @ number_text 16 (gd_mainclass d) @ lit ''/''
     @ number_text 10 (ucast (gd_header_typ d)) @ lit '')'' @ [10, 13]"

definition dev_format :: "u8 list" where
  "dev_format = [9] @ lit ''[%d:%d](%d) %x:%x (%x/%d)'' @ [10]"

lemma dev_line_rendered:
  "rendered dev_format (map PNum (dev_numbers d)) = Some (dev_line d)" "0 \<notin> set dev_format" "length dev_format < 65535"
  "length (dev_line d) \<le> 198"
proof -
  show "rendered dev_format (map PNum (dev_numbers d)) = Some (dev_line d)" "0 \<notin> set dev_format" "length dev_format < 65535"
    by (simp_all add: dev_format_def dev_line_def dev_numbers_def lit_def of_char_def)
  have "length (number_text 10 v) \<le> 10" "length (number_text 16 v) \<le> 10" for v
    using number_text_string(2) [of 10 v] number_text_string(2) [of 16 v] by simp_all
  note l = this(1) [of "ucast (gd_bus d)"] this(1) [of "ucast (gd_slot d)"] this(1) [of "ucast (gd_func d)"]
    this(2) [of "ucast (gd_vendor_id d)"] this(2) [of "ucast (gd_device_id d)"] this(2) [of "gd_mainclass d"]
    this(1) [of "ucast (gd_header_typ d)"]
  show "length (dev_line d) \<le> 198" using l by (simp add: dev_line_def lit_def)
qed

section \<open>The record\<close>

text \<open>The stores of the seven fields, the header type last, fill the record.\<close>

definition store_record :: "'a virtmm_scheme \<Rightarrow> u32 \<Rightarrow> gpci_dev \<Rightarrow> 'a virtmm_scheme option" where
  "store_record t p d = do {
     s7 \<leftarrow> wr8 t p (gd_bus d);
     s8 \<leftarrow> wr8 s7 (p + 1) (gd_slot d);
     s9 \<leftarrow> wr8 s8 (p + 2) (gd_func d);
     s10 \<leftarrow> wr16 s9 (p + 4) (gd_vendor_id d);
     s11 \<leftarrow> wr16 s10 (p + 6) (gd_device_id d);
     s12 \<leftarrow> wr32 s11 (p + 8) (gd_mainclass d);
     wr8 s12 (p + 3) (gd_header_typ d)
   }"

lemma record_run:
  fixes s :: "'a kheap_scheme"
  assumes u: "range_upd s h p m xs t" and m: "12 \<le> m"
  shows "\<exists>t' ws. store_record t p d = Some t' \<and> range_upd s h p m (enc_gpci_dev d @ ws) t'"
proof -
  obtain ys ws where ys: "xs = ys @ ws" "length ys = 12"
    using range_updD(4) [OF u] m that [of "take 12 xs" "drop 12 xs"] by simp
  then obtain b0 b1 b2 b3 b4 b5 b6 b7 b8 b9 b10 b11 where "ys = [b0, b1, b2, b3, b4, b5, b6, b7, b8, b9, b10, b11]"
    by (auto simp: eval_nat_numeral length_Suc_conv)
  then have xs: "xs = [b0, b1, b2, b3, b4, b5, b6, b7, b8, b9, b10, b11] @ ws" using ys(1) by simp
  obtain t1 where 1: "wr8 t p (gd_bus d) = Some t1" "range_upd s h p m (patch 0 [gd_bus d] xs) t1"
    by (rule range_wr8 [OF u, where off = 0 and a = p and v = "gd_bus d"]) (use m in simp_all)
  obtain t2 where 2: "wr8 t1 (p + 1) (gd_slot d) = Some t2" "range_upd s h p m (patch 1 [gd_slot d] (patch 0 [gd_bus d] xs)) t2"
    by (rule range_wr8 [OF 1(2), where off = 1 and a = "p + 1" and v = "gd_slot d"]) (use m in simp_all)
  obtain t3 where 3: "wr8 t2 (p + 2) (gd_func d) = Some t3"
    "range_upd s h p m (patch 2 [gd_func d] (patch 1 [gd_slot d] (patch 0 [gd_bus d] xs))) t3"
    by (rule range_wr8 [OF 2(2), where off = 2 and a = "p + 2" and v = "gd_func d"]) (use m in simp_all)
  have x3: "patch 2 [gd_func d] (patch 1 [gd_slot d] (patch 0 [gd_bus d] xs)) =
      [gd_bus d, gd_slot d, gd_func d, b3, b4, b5, b6, b7, b8, b9, b10, b11] @ ws"
    by (simp add: xs patch_def eval_nat_numeral)
  obtain t4 where 4: "wr16 t3 (p + 4) (gd_vendor_id d) = Some t4" "range_upd s h p m (patch 4 (bytes16 (gd_vendor_id d))
      ([gd_bus d, gd_slot d, gd_func d, b3, b4, b5, b6, b7, b8, b9, b10, b11] @ ws)) t4"
    unfolding bytes16_def by (rule range_wr16 [OF 3(2) [unfolded x3], where off = 4 and a = "p + 4" and v = "gd_vendor_id d"]) (use m in simp_all)
  obtain t5 where 5: "wr16 t4 (p + 6) (gd_device_id d) = Some t5" "range_upd s h p m (patch 6 (bytes16 (gd_device_id d))
      (patch 4 (bytes16 (gd_vendor_id d)) ([gd_bus d, gd_slot d, gd_func d, b3, b4, b5, b6, b7, b8, b9, b10, b11] @ ws))) t5"
    unfolding bytes16_def [of "gd_device_id d"]
    by (rule range_wr16 [OF 4(2), where off = 6 and a = "p + 6" and v = "gd_device_id d"]) (use m in simp_all)
  obtain t6 where 6: "wr32 t5 (p + 8) (gd_mainclass d) = Some t6" "range_upd s h p m (patch 8 (bytes32 (gd_mainclass d))
      (patch 6 (bytes16 (gd_device_id d)) (patch 4 (bytes16 (gd_vendor_id d))
        ([gd_bus d, gd_slot d, gd_func d, b3, b4, b5, b6, b7, b8, b9, b10, b11] @ ws)))) t6"
    by (rule range_wr32 [OF 5(2), where off = 8 and a = "p + 8" and v = "gd_mainclass d"]) (use m in simp_all)
  have x6: "patch 8 (bytes32 (gd_mainclass d)) (patch 6 (bytes16 (gd_device_id d)) (patch 4 (bytes16 (gd_vendor_id d))
        ([gd_bus d, gd_slot d, gd_func d, b3, b4, b5, b6, b7, b8, b9, b10, b11] @ ws))) =
      [gd_bus d, gd_slot d, gd_func d, b3] @ bytes16 (gd_vendor_id d) @ bytes16 (gd_device_id d) @ bytes32 (gd_mainclass d) @ ws"
    by (simp add: patch_def bytes16_def bytes32_def eval_nat_numeral)
  obtain t7 where 7: "wr8 t6 (p + 3) (gd_header_typ d) = Some t7" "range_upd s h p m (patch 3 [gd_header_typ d]
      ([gd_bus d, gd_slot d, gd_func d, b3] @ bytes16 (gd_vendor_id d) @ bytes16 (gd_device_id d) @ bytes32 (gd_mainclass d) @ ws)) t7"
    by (rule range_wr8 [OF 6(2) [unfolded x6], where off = 3 and a = "p + 3" and v = "gd_header_typ d"]) (use m in simp_all)
  have "patch 3 [gd_header_typ d]
      ([gd_bus d, gd_slot d, gd_func d, b3] @ bytes16 (gd_vendor_id d) @ bytes16 (gd_device_id d) @ bytes32 (gd_mainclass d) @ ws) =
      enc_gpci_dev d @ ws"
    by (simp add: patch_def enc_gpci_dev_def eval_nat_numeral)
  then show ?thesis using 1(1) 2(1) 3(1) 4(1) 5(1) 6(1) 7 by (intro exI [of _ t7] exI [of _ ws]) (simp add: store_record_def)
qed

section \<open>A device is entered\<close>

lemma pci_more:
  fixes s s' :: "'a pci_scheme"
  assumes "kheap.more s' = kheap.more s"
  shows "gpci_devs s' = gpci_devs s" "gpci_devs_n s' = gpci_devs_n s"
  using assms by (cases s; cases s'; simp)+

lemma shows_same:
  fixes s s' :: "'a kheap_scheme"
  assumes "screen_shows s h t" and "heap_same s s'" and "io_dev s' = io_dev s" and "vga_cursor_r s' = vga_cursor_r s"
    and "vga_cursor_c s' = vga_cursor_c s"
  shows "screen_shows s' h t"
  using assms on_screen_same(1) [OF assms(2)] by (simp add: screen_shows_def always_ready_def)

lemma number_args: "concat (map arg_numbers (map PNum vs)) = vs" "map arg_word (map PNum vs) = vs"
  "list_all (arg_ok s h) (map PNum vs)"
  by (induction vs) simp_all

text \<open>The line of the device, up to the request for its record.\<close>

lemma device_line_run:
  fixes s :: "'a pci_scheme"
  assumes "screen_shows s h t" and "alloc_ready s h 200" and "numbers_heap (dev_numbers d) (snd (alloc_abs s h 200)) = Some h2"
    and "term_fits t (dev_line d)"
  shows "\<exists>s5 s6 h6 p k xs. printk s dev_format (dev_numbers d) = Some s5 \<and> kmalloc s5 12 = Some (p, s6) \<and> 12 \<le> k \<and>
    range_upd s6 h6 p k xs s6 \<and> live h \<subseteq> live h6 \<and> p \<notin> fst ` live h \<and> kept h s s6 \<and>
    screen_shows s6 h6 (foldl term_put t (dev_line d)) \<and> sent (io_trace s6) = sent (io_trace s) @ dev_line d"
proof -
  note ln = dev_line_rendered(1) [of d] dev_line_rendered(2,3) dev_line_rendered(4) [of d] and na = number_args [where vs = "dev_numbers d"]
  have nh: "numbers_heap (concat (map arg_numbers (map PNum (dev_numbers d)))) (snd (alloc_abs s h 200)) = Some h2"
    unfolding na(1) by (rule assms(3))
  obtain s5 h5 where 5: "printk s dev_format (dev_numbers d) = Some s5" "screen_shows s5 h5 (foldl term_put t (dev_line d))"
    "live h5 = live h \<union> (live h2 - live (snd (alloc_abs s h 200)))" "kept h s s5"
    "sent (io_trace s5) = sent (io_trace s) @ dev_line d" "alloc_ready s5 h5 12"
    using printk_run [OF assms(1,2) ln(1-4) na(3) assms(4) nh] unfolding na(2) by (auto simp: round16_def)
  have inv5: "heap_inv s5 h5" using 5(2) by (simp add: screen_shows_def on_screen_def)
  let ?h6 = "snd (alloc_abs s5 h5 12)"
  obtain p k s6 xs where 6: "kmalloc s5 12 = Some (p, s6)" "unat (round16 12) \<le> k" "live ?h6 = insert (p, k) (live h5)"
    "p \<notin> fst ` live h5" "range_upd s6 ?h6 p k xs s6"
    and c6: "\<forall>q k. (q, k) \<in> live h5 \<longrightarrow> rdn s6 q k = rdn s5 q k" "heap_frame s5 s6"
    by (rule new_range [OF inv5 5(6)])
  have lv: "live h \<subseteq> live h5" using 5(3) by blast
  have "kept h s s6" using 5(4) c6(1) frame_globals(5) [OF c6(2)] lv by (auto simp: kept_def)
  moreover have "screen_shows s6 ?h6 (foldl term_put t (dev_line d))" by (rule shows_frame [OF 5(2) c6(2) range_updD(1) [OF 6(5)]])
  moreover have "sent (io_trace s6) = sent (io_trace s) @ dev_line d" using 5(5) frame_globals(2) [OF c6(2)] by simp
  moreover have "p \<notin> fst ` live h" using 6(4) lv by auto
  moreover have "12 \<le> k" using 6(2) by (simp add: round16_def)
  ultimately show ?thesis using 5(1) 6(1,3,5) lv by blast
qed

text \<open>The entry in the table of devices.\<close>

lemma entry_run:
  fixes s :: "'a pci_scheme"
  assumes inv: "heap_inv s h" and tb: "(gpci_devs s, m) \<in> live h" and r: "rdn s (gpci_devs s) m = Some tab"
    and n: "4 * unat (gpci_devs_n s) + 4 \<le> m"
  shows "\<exists>s'. wr32 (s\<lparr>gpci_devs_n := gpci_devs_n s + 1\<rparr>) (gpci_devs s + 4 * gpci_devs_n s) p = Some s' \<and>
    range_upd (s\<lparr>gpci_devs_n := gpci_devs_n s + 1\<rparr>) h (gpci_devs s) m (patch (4 * unat (gpci_devs_n s)) (bytes32 p) tab) s' \<and>
    gpci_devs s' = gpci_devs s \<and> gpci_devs_n s' = gpci_devs_n s + 1"
proof -
  let ?u = "s\<lparr>gpci_devs_n := gpci_devs_n s + 1\<rparr>"
  have "heap_same s ?u" by (simp add: heap_same_def vm_same_def)
  note sm = heap_same_inv [OF this]
  have iu: "heap_inv ?u h" using inv by (simp add: sm)
  have ru: "rdn ?u (gpci_devs s) m = Some tab" using r by (simp add: sm)
  have a: "gpci_devs s + 4 * gpci_devs_n s = gpci_devs s + word_of_nat (4 * unat (gpci_devs_n s))" by simp
  obtain s' where s': "wr32 ?u (gpci_devs s + 4 * gpci_devs_n s) p = Some s'"
    "range_upd ?u h (gpci_devs s) m (patch (4 * unat (gpci_devs_n s)) (bytes32 p) tab) s'"
    by (rule range_wr32 [OF range_updI [OF iu tb ru] n a])
  then show ?thesis using pci_more [OF frame_globals(5) [OF range_updD(6) [OF s'(2)]]] by auto
qed

lemma enter_run:
  fixes s :: "'a pci_scheme"
  assumes u: "range_upd s h p k xs s" and k: "12 \<le> k" and sh: "screen_shows s h t"
    and tb: "(gpci_devs s, m) \<in> live h" "gpci_devs s \<noteq> p" "rdn s (gpci_devs s) m = Some tab" "4 * unat (gpci_devs_n s) + 4 \<le> m"
  shows "\<exists>s13 s'. store_record s p d = Some s13 \<and>
    wr32 (s13\<lparr>gpci_devs_n := gpci_devs_n s13 + 1\<rparr>) (gpci_devs s13 + 4 * gpci_devs_n s13) p = Some s' \<and>
    screen_shows s' h t \<and> io_trace s' = io_trace s \<and> rdn s' p 12 = Some (enc_gpci_dev d) \<and>
    gpci_devs s' = gpci_devs s \<and> gpci_devs_n s' = gpci_devs_n s + 1 \<and>
    rdn s' (gpci_devs s) m = Some (patch (4 * unat (gpci_devs_n s)) (bytes32 p) tab) \<and>
    (\<forall>q k. (q, k) \<in> live h \<longrightarrow> q \<noteq> p \<longrightarrow> q \<noteq> gpci_devs s \<longrightarrow> rdn s' q k = rdn s q k)"
proof -
  obtain s13 ws where 13: "store_record s p d = Some s13" "range_upd s h p k (enc_gpci_dev d @ ws) s13"
    using record_run [OF u k, of d] by blast
  note d13 = range_updD [OF 13(2)] and g = pci_more [OF frame_globals(5) [OF range_updD(6) [OF 13(2)]]]
  let ?u = "s13\<lparr>gpci_devs_n := gpci_devs_n s13 + 1\<rparr>"
  have t13: "(gpci_devs s13, m) \<in> live h" "rdn s13 (gpci_devs s13) m = Some tab" "4 * unat (gpci_devs_n s13) + 4 \<le> m"
    using tb d13(7) [OF tb(1,2)] by (simp_all add: g)
  obtain s' where s': "wr32 ?u (gpci_devs s13 + 4 * gpci_devs_n s13) p = Some s'"
    "range_upd ?u h (gpci_devs s13) m (patch (4 * unat (gpci_devs_n s13)) (bytes32 p) tab) s'"
    "gpci_devs s' = gpci_devs s13" "gpci_devs_n s' = gpci_devs_n s13 + 1"
    using entry_run [OF d13(1) t13] by blast
  note d' = range_updD [OF s'(2)]
  have same: "heap_same s13 ?u" by (simp add: heap_same_def vm_same_def)
  have keep: "rdn s' q l = rdn s13 q l" if "(q, l) \<in> live h" "q \<noteq> gpci_devs s" for q l
    using d'(7) [OF that(1)] that(2) heap_same_inv [OF same] by (simp add: g)
  have "screen_shows ?u h t" by (rule shows_same [OF shows_frame [OF sh d13(6,1)] same]) simp_all
  then have "screen_shows s' h t" by (rule shows_frame [OF _ d'(6,1)])
  moreover have "io_trace s' = io_trace s" using frame_globals(2) [OF d'(6)] frame_globals(2) [OF d13(6)] by simp
  moreover have pk: "rdn s' p k = Some (enc_gpci_dev d @ ws)" using keep [OF d13(2)] tb(2) d13(3) by auto
  then have "rdn s' p 12 = Some (enc_gpci_dev d)"
    using rdn_part [OF pk, of 0 12] k d13(4) gpci_dev.length_encode [of d] by simp
  moreover have "rdn s' q l = rdn s q l" if "(q, l) \<in> live h" "q \<noteq> p" "q \<noteq> gpci_devs s" for q l
    using keep [OF that(1,3)] d13(7) [OF that(1,2)] by simp
  ultimately show ?thesis using 13(1) s'(1) s'(3,4) [unfolded g] d'(3) [unfolded g] by blast
qed

text \<open>The questions to the function.\<close>

lemma probe_run:
  fixes s :: "'a pci_scheme"
  assumes cs: "config_space s bus slot f cfg" and v: "(ucast (cfg 0) :: u16) \<noteq> 0xffff"
  shows "\<exists>tr. sent tr = sent (io_trace s) \<and> pci_add_dev s bus slot f = do {
      s5 \<leftarrow> printk (s\<lparr>io_trace := tr\<rparr>) dev_format (dev_numbers (device_at bus slot f cfg));
      (p, s6) \<leftarrow> kmalloc s5 12;
      s13 \<leftarrow> store_record s6 p (device_at bus slot f cfg);
      s14 \<leftarrow> wr32 (s13\<lparr>gpci_devs_n := gpci_devs_n s13 + 1\<rparr>) (gpci_devs s13 + 4 * gpci_devs_n s13) p;
      Some (p, s14) }"
proof -
  obtain t1 where 1: "pci_cfg_rword_at s bus slot f 0 = (ucast (cfg 0), s\<lparr>io_trace := t1\<rparr>)" "sent t1 = sent (io_trace s)"
    using config_words(1) [OF cs, of "io_trace s"] by auto
  obtain t2 where 2: "pci_cfg_rword_at (s\<lparr>io_trace := t1\<rparr>) bus slot f 2 = (ucast (drop_bit 16 (cfg 0)), s\<lparr>io_trace := t2\<rparr>)"
    "sent t2 = sent t1" using config_words(2) [OF cs, of t1] by blast
  obtain t3 where 3: "pci_cfg_rdword_at (s\<lparr>io_trace := t2\<rparr>) bus slot f 8 = (cfg 8, s\<lparr>io_trace := t3\<rparr>)"
    "sent t3 = sent t2" using config_reads [OF cs, of t2 8] by auto
  obtain t4 where 4: "pci_cfg_rword_at (s\<lparr>io_trace := t3\<rparr>) bus slot f 14 = (ucast (drop_bit 16 (cfg 12)), s\<lparr>io_trace := t4\<rparr>)"
    "sent t4 = sent t3" using config_words(3) [OF cs, of t3] by blast
  have "(ucast (ucast (drop_bit 16 (cfg 12)) :: u16) :: u8) = ucast (drop_bit 16 (cfg 12))"
    by (rule bit_word_eqI) (auto simp: bit_simps)
  then show ?thesis
    using 1 2 3 4 v
    by (intro exI [of _ t4])
       (simp add: pci_add_dev_def pci_get_vendor_def pci_get_htype_def device_at_def dev_format_def dev_numbers_def
         store_record_def Let_def)
qed

text \<open>C20: \<open>pci_add_dev\<close> on a function that answers prints its line, takes a new range for its record, stores the
  record as \<open>struct gpci_dev\<close> lays it out, enters its address as the next element of the table and counts
  it; the rest of the table and all other ranges of the heap keep their contents.\<close>

theorem pci_add_dev_enters:
  fixes s :: "'a pci_scheme"
  assumes "screen_shows s h t" and "config_space s bus slot f cfg" and "(ucast (cfg 0) :: u16) \<noteq> 0xffff"
    and "alloc_ready s h 200" and "numbers_heap (dev_numbers (device_at bus slot f cfg)) (snd (alloc_abs s h 200)) = Some h2"
    and "term_fits t (dev_line (device_at bus slot f cfg))" and "(gpci_devs s, m) \<in> live h"
    and "rdn s (gpci_devs s) m = Some tab" and "4 * unat (gpci_devs_n s) + 4 \<le> m"
  shows "\<exists>p k s' h'. pci_add_dev s bus slot f = Some (p, s') \<and>
    screen_shows s' h' (foldl term_put t (dev_line (device_at bus slot f cfg))) \<and>
    sent (io_trace s') = sent (io_trace s) @ dev_line (device_at bus slot f cfg) \<and>
    p \<notin> fst ` live h \<and> insert (p, k) (live h) \<subseteq> live h' \<and> rdn s' p 12 = Some (enc_gpci_dev (device_at bus slot f cfg)) \<and>
    gpci_devs_n s' = gpci_devs_n s + 1 \<and> gpci_devs s' = gpci_devs s \<and>
    rdn s' (gpci_devs s) m = Some (patch (4 * unat (gpci_devs_n s)) (bytes32 p) tab) \<and>
    (\<forall>q k. (q, k) \<in> live h \<longrightarrow> q \<noteq> gpci_devs s \<longrightarrow> rdn s' q k = rdn s q k)"
proof -
  let ?d = "device_at bus slot f cfg"
  obtain tr where tr: "sent tr = sent (io_trace s)" "pci_add_dev s bus slot f = do {
      s5 \<leftarrow> printk (s\<lparr>io_trace := tr\<rparr>) dev_format (dev_numbers ?d);
      (p, s6) \<leftarrow> kmalloc s5 12;
      s13 \<leftarrow> store_record s6 p ?d;
      s14 \<leftarrow> wr32 (s13\<lparr>gpci_devs_n := gpci_devs_n s13 + 1\<rparr>) (gpci_devs s13 + 4 * gpci_devs_n s13) p;
      Some (p, s14) }"
    using probe_run [OF assms(2,3)] by blast
  let ?s4 = "s\<lparr>io_trace := tr\<rparr>"
  have same: "heap_same s ?s4" by (simp add: heap_same_def vm_same_def)
  note sm = heap_same_inv [OF same]
  have sh4: "screen_shows ?s4 h t" by (rule shows_same [OF assms(1) same]) simp_all
  have rd4: "alloc_ready ?s4 h 200" and nh4: "numbers_heap (dev_numbers ?d) (snd (alloc_abs ?s4 h 200)) = Some h2"
    using assms(4,5) by (simp_all add: sm)
  obtain s5 s6 h6 p k xs where 6: "printk ?s4 dev_format (dev_numbers ?d) = Some s5" "kmalloc s5 12 = Some (p, s6)" "12 \<le> k"
    "range_upd s6 h6 p k xs s6" "live h \<subseteq> live h6" "p \<notin> fst ` live h" "kept h ?s4 s6"
    "screen_shows s6 h6 (foldl term_put t (dev_line ?d))" "sent (io_trace s6) = sent (io_trace ?s4) @ dev_line ?d"
    using device_line_run [OF sh4 rd4 nh4 assms(6)] by blast
  have g: "gpci_devs s6 = gpci_devs s" "gpci_devs_n s6 = gpci_devs_n s"
    using pci_more [of ?s4 s6] 6(7) by (simp_all add: kept_def)
  have np: "q \<noteq> p" if "(q, l) \<in> live h" for q l using 6(6) that by (force simp: image_iff)
  have keep: "rdn s6 q l = rdn s q l" if "(q, l) \<in> live h" for q l using 6(7) that by (simp add: kept_def sm)
  have tb: "(gpci_devs s6, m) \<in> live h6" "gpci_devs s6 \<noteq> p" "rdn s6 (gpci_devs s6) m = Some tab" "4 * unat (gpci_devs_n s6) + 4 \<le> m"
    unfolding g using 6(5) assms(7-9) np [OF assms(7)] keep [OF assms(7)] by auto
  obtain s13 s' where 7: "store_record s6 p ?d = Some s13"
    "wr32 (s13\<lparr>gpci_devs_n := gpci_devs_n s13 + 1\<rparr>) (gpci_devs s13 + 4 * gpci_devs_n s13) p = Some s'"
    "screen_shows s' h6 (foldl term_put t (dev_line ?d))" "io_trace s' = io_trace s6" "rdn s' p 12 = Some (enc_gpci_dev ?d)"
    "gpci_devs s' = gpci_devs s6" "gpci_devs_n s' = gpci_devs_n s6 + 1"
    "rdn s' (gpci_devs s6) m = Some (patch (4 * unat (gpci_devs_n s6)) (bytes32 p) tab)"
    and c7: "\<forall>q k. (q, k) \<in> live h6 \<longrightarrow> q \<noteq> p \<longrightarrow> q \<noteq> gpci_devs s6 \<longrightarrow> rdn s' q k = rdn s6 q k"
    using enter_run [OF 6(4,3,8) tb, of ?d] by blast
  have "rdn s' q l = rdn s q l" if "(q, l) \<in> live h" "q \<noteq> gpci_devs s" for q l
    using c7 that np [OF that(1)] keep [OF that(1)] 6(5) g by auto
  moreover have "insert (p, k) (live h) \<subseteq> live h6" using 6(5) range_updD(2) [OF 6(4)] by blast
  moreover have "pci_add_dev s bus slot f = Some (p, s')" unfolding tr(2) using 6(1,2) 7(1,2) by simp
  moreover have "sent (io_trace s') = sent (io_trace s) @ dev_line ?d" using 6(9) 7(4) tr(1) by simp
  ultimately show ?thesis using 6(6) 7(3,5-8) unfolding g by blast
qed

text \<open>The machine with the table of devices allocated, as \<open>init_pci\<close> leaves it to the enumeration.\<close>

lemma table_state:
  obtains s :: nic where "kmalloc boot_nic 128 = Some (0xd0000014, s)"
    and "heap_inv s [(0xd0000000, 128, False), (0xd0000094, 3928, True)]"
    and "\<forall>zs. on_screen boot [] zs \<longrightarrow>
      screen_shows s [(0xd0000000, 128, False), (0xd0000094, 3928, True)] \<lparr>t_cells = zs, t_row = 0, t_col = 0\<rparr>"
    and "kheap.more s = kheap.more boot_nic" and "io_trace s = []" and "io_dev s = (\<lambda>_ _. 0x20)"
proof -
  have rd: "alloc_ready boot_nic [] 128"
    using boot_mmap_page by (auto simp: boot_nic_inv alloc_ready_def grow_ok_def grow_request_def round16_def heap_end_def)
  have al: "alloc_abs boot_nic [] 128 = (0xd0000000, [(0xd0000000, 128, False), (0xd0000094, 3928, True)])"
    by (simp add: boot_nic_inv alloc_abs_def grow_request_def round16_def grow_bytes_def carve_def)
  obtain s :: nic where s: "kmalloc boot_nic 128 = Some (0xd0000014, s)"
    "heap_inv s [(0xd0000000, 128, False), (0xd0000094, 3928, True)]" "heap_frame boot_nic s"
    using kmalloc_refine [OF boot_nic_heap rd] by (auto simp: al)
  have "screen_shows s [(0xd0000000, 128, False), (0xd0000094, 3928, True)] \<lparr>t_cells = zs, t_row = 0, t_col = 0\<rparr>"
    if zs: "on_screen boot [] zs" for zs
  proof (rule shows_frame [OF _ s(3,2)])
    have "on_screen boot_nic [] zs" using zs on_screen_same(1) [OF boot_nic_same] by simp
    then show "screen_shows boot_nic [] \<lparr>t_cells = zs, t_row = 0, t_col = 0\<rparr>"
      by (simp add: screen_shows_def always_ready_def boot_nic_def boot_def)
  qed
  moreover note frame_globals [OF s(3)]
  ultimately show ?thesis using that s(1,2) by (simp add: boot_nic_def boot_def)
qed

theorem pci_add_dev_enters_witness:
  "\<exists>(s :: nic) p s'. kmalloc boot_nic 128 = Some (0xd0000014, s) \<and>
    pci_add_dev (s\<lparr>gpci_devs := 0xd0000014\<rparr>) 0 3 0 = Some (p, s') \<and> gpci_devs_n s' = 1 \<and>
    rdn s' p 12 = Some [0, 3, 0, 0, 0x20, 0, 0, 0, 0, 0, 0, 0] \<and>
    sent (io_trace s') = [9] @ lit ''[0:3](0) 20:0 (0/0)'' @ [10, 13]"
proof -
  let ?h = "[(0xd0000000, 128, False), (0xd0000094, 3928, True)] :: blk list"
  let ?d = "device_at 0 3 0 (\<lambda>_. 0x20)"
  obtain s :: nic where s: "kmalloc boot_nic 128 = Some (0xd0000014, s)" "heap_inv s ?h"
    "\<forall>zs. on_screen boot [] zs \<longrightarrow> screen_shows s ?h \<lparr>t_cells = zs, t_row = 0, t_col = 0\<rparr>"
    "kheap.more s = kheap.more boot_nic" "io_trace s = []" "io_dev s = (\<lambda>_ _. 0x20)"
    by (rule table_state)
  let ?u = "s\<lparr>gpci_devs := 0xd0000014\<rparr>"
  obtain zs where zs: "on_screen boot [] zs" using boot_shows by blast
  let ?t = "\<lparr>t_cells = zs, t_row = 0, t_col = 0\<rparr>"
  have same: "heap_same s ?u" by (simp add: heap_same_def vm_same_def)
  have sh: "screen_shows ?u ?h ?t" by (rule shows_same [OF s(3) [rule_format, OF zs] same]) simp_all
  have g: "gpci_devs ?u = 0xd0000014" "gpci_devs_n ?u = 0" using pci_more [OF s(4)] by (simp_all add: boot_nic_def)
  have cs: "config_space ?u 0 3 0 (\<lambda>_. 0x20)" by (simp add: config_space_def s(6))
  have rd: "alloc_ready ?u ?h 200" by (simp add: alloc_ready_def round16_def)
  have al: "snd (alloc_abs ?u ?h 200) = [(0xd0000000, 128, False), (0xd0000094, 208, False), (0xd0000178, 3700, True)]"
    by (simp add: alloc_abs_def round16_def carve_def)
  have nh: "numbers_heap (dev_numbers ?d) (snd (alloc_abs ?u ?h 200)) =
      Some [(0xd0000000, 128, False), (0xd0000094, 208, False), (0xd0000178, 32, True), (0xd00001ac, 3628, False)]"
    unfolding al by (simp add: dev_numbers_def device_at_def number_len_def carve_def release_abs_def absorb_next_def)
  have nt: "number_text 10 0 = [48]" "number_text 16 0 = [48]" "number_text 10 3 = [51]" "number_text 16 0x20 = [50, 48]"
    by (simp_all add: number_text_def digits.simps digit_char_def)
  have ln: "dev_line ?d = [9, 91, 48, 58, 51, 93, 40, 48, 41, 32, 50, 48, 58, 48, 32, 40, 48, 47, 48, 41] @ [10, 13]"
    by (simp add: dev_line_def device_at_def nt lit_def of_char_def)
  have fit: "term_fits ?t (dev_line ?d)" unfolding ln by (simp add: term_eval)
  obtain tab where tab: "rdn ?u (gpci_devs ?u) 128 = Some tab"
    using live_contents [OF s(2), of "0xd0000014" 128] heap_same_inv [OF same] by (auto simp: g)
  have lv: "(gpci_devs ?u, 128) \<in> live ?h" by (simp add: g)
  have v: "(ucast (0x20 :: u32) :: u16) \<noteq> 0xffff" and n: "4 * unat (gpci_devs_n ?u) + 4 \<le> 128" by (simp_all add: g)
  obtain p s' where s': "pci_add_dev ?u 0 3 0 = Some (p, s')" "sent (io_trace s') = sent (io_trace ?u) @ dev_line ?d"
    "rdn s' p 12 = Some (enc_gpci_dev ?d)" "gpci_devs_n s' = gpci_devs_n ?u + 1"
    using pci_add_dev_enters [OF sh cs v rd nh fit lv tab n] by blast
  have "enc_gpci_dev ?d = [0, 3, 0, 0, 0x20, 0, 0, 0, 0, 0, 0, 0]"
    by (simp add: enc_gpci_dev_def device_at_def bytes16_def bytes32_def byte_of_def)
  moreover have "[9] @ lit ''[0:3](0) 20:0 (0/0)'' @ [10, 13] = dev_line ?d" unfolding ln by (simp add: lit_def of_char_def)
  ultimately show ?thesis using s(1,5) s' g by (intro exI [of _ s] exI [of _ p] exI [of _ s']) simp
qed

section \<open>A bus without devices\<close>

text \<open>The traffic of a question that nobody answers, the latest event first.\<close>

definition no_answer :: "u32 \<Rightarrow> io_event list" where
  "no_answer a = [In32 PCI_CFGDATA 0xffffffff, Out32 PCI_CFGADDR a]"

lemma absent_dword:
  assumes "config_space s bus slot f (\<lambda>_. 0xffffffff)"
  shows "pci_cfg_rdword_at (s\<lparr>io_trace := tr\<rparr>) bus slot f reg =
    (0xffffffff, s\<lparr>io_trace := no_answer (pci_cfg_addr bus slot f reg) @ tr\<rparr>)"
  using assms by (simp add: config_space_def pci_cfg_rdword_at_def io_defs no_answer_def Let_def)

lemma absent_words:
  assumes "config_space s bus slot f (\<lambda>_. 0xffffffff)"
  shows "pci_get_vendor (s\<lparr>io_trace := tr\<rparr>) bus slot f = (0xffff, s\<lparr>io_trace := no_answer (pci_cfg_addr bus slot f 0) @ tr\<rparr>)"
    and "pci_get_htype (s\<lparr>io_trace := tr\<rparr>) bus slot f = (0xff, s\<lparr>io_trace := no_answer (pci_cfg_addr bus slot f 14) @ tr\<rparr>)"
  by (simp_all add: pci_get_vendor_def pci_get_htype_def pci_cfg_rword_at_def absent_dword [OF assms])

text \<open>The registers asked for, the last one first: function 7 down to 0 of bus 0, slot 0, and the header type.\<close>

definition root_questions :: "u32 list" where
  "root_questions = [0x80000700, 0x80000600, 0x80000500, 0x80000400, 0x80000300, 0x80000200, 0x80000100, 0x80000000, 0x8000000c]"

lemma enumerate_none:
  fixes s :: "'a pci_scheme"
  assumes "\<forall>f. config_space s 0 0 f (\<lambda>_. 0xffffffff)"
  shows "pci_enumerate_devs s = Some (s\<lparr>io_trace := concat (map no_answer root_questions) @ io_trace s\<rparr>)"
proof -
  let ?T = "\<lambda>i. concat (map (\<lambda>j. no_answer (pci_cfg_addr 0 0 (word_of_nat j) 0)) (rev [0..<i])) @
    no_answer (pci_cfg_addr 0 0 0 14) @ io_trace s"
  let ?f = "\<lambda>func t. let (v, t1) = pci_get_vendor t 0 0 (word_of_nat func)
    in if v \<noteq> 0xffff then pci_findall t1 (word_of_nat func) else Some t1"
  have a: "config_space s 0 0 f (\<lambda>_. 0xffffffff)" for f using assms by blast
  have 0: "pci_get_htype s 0 0 0 = (0xff, s\<lparr>io_trace := ?T 0\<rparr>)"
    using absent_words(2) [OF a, of "io_trace s"] by simp
  have "\<exists>t'. for_loop 0 8 ?f (s\<lparr>io_trace := ?T 0\<rparr>) = Some t' \<and> t' = s\<lparr>io_trace := ?T (0 + 8)\<rparr>"
  proof (rule for_loop_inv)
    fix i t assume "t = s\<lparr>io_trace := ?T i\<rparr>"
    then have "?f i t = Some (s\<lparr>io_trace := ?T (Suc i)\<rparr>)" using absent_words(1) [OF a] by simp
    then show "\<exists>t'. ?f i t = Some t' \<and> t' = s\<lparr>io_trace := ?T (Suc i)\<rparr>" by blast
  qed simp
  moreover have "?T (0 + 8) = concat (map no_answer root_questions) @ io_trace s"
    by (simp add: root_questions_def upt_rec pci_cfg_addr_def)
  ultimately show ?thesis using 0 by (simp add: pci_enumerate_devs_def PCI_MULTIFUNC_def)
qed

text \<open>C40: When nothing answers at bus 0, slot 0, \<open>init_pci\<close> takes the table of devices from the heap, asks exactly
  nine questions and nothing else of the ports (the header type of the root, which reads as a
  controller with several buses, then the vendors of functions 0 to 7 in this order), enters nothing, prints
  nothing and reports STATUS_FAILED_INIT; the guard then stops the kernel.\<close>

theorem init_pci_no_device:
  fixes s :: "'a pci_scheme"
  assumes "heap_inv s h" and "alloc_ready s h 128" and "\<forall>f. config_space s 0 0 f (\<lambda>_. 0xffffffff)" and "gpci_devs_n s = 0"
  shows "\<exists>p s1. kmalloc s 128 = Some (p, s1) \<and>
    init_pci s = Some (STATUS_FAILED_INIT, s1\<lparr>gpci_devs := p, io_trace :=
      concat (map (\<lambda>a. [In32 PCI_CFGDATA 0xffffffff, Out32 PCI_CFGADDR a])
        [0x80000700, 0x80000600, 0x80000500, 0x80000400, 0x80000300, 0x80000200, 0x80000100, 0x80000000, 0x8000000c]) @
      io_trace s\<rparr>) \<and> guarded (init_pci s) = None"
proof -
  obtain p m s1 xs where 1: "kmalloc s 128 = Some (p, s1)" and f: "heap_frame s s1"
    by (rule new_range [OF assms(1,2)])
  note g = frame_globals [OF f]
  let ?s2 = "s1\<lparr>gpci_devs := p\<rparr>"
  have "\<forall>f. config_space ?s2 0 0 f (\<lambda>_. 0xffffffff)" using assms(3) g(1) by (simp add: config_space_def)
  then have e: "pci_enumerate_devs ?s2 = Some (?s2\<lparr>io_trace := concat (map no_answer root_questions) @ io_trace s\<rparr>)"
    using enumerate_none [of ?s2] g(2) by simp
  have "gpci_devs_n s1 = 0" using pci_more [OF g(5)] assms(4) by simp
  then have r: "init_pci s = Some (STATUS_FAILED_INIT, s1\<lparr>gpci_devs := p, io_trace :=
      concat (map no_answer root_questions) @ io_trace s\<rparr>)"
    using 1 e by (simp add: init_pci_def)
  moreover have "guarded (init_pci s) = None"
    by (simp add: guarded_def kguard_def r status_defs split: bind_split)
  ultimately show ?thesis using 1 unfolding no_answer_def root_questions_def by blast
qed

theorem init_pci_no_device_witness:
  "\<exists>s'. init_pci (boot_nic\<lparr>io_dev := \<lambda>_ _. 0xffffffff\<rparr>) = Some (STATUS_FAILED_INIT, s') \<and> gpci_devs s' = 0xd0000014 \<and>
    length (io_trace s') = 18 \<and> hd (io_trace s') = In32 PCI_CFGDATA 0xffffffff \<and> last (io_trace s') = Out32 PCI_CFGADDR 0x8000000c"
proof -
  let ?s = "boot_nic\<lparr>io_dev := \<lambda>_ _. 0xffffffff\<rparr>"
  have "heap_same boot_nic ?s" by (simp add: heap_same_def vm_same_def)
  note sm = heap_same_inv [OF this]
  have inv: "heap_inv ?s []" using boot_nic_heap by (simp add: sm)
  have rd: "alloc_ready ?s [] 128"
    using boot_mmap_page by (auto simp: sm boot_nic_inv alloc_ready_def grow_ok_def grow_request_def round16_def heap_end_def)
  have al: "alloc_abs ?s [] 128 = (0xd0000000, [(0xd0000000, 128, False), (0xd0000094, 3928, True)])"
    by (simp add: sm boot_nic_inv alloc_abs_def grow_request_def round16_def grow_bytes_def carve_def)
  obtain s1 :: nic where k: "kmalloc ?s 128 = Some (0xd0000014, s1)"
    using kmalloc_refine [OF inv rd] by (auto simp: al)
  have cs: "\<forall>f. config_space ?s 0 0 f (\<lambda>_. 0xffffffff)" and n: "gpci_devs_n ?s = 0"
    by (simp_all add: config_space_def boot_nic_def)
  have "io_trace ?s = []" by (simp add: boot_nic_def boot_def)
  then show ?thesis using init_pci_no_device [OF inv rd cs n] k by auto
qed

section \<open>Bus mastering\<close>

text \<open>C38: \<open>pci_enable_bus_mastering\<close> reads the command register of the device whose record it is given, writes it
  back with bit 2 set and all other bits as they were, and reads it again; it returns if and only if the
  device shows the bit as set, and has then done nothing but this traffic.\<close>

theorem pci_enable_bus_mastering_sets:
  fixes s :: "'a cpu_scheme"
  assumes "rdn s p 12 = Some (enc_gpci_dev d)"
  shows "let a = pci_cfg_addr (gd_bus d) (gd_slot d) (gd_func d) 4;
      v = io_dev s (Out32 PCI_CFGADDR a # io_trace s) PCI_CFGDATA;
      tr = [Out32 PCI_CFGADDR a, Out32 PCI_CFGDATA (set_bit 2 v), Out32 PCI_CFGADDR a, In32 PCI_CFGDATA v, Out32 PCI_CFGADDR a] @
        io_trace s;
      c = io_dev s tr PCI_CFGDATA
    in pci_enable_bus_mastering s p = (if bit c 2 then Some (s\<lparr>io_trace := In32 PCI_CFGDATA c # tr\<rparr>) else None)"
proof -
  have r: "rd8 (s\<lparr>io_trace := tr\<rparr>) x = rd8 s x" for tr x by (simp add: rd8_def translate_def split: option.splits)
  have b: "rd8 s p = Some (gd_bus d)" "rd8 s (p + 1) = Some (gd_slot d)" "rd8 s (p + 2) = Some (gd_func d)"
    using rdn_nth [OF assms, of 0] rdn_nth [OF assms, of 1] rdn_nth [OF assms, of 2] by (simp_all add: enc_gpci_dev_def)
  have "x OR 4 = set_bit 2 x" for x :: u32 by (simp add: set_bit_eq_or)
  moreover have "x AND 4 = 0 \<longleftrightarrow> \<not> bit x 2" for x :: u32
    using and_exp_eq_0_iff_not_bit [of x 2] by simp
  ultimately show ?thesis
    using b by (simp add: pci_enable_bus_mastering_def pci_cfg_rdword_def pci_cfg_wdword_def pci_cfg_rdword_at_def io_defs r Let_def)
qed

theorem pci_enable_bus_mastering_sets_witness:
  "\<exists>(s :: nic) s'. rdn s 0xd0000014 12 = Some [0, 3, 0, 0, 0x86, 0x80, 0x0e, 0x10, 0, 0, 2, 0] \<and>
    pci_enable_bus_mastering s 0xd0000014 = Some s' \<and>
    io_trace s' = [In32 PCI_CFGDATA 0x24, Out32 PCI_CFGADDR 0x80001804, Out32 PCI_CFGDATA 0x24, Out32 PCI_CFGADDR 0x80001804,
      In32 PCI_CFGDATA 0x24, Out32 PCI_CFGADDR 0x80001804]"
proof -
  let ?d = "\<lparr>gd_bus = 0, gd_slot = 3, gd_func = 0, gd_header_typ = 0, gd_vendor_id = 0x8086, gd_device_id = 0x100e,
    gd_mainclass = 0x20000\<rparr>"
  have e: "enc_gpci_dev ?d = [0, 3, 0, 0, 0x86, 0x80, 0x0e, 0x10, 0, 0, 2, 0]"
    by (simp add: enc_gpci_dev_def bytes16_def bytes32_def byte_of_def)
  have rd: "alloc_ready boot_nic [] 16" and al: "alloc_abs boot_nic [] 16 = (0xd0000000, one_block)"
    using boot_grow boot_alloc by (simp_all add: boot_nic_inv)
  obtain s1 :: nic where 1: "heap_inv s1 one_block" "heap_frame boot_nic s1"
    using kmalloc_refine [OF boot_nic_heap rd] by (auto simp: al)
  have pm: "(0xd0000014, 16) \<in> live one_block" by (simp add: one_block_live)
  obtain xs where "rdn s1 0xd0000014 16 = Some xs" by (rule live_contents [OF 1(1) pm])
  then have "fills s1 one_block 0xd0000014 16 [] s1" by (intro fills_start [OF range_updI [OF 1(1) pm]])
  then obtain s2 where "fills s1 one_block 0xd0000014 16 ([] @ enc_gpci_dev ?d) s2"
    by (rule fills_wrn [where a = "0xd0000014" and bs = "enc_gpci_dev ?d"]) (simp_all add: e)
  then obtain ws where u: "range_upd s1 one_block 0xd0000014 16 (enc_gpci_dev ?d @ ws) s2" by (auto simp: fills_def)
  note d = range_updD [OF u]
  let ?s = "s2\<lparr>io_dev := \<lambda>_ _. 0x24\<rparr>"
  have "heap_same s2 ?s" by (simp add: heap_same_def vm_same_def)
  then have r: "rdn ?s 0xd0000014 12 = Some (enc_gpci_dev ?d)"
    using rdn_part [OF d(3), of 0 12] d(4) heap_same_inv(5) [of s2 ?s] by (simp add: e)
  have "io_trace s2 = []" using frame_globals(2) [OF d(6)] frame_globals(2) [OF 1(2)] by (simp add: boot_nic_def boot_def)
  moreover have "pci_cfg_addr 0 3 0 4 = 0x80001804" by (simp add: pci_cfg_addr_def)
  moreover have "set_bit 2 (0x24 :: u32) = 0x24" "bit (0x24 :: u32) 2" by (simp_all add: set_bit_eq_or)
  ultimately have "pci_enable_bus_mastering ?s 0xd0000014 = Some (?s\<lparr>io_trace := [In32 PCI_CFGDATA 0x24, Out32 PCI_CFGADDR 0x80001804,
      Out32 PCI_CFGDATA 0x24, Out32 PCI_CFGADDR 0x80001804, In32 PCI_CFGDATA 0x24, Out32 PCI_CFGADDR 0x80001804]\<rparr>)"
    using pci_enable_bus_mastering_sets [OF r] by (simp add: Let_def)
  then show ?thesis using r unfolding e by (intro exI conjI) (assumption, assumption, simp)
qed

end
