(* ===== verification/TransmitProps.thy ===== *)
theory TransmitProps
  imports BusProps Early
begin

text \<open>
  The transmit function of the network card driver (\<open>add_tx_buffer\<close> of \<open>driver/eth/intel_8254x.c\<close>): what it
  leaves in the descriptor at the tail of the ring and in the card's tail register.
\<close>

section \<open>A structure in memory\<close>

text \<open>\<open>t\<close> is \<open>s\<close> with the bytes \<open>xs\<close> in the structure of \<open>m\<close> bytes at \<open>p\<close>.\<close>

definition struct_at :: "'a virtmm_scheme \<Rightarrow> u32 \<Rightarrow> nat \<Rightarrow> u8 list \<Rightarrow> 'a virtmm_scheme \<Rightarrow> bool" where
  "struct_at s p m xs t \<longleftrightarrow> paged t \<and> data_range t p m \<and> unat p + m < 4294967296 \<and> rdn t p m = Some xs \<and> length xs = m \<and>
     stored (span p m) s t \<and> (\<exists>r. t = s\<lparr>ram := r\<rparr>)"

lemma struct_start:
  assumes "paged s" and "data_range s p m" and "unat p + m < 4294967296"
  obtains xs where "rdn s p m = Some xs" and "struct_at s p m xs s"
proof -
  obtain xs where "rdn s p m = Some xs" "length xs = m" using data_rdn [OF assms(2)] by blast
  moreover have "\<exists>r. s = s\<lparr>ram := r\<rparr>" by (rule exI [of _ "ram s"]) simp
  moreover have "stored (span p m) s s" by (rule stored_refl)
  ultimately show ?thesis using that assms by (simp add: struct_at_def)
qed

lemma struct_store:
  fixes s :: "'a virtmm_scheme"
  assumes u: "struct_at s p m (zs @ ws) t" and a: "a = p + word_of_nat (length zs)" and len: "length bs \<le> length ws"
  shows "wrn t a bs = Some (stn t a bs)" and "struct_at s p m (zs @ bs @ drop (length bs) ws) (stn t a bs)"
proof -
  let ?off = "length zs"
  have d: "paged t" "data_range t p m" "unat p + m < 4294967296" "rdn t p m = Some (zs @ ws)"
    "length (zs @ ws) = m" "stored (span p m) s t"
    and r: "\<exists>r. t = s\<lparr>ram := r\<rparr>" using u by (simp_all add: struct_at_def)
  have le: "?off + length bs \<le> m" using d(5) len by simp
  have dr: "data_range t a (length bs)" unfolding a by (rule data_range_add [OF d(2) le])
  then show "wrn t a bs = Some (stn t a bs)" by (rule wrn_data)
  have small: "length bs \<le> 4294967296" using le d(3) by simp
  have st: "stored (span a (length bs)) t (stn t a bs)" by (rule stored_stn [OF d(1) dr small])
  have "stored (span p m) t (stn t a bs)" by (rule stored_mono [OF st]) (use span_part [OF le] a in simp)
  then have "stored (span p m) s (stn t a bs)" by (rule stored_same_trans [OF d(6)])
  moreover have "rdn (stn t a bs) p m = Some (zs @ bs @ drop (length bs) ws)"
    using rdn_stn_patch [OF dr [unfolded a] le d(3-5) data_range_unshadowed [OF d(2)]] len by (simp add: a patch_prefix)
  moreover have "\<exists>r. stn t a bs = s\<lparr>ram := r\<rparr>" using r by (auto simp: stn_def)
  ultimately show "struct_at s p m (zs @ bs @ drop (length bs) ws) (stn t a bs)"
    using d(3,5) len stored_paged [OF st] d(1) data_range_stn [OF dr] d(2) by (simp add: struct_at_def)
qed

lemma struct_wr8:
  assumes "struct_at s p m (zs @ ws) t" and "a = p + word_of_nat (length zs)" and "1 \<le> length ws"
  obtains t' where "wr8 t a v = Some t'" and "struct_at s p m ((zs @ [v]) @ drop 1 ws) t'"
  using struct_store [OF assms(1,2), of "[v]"] assms(3) that by (simp add: wr8_def)

lemma struct_wr16:
  assumes "struct_at s p m (zs @ ws) t" and "a = p + word_of_nat (length zs)" and "2 \<le> length ws"
  obtains t' where "wr16 t a v = Some t'" and "struct_at s p m ((zs @ bytes16 v) @ drop 2 ws) t'"
proof -
  have "wr16 t a v = wrn t a (bytes16 v)" by (simp add: wr16_def bytes16_def)
  then show ?thesis using struct_store [OF assms(1,2), of "bytes16 v"] assms(3) that by simp
qed

lemma struct_wr32:
  assumes "struct_at s p m (zs @ ws) t" and "a = p + word_of_nat (length zs)" and "4 \<le> length ws"
  obtains t' where "wr32 t a v = Some t'" and "struct_at s p m ((zs @ bytes32 v) @ drop 4 ws) t'"
proof -
  have "wr32 t a v = wrn t a (bytes32 v)" by (simp add: wr32_def bytes32_def)
  then show ?thesis using struct_store [OF assms(1,2), of "bytes32 v"] assms(3) that by simp
qed

lemma struct_rd8:
  "struct_at s p m (zs @ w # ws) t \<Longrightarrow> a = p + word_of_nat (length zs) \<Longrightarrow> rd8 t a = Some w"
  using rdn_nth [of t p m "zs @ w # ws" "length zs"] by (auto simp: struct_at_def)

section \<open>The descriptor\<close>

text \<open>A descriptor the driver may overwrite: it was never used, or the card has reported it done.\<close>

definition tx_free :: "u8 list \<Rightarrow> bool" where
  "tx_free xs \<longleftrightarrow> take 8 xs = replicate 8 0 \<or> bit (xs ! 12) 0"

definition tx_bytes :: "u32 \<Rightarrow> u16 \<Rightarrow> u8 \<Rightarrow> u8 list" where
  "tx_bytes buf len eop =
     bytes32 buf @ bytes32 0 @ bytes16 len @ [0, if eop \<noteq> 0 then 0x0b else 0x08, 0, 0] @ bytes16 0"

definition tx_desc :: "u32 \<Rightarrow> u16 \<Rightarrow> u8 \<Rightarrow> tdesc" where
  "tx_desc buf len eop = \<lparr>td_buffer = ucast buf, td_length = len, td_cso = 0, td_cmd = if eop \<noteq> 0 then 0x0b else 0x08,
     td_sta = 0, td_rsv = 0, td_css = 0, td_special = 0\<rparr>"

lemma tx_bytes_desc: "tx_bytes buf len eop = enc_tdesc (tx_desc buf len eop)"
proof -
  have "ucast (ucast buf :: u64) = buf" "ucast (drop_bit 32 (ucast buf :: u64)) = (0 :: u32)"
    by (rule bit_word_eqI; auto simp: bit_simps dest: bit_imp_le_length)+
  then show ?thesis by (simp add: tx_bytes_def tx_desc_def enc_tdesc_def bytes64_def)
qed

lemma tx_cmd_value: "tx_cmd eop = (if eop \<noteq> 0 then 0x0b else 0x08)"
  by (simp add: tx_cmd_def)

lemma tx_wait_free:
  assumes xs: "rdn (hw s) l 16 = Some xs" "length xs = 16" and free: "tx_free xs"
  shows "tx_wait hw s l = Some (hw s)"
proof -
  have lo: "rd32 (hw s) l = Some (cat32 (xs ! 0) (xs ! 1) (xs ! 2) (xs ! 3))"
    and hi: "rd32 (hw s) (l + 4) = Some (cat32 (xs ! 4) (xs ! 5) (xs ! 6) (xs ! 7))"
    using range_rd32 [OF xs(1), of 0] range_rd32 [OF xs(1), of 4] by (simp_all add: numeral_2_eq_2)
  have sta: "rd8 (hw s) (l + 12) = Some (xs ! 12)" using rdn_nth [OF xs(1), of 12] by simp
  show ?thesis
  proof (cases "take 8 xs = replicate 8 0")
    case True
    have "xs ! k = 0" if "k < 8" for k
    proof -
      have "take 8 xs ! k = 0" unfolding True using that by (rule nth_replicate)
      then show ?thesis using that by simp
    qed
    then have "cat32 (xs ! 0) (xs ! 1) (xs ! 2) (xs ! 3) = 0" "cat32 (xs ! 4) (xs ! 5) (xs ! 6) (xs ! 7) = 0"
      by (simp_all add: cat32_def)
    then show ?thesis by (subst tx_wait.simps) (simp add: Let_def lo hi)
  next
    case False
    then have "xs ! 12 AND 1 \<noteq> 0" using free by (simp add: tx_free_def and_one_eq odd_iff_mod_2_eq_one bit_0)
    then show ?thesis by (subst tx_wait.simps) (simp add: Let_def lo hi sta)
  qed
qed

text \<open>The stores into the descriptor.\<close>

lemma tx_fill:
  fixes s :: "'a nic_scheme"
  assumes st: "struct_at s p 16 xs s"
  obtains t b b1 t1 t2 t3 t4 t5 t6 t7 t8 where
    "wr32 s p buf = Some t1" and "wr32 t1 (p + 4) 0 = Some t2" and "wr16 t2 (p + 8) len = Some t3"
    and "wr8 t3 (p + 10) 0 = Some t4" and "wr8 t4 (p + 11) (tx_cmd eop) = Some t5" and "rd8 t5 (p + 12) = Some b"
    and "wr8 t5 (p + 12) (b AND 0xf0) = Some t6" and "rd8 t6 (p + 12) = Some b1" and "wr8 t6 (p + 12) (b1 AND 0x0f) = Some t7"
    and "wr8 t7 (p + 13) 0 = Some t8" and "wr16 t8 (p + 14) 0 = Some t" and "struct_at s p 16 (tx_bytes buf len eop) t"
proof -
  have lx: "length xs = 16" using st by (simp add: struct_at_def)
  obtain t1 where 1: "wr32 s p buf = Some t1" "struct_at s p 16 (([] @ bytes32 buf) @ drop 4 xs) t1"
    by (rule struct_wr32 [where zs = "[]" and ws = xs and a = p]) (use st lx in simp_all)
  obtain t2 where 2: "wr32 t1 (p + 4) 0 = Some t2" "struct_at s p 16 ((([] @ bytes32 buf) @ bytes32 0) @ drop 4 (drop 4 xs)) t2"
    by (rule struct_wr32 [OF 1(2), where a = "p + 4"]) (use lx in simp_all)
  let ?z2 = "([] @ bytes32 buf) @ bytes32 0"
  obtain t3 where 3: "wr16 t2 (p + 8) len = Some t3" "struct_at s p 16 ((?z2 @ bytes16 len) @ drop 2 (drop 4 (drop 4 xs))) t3"
    by (rule struct_wr16 [OF 2(2), where a = "p + 8"]) (use lx in simp_all)
  obtain t4 where 4: "wr8 t3 (p + 10) 0 = Some t4" "struct_at s p 16 (((?z2 @ bytes16 len) @ [0]) @ drop 1 (drop 2 (drop 4 (drop 4 xs)))) t4"
    by (rule struct_wr8 [OF 3(2), where a = "p + 10"]) (use lx in simp_all)
  let ?z4 = "(?z2 @ bytes16 len) @ [0]"
  obtain t5 where 5: "wr8 t4 (p + 11) (tx_cmd eop) = Some t5"
    "struct_at s p 16 ((?z4 @ [tx_cmd eop]) @ drop 1 (drop 1 (drop 2 (drop 4 (drop 4 xs))))) t5"
    by (rule struct_wr8 [OF 4(2), where a = "p + 11"]) (use lx in simp_all)
  let ?z5 = "?z4 @ [tx_cmd eop]"
  have l5: "length ?z5 = 12" by simp
  have "drop 1 (drop 1 (drop 2 (drop 4 (drop 4 xs)))) = xs ! 12 # drop 13 xs"
    using lx Cons_nth_drop_Suc [of 12 xs] by simp
  then have f5: "struct_at s p 16 (?z5 @ xs ! 12 # drop 13 xs) t5" using 5(2) by (simp only:)
  have r5: "rd8 t5 (p + 12) = Some (xs ! 12)" by (rule struct_rd8 [OF f5]) (simp only: l5, simp)
  obtain t6 where 6: "wr8 t5 (p + 12) (xs ! 12 AND 0xf0) = Some t6"
    "struct_at s p 16 ((?z5 @ [xs ! 12 AND 0xf0]) @ drop 1 (xs ! 12 # drop 13 xs)) t6"
    by (rule struct_wr8 [OF f5, where a = "p + 12"]) (simp_all only: l5, simp_all)
  have f6: "struct_at s p 16 (?z5 @ (xs ! 12 AND 0xf0) # drop 13 xs) t6" using 6(2) by simp
  have r6: "rd8 t6 (p + 12) = Some (xs ! 12 AND 0xf0)" by (rule struct_rd8 [OF f6]) (simp only: l5, simp)
  have z: "(xs ! 12 AND 0xf0) AND 0x0f = 0" by (simp add: and.assoc)
  obtain t7 where 7: "wr8 t6 (p + 12) 0 = Some t7" "struct_at s p 16 ((?z5 @ [0]) @ drop 1 ((xs ! 12 AND 0xf0) # drop 13 xs)) t7"
    by (rule struct_wr8 [OF f6, where a = "p + 12"]) (simp_all only: l5, simp_all)
  obtain t8 where 8: "wr8 t7 (p + 13) 0 = Some t8" "struct_at s p 16 (((?z5 @ [0]) @ [0]) @ drop 1 (drop 1 ((xs ! 12 AND 0xf0) # drop 13 xs))) t8"
    by (rule struct_wr8 [OF 7(2), where a = "p + 13"]) (use lx in simp_all)
  obtain t9 where 9: "wr16 t8 (p + 14) 0 = Some t9"
    "struct_at s p 16 ((((?z5 @ [0]) @ [0]) @ bytes16 0) @ drop 2 (drop 1 (drop 1 ((xs ! 12 AND 0xf0) # drop 13 xs)))) t9"
    by (rule struct_wr16 [OF 8(2), where a = "p + 14"]) (use lx in simp_all)
  have "struct_at s p 16 (tx_bytes buf len eop) t9"
    using 9(2) lx by (simp add: tx_bytes_def tx_cmd_value)
  then show ?thesis using that 1(1) 2(1) 3(1) 4(1) 5(1) r5 6(1) r6 7(1) z 8(1) 9(1) by metis
qed

lemma tx_advance_fields:
  "ram (tx_advance s) = ram s" "cr3 (tx_advance s) = cr3 s" "tlb (tx_advance s) = tlb s" "kernel_end (tx_advance s) = kernel_end s" "pde_table (tx_advance s) = pde_table s"
  "regspace (tx_advance s) = regspace s" "tx_advance (s\<lparr>ram := r\<rparr>) = (tx_advance s)\<lparr>ram := r\<rparr>"
  by (simp_all add: tx_advance_def tx_index_def Let_def)

text \<open>C15: When the descriptor at the tail is free, \<open>add_tx_buffer\<close> does not wait: it fills the sixteen bytes of the
  descriptor as the card's data sheet lays them out (address as \<open>_lpa\<close> computes it, twice the given
  length, command bits for the end of a packet, status cleared), advances the tail and tells the
  card; nothing else in memory changes.\<close>

theorem add_tx_buffer_fills:
  fixes s :: "'a nic_scheme"
  assumes "vm_wf (hw s)" and "data_range (hw s) (txtail s) 16" and "unat (txtail s) + 16 < 4294967296"
    and "rdn (hw s) (txtail s) 16 = Some xs" and "tx_free xs"
    and "walk (hw s) buf = Some f" and "plain_entry (pte (hw s) buf)"
    and "data_range (hw s) (regspace (hw s) + REG_TDT) 4" and "sep (txtail s) 16 (regspace (hw s) + REG_TDT) 4"
  shows "\<exists>t. add_tx_buffer hw s buf len eop = Some t \<and>
    map_option dec_tdesc (rdn t (txtail s) 16) = Some (tx_desc (mkaddr f (buf AND 0x3ff)) (len * 2) eop) \<and>
    t = (tx_advance (hw s))\<lparr>ram := ram t\<rparr> \<and> rd32 t (regspace t + REG_TDT) = Some (tx_index t) \<and>
    stored (span (txtail s) 16 \<union> span (regspace (hw s) + REG_TDT) 4) (hw s) t"
proof -
  let ?s = "hw s" and ?p = "txtail s" and ?r = "regspace (hw s) + REG_TDT" and ?b = "mkaddr f (buf AND 0x3ff)"
  have pg: "paged ?s" using assms(1) by (simp add: vm_wf_paged)
  obtain ys where "rdn ?s ?p 16 = Some ys" "struct_at ?s ?p 16 ys ?s" by (rule struct_start [OF pg assms(2,3)])
  then have st: "struct_at ?s ?p 16 xs ?s" using assms(4) by simp
  have lx: "length xs = 16" using st by (simp add: struct_at_def)
  have wait: "tx_wait hw s ?p = Some ?s" by (rule tx_wait_free [where hw = hw and s = s, OF assms(4) lx assms(5)])
  obtain t b b1 t1 t2 t3 t4 t5 t6 t7 t8 where fill:
    "wr32 ?s ?p ?b = Some t1" "wr32 t1 (?p + 4) 0 = Some t2" "wr16 t2 (?p + 8) (len * 2) = Some t3"
    "wr8 t3 (?p + 10) 0 = Some t4" "wr8 t4 (?p + 11) (tx_cmd eop) = Some t5" "rd8 t5 (?p + 12) = Some b"
    "wr8 t5 (?p + 12) (b AND 0xf0) = Some t6" "rd8 t6 (?p + 12) = Some b1" "wr8 t6 (?p + 12) (b1 AND 0x0f) = Some t7"
    "wr8 t7 (?p + 13) 0 = Some t8" "wr16 t8 (?p + 14) 0 = Some t"
    and d: "struct_at ?s ?p 16 (tx_bytes ?b (len * 2) eop) t"
    by (rule tx_fill [OF st])
  have tp: "paged t" "stored (span ?p 16) ?s t" "rdn t ?p 16 = Some (tx_bytes ?b (len * 2) eop)"
    using d by (simp_all add: struct_at_def)
  obtain r where r: "t = ?s\<lparr>ram := r\<rparr>" using d by (auto simp: struct_at_def)
  let ?u = "tx_advance t"
  have tu: "stored {} t ?u" by (rule stored_globals) (simp_all add: tx_advance_fields)
  have ru: "regspace ?u + REG_TDT = ?r" by (simp add: tx_advance_fields r)
  have du: "data_range ?u ?r (length (bytes32 (tx_index ?u)))"
    using assms(8) storedD(8) [OF tu] storedD(8) [OF tp(2)] by simp
  let ?v = "stn ?u ?r (bytes32 (tx_index ?u))"
  have pu: "paged ?u" using stored_paged [OF tu] tp(1) by simp
  have uv: "stored (span ?r 4) ?u ?v" using stored_stn [OF pu du] by simp
  have "wreg ?u REG_TDT (tx_index ?u) = Some ?v"
    using wrn_data [OF du] by (simp add: wreg_def ru wr32_def bytes32_def)
  then have run: "add_tx_buffer hw s buf len eop = Some ?v"
    using wait lpa_plain(1) [OF assms(1,6,7)] fill by (simp add: add_tx_buffer_def Let_def)
  have us: "unshadowed t ?p 16" "unshadowed ?u ?p 16"
    using assms(2) stored_shadow [OF tp(2)] stored_shadow [OF tu] by simp_all
  have "rdn ?v ?p 16 = rdn t ?p 16"
    using stored_rdn [OF uv] stored_rdn [OF tu] us span_sep [OF assms(9)] by simp
  moreover have fl: "regspace ?v = regspace ?u" "tx_index ?v = tx_index ?u" "txtail ?v = txtail ?u"
    by (simp_all add: stn_def tx_index_def)
  moreover have "rdn ?v ?r 4 = Some (bytes32 (tx_index ?u))" using rdn_stn_same [OF du] by simp
  then have "rd32 ?v ?r = Some (tx_index ?u)" by (simp add: rd32_def bytes32_def)
  moreover have "?v = (tx_advance ?s)\<lparr>ram := ram ?v\<rparr>" by (simp add: stn_def r tx_advance_fields)
  moreover have "stored (span ?p 16 \<union> span ?r 4) ?s ?v"
    using stored_trans [OF stored_trans [OF tp(2) tu] uv] by simp
  ultimately show ?thesis using run tp(3) ru by (intro exI [of _ ?v]) (simp add: tx_bytes_desc tdesc.decode_encode)
qed

text \<open>A card whose registers lie in the kernel's page, with one unused descriptor.\<close>

definition idle_nic :: nic where
  "idle_nic = boot_nic\<lparr>txqueue := 0xc010c800, txtail := 0xc010c800, regspace := 0xc010cc00 - REG_TDT\<rparr>"

lemma idle_same: "vm_same boot idle_nic"
  by (simp add: vm_same_def idle_nic_def boot_nic_def)

lemma idle_range: "page a = 0xc010c \<Longrightarrow> unat (pgoff a) + n \<le> 4096 \<Longrightarrow> data_range idle_nic a n"
  by (simp add: vm_same_mem [OF idle_same] boot_page)

lemma idle_descriptor: "rdn idle_nic 0xc010c800 16 = Some (replicate 16 0)"
  unfolding vm_same_mem [OF idle_same] rdn_rd8
proof (rule those_Some)
  fix k assume "k < length (map (\<lambda>k. rd8 boot (0xc010c800 + word_of_nat k)) [0..<16])"
  then have k: "k < 16" by simp
  let ?a = "0xc010c800 + word_of_nat k :: u32"
  have u: "unat ?a = 0xc010c800 + k" using k by (simp add: unat_add_small unat_of_nat)
  have e: "0xc010c800 + k = 0x800 + k + 4096 * 0xc010c" by simp
  have "unat (page ?a) = (0x800 + k) div 4096 + 0xc010c" unfolding unat_page u e by (subst div_mult_self2) simp_all
  moreover have "unat (pgoff ?a) = (0x800 + k) mod 4096" unfolding unat_pgoff u e by (rule mod_mult_self2)
  ultimately have pg: "unat (page ?a) = 0xc010c" "unat (pgoff ?a) = 0x800 + k" using k by simp_all
  have ix: "page ?a = 0xc010c" using pg(1) by (simp add: word_unat_eq_iff)
  then have w: "walk boot ?a = Some 0x10c" by (simp add: boot_walk index_page)
  then have "translate boot ?a = Some (mkaddr 0x10c (pgoff ?a))" using boot_vm_wf by (simp add: translate_walk vm_wf_def)
  moreover have "unat (pgoff ?a) div 4 = 512 + k div 4" unfolding pg(2) by simp
  then have "boot_ram (mkaddr 0x10c (pgoff ?a)) = 0" using k pg(2) by (simp add: boot_ram_def boot_entry_def byte_of_def)
  ultimately show "map (\<lambda>k. rd8 boot (0xc010c800 + word_of_nat k)) [0..<16] ! k = Some (replicate 16 0 ! k)"
    using k by (simp add: rd8_def)
qed simp

theorem add_tx_buffer_fills_witness:
  "\<exists>t. add_tx_buffer id idle_nic 0xc010c104 42 1 = Some t \<and>
    map_option dec_tdesc (rdn t 0xc010c800 16) = Some (tx_desc 0x10c104 84 1) \<and> rd32 t 0xc010cc00 = Some 1"
proof -
  have wf: "vm_wf (id idle_nic)" using boot_vm_wf by (simp add: vm_same_wf [OF idle_same])
  have f: "txtail idle_nic = 0xc010c800" "regspace idle_nic + REG_TDT = 0xc010cc00" "txqueue idle_nic = 0xc010c800"
    by (simp_all add: idle_nic_def)
  have w: "walk (id idle_nic) 0xc010c104 = Some 0x10c"
    by (simp add: vm_same_mem [OF idle_same] boot_walk pd_index_def pt_index_def)
  have "pte idle_nic = pte boot" by (intro ext) (simp add: pte_def vm_same_mem [OF idle_same], simp add: idle_nic_def boot_nic_def)
  then have p: "plain_entry (pte (id idle_nic) 0xc010c104)"
    using boot_pte [of "0xc010c104"] by (simp add: pd_index_def pt_index_def plain_entry_def bit_numeral_word_iff)
  have "tx_free (replicate 16 0)" by (simp add: tx_free_def)
  from add_tx_buffer_fills [where hw = id and s = idle_nic and buf = "0xc010c104" and len = 42 and eop = 1, OF wf _ _ _ this w p]
  obtain t where "add_tx_buffer id idle_nic 0xc010c104 42 1 = Some t"
    "map_option dec_tdesc (rdn t 0xc010c800 16) = Some (tx_desc (mkaddr 0x10c (0xc010c104 AND 0x3ff)) (42 * 2) 1)"
    and r: "rd32 t (regspace t + REG_TDT) = Some (tx_index t)" "t = (tx_advance idle_nic)\<lparr>ram := ram t\<rparr>"
    using idle_range [of "0xc010c800" 16] idle_range [of "0xc010cc00" 4] idle_descriptor
    by (auto simp: f sep_def page_def pgoff_def)
  moreover have "regspace t = regspace idle_nic" "tx_index t = tx_index (tx_advance idle_nic)"
    unfolding tx_index_def by (subst r(2), simp add: tx_advance_fields)+
  moreover have "tx_index (tx_advance idle_nic) = 1"
    by (simp add: tx_advance_def tx_index_def idle_nic_def boot_nic_def Let_def signed_divide_int_def)
  ultimately show ?thesis using r(1) f(2) by (auto simp: mkaddr_def)
qed

end
