(* ===== verification/TrapProps.thy ===== *)
theory TrapProps
  imports Early ScreenProps
begin

text \<open>
  The trap handlers (\<open>kernel/irq/cpu_traps.c\<close>): what a fault leaves on the screen and on the serial port.  The
  statements ask for page tables and the screen's memory only, not for a sound heap: a handler runs
  when something is wrong.
\<close>

section \<open>The reports\<close>

definition blank :: terminal where
  "blank = \<lparr>t_cells = blank_cells 2000, t_row = 0, t_col = 0\<rparr>"

text \<open>The line about a page fault: the bits 2, 1, 0 of the error code tell who, how, why.\<close>

definition fault_line :: "u8 \<Rightarrow> u8 list" where
  "fault_line err =
     (if bit err 2 then lit ''User process tried to'' else lit ''Kernel process tried to'') @
     (if bit err 1 then lit '' write '' else lit '' read '') @
     (if bit err 0 then lit ''a page and caused a protection fault'' else lit ''a non-existent page entry'') @ lit '' at ''"

definition fault_text :: "u8 \<Rightarrow> u8 list" where
  "fault_text err = lit ''Encountered Bruh Momement: Page Fault'' @ [10, 10, 13] @ fault_line err"

fun fault_name :: "isr \<Rightarrow> u8 list" where
  "fault_name Fault_de = lit ''Fault Division By Zero''"
| "fault_name Fault_db = lit ''Fault Debug''"
| "fault_name Int_nomask = lit ''Interrupt Nonmaskable''"
| "fault_name Fault_bp = lit ''Breakpoint''"
| "fault_name Fault_of = lit ''Fault Overflow''"
| "fault_name Fault_br = lit ''Bound range exceeded''"
| "fault_name Fault_ud = lit ''Invalid opcode''"
| "fault_name Fault_nm = lit ''Device Not Available''"
| "fault_name Abort_df = lit ''Double Fault''"
| "fault_name Fault_ts = lit ''Invalid TSS''"
| "fault_name Fault_np = lit ''Segment Not Present''"
| "fault_name Fault_ss = lit ''Stack Segment Fault''"
| "fault_name Fault_gp = lit ''General Protection Fault''"
| "fault_name Fault_pf = lit ''Page Fault''"
| "fault_name Fault_mf = lit ''x87 Floating-Point Exception''"
| "fault_name Fault_ac = lit ''Alignment Check''"
| "fault_name Abort_mc = lit ''Machine Check''"
| "fault_name Fault_xmxf = lit ''SIMD Floating Point Exception''"
| "fault_name Fault_ve = lit ''Virtualization Exception''"
| "fault_name Fault_sx = lit ''Security Exception''"

definition fault_report :: "u32 \<Rightarrow> isr \<Rightarrow> u8 \<Rightarrow> u8 list" where
  "fault_report addr f err =
     (if f = Fault_pf
      then fault_text err @ lit ''0x'' @ hex_chars addr
      else lit ''Encountered Bruh Moment: '' @ fault_name f)"

section \<open>Lines\<close>

text \<open>A line may fill the screen's width: its last character then takes the cursor to the next line.\<close>

lemma full_line_fits:
  assumes "plain cs" and "t_row t + 1 < 24" and "t_col t + length cs \<le> 80"
  shows "term_fits t cs"
proof (cases "t_col t + length cs < 80")
  case True
  show ?thesis by (rule plain_fits(1) [OF assms(1) _ True]) (use assms(2) in simp)
next
  case False
  show ?thesis
  proof (cases cs rule: rev_cases)
    case (snoc ds c)
    have p: "plain ds" and c: "c \<notin> {9, 10, 13}" using assms(1) by (auto simp: snoc plain_def)
    note f = plain_fits [OF p, of t]
    have "t_row t < 24" "t_col t + length ds < 80" using assms(2,3) by (simp_all add: snoc)
    then have f: "term_fits t ds" "t_row (foldl term_put t ds) = t_row t" using f by simp_all
    have "\<not> term_scrolls (foldl term_put t ds) c"
      using c f(2) assms(2) by (auto simp: term_scrolls_def term_wrap_def term_mark_def)
    then show ?thesis using f(1) by (simp add: snoc term_fits_append)
  qed simp
qed

lemma fault_line_plain: "plain (fault_line err)" "length (fault_line err) \<le> 70"
  by (simp_all add: fault_line_def lit_def of_char_def plain_def)

lemma fault_name_plain: "plain (fault_name f)" "length (fault_name f) \<le> 29"
  by (cases f; simp add: lit_def of_char_def plain_def)+

lemma report_fits: "term_fits blank (fault_report addr f err)"
proof (cases "f = Fault_pf")
  case True
  let ?a = "lit ''Encountered Bruh Momement: Page Fault''" and ?nl = "[10, 10, 13] :: u8 list"
  let ?c = "fault_line err @ lit ''0x'' @ hex_chars addr"
  have a: "plain ?a" "length ?a = 37" by (simp_all add: lit_def of_char_def plain_def)
  note f = plain_fits [OF a(1), of blank]
  have r: "term_fits blank ?a" "t_row (foldl term_put blank ?a) = 0" "t_col (foldl term_put blank ?a) = 37"
    using f a(2) by (simp_all add: blank_def)
  have n: "term_fits (foldl term_put blank ?a) ?nl" "t_row (foldl term_put (foldl term_put blank ?a) ?nl) = 2"
    "t_col (foldl term_put (foldl term_put blank ?a) ?nl) = 0"
    using r(2,3) by (simp_all add: term_eval)
  have x: "plain (lit ''0x'')" "length (lit ''0x'') = 2" by (simp_all add: lit_def of_char_def plain_def)
  have "plain ?c" "length ?c \<le> 80"
    using fault_line_plain [of err] hex_chars_plain [of addr] x by (simp_all add: plain_def Int_Un_distrib2)
  then have "term_fits (foldl term_put (foldl term_put blank ?a) ?nl) ?c" using n(2,3) by (intro full_line_fits) simp_all
  then show ?thesis using r(1) n(1) True by (simp only: fault_report_def fault_text_def term_fits_append foldl_append if_True simp_thms append_assoc)
next
  case False
  let ?a = "lit ''Encountered Bruh Moment: ''"
  have "plain ?a" "length ?a = 25" by (simp_all add: lit_def of_char_def plain_def)
  then have "plain (?a @ fault_name f)" "length (?a @ fault_name f) \<le> 80"
    using fault_name_plain [of f] by (simp_all add: plain_def Int_Un_distrib2)
  then have "term_fits blank (?a @ fault_name f)" by (intro full_line_fits) (simp_all add: blank_def)
  then show ?thesis using False by (simp add: fault_report_def)
qed

section \<open>The vectors\<close>

text \<open>The handlers are a finite type; the library's enumeration of them is the order of the registrations.\<close>

instantiation isr :: enum
begin

definition enum_isr :: "isr list" where
  "enum_isr = map (\<lambda>(v, trap, f). f) trap_table"

definition enum_all_isr :: "(isr \<Rightarrow> bool) \<Rightarrow> bool" where
  "enum_all_isr P = list_all P (enum_class.enum :: isr list)"

definition enum_ex_isr :: "(isr \<Rightarrow> bool) \<Rightarrow> bool" where
  "enum_ex_isr P = list_ex P (enum_class.enum :: isr list)"

instance
proof
  have u: "(UNIV :: isr set) = set (enum_class.enum :: isr list)"
  proof (intro set_eqI iffI UNIV_I)
    show "f \<in> set enum_class.enum" for f :: isr by (cases f) (simp_all add: enum_isr_def trap_table_def)
  qed
  show "(UNIV :: isr set) = set enum_class.enum" by (rule u)
  show "distinct (enum_class.enum :: isr list)" by (simp add: enum_isr_def trap_table_def)
  show "enum_class.enum_all P \<longleftrightarrow> Ball UNIV P" "enum_class.enum_ex P \<longleftrightarrow> Bex UNIV P" for P :: "isr \<Rightarrow> bool"
    unfolding u by (simp_all add: enum_all_isr_def enum_ex_isr_def list_all_iff list_ex_iff)
qed

end

text \<open>Every handler has exactly one vector, and no vector has two handlers.\<close>

lemma trap_vectors: "\<exists>!v. \<exists>trap. (v, trap, f) \<in> set trap_table" "distinct (map fst trap_table)"
  by (cases f; simp add: trap_table_def; blast) (simp add: trap_table_def)

section \<open>What the handlers do\<close>

lemma err_bits: "err AND 4 \<noteq> 0 \<longleftrightarrow> bit err 2" "err AND 2 \<noteq> 0 \<longleftrightarrow> bit err 1" "err AND 1 \<noteq> 0 \<longleftrightarrow> bit err 0" for err :: u8
  by (simp_all add: bit_iff_and_push_bit_not_eq_0)

text \<open>How a handler leaves the machine: all but the one for page faults halt it.\<close>

definition stopped :: "isr \<Rightarrow> 'a cpu_scheme \<Rightarrow> 'a cpu_scheme" where
  "stopped f s = (if f = Fault_pf then s else s\<lparr>cpu_if := False, cpu_halted := True\<rparr>)"

text \<open>A handler clears the screen and prints its report.\<close>

lemma pagefault_print:
  fixes s :: "'a cpu_scheme"
  assumes "vga_clear s = Some s1" and "\<And>s2. vga_print s1 (fault_text err) = Some s2 \<Longrightarrow> cpu_cr2 s2 = cpu_cr2 s"
  shows "handle_pagefault s err = vga_print s1 (fault_report (cpu_cr2 s) Fault_pf err)"
proof -
  let ?cs = "fault_text err"
  have "handle_pagefault s err = do { s6 \<leftarrow> vga_print s1 ?cs; vga_puthex s6 (cpu_cr2 s6) }"
    by (simp add: handle_pagefault_def assms(1) vga_print_append err_bits fault_text_def fault_line_def del: append_Cons append_Nil split: if_split)
  also have "\<dots> = do { s6 \<leftarrow> vga_print s1 ?cs; vga_puthex s6 (cpu_cr2 s) }"
    using assms(2) by (cases "vga_print s1 ?cs") (simp_all del: append_Cons append_Nil)
  also have "\<dots> = vga_print s1 (fault_report (cpu_cr2 s) Fault_pf err)"
    by (simp add: fault_report_def vga_puthex_print vga_print_append del: append_Cons append_Nil)
  finally show ?thesis .
qed

lemma isr_run_print:
  fixes s :: "'a cpu_scheme"
  assumes "vga_clear s = Some s1" and "\<And>s2. vga_print s1 (fault_text err) = Some s2 \<Longrightarrow> cpu_cr2 s2 = cpu_cr2 s"
  shows "isr_run s f err = map_option (stopped f) (vga_print s1 (fault_report (cpu_cr2 s) f err))"
proof (cases "f = Fault_pf")
  case True
  then show ?thesis using pagefault_print [OF assms] by (cases "vga_print s1 (fault_report (cpu_cr2 s) f err)") (simp_all add: stopped_def)
next
  case False
  have "isr_run s f err = kpanic s (fault_name f)" using False by (cases f) simp_all
  also have "\<dots> = map_option (stopped f) (vga_print s1 (fault_report (cpu_cr2 s) f err))"
    using False by (simp add: kpanic_def assms(1) fault_report_def vga_print_append stopped_def map_conv_bind_option comp_def)
  finally show ?thesis .
qed

text \<open>C14: Every trap handler, on a machine whose page tables and screen are good, whatever the state of the heap:
  it clears the screen and reports its fault on the screen and the serial port, a page fault with
  who tried what, why it failed and the address from \<open>CR2\<close>; nothing but the screen, its cursor and
  the port traffic changes, and all handlers but that one end with interrupts off, halted.\<close>

theorem traps_report:
  fixes s :: "'a cpu_scheme"
  assumes "paged s" and "data_range s VGA_BASE 4000" and "always_ready s"
  shows "\<exists>s'. isr_run s f err = Some (stopped f s') \<and>
    early_shows s' (foldl term_put blank (fault_report (cpu_cr2 s) f err)) \<and>
    printed s s' \<and> sent (io_trace s') = sent (io_trace s) @ fault_report (cpu_cr2 s) f err"
proof -
  obtain s1 where 1: "vga_clear s = Some s1" "early_shows s1 blank" "printed s s1" "io_trace s1 = io_trace s"
    using early_clear [OF assms] by (auto simp: blank_def)
  obtain s' where 2: "vga_print s1 (fault_report (cpu_cr2 s) f err) = Some s'"
    "early_shows s' (foldl term_put blank (fault_report (cpu_cr2 s) f err))" "printed s1 s'"
    "sent (io_trace s') = sent (io_trace s1) @ fault_report (cpu_cr2 s) f err"
    using early_print [OF 1(2) report_fits] by blast
  have "isr_run s f err = map_option (stopped f) (vga_print s1 (fault_report (cpu_cr2 s) f err))"
  proof (rule isr_run_print [OF 1(1)])
    fix s2 assume p: "vga_print s1 (fault_text err) = Some s2"
    have "term_fits blank (fault_text err)"
      using report_fits [of 0 Fault_pf err] by (simp add: fault_report_def term_fits_append)
    from early_print [OF 1(2) this] have "printed s1 s2" by (auto simp: p)
    then have "printed s s2" by (rule printed_trans [OF 1(3)])
    then show "cpu_cr2 s2 = cpu_cr2 s" by (auto simp: printed_def)
  qed
  then show ?thesis using 2 printed_trans [OF 1(3) 2(3)] 1(4) by auto
qed

theorem traps_report_witness:
  "\<exists>s'. isr_run (boot_nic\<lparr>cpu_cr2 := 0xd0001000\<rparr>) Fault_pf 2 = Some s' \<and>
    sent (io_trace s') = lit ''Encountered Bruh Momement: Page Fault'' @ [10, 10, 13] @
      lit ''Kernel process tried to write a non-existent page entry at 0xD0001000''"
proof -
  let ?s = "boot_nic\<lparr>cpu_cr2 := 0xd0001000\<rparr>"
  have sm: "vm_same boot ?s" by (simp add: vm_same_def boot_nic_def)
  have "vm_wf ?s" using boot_vm_wf by (simp add: vm_same_wf [OF sm])
  then have p: "paged ?s" by (simp add: vm_wf_paged)
  have d: "data_range ?s VGA_BASE 4000" using boot_foreign by (simp add: vm_same_mem [OF sm] data_range_def foreign_def)
  have r: "always_ready ?s" using boot_screen(2) by (simp add: always_ready_def boot_nic_def)
  have t: "fault_report 0xd0001000 Fault_pf 2 = lit ''Encountered Bruh Momement: Page Fault'' @ [10, 10, 13] @
      lit ''Kernel process tried to write a non-existent page entry at 0xD0001000''"
    by (simp add: fault_report_def fault_text_def fault_line_def lit_def of_char_def hex_chars_def hex_char_def byte_of_def bit_numeral_word_iff)
  have "sent (io_trace ?s) = []" by (simp add: boot_nic_def boot_def)
  then show ?thesis using traps_report [OF p d r, of Fault_pf 2] by (auto simp: t stopped_def)
qed

end
