(* ===== verification/FrameInit.thy ===== *)
theory FrameInit
  imports Early Kernel
begin

text \<open>
  The set-up of the page frame allocator (\<open>init_phymm\<close> of \<open>kernel/mm/phy-mm.c\<close>): the loop that fills the stack
  and the bitmap establishes the invariant of the allocator and, with the page tables that \<open>boot.s\<close> leaves, the invariant of the paging service.
  Those tables already map the frames that the allocator takes, in the window of directory slot 768; the
  invariants allow for it (\<open>shadow\<close>, theory \<open>Machine\<close>).
\<close>

section \<open>The place of the bitmap\<close>

lemma unat_align256: "unat (x AND NOT (0xff :: u32)) = unat x div 256 * 256"
proof -
  have m: "(0xff :: u32) = mask 8" by (simp add: mask_eq_exp_minus_1)
  have "x AND NOT (0xff :: u32) = push_bit 8 (drop_bit 8 x)"
    unfolding m by (rule bit_word_eqI) (auto simp: bit_simps)
  also have "\<dots> = drop_bit 8 x * 256" by (simp add: push_bit_eq_mult)
  finally have e: "x AND NOT (0xff :: u32) = drop_bit 8 x * 256" .
  have d: "unat (drop_bit 8 x) = unat x div 256" by (simp add: drop_bit_eq_div unat_div_distrib)
  have "unat (drop_bit 8 x) * 256 < 4294967296" using u32_less [of x] d by simp
  then show ?thesis unfolding e by (simp add: unat_word_ariths d)
qed

text \<open>A stack of \<open>n\<close> slots at a page boundary, \<open>n\<close> a multiple of 8: the bitmap begins at the next multiple
  of 256 after the last slot.\<close>

definition bitmap_off :: "nat \<Rightarrow> nat" where
  "bitmap_off n = ((n - 1) div 64 + 1) * 256"

lemma bitmap_off_cases: "n \<le> 128 \<Longrightarrow> bitmap_off n = (if n \<le> 64 then 256 else 512)"
proof -
  assume n: "n \<le> 128"
  have "(n - 1) div 64 = 1" if "64 < n"
  proof -
    have "65 \<le> n" using that by simp
    then obtain x where x: "n = 65 + x" using le_Suc_ex by blast
    then have "n - 1 = x + 1 * 64" by simp
    then show ?thesis using n x by (simp only: div_mult_self1)
  qed
  then show ?thesis by (simp add: bitmap_off_def)
qed

lemma bitmap_off_bounds:
  assumes "n mod 8 = 0" and "0 < n" and "n \<le> 128"
  shows "4 * n \<le> bitmap_off n" and "bitmap_off n + n div 8 \<le> 528"
  using assms by (auto simp: bitmap_off_cases)

lemma bitmap_base_eq:
  assumes n: "n mod 8 = 0" "0 < n" "n \<le> 128" and bp: "pgoff bp = 0" "unat bp + 1024 < 4294967296"
  shows "bitmap_base (bp + 4 * word_of_nat n - 4) = bp + word_of_nat (bitmap_off n)"
proof -
  have b: "unat bp mod 256 = 0"
  proof -
    have "unat bp mod 4096 = 0" using bp(1) unat_pgoff [of bp] by simp
    moreover have "unat bp mod 256 = unat bp mod 4096 mod 256" by (simp add: mod_mod_cancel)
    ultimately show ?thesis by simp
  qed
  have w: "unat (4 * word_of_nat n :: u32) = 4 * n"
  proof -
    have "(4 * word_of_nat n :: u32) = word_of_nat (4 * n)" by simp
    then show ?thesis using n(3) by (simp only: unat_of_nat) simp
  qed
  have a: "unat (bp + 4 * word_of_nat n) = unat bp + 4 * n" using bp(2) n(3) w by (simp add: unat_add_small)
  have s: "unat (bp + 4 * word_of_nat n - 4) = unat bp + 4 * n - 4"
    using a n(2) by (simp add: unat_sub word_le_nat_alt)
  have t: "unat (bp + 4 * word_of_nat n - 4 + 0xff) = unat bp + 4 * n + 251"
    using s bp(2) n by (subst unat_add_small) simp_all
  have "unat (bitmap_base (bp + 4 * word_of_nat n - 4)) = (unat bp + 4 * n + 251) div 256 * 256"
    unfolding bitmap_base_def unat_align256 t ..
  also have "\<dots> = unat bp + bitmap_off n"
  proof -
    obtain q where q: "unat bp = 256 * q" using b by (metis mod_0_imp_dvd dvdE)
    have "(4 * n + 251) div 256 * 256 = bitmap_off n"
    proof (cases "n \<le> 64")
      case True
      have "8 \<le> n" using n(1,2) by (intro dvd_imp_le) auto
      then obtain x where "4 * n + 251 = x + 1 * 256" "x < 256" using True by (intro that [of "4 * n - 5"]) simp_all
      then have "(4 * n + 251) div 256 = 1" by simp
      then show ?thesis using True by (simp add: bitmap_off_cases)
    next
      case False
      obtain m where "n = 8 * m" using n(1) by (metis mod_0_imp_dvd dvdE)
      then have "72 \<le> n" using False by simp
      then obtain x where "4 * n + 251 = x + 2 * 256" "x < 256" using n(3) by (intro that [of "4 * n - 261"]) simp_all
      then have "(4 * n + 251) div 256 = 2" by simp
      then show ?thesis using False n(3) by (simp add: bitmap_off_cases)
    qed
    moreover have "(256 * q + 4 * n + 251) div 256 = q + (4 * n + 251) div 256"
      using div_mult_self2 [of 256 "4 * n + 251" q] by (simp add: add.commute add.left_commute)
    ultimately show ?thesis unfolding q by (simp add: algebra_simps)
  qed
  also have "\<dots> = unat (bp + word_of_nat (bitmap_off n))"
  proof -
    have "bitmap_off n \<le> 528" using bitmap_off_bounds(2) [OF n] by simp
    then have "unat (word_of_nat (bitmap_off n) :: u32) = bitmap_off n" by (simp add: unat_of_nat)
    then show ?thesis using bp(2) \<open>bitmap_off n \<le> 528\<close> by (simp add: unat_add_small)
  qed
  finally show ?thesis by (simp only: word_unat_eq_iff)
qed

section \<open>Filling the stack and the bitmap\<close>

text \<open>Frames that hold zeros, no table, and to which only addresses of the shadow lead.\<close>

definition raw_frames :: "'a machine_scheme \<Rightarrow> u32 \<Rightarrow> nat \<Rightarrow> bool" where
  "raw_frames s mm n \<longleftrightarrow> (\<forall>k<n. let f = page (mm + 4096 * word_of_nat k) in
     \<not> is_table s f \<and> (\<forall>a. walk s a = Some f \<longrightarrow> shadow s a) \<and> (\<forall>p. page p = f \<longrightarrow> ram s p = 0))"

lemma stored_raw_frames:
  assumes st: "stored A s s'" and raw: "raw_frames s mm n"
  shows "raw_frames s' mm n"
  unfolding raw_frames_def Let_def storedD(5,6) [OF st] stored_shadow [OF st]
proof (intro allI impI)
  fix k assume k: "k < n"
  let ?f = "page (mm + 4096 * word_of_nat k)"
  have f: "\<not> is_table s ?f" "\<And>a. walk s a = Some ?f \<Longrightarrow> shadow s a" "\<And>p. page p = ?f \<Longrightarrow> ram s p = 0"
    using raw k unfolding raw_frames_def Let_def by blast+
  have "ram s' q = 0" if q: "page q = ?f" for q
  proof -
    have "ram s' q = ram s q" by (rule storedD(11) [OF st]) (use f(2) q in simp)
    then show ?thesis using f(3) [OF q] by simp
  qed
  then show "\<not> is_table s ?f \<and> (\<forall>a. walk s a = Some ?f \<longrightarrow> shadow s a) \<and> (\<forall>p. page p = ?f \<longrightarrow> ram s' p = 0)" using f by blast
qed

text \<open>What \<open>phymm_fill\<close> needs of the machine: room for the tables after the kernel, and the frames.\<close>

definition fill_ok :: "'a kheap_scheme \<Rightarrow> bool" where
  "fill_ok s \<longleftrightarrow> (let n = min 128 (unat (hwas_ssize s)) in
     n mod 8 = 0 \<and> 0 < n \<and> pgoff (hwas_bp s) = 0 \<and> unat (hwas_bp s) + 1024 < 4294967296 \<and>
     data_range s (hwas_bp s) 528 \<and> pgoff (hwa_mmstart s) = 0 \<and>
     unat (hwa_mmstart s) + 4096 * n < 4294967296 \<and> raw_frames s (hwa_mmstart s) n)"

definition filled :: "'a kheap_scheme \<Rightarrow> nat \<Rightarrow> 'a kheap_scheme \<Rightarrow> bool" where
  "filled s n s' \<longleftrightarrow> stored (span (hwas_bp s) 528) s s' \<and>
     (\<exists>m b e. s' = s\<lparr>ram := m, hwas_ssize := word_of_nat n, hwas_sp := hwas_bp s + 4 * word_of_nat n - 4,
        hwa_inu_bitmap := b, phymm_end := e\<rparr>) \<and>
     (\<forall>i<n. rd32 s' (hwas_bp s + 4 * word_of_nat i) = Some (hwa_mmstart s + 4096 * word_of_nat i)) \<and>
     (\<forall>i<n div 8. rd8 s' (hwa_inu_bitmap s' + word_of_nat i) = Some 0) \<and>
     hwa_inu_bitmap s' = hwas_bp s + word_of_nat (bitmap_off n)"

lemma slot_bytes: "length (concat (map (\<lambda>i. bytes32 (f i)) [0..<n])) = 4 * n"
  by (induction n) simp_all

lemma concat_slots_nth:
  "i < n \<Longrightarrow> take 4 (drop (4 * i) (concat (map (\<lambda>i. bytes32 (f i)) [0..<n]))) = bytes32 (f i)"
proof (induction n)
  case (Suc n)
  show ?case
  proof (cases "i = n")
    case True
    then show ?thesis using slot_bytes [of f n] by simp
  next
    case False
    then have i: "i < n" using Suc.prems by simp
    have "4 * i + 4 \<le> 4 * n" using i by simp
    then have "4 \<le> length (drop (4 * i) (concat (map (\<lambda>i. bytes32 (f i)) [0..<n])))"
      by (simp only: length_drop slot_bytes)
    then show ?thesis using Suc.IH [OF i] i by (simp add: slot_bytes)
  qed
qed simp

lemma data_slots:
  assumes d: "data_range s a (4 * n)" and i: "i < n" and n: "n \<le> 1000"
    and t: "t = stn s a (concat (map (\<lambda>i. bytes32 (f i)) [0..<n]))"
  shows "rd32 t (a + 4 * word_of_nat i) = Some (f i)"
proof -
  let ?bs = "concat (map (\<lambda>i. bytes32 (f i)) [0..<n])"
  have "data_range s a (length ?bs)" unfolding slot_bytes by (rule d)
  then have "rdn t a (length ?bs) = Some ?bs" unfolding t
    by (rule rdn_stn_same) (use n in \<open>simp add: slot_bytes\<close>)
  then have r: "rdn t a (4 * n) = Some ?bs" unfolding slot_bytes .
  have "rdn t (a + word_of_nat (4 * i)) 4 = Some (bytes32 (f i))"
  proof -
    have "rd8 t (a + word_of_nat (4 * i) + word_of_nat k) = Some (bytes32 (f i) ! k)" if k: "k < 4" for k
    proof -
      have "rd8 t (a + word_of_nat (4 * i + k)) = Some (?bs ! (4 * i + k))"
        by (rule rdn_nth [OF r]) (use i k in simp)
      moreover have "?bs ! (4 * i + k) = take 4 (drop (4 * i) ?bs) ! k"
        using i k by (simp add: slot_bytes)
      ultimately show ?thesis by (simp only: concat_slots_nth [OF i] of_nat_add add.assoc)
    qed
    then show ?thesis unfolding rdn_rd8 by (intro those_Some) simp_all
  qed
  then show ?thesis by (simp add: rd32_def bytes32_def)
qed

lemma fill_run:
  fixes s :: "'a kheap_scheme"
  assumes p: "paged s" and ok: "fill_ok s" and n_def: "n = min 128 (unat (hwas_ssize s))"
  shows "\<exists>s'. phymm_fill s = Some s' \<and> filled s n s'"
proof -
  have n: "n mod 8 = 0" "0 < n" "n \<le> 128" and bp: "pgoff (hwas_bp s) = 0" "unat (hwas_bp s) + 1024 < 4294967296"
    and d: "data_range s (hwas_bp s) 528"
    using ok by (auto simp: fill_ok_def Let_def n_def)
  let ?bp = "hwas_bp s" and ?mm = "hwa_mmstart s" and ?off = "bitmap_off n"
  note off = bitmap_off_bounds [OF n]
  define s1 where "s1 = (if 128 < hwas_ssize s then s\<lparr>hwas_ssize := 128\<rparr> else s)"
  have s1: "s1 = s\<lparr>hwas_ssize := word_of_nat n\<rparr>"
    by (auto simp: s1_def n_def min_def word_less_nat_alt)
  have un: "unat (word_of_nat n :: u32) = n" using n(3) by (simp add: unat_of_nat)
  have st1: "stored A s s1" for A by (rule stored_globals) (simp_all add: s1)
  note sd1 = storedD [OF st1]
  have p1: "paged s1" using stored_paged [OF st1] p by simp
  let ?bs = "concat (map (\<lambda>i. bytes32 (?mm + 4096 * word_of_nat i)) [0..<n])"
  have d1: "data_range s1 ?bp (4 * n)" using data_range_sub [OF d, of "4 * n"] n(3) by (simp add: sd1)
  define s2 where "s2 = stn s1 ?bp ?bs"
  have 2: "for_loop 0 n (\<lambda>i t. wr32 t (?bp + 4 * word_of_nat i) (hwa_mmstart t + 4096 * word_of_nat i)) s1 = Some s2"
    unfolding s2_def
    by (rule stn_loop [OF d1 length_bytes32]) (simp add: wr32_def bytes32_def s1 stn_def)
  have len: "length ?bs = 4 * n" by (rule slot_bytes)
  have st2: "stored (span ?bp 528) s1 s2"
    unfolding s2_def
    by (rule stored_mono [OF stored_stn [OF p1]])
       (use d1 n(3) span_part [of 0 "4 * n" 528 ?bp] in \<open>simp_all add: len\<close>)
  let ?sp = "?bp + 4 * word_of_nat n - 4" and ?bm = "?bp + word_of_nat ?off"
  define s4 where "s4 = s2\<lparr>hwas_sp := ?sp, hwa_inu_bitmap := ?bm\<rparr>"
  have st4: "stored A s2 s4" for A by (rule stored_globals) (simp_all add: s4_def)
  note sd4 = storedD [OF stored_trans [OF stored_trans [OF st1 st2] st4]]
  have p4: "paged s4" using stored_paged [OF stored_trans [OF stored_trans [OF st1 st2] st4]] p by simp
  have d4: "data_range s4 ?bm (n div 8)" using data_range_add [OF d, of ?off "n div 8"] off(2) by (simp add: sd4)
  let ?zs = "concat (map (\<lambda>i. [0 :: u8]) [0..<n div 8])"
  have lz: "length ?zs = n div 8" by (induction "n div 8") simp_all
  define s5 where "s5 = stn s4 ?bm ?zs"
  have dz: "data_range s4 ?bm (1 * (n div 8))" using d4 by simp
  have 5: "for_loop 0 (n div 8) (\<lambda>i t. wr8 t (hwa_inu_bitmap t + word_of_nat i) (ucast PGFREE)) s4 = Some s5"
    unfolding s5_def by (rule stn_loop [OF dz]) (simp_all add: wr8_def s4_def stn_def PGFREE_def)
  have st5: "stored (span ?bp 528) s4 s5"
    unfolding s5_def
    by (rule stored_mono [OF stored_stn [OF p4]])
       (use d4 n(3) off(2) span_part [of ?off "n div 8" 528 ?bp] in \<open>simp_all add: lz\<close>)
  define s6 where "s6 = s5\<lparr>phymm_end := (hwa_inu_bitmap s5 + hwas_ssize s5 div 8 + 4096) AND NOT 0x3ff\<rparr>"
  have st6: "stored A s5 s6" for A by (rule stored_globals) (simp_all add: s6_def)
  have "unat (hwas_ssize s4 div 8) = n div 8"
    by (simp add: s4_def s2_def s1 stn_def unat_div_distrib un)
  then have "phymm_fill s = Some s6"
    using 2 5 bitmap_base_eq [OF n bp]
    by (simp add: phymm_fill_def s1_def [symmetric] Let_def s1 un s4_def s6_def s2_def stn_def)
  moreover have "filled s n s6"
    unfolding filled_def
  proof (intro conjI allI impI)
    note same = stored_same_trans
    show "stored (span ?bp 528) s s6"
      by (rule same [OF same [OF same [OF same [OF st1 st2] st4] st5] st6])
    show "\<exists>m b e. s6 = s\<lparr>ram := m, hwas_ssize := word_of_nat n, hwas_sp := ?sp, hwa_inu_bitmap := b, phymm_end := e\<rparr>"
      by (rule exI [of _ "ram s6"], rule exI [of _ ?bm], rule exI [of _ "phymm_end s6"])
         (simp add: s6_def s5_def s4_def s2_def s1 stn_def)
    show bm: "hwa_inu_bitmap s6 = ?bm" by (simp add: s6_def s5_def s4_def stn_def)
    have d5: "data_range s4 ?bm (length ?zs)" using d4 by (simp only: lz)
    show "rd32 s6 (?bp + 4 * word_of_nat i) = Some (?mm + 4096 * word_of_nat i)" if i: "i < n" for i
    proof -
      have "(4 * word_of_nat i :: u32) = word_of_nat (4 * i)" by simp
      moreover have "unat (word_of_nat (4 * i) :: u32) = 4 * i" "unat (word_of_nat ?off :: u32) = ?off"
        using i n(3) off(2) by (simp_all only: unat_of_nat) simp_all
      ultimately have "unat (?bp + 4 * word_of_nat i) = unat ?bp + 4 * i" "unat ?bm = unat ?bp + ?off"
        using i n(3) bp(2) off(2) by (simp_all only: unat_add_small)
      then have "sep ?bm (length ?zs) (?bp + 4 * word_of_nat i) 4"
        using i n(3) off bp(2) unfolding sep_def lz by simp
      moreover have us: "unshadowed s4 (?bp + 4 * word_of_nat i) 4"
        using unshadowed_part [of s4 ?bp "4 * n" "4 * i" 4] data_range_sub [OF d, of "4 * n"] n(3) i
        by (simp add: sd4)
      ultimately have "rdn s5 (?bp + 4 * word_of_nat i) 4 = rdn s4 (?bp + 4 * word_of_nat i) 4"
        unfolding s5_def by (intro rdn_stn_sep [OF d5])
      then have "rd32 s6 (?bp + 4 * word_of_nat i) = rd32 s2 (?bp + 4 * word_of_nat i)"
        using same_reads(2) [of s6 s5] same_reads(2) [of s4 s2] by (simp add: rd32_def s6_def s4_def)
      also have "\<dots> = Some (?mm + 4096 * word_of_nat i)"
        by (rule data_slots [OF d1 i _ s2_def]) (use n(3) in simp)
      finally show ?thesis .
    qed
    show "rd8 s6 (hwa_inu_bitmap s6 + word_of_nat i) = Some 0" if i: "i < n div 8" for i
    proof -
      have "length ?zs \<le> 4294967296" using n(3) by (simp only: lz)
      then have "rdn s5 ?bm (length ?zs) = Some ?zs" unfolding s5_def by (rule rdn_stn_same [OF d5])
      then have "rd8 s5 (?bm + word_of_nat i) = Some (?zs ! i)" by (rule rdn_nth) (simp only: lz i)
      moreover have "?zs ! i = 0"
      proof -
        have "set ?zs \<subseteq> {0}" by auto
        moreover have "?zs ! i \<in> set ?zs" by (rule nth_mem) (simp only: lz i)
        ultimately show ?thesis by blast
      qed
      ultimately show ?thesis using same_reads(1) [of s6 s5] by (simp add: bm) (simp add: s6_def)
    qed
  qed
  ultimately show ?thesis by blast
qed

lemma filled_vm_wf:
  fixes s :: "'a kheap_scheme"
  assumes p: "paged s" and ok: "fill_ok s" and n_def: "n = min 128 (unat (hwas_ssize s))" and f: "filled s n s'"
  shows "vm_wf s'" and "nframes s' = n" and "used_set s' = {}" and "stack_top s' = n - 1"
proof -
  have n: "n mod 8 = 0" "0 < n" "n \<le> 128" and bp: "pgoff (hwas_bp s) = 0" "unat (hwas_bp s) + 1024 < 4294967296"
    and d: "data_range s (hwas_bp s) 528" and mm: "pgoff (hwa_mmstart s) = 0"
    "unat (hwa_mmstart s) + 4096 * n < 4294967296" and raw: "raw_frames s (hwa_mmstart s) n"
    using ok by (auto simp: fill_ok_def Let_def n_def)
  note off = bitmap_off_bounds [OF n]
  have st: "stored (span (hwas_bp s) 528) s s'" and slots: "\<forall>i<n. rd32 s' (hwas_bp s + 4 * word_of_nat i) =
      Some (hwa_mmstart s + 4096 * word_of_nat i)" and zero: "\<forall>i<n div 8. rd8 s' (hwa_inu_bitmap s' + word_of_nat i) = Some 0"
    and bm: "hwa_inu_bitmap s' = hwas_bp s + word_of_nat (bitmap_off n)"
    using f by (auto simp: filled_def)
  obtain m b e where s': "s' = s\<lparr>ram := m, hwas_ssize := word_of_nat n, hwas_sp := hwas_bp s + 4 * word_of_nat n - 4,
      hwa_inu_bitmap := b, phymm_end := e\<rparr>"
    using f by (auto simp: filled_def)
  have g: "hwas_ssize s' = word_of_nat n" "hwas_sp s' = hwas_bp s + 4 * word_of_nat n - 4" "hwas_bp s' = hwas_bp s"
    "hwa_mmstart s' = hwa_mmstart s"
    by (simp_all add: s')
  note sd = storedD [OF st]
  have un: "unat (word_of_nat n :: u32) = n" "unat (word_of_nat (bitmap_off n) :: u32) = bitmap_off n"
    using n(3) off(2) by (simp_all add: unat_of_nat)
  show nf: "nframes s' = n" by (simp add: nframes_def g un)
  have bb: "bm_bytes s' = n div 8" using n(1) by (simp add: bm_bytes_def nf) presburger
  have w: "word_of_nat (4 * (n - 1)) = (4 * word_of_nat n - 4 :: u32)"
    using n(2) by (simp add: of_nat_diff algebra_simps)
  then have sp: "hwas_sp s' - hwas_bp s' = word_of_nat (4 * (n - 1))" by (simp add: g)
  have "unat (word_of_nat (4 * (n - 1)) :: u32) = 4 * (n - 1)" using n(3) by (simp only: unat_of_nat) simp
  then show top: "stack_top s' = n - 1" unfolding stack_top_def sp by simp
  have "word_of_nat (4 * (n - 1)) = (4 * word_of_nat (n - 1) :: u32)" by simp
  then have sp4: "hwas_sp s' = hwas_bp s' + 4 * word_of_nat (stack_top s')" using sp top by (simp add: algebra_simps)
  have fa: "frame_addr s' k = hwa_mmstart s + 4096 * word_of_nat k" for k by (simp add: frame_addr_def g)
  have ub: "unat (hwas_bp s + word_of_nat (bitmap_off n)) = unat (hwas_bp s) + bitmap_off n"
    using un(2) bp(2) off(2) by (simp add: unat_add_small)
  have sep: "sep (hwas_bp s) (4 * n) (hwas_bp s + word_of_nat (bitmap_off n)) (n div 8)"
    unfolding sep_def ub using off bp(2) by simp
  have r: "data_range s (hwas_bp s) (4 * n)" "data_range s (hwas_bp s + word_of_nat (bitmap_off n)) (n div 8)"
    using data_range_sub [OF d, of "4 * n"] data_range_add [OF d off(2)] n(3) by simp_all
  have "phymm_static s'"
    unfolding phymm_static_def nf bb bm g fa sd(8) using n(3) mm bp(2) r sep slots by simp
  then have wf: "phymm_wf s'" using top sp4 n(2) by (simp add: phymm_wf_def nf)
  have "\<not> used s' k" if "k < n" for k
  proof -
    have "n = n div 8 * 8" using n(1) by (simp add: mod_0_imp_dvd)
    then have "k div 8 < n div 8" using that by (intro less_mult_imp_div_less) simp
    then have "rd8 s' (hwa_inu_bitmap s' + word_of_nat (k div 8)) = Some 0" using zero by blast
    then show ?thesis by (simp add: used_def)
  qed
  then show us: "used_set s' = {}" by (simp add: used_set_def nf)
  have "raw_frames s' (hwa_mmstart s) n" by (rule stored_raw_frames [OF st raw])
  then have "free_frames_ok s'" by (simp add: free_frames_ok_def nf frame_no_def fa raw_frames_def Let_def)
  then show "vm_wf s'" using wf stored_paged [OF st] p by (simp add: vm_wf_paged)
qed

section \<open>The memory map of the boot loader\<close>

text \<open>An entry: its size (without the size field), base, length and type.  The map lies outside the screen and
  the shadow (\<open>boot.s\<close> copies it into \<open>meminfo_struct\<close>, in the kernel image).\<close>

type_synonym mmap_entry = "u32 \<times> u64 \<times> u64 \<times> u32"

fun mmap_at :: "'a machine_scheme \<Rightarrow> u32 \<Rightarrow> mmap_entry list \<Rightarrow> bool" where
  "mmap_at s p [] = True"
| "mmap_at s p ((sz, b, l, ty) # es) \<longleftrightarrow>
     rd32 s p = Some sz \<and> rd64 s (p + 4) = Some b \<and> rd64 s (p + 12) = Some l \<and> rd32 s (p + 20) = Some ty \<and>
     span p 24 \<inter> span VGA_BASE 4000 = {} \<and> unshadowed s p 24 \<and> mmap_at s (p + (sz + 4)) es"

text \<open>Usable memory lies above the first megabyte.\<close>

definition usable :: "mmap_entry \<Rightarrow> bool" where
  "usable e \<longleftrightarrow> (case e of (_, b, _, ty) \<Rightarrow> 0x100000 \<le> b \<and> ty = 1)"

fun entry_ptr :: "u32 \<Rightarrow> mmap_entry list \<Rightarrow> u32" where
  "entry_ptr p [] = p"
| "entry_ptr p (e # es) = entry_ptr (p + (fst e + 4)) es"

text \<open>No pointer after one of the entries exceeds the limit.\<close>

fun entries_within :: "u32 \<Rightarrow> u32 \<Rightarrow> mmap_entry list \<Rightarrow> bool" where
  "entries_within lim p [] = True"
| "entries_within lim p (e # es) \<longleftrightarrow> p + (fst e + 4) \<le> lim \<and> entries_within lim (p + (fst e + 4)) es"

lemma mmap_at_append: "mmap_at s p (xs @ ys) \<longleftrightarrow> mmap_at s p xs \<and> mmap_at s (entry_ptr p xs) ys"
proof (induction xs arbitrary: p)
  case (Cons e es)
  then show ?case by (cases e) (simp add: conj_assoc)
qed simp

lemma stored_rd64:
  assumes st: "stored A s s'" and a: "span a 8 \<inter> A = {}" and u: "unshadowed s a 8"
  shows "rd64 s' a = rd64 s a"
proof -
  have u2: "unshadowed s a 4" "unshadowed s (a + 4) 4"
    using unshadowed_part [OF u, of 0 4] unshadowed_part [OF u, of 4 4] by simp_all
  have "span a 4 \<subseteq> span a 8" "span (a + 4) 4 \<subseteq> span a 8"
    using span_part [of 0 4 8 a] span_part [of 4 4 8 a] by simp_all
  then have "span a 4 \<inter> A = {}" "span (a + 4) 4 \<inter> A = {}" using a by blast+
  then show ?thesis by (simp add: rd64_def stored_rd32 [OF st] u2)
qed

lemma stored_mmap_at:
  assumes "stored A s s'" and "A \<subseteq> span VGA_BASE 4000" and "mmap_at s p es"
  shows "mmap_at s' p es"
  using assms(3)
proof (induction es arbitrary: p)
  case (Cons e es)
  obtain sz b l ty where e: "e = (sz, b, l, ty)" by (cases e)
  have sub: "span p 4 \<subseteq> span p 24" "span (p + 4) 8 \<subseteq> span p 24" "span (p + 12) 8 \<subseteq> span p 24" "span (p + 20) 4 \<subseteq> span p 24"
    using span_part [of 0 4 24 p] span_part [of 4 8 24 p] span_part [of 12 8 24 p] span_part [of 20 4 24 p] by simp_all
  have "span p 24 \<inter> A = {}" using Cons.prems assms(2) by (auto simp: e)
  then have "span p 4 \<inter> A = {}" "span (p + 4) 8 \<inter> A = {}" "span (p + 12) 8 \<inter> A = {}" "span (p + 20) 4 \<inter> A = {}"
    using sub by blast+
  moreover have "unshadowed s p 24" using Cons.prems by (simp add: e)
  then have "unshadowed s p 4" "unshadowed s (p + 4) 8" "unshadowed s (p + 12) 8" "unshadowed s (p + 20) 4"
    using unshadowed_part [of s p 24 0 4] unshadowed_part [of s p 24 4 8] unshadowed_part [of s p 24 12 8]
      unshadowed_part [of s p 24 20 4] by simp_all
  ultimately show ?case
    using Cons by (simp add: e stored_rd32 [OF assms(1)] stored_rd64 [OF assms(1)] stored_shadow [OF assms(1)])
qed simp

lemma loop_skips:
  assumes "mmap_at s p es" and "\<forall>e\<in>set es. \<not> usable e"
    and "entries_within (bios_mmap_addr s + bios_mmap_len s) p es"
  shows "init_phymm_loop s p = init_phymm_loop s (entry_ptr p es)"
  using assms
proof (induction es arbitrary: p)
  case (Cons e es)
  obtain sz b l ty where e: "e = (sz, b, l, ty)" by (cases e)
  have "init_phymm_loop s p = init_phymm_loop s (p + (sz + 4))"
  proof -
    have "\<not> usable e" using Cons.prems(2) by simp
    then have "\<not> (0x100000 \<le> b \<and> ty = 1)" by (simp add: e usable_def)
    then show ?thesis
      using Cons.prems(1,3) by (subst init_phymm_loop.simps) (auto simp: e print_mmap_entry_def Let_def)
  qed
  also have "\<dots> = init_phymm_loop s (entry_ptr (p + (sz + 4)) es)"
    by (rule Cons.IH) (use Cons.prems in \<open>simp_all add: e\<close>)
  finally show ?case by (simp add: e)
qed simp

section \<open>A usable region\<close>

text \<open>The size of the kernel image as the code counts it, and the globals set for the region \<open>(b, l)\<close>.\<close>

definition kernel_bytes :: "'a phymm_scheme \<Rightarrow> u32" where
  "kernel_bytes s = kernel_end s - 0xc0100000 + 0x1000"

definition region_set :: "'a kheap_scheme \<Rightarrow> u64 \<Rightarrow> u64 \<Rightarrow> 'a kheap_scheme" where
  "region_set s b l = s\<lparr>hwa_mmstart := ucast b + kernel_bytes s,
     hwas_ssize := ucast ((l - ucast (kernel_bytes s)) div 4096)\<rparr>"

text \<open>The state after a successful \<open>init_phymm\<close>: all invariants of the memory components hold, every frame is
  free, and only the screen, the allocator's tables and its globals have changed.\<close>

definition frames_up :: "'a kheap_scheme \<Rightarrow> u32 \<Rightarrow> nat \<Rightarrow> 'a kheap_scheme \<Rightarrow> bool" where
  "frames_up s mm n s' \<longleftrightarrow> vm_wf s' \<and> hwa_mmstart s' = mm \<and> nframes s' = n \<and> used_set s' = {} \<and>
     stack_top s' = n - 1 \<and> stored (span VGA_BASE 4000 \<union> span (hwas_bp s) 528) s s' \<and>
     (\<exists>m tr r c ss sp bm e. s' = s\<lparr>ram := m, io_trace := tr, vga_cursor_r := r, vga_cursor_c := c, hwa_mmstart := mm,
        hwas_ssize := ss, hwas_sp := sp, hwa_inu_bitmap := bm, phymm_end := e\<rparr>)"

lemma printed_region_set:
  assumes "printed s s'"
  shows "printed (region_set s b l) (region_set s' b l)"
proof -
  have a: "stored A s' (region_set s' b l)" "stored A (region_set s b l) s" for A
    by (rule stored_globals; simp add: region_set_def)+
  obtain m tr r c where "s' = s\<lparr>ram := m, io_trace := tr, vga_cursor_r := r, vga_cursor_c := c\<rparr>"
    using assms by (auto simp: printed_def)
  then have "region_set s' b l = (region_set s b l)\<lparr>ram := m, io_trace := tr, vga_cursor_r := r, vga_cursor_c := c\<rparr>"
    by (simp add: region_set_def kernel_bytes_def)
  moreover have "stored (span VGA_BASE 4000) s s'" using assms by (simp add: printed_def)
  ultimately show ?thesis
    using stored_same_trans [OF stored_same_trans [OF a(2)] a(1)] unfolding printed_def by blast
qed

lemma printed_fill_ok:
  assumes pr: "printed s s'" and ok: "fill_ok s"
  shows "fill_ok s'"
proof -
  have st: "stored (span VGA_BASE 4000) s s'" using pr by (simp add: printed_def)
  have g: "hwas_ssize s' = hwas_ssize s" "hwas_bp s' = hwas_bp s" "hwa_mmstart s' = hwa_mmstart s"
    using pr by (auto simp: printed_def)
  note sd = storedD [OF st]
  show ?thesis using ok stored_raw_frames [OF st] by (simp add: fill_ok_def Let_def g sd(8))
qed

lemma printed_fields:
  assumes "printed s s'"
  shows "bios_mmap_addr s' = bios_mmap_addr s" "bios_mmap_len s' = bios_mmap_len s" "kernel_end s' = kernel_end s"
    "hwa_mmstart s' = hwa_mmstart s" "hwas_ssize s' = hwas_ssize s" "hwas_bp s' = hwas_bp s"
  using assms by (auto simp: printed_def)

text \<open>A line of the kernel's log: text without control characters that ends before column 80, then a new line.\<close>

lemma early_line:
  fixes s :: "'a kheap_scheme"
  assumes sh: "early_shows s t" and c: "plain cs" "t_col t + length cs < 80"
  obtains s' t' where "vga_print s cs = Some s'" and "early_shows s' t'" and "printed s s'"
    and "t_row t' = t_row t" and "t_col t' = t_col t + length cs"
proof -
  have r: "t_row t < 24" using sh by (simp add: early_shows_def)
  note f = plain_fits [OF c(1) r c(2)]
  show ?thesis using early_print [OF sh f(1)] f(2,3) that by blast
qed

lemma early_newline:
  fixes s :: "'a kheap_scheme"
  assumes sh: "early_shows s t" and r: "t_row t + 1 < 24" and nl: "nl = [13, 10] \<or> nl = [10, 13]"
  obtains s' t' where "vga_print s nl = Some s'" and "early_shows s' t'" and "printed s s'"
    and "t_row t' = t_row t + 1" and "t_col t' = 0"
proof -
  have c: "t_col t < 80" using sh by (simp add: early_shows_def)
  note f = newline_fits [OF r c nl]
  show ?thesis using early_print [OF sh f(1)] f(2,3) that by blast
qed

lemma early_hex:
  fixes s :: "'a kheap_scheme"
  assumes sh: "early_shows s t" and c: "t_col t + 10 < 80"
  obtains s' t' where "vga_puthex s i = Some s'" and "early_shows s' t'" and "printed s s'"
    and "t_row t' = t_row t" and "t_col t' = t_col t + 10"
proof -
  have l: "lit ''0x'' = [48, 120]" by (simp add: lit_def of_char_def)
  have p: "plain (lit ''0x'' @ hex_chars i)" "length (lit ''0x'' @ hex_chars i) = 10"
    using hex_chars_plain [of i] by (simp_all add: l plain_def)
  show ?thesis
    by (rule early_line [OF sh p(1)]) (use c p(2) that in \<open>simp_all add: vga_puthex_print\<close>)
qed

lemma log_texts:
  "plain (lit ''Kernel ends at '')" "length (lit ''Kernel ends at '') = 15"
  "plain (lit ''Using memory region of size (pages): '')" "length (lit ''Using memory region of size (pages): '') = 37"
  "plain (lit '' at '')" "length (lit '' at '') = 4"
  by (simp_all add: lit_def of_char_def plain_def)

lemma region_prints:
  fixes s :: "'a kheap_scheme"
  assumes sh: "early_shows s t" and r: "t_row t + 1 < 24" and c: "t_col t = 0"
    and at: "mmap_at s p [(sz, b, l, ty)]"
  shows "\<exists>s6. printed (region_set s b l) s6 \<and> paged s6 \<and> phymm_region s p = phymm_fill s6"
proof -
  let ?s1 = "region_set s b l"
  have g: "stored A s ?s1" for A by (rule stored_globals) (simp_all add: region_set_def)
  have sh1: "early_shows ?s1 t"
    using sh storedD(8) [OF g] stored_paged [OF g] same_reads(2) [of ?s1 s]
    by (simp add: early_shows_def cursor_at_def always_ready_def region_set_def)
  obtain s2 t2 where 2: "vga_print ?s1 (lit ''Using memory region of size (pages): '') = Some s2"
    "early_shows s2 t2" "printed ?s1 s2" "t_row t2 = t_row t" "t_col t2 = t_col t + 37"
    by (rule early_line [OF sh1 log_texts(3)]) (use c log_texts(4) in simp_all)
  have "mmap_at s2 p [(sz, b, l, ty)]"
    by (rule stored_mmap_at [OF _ _ at, where A = "span VGA_BASE 4000"])
       (use 2(3) stored_same_trans [OF g] in \<open>simp_all add: printed_def\<close>)
  then have l2: "rd64 s2 (p + 12) = Some l" by simp
  obtain s3 t3 where 3: "vga_puthex s2 (ucast (l div 4096)) = Some s3" "early_shows s3 t3" "printed s2 s3"
    "t_row t3 = t_row t" "t_col t3 = 47"
    by (rule early_hex [OF 2(2)]) (use c 2(4,5) in simp_all)
  obtain s4 t4 where 4: "vga_print s3 (lit '' at '') = Some s4" "early_shows s4 t4" "printed s3 s4"
    "t_row t4 = t_row t" "t_col t4 = 51"
    by (rule early_line [OF 3(2) log_texts(5)]) (use 3(4,5) log_texts(6) in simp_all)
  obtain s5 t5 where 5: "vga_puthex s4 (hwa_mmstart s4) = Some s5" "early_shows s5 t5" "printed s4 s5"
    "t_row t5 = t_row t" "t_col t5 = 61"
    by (rule early_hex [OF 4(2)]) (use 4(4,5) in simp_all)
  obtain s6 t6 where 6: "vga_print s5 [13, 10] = Some s6" "early_shows s6 t6" "printed s5 s6"
    by (rule early_newline [OF 5(2), where nl = "[13, 10]"]) (use r 5(4) in simp_all)
  have "printed ?s1 s6"
    by (rule printed_trans [OF 2(3) printed_trans [OF 3(3) printed_trans [OF 4(3) printed_trans [OF 5(3) 6(3)]]]])
  moreover have "phymm_region s p = phymm_fill s6"
    using at 2(1) 3(1) 4(1) 5(1) 6(1) l2
    by (simp add: phymm_region_def Let_def region_set_def kernel_bytes_def)
  ultimately show ?thesis using 6(2) by (auto simp: early_shows_def)
qed

text \<open>The first line of the log, and the whole of \<open>init_phymm\<close>.\<close>

lemma phymm_greets:
  fixes s :: "'a kheap_scheme"
  assumes sh: "early_shows s t" and r: "t_row t + 1 < 24" and c: "t_col t = 0"
  obtains s3 t3 where "init_phymm s = init_phymm_loop s3 (bios_mmap_addr s)" and "early_shows s3 t3" and "printed s s3"
    and "t_row t3 = t_row t + 1" and "t_col t3 = 0"
proof -
  obtain s1 t1 where 1: "vga_print s (lit ''Kernel ends at '') = Some s1" "early_shows s1 t1" "printed s s1"
    "t_row t1 = t_row t" "t_col t1 = t_col t + 15"
    by (rule early_line [OF sh log_texts(1)]) (use c log_texts(2) in simp_all)
  obtain s2 t2 where 2: "vga_puthex s1 (kernel_end s1) = Some s2" "early_shows s2 t2" "printed s1 s2"
    "t_row t2 = t_row t" "t_col t2 = 25"
    by (rule early_hex [OF 1(2)]) (use c 1(4,5) in simp_all)
  obtain s3 t3 where 3: "vga_print s2 [13, 10] = Some s3" "early_shows s3 t3" "printed s2 s3"
    "t_row t3 = t_row t + 1" "t_col t3 = 0"
    by (rule early_newline [OF 2(2), where nl = "[13, 10]"]) (use r 2(4) in simp_all)
  have pr: "printed s s3" by (rule printed_trans [OF 1(3) printed_trans [OF 2(3) 3(3)]])
  then have "init_phymm s = init_phymm_loop s3 (bios_mmap_addr s)"
    using 1(1) 2(1) 3(1) printed_fields(1) [OF pr] by (simp add: init_phymm_def)
  then show ?thesis using 3(2,4,5) pr that by blast
qed

lemma phymm_run:
  fixes s :: "'a kheap_scheme"
  assumes sh: "early_shows s t" and r: "t_row t + 2 < 24" and c: "t_col t = 0"
    and at: "mmap_at s (bios_mmap_addr s) (pre @ [(sz, b, l, 1)])" and un: "\<forall>e\<in>set pre. \<not> usable e"
    and within: "entries_within (bios_mmap_addr s + bios_mmap_len s) (bios_mmap_addr s) pre"
    and b: "0x100000 \<le> b" and ok: "fill_ok (region_set s b l)"
  shows "\<exists>s'. init_phymm s = Some (STATUS_OK, s') \<and>
    frames_up s (ucast b + kernel_bytes s)
      (min 128 (unat (ucast ((l - ucast (kernel_bytes s)) div 4096) :: u32))) s'"
proof -
  let ?lim = "bios_mmap_addr s + bios_mmap_len s" and ?p = "bios_mmap_addr s"
  obtain s3 t3 where 3: "init_phymm s = init_phymm_loop s3 ?p" "early_shows s3 t3" "printed s s3"
    "t_row t3 = t_row t + 1" "t_col t3 = 0"
    by (rule phymm_greets [OF sh _ c]) (use r in simp)
  have st3: "stored (span VGA_BASE 4000) s s3" using 3(3) by (simp add: printed_def)
  note g3 = printed_fields [OF 3(3)]
  have at3: "mmap_at s3 ?p (pre @ [(sz, b, l, 1)])" by (rule stored_mmap_at [OF st3 subset_refl at])
  have pre3: "mmap_at s3 ?p pre" and here: "mmap_at s3 (entry_ptr ?p pre) [(sz, b, l, 1)]"
    using at3 by (simp_all only: mmap_at_append)
  have loop: "init_phymm s = init_phymm_loop s3 (entry_ptr ?p pre)"
    unfolding 3(1) by (rule loop_skips [OF pre3 un]) (use within in \<open>simp add: g3\<close>)
  have "t_row t3 + 1 < 24" using r 3(4) by simp
  from region_prints [OF 3(2) this 3(5) here]
  obtain s6 where 6: "printed (region_set s3 b l) s6" "paged s6"
    "phymm_region s3 (entry_ptr ?p pre) = phymm_fill s6" by blast
  have k3: "kernel_bytes s3 = kernel_bytes s" by (simp add: kernel_bytes_def g3)
  have "printed (region_set s b l) (region_set s3 b l)" by (rule printed_region_set [OF 3(3)])
  from printed_trans [OF this 6(1)] have p6: "printed (region_set s b l) s6" .
  have ok6: "fill_ok s6" by (rule printed_fill_ok [OF p6 ok])
  define n where "n = min 128 (unat (hwas_ssize s6))"
  obtain s' where s': "phymm_fill s6 = Some s'" "filled s6 n s'" using fill_run [OF 6(2) ok6 n_def] by blast
  note wf = filled_vm_wf [OF 6(2) ok6 n_def s'(2)]
  note g6 = printed_fields [OF p6]
  have n: "n = min 128 (unat (ucast ((l - ucast (kernel_bytes s)) div 4096) :: u32))"
    unfolding n_def g6(5) by (simp add: region_set_def)
  have "init_phymm s = Some (STATUS_OK, s')"
    unfolding loop using here b s'(1) 6(3)
    by (subst init_phymm_loop.simps) (simp add: print_mmap_entry_def Let_def)
  moreover have "frames_up s (ucast b + kernel_bytes s) n s'"
  proof -
    have bp: "hwas_bp s6 = hwas_bp s" using g6(6) by (simp add: region_set_def)
    obtain m tr r c where f6: "s6 = (region_set s b l)\<lparr>ram := m, io_trace := tr, vga_cursor_r := r, vga_cursor_c := c\<rparr>"
      using p6 by (auto simp: printed_def)
    obtain m' bm e where f': "s' = s6\<lparr>ram := m', hwas_ssize := word_of_nat n,
        hwas_sp := hwas_bp s6 + 4 * word_of_nat n - 4, hwa_inu_bitmap := bm, phymm_end := e\<rparr>"
      using s'(2) by (auto simp: filled_def)
    have "stored A s (region_set s b l)" for A by (rule stored_globals; simp add: region_set_def)
    moreover have "stored (span VGA_BASE 4000) (region_set s b l) s6" using p6 by (simp add: printed_def)
    moreover have "stored (span (hwas_bp s) 528) s6 s'" using s'(2) bp by (simp add: filled_def)
    ultimately have "stored (span VGA_BASE 4000 \<union> span (hwas_bp s) 528) s s'"
      using stored_same_trans stored_trans by blast
    moreover have "s' = s\<lparr>ram := m', io_trace := tr, vga_cursor_r := r, vga_cursor_c := c,
        hwa_mmstart := ucast b + kernel_bytes s, hwas_ssize := word_of_nat n,
        hwas_sp := hwas_bp s6 + 4 * word_of_nat n - 4, hwa_inu_bitmap := bm, phymm_end := e\<rparr>"
      unfolding f' f6 by (simp add: region_set_def)
    ultimately show ?thesis using wf unfolding frames_up_def by (intro conjI) (simp_all, blast)
  qed
  ultimately show ?thesis unfolding n by blast
qed

end
