(* ===== verification/Startup.thy ===== *)
theory Startup
  imports FrameInit TableProps
begin

text \<open>
  The start of the kernel (\<open>kernel_init\<close> of \<open>kernel/kernel.c\<close>): from the state that the boot code leaves, the
  initialisations establish, one after the other, the invariants on which all other theorems rest.
\<close>

section \<open>The first heap\<close>

lemma walk_absent: "\<not> present (pde s (pd_index a)) \<Longrightarrow> walk s a = None"
  by (simp add: walk_def walk_frame_def pde_def Let_def)

lemma alloc_spec_start:
  assumes n: "8 \<le> n"
  shows "alloc_spec n {} (n - 1) 3 = Some (0, {0..<3}, n - 1)"
    and "alloc_spec n {0..<3} (n - 1) 1 = Some (n - 1, insert (n - 1) {0..<3}, n - 2)"
proof -
  have "[0..<Suc n - 3] = 0 # [1..<Suc n - 3]" using n by (simp add: upt_conv_Cons)
  then have "first_window (\<lambda>j. j \<in> {}) 3 n = Some 0" by (simp add: first_window_def window_def)
  then show "alloc_spec n {} (n - 1) 3 = Some (0, {0..<3}, n - 1)" using n by (simp add: alloc_spec_def)
  obtain k where k: "n = Suc (Suc k)" "6 \<le> k" using n by (cases n; cases "n - 1") auto
  then show "alloc_spec n {0..<3} (n - 1) 1 = Some (n - 1, insert (n - 1) {0..<3}, n - 2)" by (simp add: alloc_spec_def)
qed

lemma start_pages:
  assumes "k < 3"
  shows "\<not> in_window (nth_page kheap_start k)" and "pd_index (nth_page kheap_start k) = pd_index kheap_start"
proof -
  have "k = 0 \<or> k = 1 \<or> k = 2" using assms by auto
  then show "\<not> in_window (nth_page kheap_start k)" "pd_index (nth_page kheap_start k) = pd_index kheap_start"
    by (auto simp: nth_page_def in_window_def pd_index_def kheap_start_def)
qed

lemma first_heap:
  fixes s :: "'a kheap_scheme"
  assumes wf: "vm_wf s" and n: "8 \<le> nframes s" and us: "used_set s = {}" and top: "stack_top s = nframes s - 1"
    and new: "first_blk s = 0" and np: "\<not> present (pde s (pd_index kheap_start))"
  shows "\<exists>s'. init_virtmm s = Some (STATUS_OK, s') \<and> heap_inv s' [(kheap_start, 0x3000 - 40, True)]"
proof -
  have pages: "npages 0x3000 = 3" by (simp add: npages_def)
  have "walk s (nth_page kheap_start k) = None" if "k < 3" for k
    using np by (intro walk_absent) (simp add: start_pages(2) [OF that])
  then have ok: "mmap_ok s kheap_start 0x3000 0 (insert (nframes s - 1) {0..<3}) (nframes s - 2)"
    unfolding mmap_ok_def pages us top using alloc_spec_start [OF n] start_pages np by simp
  have "pgoff kheap_start = 0" "4096 \<le> unat kheap_start" "unat kheap_start + 0x3000 < 4294967296"
    by (simp_all add: kheap_start_def pgoff_def)
  from init_kmalloc_run [OF wf new this _ ok, of 0]
  obtain s' where "init_kmalloc s kheap_start 0 = Some (STATUS_OK, s')"
      "heap_inv s' [(kheap_start, 0x3000 - 40, True)]"
    by auto
  then show ?thesis by (simp add: init_virtmm_def kguard_def)
qed

text \<open>That heap has room for the tables and their gates.\<close>

definition heap_with_gdt :: "blk list" where
  "heap_with_gdt = [(kheap_start, 48, False), (kheap_start + 68, 12180, True)]"

definition heap_with_idt :: "blk list" where
  "heap_with_idt = [(kheap_start, 48, False), (kheap_start + 68, 2048, False), (kheap_start + 2136, 10112, True)]"

lemma start_allocs:
  "alloc_ready s [(kheap_start, 0x3000 - 40, True)] 40"
  "snd (alloc_abs s [(kheap_start, 0x3000 - 40, True)] 40) = heap_with_gdt"
  "alloc_ready s heap_with_gdt 2040" "snd (alloc_abs s heap_with_gdt 2040) = heap_with_idt"
  "roomy 20 heap_with_idt"
proof -
  have r: "round16 40 = 48" "round16 2040 = 2048" by (simp_all add: round16_def)
  show "alloc_ready s [(kheap_start, 0x3000 - 40, True)] 40" "alloc_ready s heap_with_gdt 2040"
    by (simp_all add: alloc_ready_def r heap_with_gdt_def)
  show "snd (alloc_abs s [(kheap_start, 0x3000 - 40, True)] 40) = heap_with_gdt"
    "snd (alloc_abs s heap_with_gdt 2040) = heap_with_idt"
    by (simp_all add: alloc_abs_def r heap_with_gdt_def heap_with_idt_def carve_def)
  show "roomy 20 heap_with_idt"
    using roomy_end [of "[(kheap_start, 48, False), (kheap_start + 68, 2048, False)]" 20 10112 "kheap_start + 2136"]
    by (simp add: heap_with_idt_def)
qed

section \<open>The chain of initialisations\<close>

lemma guarded_OK [simp]: "guarded (Some (STATUS_OK, s)) = Some s"
  by (simp add: guarded_def kguard_def)

lemma printed_trace: "printed s (s\<lparr>io_trace := tr\<rparr>)"
proof -
  have "stored A s (s\<lparr>io_trace := tr\<rparr>)" for A by (rule stored_globals) simp_all
  moreover have "s\<lparr>io_trace := tr\<rparr> = s\<lparr>ram := ram s, io_trace := tr, vga_cursor_r := vga_cursor_r s, vga_cursor_c := vga_cursor_c s\<rparr>"
    by simp
  ultimately show ?thesis unfolding printed_def by blast
qed

text \<open>The serial port answers the byte of the self test.\<close>

definition loops_back :: "'a console_scheme \<Rightarrow> bool" where
  "loops_back s \<longleftrightarrow> (\<forall>tr. (ucast (io_dev s tr COM1PORT) :: u8) = 0xAE)"

lemma init_serial_run:
  assumes "loops_back s"
  shows "\<exists>tr. init_serial s = (STATUS_OK, s\<lparr>io_trace := tr\<rparr>)"
proof (intro exI)
  show "init_serial s = (STATUS_OK, s\<lparr>io_trace := io_trace (snd (init_serial s))\<rparr>)"
    using assms by (simp add: init_serial_def loops_back_def io_defs Let_def)
qed

lemma banner_text:
  "plain (lit ''Booting OS2 written by tjz...'')" "length (lit ''Booting OS2 written by tjz...'') = 29"
  by (simp_all add: lit_def of_char_def plain_def)

text \<open>
  What the boot code, the boot loader and the machine have to provide: page tables with the screen and the
  kernel's tables mapped and nothing at the heap's address; a memory map whose first usable region is
  page aligned and leaves, after the kernel, room for a number of frames that is a multiple of 8
  or at least 128; a page for the allocator after the image; a serial port that works, and no heap yet.
  The frames that \<open>init_phymm\<close> will take are mapped already, in the window that \<open>fill_loop\<close> of \<open>boot.s\<close> makes:
  \<open>fill_ok\<close> (through \<open>raw_frames\<close>) only asks that no address outside the \<open>shadow\<close> leads to them.  One thing
  is asked that \<open>boot.s\<close> does not see to itself: these frames hold zeros, as the memory of an
  emulator that was just started does (nothing in the kernel clears a frame before \<open>mapfr\<close> makes it a page
  table).  The state \<open>loader\<close> of theory \<open>BootStart\<close>
  satisfies all of it.
\<close>

definition loaded :: "'a kheap_scheme \<Rightarrow> mmap_entry list \<Rightarrow> u64 \<Rightarrow> u64 \<Rightarrow> bool" where
  "loaded s pre b l \<longleftrightarrow>
     paged s \<and> data_range s VGA_BASE 4000 \<and> always_ready s \<and> loops_back s \<and>
     (\<exists>sz. mmap_at s (bios_mmap_addr s) (pre @ [(sz, b, l, 1)])) \<and> (\<forall>e\<in>set pre. \<not> usable e) \<and>
     entries_within (bios_mmap_addr s + bios_mmap_len s) (bios_mmap_addr s) pre \<and> 0x100000 \<le> b \<and>
     fill_ok (region_set s b l) \<and> first_blk s = 0 \<and> \<not> present (pde s (pd_index kheap_start))"

lemma start_log:
  fixes s :: "'a cpu_scheme"
  assumes ld: "loaded s pre b l"
  shows "\<exists>s1 s2 s3 t. guarded (Some (init_serial s)) = Some s1 \<and> vga_clear s1 = Some s2 \<and>
    vga_print s2 (lit ''Booting OS2 written by tjz...'' @ [10, 13]) = Some s3 \<and>
    early_shows s3 t \<and> t_row t = 1 \<and> t_col t = 0 \<and> printed s s3"
proof -
  have p: "paged s" and d: "data_range s VGA_BASE 4000" and rdy: "always_ready s" and lb: "loops_back s"
    using ld by (auto simp: loaded_def)
  obtain tr where 1: "init_serial s = (STATUS_OK, s\<lparr>io_trace := tr\<rparr>)" using init_serial_run [OF lb] by blast
  have pr1: "printed s (s\<lparr>io_trace := tr\<rparr>)" by (rule printed_trace)
  then have st1: "stored (span VGA_BASE 4000) s (s\<lparr>io_trace := tr\<rparr>)" by (simp add: printed_def)
  obtain s2 where 2: "vga_clear (s\<lparr>io_trace := tr\<rparr>) = Some s2"
    "early_shows s2 \<lparr>t_cells = blank_cells 2000, t_row = 0, t_col = 0\<rparr>" "printed (s\<lparr>io_trace := tr\<rparr>) s2"
    using early_clear [of "s\<lparr>io_trace := tr\<rparr>"] p d rdy stored_paged [OF st1] storedD(8) [OF st1] by auto
  obtain s3 t3 where 3: "vga_print s2 (lit ''Booting OS2 written by tjz...'') = Some s3" "early_shows s3 t3"
    "printed s2 s3" "t_row t3 = 0" "t_col t3 = 29"
    by (rule early_line [OF 2(2) banner_text(1)]) (use banner_text(2) in simp_all)
  obtain s4 t4 where 4: "vga_print s3 [10, 13] = Some s4" "early_shows s4 t4" "printed s3 s4"
    "t_row t4 = 1" "t_col t4 = 0"
    by (rule early_newline [OF 3(2), where nl = "[10, 13]"]) (use 3(4) in simp_all)
  have "printed s s4" by (rule printed_trans [OF pr1 printed_trans [OF 2(3) printed_trans [OF 3(3) 4(3)]]])
  then show ?thesis using 1 2(1) 3(1) 4 by (auto simp: vga_print_append)
qed

lemma start_memory:
  fixes s :: "'a cpu_scheme"
  assumes ld: "loaded s pre b l" and pr: "printed s s3" and sh: "early_shows s3 t" and t: "t_row t = 1" "t_col t = 0"
  shows "\<exists>s4 s5. init_phymm s3 = Some (STATUS_OK, s4) \<and> init_virtmm s4 = Some (STATUS_OK, s5) \<and>
    heap_inv s5 [(kheap_start, 0x3000 - 40, True)]"
proof -
  obtain sz where at: "mmap_at s (bios_mmap_addr s) (pre @ [(sz, b, l, 1)])" using ld by (auto simp: loaded_def)
  have un: "\<forall>e\<in>set pre. \<not> usable e" and b: "0x100000 \<le> b" and ok: "fill_ok (region_set s b l)"
    and within: "entries_within (bios_mmap_addr s + bios_mmap_len s) (bios_mmap_addr s) pre"
    and new: "first_blk s = 0" and np: "\<not> present (pde s (pd_index kheap_start))"
    using ld by (auto simp: loaded_def)
  have st: "stored (span VGA_BASE 4000) s s3" using pr by (simp add: printed_def)
  note g = printed_fields [OF pr]
  have at3: "mmap_at s3 (bios_mmap_addr s3) (pre @ [(sz, b, l, 1)])"
    using stored_mmap_at [OF st subset_refl at] by (simp add: g)
  have ok3: "fill_ok (region_set s3 b l)" by (rule printed_fill_ok [OF printed_region_set [OF pr] ok])
  have w3: "entries_within (bios_mmap_addr s3 + bios_mmap_len s3) (bios_mmap_addr s3) pre" using within by (simp add: g)
  have "t_row t + 2 < 24" using t by simp
  from phymm_run [OF sh this t(2) at3 un w3 b ok3]
  obtain n s4 where 4: "init_phymm s3 = Some (STATUS_OK, s4)"
    "frames_up s3 (ucast b + kernel_bytes s3) n s4"
    "n = min 128 (unat (ucast ((l - ucast (kernel_bytes s3)) div 4096) :: u32))"
    by blast
  have "n mod 8 = 0" "0 < n" using ok3 by (auto simp: fill_ok_def Let_def region_set_def 4(3))
  then have n: "8 \<le> n" by (intro dvd_imp_le) auto
  have f: "vm_wf s4" "nframes s4 = n" "used_set s4 = {}" "stack_top s4 = n - 1"
    and st4: "stored (span VGA_BASE 4000 \<union> span (hwas_bp s3) 528) s3 s4"
    using 4(2) by (auto simp: frames_up_def)
  have "first_blk s4 = first_blk s3" using 4(2) by (auto simp: frames_up_def)
  also have "\<dots> = first_blk s" using pr by (auto simp: printed_def)
  finally have new4: "first_blk s4 = 0" using new by simp
  have "unat (pd_index kheap_start) < 1024" by (rule pd_index_less)
  then have "pde s4 (pd_index kheap_start) = pde s (pd_index kheap_start)"
    using storedD(9) [OF st4] storedD(9) [OF st] by simp
  then have np4: "\<not> present (pde s4 (pd_index kheap_start))" using np by simp
  show ?thesis using first_heap [OF f(1) _ f(3) _ new4 np4] n f(2,4) 4(1) by auto
qed

text \<open>The descriptor tables are in the heap, loaded, and hold the descriptors and the trap gates.\<close>

definition tables_up :: "(isr \<Rightarrow> u32) \<Rightarrow> 'a cpu_scheme \<Rightarrow> blk list \<Rightarrow> bool" where
  "tables_up isr_addr s h \<longleftrightarrow>
     (\<exists>p m ys. (p, m) \<in> live h \<and> rdn s p m = Some (concat (map bytes64 gdt_entries) @ ys) \<and> cpu_gdtr s = (40, p)) \<and>
     cpu_cs s = 0x8 \<and> cpu_ds s = 0x10 \<and>
     (\<exists>q k tab. (q, k) \<in> live h \<and> 2040 \<le> k \<and> rdn s q k = Some tab \<and> cpu_idtr s = (2040, q) \<and>
       (\<forall>v trap f. (v, trap, f) \<in> set trap_table \<longrightarrow> slot v tab = gate (isr_addr f) (gate_type trap)))"

lemma start_tables:
  fixes s :: "'a cpu_scheme"
  assumes inv: "heap_inv s [(kheap_start, 0x3000 - 40, True)]"
  shows "\<exists>s6 s7 s8 h. init_gdt s = Some (STATUS_OK, s6) \<and> init_idt s6 = Some (STATUS_OK, s7) \<and>
    init_cpu_traps isr_addr s7 = Some (STATUS_OK, s8) \<and> heap_inv s8 h \<and> tables_up isr_addr s8 h"
proof -
  note al = start_allocs
  obtain s6 p m ys where 6: "init_gdt s = Some (STATUS_OK, s6)" "heap_inv s6 heap_with_gdt"
    "(p, m) \<in> live heap_with_gdt" "rdn s6 p m = Some (concat (map bytes64 gdt_entries) @ ys)"
    "cpu_gdtr s6 = (40, p)" "cpu_cs s6 = 0x8" "cpu_ds s6 = 0x10"
    using init_gdt_run [OF inv al(1)] unfolding al(2) by auto
  obtain s7 q k where 7: "init_idt s6 = Some (STATUS_OK, s7)" "heap_inv s7 heap_with_idt"
    "live heap_with_idt = insert (q, k) (live heap_with_gdt)" "2048 \<le> k" "idt_base s7 = q" "cpu_idtr s7 = (2040, q)"
    "q \<notin> fst ` live heap_with_gdt" "\<forall>r l. (r, l) \<in> live heap_with_gdt \<longrightarrow> rdn s7 r l = rdn s6 r l"
    "cpu_gdtr s7 = cpu_gdtr s6" "cpu_cs s7 = cpu_cs s6" "cpu_ds s7 = cpu_ds s6"
    by (rule init_idt_run [OF 6(2) al(3), unfolded al(4)])
  have qk: "(idt_base s7, k) \<in> live heap_with_idt" using 7(3,5) by simp
  obtain tab where tab: "rdn s7 (idt_base s7) k = Some tab" by (rule live_contents [OF 7(2) qk])
  have "2040 \<le> k" using 7(4) by simp
  from init_cpu_traps_run [OF 7(2) al(5) qk this tab, of isr_addr]
  obtain s8 h tab' where 8: "init_cpu_traps isr_addr s7 = Some (STATUS_OK, s8)" "heap_inv s8 h"
    "live heap_with_idt \<subseteq> live h" "rdn s8 (idt_base s7) k = Some tab'"
    "\<forall>v trap f. (v, trap, f) \<in> set trap_table \<longrightarrow> slot v tab' = gate (isr_addr f) (gate_type trap)"
    "heap_frame s7 s8" "\<forall>r l. (r, l) \<in> live heap_with_idt \<and> r \<noteq> idt_base s7 \<longrightarrow> rdn s8 r l = rdn s7 r l"
    by blast
  note g8 = heap_frame_cpu [OF 8(6)]
  have pq: "p \<noteq> idt_base s7" using 6(3) 7(5,7) by force
  have pm: "(p, m) \<in> live heap_with_idt" using 6(3) 7(3) by simp
  have "rdn s8 p m = rdn s7 p m" using 8(7) pm pq by blast
  also have "\<dots> = rdn s6 p m" using 7(8) 6(3) by blast
  finally have gdt: "rdn s8 p m = Some (concat (map bytes64 gdt_entries) @ ys)" using 6(4) by simp
  have "(p, m) \<in> live h" "(q, k) \<in> live h" using pm qk 7(5) 8(3) by auto
  then have "tables_up isr_addr s8 h"
    unfolding tables_up_def
    using gdt 6(5-7) 7(6,9-11) g8 8(4,5) 7(5) \<open>2040 \<le> k\<close>
    by (intro conjI exI [of _ p] exI [of _ m] exI [of _ ys] exI [of _ q] exI [of _ k] exI [of _ tab']) simp_all
  then show ?thesis using 6(1) 7(1) 8(1,2) by blast
qed

lemma kernel_init_base_run:
  fixes s :: "'a cpu_scheme"
  assumes "loaded s pre b l"
  shows "\<exists>s' h. kernel_init_base isr_addr s = Some s' \<and> heap_inv s' h \<and> tables_up isr_addr s' h \<and>
    ctl_run PIC1_COMMAND PIC1_DATA (io_trace s') c =
      \<lparr>ctl_expects = 0, ctl_base = 0x20, ctl_cascade = 4, ctl_mode = ICW4_8086, ctl_mask = 0xfb\<rparr> \<and>
    ctl_run PIC2_COMMAND PIC2_DATA (io_trace s') c =
      \<lparr>ctl_expects = 0, ctl_base = 0x28, ctl_cascade = 2, ctl_mode = ICW4_8086, ctl_mask = 0xfd\<rparr>"
proof -
  obtain s1 s2 s3 t where 3: "guarded (Some (init_serial s)) = Some s1" "vga_clear s1 = Some s2"
    "vga_print s2 (lit ''Booting OS2 written by tjz...'' @ [10, 13]) = Some s3"
    "early_shows s3 t" "t_row t = 1" "t_col t = 0" "printed s s3"
    using start_log [OF assms] by blast
  obtain s4 s5 where 5: "init_phymm s3 = Some (STATUS_OK, s4)" "init_virtmm s4 = Some (STATUS_OK, s5)"
    "heap_inv s5 [(kheap_start, 0x3000 - 40, True)]"
    using start_memory [OF assms 3(7,4-6)] by blast
  obtain s6 s7 s8 h where 8: "init_gdt s5 = Some (STATUS_OK, s6)" "init_idt s6 = Some (STATUS_OK, s7)"
    "init_cpu_traps isr_addr s7 = Some (STATUS_OK, s8)" "heap_inv s8 h" "tables_up isr_addr s8 h"
    using start_tables [OF 5(3), of isr_addr] by blast
  obtain tr where 9: "init_pic s8 = (STATUS_OK, s8\<lparr>io_trace := tr\<rparr>)" using init_pic_only by blast
  have "kernel_init_base isr_addr s = Some (s8\<lparr>io_trace := tr\<rparr>)"
    using 3(1-3) 5(1,2) 8(1-3) 9 by (simp add: kernel_init_base_def)
  moreover have "heap_same s8 (s8\<lparr>io_trace := tr\<rparr>)" by (simp add: heap_same_def vm_same_def)
  note sm = heap_same_inv [OF this]
  have "heap_inv (s8\<lparr>io_trace := tr\<rparr>) h" "tables_up isr_addr (s8\<lparr>io_trace := tr\<rparr>) h"
    using 8(4,5) by (simp_all add: sm tables_up_def)
  moreover have "io_trace (snd (init_pic s8)) = tr" by (simp add: 9)
  ultimately show ?thesis using init_pic_run [of s8 c] by auto
qed

end
