(* ===== verification/BootStart.thy ===== *)
theory BootStart
  imports Startup ScreenProps
begin

text \<open>
  A concrete machine in the state that the boot loader and \<open>boot.s\<close> leave when they call \<open>kernel_init\<close>: the
  image, the page tables and the stack of theory \<open>Boot\<close>, in \<open>meminfo_struct\<close> the memory map that
  QEMU gives for 128 MiB, of which the fourth entry is the first usable one, and a serial port
  that works.  The page after the image, where \<open>init_phymm\<close> puts its tables, holds what it may.  What
  \<open>init_phymm\<close> and the first part of \<open>kernel_init\<close> do, with witnesses on this machine.
\<close>

section \<open>The machine\<close>

definition loader_dev :: "io_event list \<Rightarrow> u16 \<Rightarrow> u32" where
  "loader_dev tr p = (if p = COM1PORT then 0xAE else 0x20)"

text \<open>The memory map, as 32-bit words: six entries.\<close>

definition map_words :: "u32 list" where
  "map_words =
     [20, 0, 0, 0x9fc00, 0, 1,
      20, 0x9fc00, 0, 0x400, 0, 2,
      20, 0xf0000, 0, 0x10000, 0, 2,
      20, 0x100000, 0, 0x7ee0000, 0, 1,
      20, 0x7fe0000, 0, 0x20000, 0, 2,
      20, 0xfffc0000, 0, 0x40000, 0, 2]"

definition map_bytes :: "u8 list" where
  "map_bytes = concat (map (\<lambda>i. bytes32 (map_words ! i)) [0..<36])"

definition low_entries :: "mmap_entry list" where
  "low_entries = [(20, 0, 0x9fc00, 1), (20, 0x9fc00, 0x400, 2), (20, 0xf0000, 0x10000, 2)]"

definition loader_nic :: nic where
  "loader_nic = boot_nic\<lparr>io_dev := loader_dev, bios_mmap_len := 144,
     hwa_mmstart := 0, hwa_inu_bitmap := 0, hwas_sp := 0, hwas_ssize := 0, phymm_end := 0\<rparr>"

definition loader :: nic where
  "loader = stn loader_nic 0xc0103000 map_bytes"

lemma loader_fields:
  "ram loader_nic = ram boot" "cr3 loader_nic = cr3 boot" "tlb loader_nic = tlb boot"
  "pde_table loader_nic = pde_table boot" "hwas_bp loader_nic = 0xc010d000" "kernel_end loader_nic = 0xc010d000"
  "first_blk loader_nic = 0" "io_dev loader_nic = loader_dev" "bios_mmap_addr loader_nic = 0xc0103000"
  "bios_mmap_len loader_nic = 144" "vga_cursor_r loader_nic = 0" "vga_cursor_c loader_nic = 0"
  by (simp_all add: loader_nic_def boot_nic_def boot_def)

lemma loader_nic_memory:
  "translate loader_nic = translate boot" "data loader_nic = data boot" "walk loader_nic = walk boot"
  "is_table loader_nic = is_table boot" "tlb_ok loader_nic = tlb_ok boot" "pde loader_nic i = pde boot i"
  "data_range loader_nic = data_range boot" "shadow loader_nic = shadow boot"
proof -
  show t: "translate loader_nic = translate boot"
    by (intro ext) (simp add: translate_def loader_fields split: option.split)
  show h: "shadow loader_nic = shadow boot" by (rule shadow_eq) (simp add: loader_fields)
  show d: "data loader_nic = data boot" by (intro ext) (simp add: data_def t h loader_fields)
  then show "data_range loader_nic = data_range boot" by (simp add: data_range_def fun_eq_iff)
  show w: "walk loader_nic = walk boot" by (intro ext) (simp add: walk_def loader_fields)
  show "is_table loader_nic = is_table boot" by (intro ext) (simp add: is_table_def loader_fields)
  show "tlb_ok loader_nic = tlb_ok boot" by (simp add: tlb_ok_def w loader_fields)
  show "pde loader_nic i = pde boot i" by (simp add: pde_def loader_fields)
qed

lemma length_map_bytes: "length map_bytes = 144"
  using slot_bytes [of "\<lambda>i. map_words ! i" 36] by (simp add: map_bytes_def)

lemma loader_nic_paged: "paged loader_nic"
  using boot_vm_wf by (simp add: vm_wf_paged paged_def shadow_mapped_def loader_nic_memory loader_fields)

lemma map_data: "data_range loader_nic 0xc0103000 (length map_bytes)"
  unfolding loader_nic_memory length_map_bytes by (rule boot_page) (simp_all add: page_def pgoff_def)

lemma loader_stored: "stored (span 0xc0103000 144) loader_nic loader"
  using stored_stn [OF loader_nic_paged map_data] by (simp add: loader_def length_map_bytes)

lemmas loader_memory = storedD [OF loader_stored]

lemma loader_screen: "data_range loader VGA_BASE 4000"
  using boot_foreign by (simp add: loader_memory(8) loader_nic_memory data_range_def foreign_def)

lemma loader_word: "k < 36 \<Longrightarrow> rd32 loader (0xc0103000 + 4 * word_of_nat k) = Some (map_words ! k)"
proof -
  assume k: "k < 36"
  have "data_range loader_nic 0xc0103000 (4 * 36)" using map_data by (simp add: length_map_bytes)
  then show ?thesis by (rule data_slots [OF _ k]) (simp_all add: loader_def map_bytes_def)
qed

text \<open>Entry \<open>k\<close> of the map in memory.\<close>

lemma loader_entry:
  assumes k: "k < 6"
    and e: "map_words ! (6 * k) = 20" "map_words ! (6 * k + 1) = b" "map_words ! (6 * k + 2) = 0"
      "map_words ! (6 * k + 3) = l" "map_words ! (6 * k + 4) = 0" "map_words ! (6 * k + 5) = ty"
    and p: "p = 0xc0103000 + word_of_nat (24 * k)"
  shows "mmap_at loader p [(20, ucast b, ucast l, ty)]"
proof -
  have w: "rd32 loader (p + 4 * word_of_nat j) = Some (map_words ! (6 * k + j))" if "j < 6" for j
    using loader_word [of "6 * k + j"] k that by (simp add: p algebra_simps)
  have kk: "k = 0 \<or> k = 1 \<or> k = 2 \<or> k = 3 \<or> k = 4 \<or> k = 5" using k by presburger
  have "sep p 24 VGA_BASE 4000" using kk by (auto simp: p sep_def unat_VGA_BASE)
  then have "span p 24 \<inter> span VGA_BASE 4000 = {}" by (rule span_sep)
  moreover have "data_range boot p 24" using kk by (intro boot_page) (auto simp: p page_def pgoff_def)
  then have "unshadowed loader p 24"
    by (intro data_range_unshadowed) (simp add: loader_memory(8) loader_nic_memory)
  ultimately show ?thesis
    using w [of 0] w [of 1] w [of 2] w [of 3] w [of 4] w [of 5] e by (simp add: rd64_def add.assoc)
qed

lemma loader_low: "mmap_at loader 0xc0103000 low_entries"
  using loader_entry [of 0 0 "0x9fc00" 1 "0xc0103000"] loader_entry [of 1 "0x9fc00" "0x400" 2 "0xc0103018"]
    loader_entry [of 2 "0xf0000" "0x10000" 2 "0xc0103030"]
  by (simp add: low_entries_def map_words_def)

lemma loader_map: "mmap_at loader 0xc0103000 (low_entries @ [(20, 0x100000, 0x7ee0000, 1)])"
  using loader_low loader_entry [of 3 "0x100000" "0x7ee0000" 1 "0xc0103048"]
  unfolding mmap_at_append by (simp add: low_entries_def map_words_def)

text \<open>The frames after the kernel, as many as \<open>init_phymm\<close> takes: they are zero and can be seen through the
  shadow only.\<close>

lemma loader_raw: "raw_frames loader 0x10e000 128"
proof (rule stored_raw_frames [OF loader_stored])
  show "raw_frames loader_nic 0x10e000 128"
    unfolding raw_frames_def Let_def loader_nic_memory loader_fields boot_fields
  proof (intro allI impI)
    fix k :: nat assume k: "k < 128"
    have "unat (word_of_nat (4096 * k) :: u32) = 4096 * k" using k by (simp only: unat_of_nat) simp
    then have "unat (0x10e000 + 4096 * word_of_nat k :: u32) = 0x10e000 + 4096 * k"
      using k by (subst unat_add_small) simp_all
    then have "unat (page (0x10e000 + 4096 * word_of_nat k)) = 0x10e + k" unfolding unat_page by simp
    then have h: "0x10d < page (0x10e000 + 4096 * word_of_nat k)" by (simp add: word_less_nat_alt)
    show "\<not> is_table boot (page (0x10e000 + 4096 * word_of_nat k)) \<and>
      (\<forall>a. walk boot a = Some (page (0x10e000 + 4096 * word_of_nat k)) \<longrightarrow> shadow boot a) \<and>
      (\<forall>p. page p = page (0x10e000 + 4096 * word_of_nat k) \<longrightarrow> boot_ram p = 0)"
      using boot_high_raw [OF h] boot_high_frame [OF h] by simp
  qed
qed

lemma loader_kernel: "hwas_bp loader = 0xc010d000" "kernel_bytes loader = 0xe000"
  by (simp_all add: loader_def loader_fields stn_def kernel_bytes_def)

lemma loader_region: "fill_ok (region_set loader 0x100000 0x7ee0000)"
proof -
  let ?r = "region_set loader 0x100000 0x7ee0000"
  have st: "stored A loader ?r" for A by (rule stored_globals) (simp_all add: region_set_def)
  have g: "hwa_mmstart ?r = 0x10e000" "hwas_ssize ?r = 0x7ed2" "hwas_bp ?r = 0xc010d000"
    by (simp_all add: region_set_def loader_kernel)
  have "data_range boot 0xc010d000 528" by (rule boot_page) (simp_all add: page_def pgoff_def)
  then have "data_range ?r 0xc010d000 528" by (simp add: storedD(8) [OF st] loader_memory(8) loader_nic_memory)
  moreover have "raw_frames ?r 0x10e000 128" by (rule stored_raw_frames [OF st loader_raw])
  ultimately show ?thesis by (simp add: fill_ok_def Let_def g pgoff_def)
qed

lemma loader_ports: "always_ready loader" "loops_back loader"
proof -
  have d: "io_dev loader = loader_dev" by (simp add: loader_def loader_fields)
  show "always_ready loader" by (simp add: always_ready_def d loader_dev_def COM1PORT_def)
  show "loops_back loader" by (simp add: loops_back_def d loader_dev_def)
qed

lemma loader_globals: "bios_mmap_addr loader = 0xc0103000" "bios_mmap_len loader = 144" "first_blk loader = 0"
  "vga_cursor_r loader = 0" "vga_cursor_c loader = 0"
  by (simp_all add: loader_def loader_fields stn_def)

lemma loader_loaded: "loaded loader low_entries 0x100000 0x7ee0000"
proof -
  have p: "paged loader" using stored_paged [OF loader_stored] loader_nic_paged by simp
  have i: "pd_index kheap_start = 832" by (simp add: pd_index_def kheap_start_def)
  have "\<not> present (pde loader 832)" by (simp add: loader_memory(9) loader_nic_memory boot_pde)
  then show ?thesis
    unfolding loaded_def i loader_globals
    using p loader_screen loader_ports loader_map loader_region by (auto simp: usable_def low_entries_def)
qed

lemma loader_shows: "\<exists>xs. early_shows loader \<lparr>t_cells = xs, t_row = 0, t_col = 0\<rparr>"
proof -
  have p: "paged loader" using stored_paged [OF loader_stored] loader_nic_paged by simp
  obtain xs where "rdn loader VGA_BASE 4000 = Some xs" using data_rdn [OF loader_screen] by blast
  then show ?thesis using p loader_screen loader_ports loader_globals by (auto simp: early_shows_def cursor_at_def)
qed

section \<open>The set-up of the frame allocator\<close>

text \<open>C11: \<open>init_phymm\<close> skips the unusable entries of the boot loader's memory map, takes the first usable region and
  establishes the invariants of the allocator and of the paging service: at most 128 frames, all
  free, above the kernel's own memory; besides its tables it has only changed the screen.\<close>

theorem init_phymm_takes_region:
  fixes s :: "'a kheap_scheme"
  assumes "early_shows s t" and "t_row t < 22" and "t_col t = 0"
    and "mmap_at s (bios_mmap_addr s) (pre @ [(sz, b, l, 1)])" and "\<forall>e\<in>set pre. \<not> usable e"
    and "entries_within (bios_mmap_addr s + bios_mmap_len s) (bios_mmap_addr s) pre"
    and "0x100000 \<le> b" and "fill_ok (region_set s b l)"
  shows "\<exists>s'. init_phymm s = Some (STATUS_OK, s') \<and>
    frames_up s (ucast b + kernel_bytes s)
      (min 128 (unat (ucast ((l - ucast (kernel_bytes s)) div 4096) :: u32))) s'"
  by (rule phymm_run [OF assms(1) _ assms(3-8)]) (use assms(2) in simp)

theorem init_phymm_takes_region_witness:
  "\<exists>s'. init_phymm loader = Some (STATUS_OK, s') \<and> frames_up loader 0x10e000 128 s'"
proof -
  obtain xs where sh: "early_shows loader \<lparr>t_cells = xs, t_row = 0, t_col = 0\<rparr>" using loader_shows by blast
  have at: "mmap_at loader (bios_mmap_addr loader) (low_entries @ [(20, 0x100000, 0x7ee0000, 1)])"
    unfolding loader_globals by (rule loader_map)
  from init_phymm_takes_region [OF sh _ _ at _ _ _ loader_region]
  show ?thesis by (simp add: loader_kernel loader_globals usable_def low_entries_def)
qed

text \<open>What the guard leaves when a step reports an error: its two lines, on screen and serial port.\<close>

lemma guard_message_plain: "plain (kguard_message st)" "length (kguard_message st) < 80"
  by (simp_all add: kguard_message_def lit_def of_char_def plain_def)

lemma guard_reports:
  fixes s :: "'a kheap_scheme"
  assumes "paged s" and "data_range s VGA_BASE 4000" and "always_ready s"
  shows "\<exists>u. kguard_panic s st = Some u \<and> printed s u \<and>
    sent (io_trace u) = sent (io_trace s) @ lit ''KGuard Panic'' @ [10, 10, 13] @ kguard_message st"
proof -
  let ?t = "\<lparr>t_cells = blank_cells 2000, t_row = 0, t_col = 0\<rparr>" and ?a = "lit ''KGuard Panic''" and ?nl = "[10, 10, 13] :: u8 list"
  obtain s1 where 1: "vga_clear s = Some s1" "early_shows s1 ?t" "printed s s1" "io_trace s1 = io_trace s"
    using early_clear [OF assms] by blast
  have a: "plain ?a" "length ?a = 12" by (simp_all add: lit_def of_char_def plain_def)
  have f: "term_fits ?t ?a" "t_row (foldl term_put ?t ?a) = 0" "t_col (foldl term_put ?t ?a) = 12"
    using plain_fits [OF a(1), of ?t] a(2) by simp_all
  have n: "term_fits (foldl term_put ?t ?a) ?nl" "t_row (foldl term_put (foldl term_put ?t ?a) ?nl) = 2"
    "t_col (foldl term_put (foldl term_put ?t ?a) ?nl) = 0"
    using f(2,3) by (simp_all add: term_eval)
  have "term_fits (foldl term_put (foldl term_put ?t ?a) ?nl) (kguard_message st)"
    by (rule plain_fits(1) [OF guard_message_plain(1)]) (use n guard_message_plain(2) in simp_all)
  then have "term_fits ?t (?a @ ?nl @ kguard_message st)" using f(1) n(1) by (simp only: term_fits_append foldl_append simp_thms)
  then obtain u where u: "vga_print s1 (?a @ ?nl @ kguard_message st) = Some u" "printed s1 u"
    "sent (io_trace u) = sent (io_trace s1) @ ?a @ ?nl @ kguard_message st"
    using early_print [OF 1(2)] by blast
  have "kguard_panic s st = Some u"
    using 1(1) u(1) unfolding kguard_panic_def append_assoc [symmetric] by (subst (asm) vga_print_append) simp
  then show ?thesis using u(2,3) 1(3,4) printed_trans by auto
qed

text \<open>C37: When no entry of the map is usable, \<open>init_phymm\<close> stops at the first entry whose successor lies beyond
  the end of the map and reports STATUS_FAILED_INIT; only the screen has changed.  (An entry that
  begins exactly at the end of the map is still read.)  The guard of \<open>kernel_init\<close> then stops the kernel
  with the reason on the screen and on the serial port.\<close>

theorem init_phymm_no_region:
  fixes s :: "'a kheap_scheme"
  assumes "early_shows s t" and "t_row t < 22" and "t_col t = 0"
    and "mmap_at s (bios_mmap_addr s) (es @ [e])" and "\<forall>e\<in>set (es @ [e]). \<not> usable e"
    and "entries_within (bios_mmap_addr s + bios_mmap_len s) (bios_mmap_addr s) es"
    and "bios_mmap_addr s + bios_mmap_len s < entry_ptr (bios_mmap_addr s) (es @ [e])"
  shows "\<exists>s' u. init_phymm s = Some (STATUS_FAILED_INIT, s') \<and> printed s s' \<and> guarded (init_phymm s) = None \<and>
    kguard_panic s' STATUS_FAILED_INIT = Some u \<and> printed s u \<and> sent (io_trace u) =
      sent (io_trace s') @ lit ''KGuard Panic'' @ [10, 10, 13] @ lit ''Kernel Initialization Routine Failed''"
proof -
  let ?p = "bios_mmap_addr s"
  obtain s3 t3 where 3: "init_phymm s = init_phymm_loop s3 ?p" "early_shows s3 t3" "printed s s3"
    by (rule phymm_greets [OF assms(1) _ assms(3)]) (use assms(2) in simp)
  note g = printed_fields [OF 3(3)]
  have "stored (span VGA_BASE 4000) s s3" using 3(3) by (simp add: printed_def)
  then have at3: "mmap_at s3 ?p (es @ [e])" by (rule stored_mmap_at [OF _ subset_refl assms(4)])
  have es: "mmap_at s3 ?p es" and here: "mmap_at s3 (entry_ptr ?p es) [e]" using at3 by (simp_all only: mmap_at_append)
  have "init_phymm_loop s3 ?p = init_phymm_loop s3 (entry_ptr ?p es)"
    by (rule loop_skips [OF es]) (use assms(5,6) in \<open>simp_all add: g\<close>)
  also have "\<dots> = Some (STATUS_FAILED_INIT, s3)"
  proof -
    obtain sz b l ty where e: "e = (sz, b, l, ty)" by (cases e)
    have "\<not> usable e" using assms(5) by simp
    then have "\<not> (0x100000 \<le> b \<and> ty = 1)" by (simp add: e usable_def)
    moreover have "entry_ptr q (es @ [e]) = entry_ptr q es + (sz + 4)" for q
      by (induction es arbitrary: q) (simp_all add: e)
    then have "\<not> entry_ptr ?p es + (sz + 4) \<le> bios_mmap_addr s3 + bios_mmap_len s3"
      using assms(7) by (simp add: g not_le)
    ultimately show ?thesis using here
      by (subst init_phymm_loop.simps) (auto simp: e print_mmap_entry_def Let_def)
  qed
  finally have r: "init_phymm s = Some (STATUS_FAILED_INIT, s3)" using 3(1) by simp
  have m: "kguard_message STATUS_FAILED_INIT = lit ''Kernel Initialization Routine Failed''" "STATUS_FAILED_INIT \<noteq> STATUS_OK"
    by (simp_all add: kguard_message_def status_defs)
  obtain u where u: "kguard_panic s3 STATUS_FAILED_INIT = Some u" "printed s3 u"
    "sent (io_trace u) = sent (io_trace s3) @ lit ''KGuard Panic'' @ [10, 10, 13] @ kguard_message STATUS_FAILED_INIT"
    using guard_reports [of s3] 3(2) by (auto simp: early_shows_def)
  have "guarded (init_phymm s) = None" using u(1) m(2) by (simp add: guarded_def kguard_def r)
  then show ?thesis using r 3(3) u printed_trans [OF 3(3) u(2)] unfolding m(1) by blast
qed

theorem init_phymm_no_region_witness:
  "\<exists>s'. init_phymm (loader\<lparr>bios_mmap_len := 20\<rparr>) = Some (STATUS_FAILED_INIT, s') \<and>
    guarded (init_phymm (loader\<lparr>bios_mmap_len := 20\<rparr>)) = None"
proof -
  let ?s = "loader\<lparr>bios_mmap_len := 20\<rparr>"
  have st: "stored A loader ?s" for A by (rule stored_globals) simp_all
  obtain xs where "early_shows loader \<lparr>t_cells = xs, t_row = 0, t_col = 0\<rparr>" using loader_shows by blast
  then have sh: "early_shows ?s \<lparr>t_cells = xs, t_row = 0, t_col = 0\<rparr>"
    using stored_paged [OF st] storedD(8) [OF st] same_reads(2) [of ?s loader]
    by (simp add: early_shows_def cursor_at_def always_ready_def)
  have "mmap_at loader (bios_mmap_addr ?s) ([] @ [(20, 0, 0x9fc00, 1)])"
    using loader_low by (simp add: loader_globals low_entries_def)
  then have at: "mmap_at ?s (bios_mmap_addr ?s) ([] @ [(20, 0, 0x9fc00, 1)])"
    by (intro stored_mmap_at [OF st [of "{}"] empty_subsetI])
  from init_phymm_no_region [OF sh _ _ at] show ?thesis by (auto simp: loader_globals usable_def)
qed

section \<open>The start of the kernel\<close>

text \<open>C1: The first nine steps of \<open>kernel_init\<close>, run on the state that the loader leaves, all succeed and
  establish the invariants of the whole memory system: a well-formed heap, the descriptor tables in
  it and loaded, a gate for every trap, and both interrupt controllers remapped and masked.\<close>

theorem kernel_init_base_establishes:
  fixes s :: "'a cpu_scheme"
  assumes "loaded s pre b l"
  shows "\<exists>s' h. kernel_init_base isr_addr s = Some s' \<and> heap_inv s' h \<and> tables_up isr_addr s' h \<and>
    ctl_run PIC1_COMMAND PIC1_DATA (io_trace s') c =
      \<lparr>ctl_expects = 0, ctl_base = 0x20, ctl_cascade = 4, ctl_mode = ICW4_8086, ctl_mask = 0xfb\<rparr> \<and>
    ctl_run PIC2_COMMAND PIC2_DATA (io_trace s') c =
      \<lparr>ctl_expects = 0, ctl_base = 0x28, ctl_cascade = 2, ctl_mode = ICW4_8086, ctl_mask = 0xfd\<rparr>"
  by (rule kernel_init_base_run [OF assms])

theorem kernel_init_base_establishes_witness:
  "\<exists>s' h. kernel_init_base (\<lambda>_. 0xc0100000) loader = Some s' \<and> heap_inv s' h \<and> tables_up (\<lambda>_. 0xc0100000) s' h"
  using kernel_init_base_establishes [OF loader_loaded, of "\<lambda>_. 0xc0100000"] by blast

end
