(* ===== verification/Spec2Isabelle.thy ===== *)
theory Spec2Isabelle
  imports Layouts FrameProps PagingTrace HeapTrace TableProps ItoaProps ScreenProps PrintProps IoProps BusProps PciProps TransmitProps TrapProps BootStart
begin

text \<open>
  pakOS is a small kernel for i386: it starts from \<open>kernel/asm/boot.s\<close> in the upper quarter of the
  address space, sets up memory management, descriptor tables, trap handlers and interrupt
  controllers, finds the PCI devices, loads a driver for an Intel network card and sends three ARP
  requests.  This development models all of its C code and proves what makes the parts correct; where
  the code does something else than it means to, the theorem says what it does.

  \<^bold>\<open>The parts and how they interact.\<close>  A frame allocator (\<open>kernel/mm/phy-mm.c\<close>) hands out physical
  frames; the paging service (\<open>kernel/mm/virt-mm.c\<close>) takes frames from it and maps them, reaching the
  page tables through the directory's entry for itself; the heap (\<open>kernel/mm/kmalloc.c\<close>) grows through
  \<open>mmap\<close>.  The screen (\<open>kernel/vga/vga.c\<close>) scrolls through a buffer from the heap and echoes to the
  serial port (\<open>kernel/debug/serial.c\<close>); the heap's error paths print.  The C library (\<open>klibc\<close>), the
  descriptor tables (\<open>gdt.c\<close>, \<open>idt.c\<close>), the device list (\<open>pci.c\<close>), the card's driver and the packets
  (\<open>intel_8254x.c\<close>, \<open>netdev.c\<close>) all live on the heap.  \<open>kernel.c\<close> runs them in order.

  \<^bold>\<open>The state.\<close>  The globals of each file are a record that extends the record of the file below it:
  \<open>machine\<close> (memory, page directory register, translation cache, port traffic), \<open>console\<close>, \<open>phymm\<close>,
  \<open>virtmm\<close>, \<open>kheap\<close>, \<open>cpu\<close>, \<open>pci\<close>, \<open>nic\<close>.  An operation takes the state and returns the next one in
  an option: \<open>None\<close> is a fault (an access to an address that the page tables do not map), a call that never
  returns, or an endless loop of the source.  Everything the C code keeps in memory (stack and
  bitmap of the allocator, page tables, block headers, descriptor tables, packets, strings) is in the
  model's memory too, read and written byte by byte through the page walk.

  \<^bold>\<open>The theories that translate the code.\<close>
  \<^item> \<open>Prelude\<close>: integer types, generic lemmas on words, options and loops, the collection \<open>mem_simps\<close>.
  \<^item> \<open>Machine\<close>: the processor's side (page walk, cache, ports), loads and stores; \<open>KernelDefs\<close>: the
    constants of \<open>include/kernel.h\<close>.
  \<^item> \<open>Console\<close>: \<open>serial.c\<close>.  \<open>PhyMM\<close>: \<open>hwpalloc\<close>, \<open>hwpfree\<close>.  \<open>VirtMM\<close>: \<open>mapfr\<close>, \<open>umapfr\<close>, \<open>mmap\<close>,
    \<open>munmap\<close>, \<open>maphwdev\<close>, \<open>_lpa\<close>.  \<open>KMalloc\<close>: the heap.  \<open>Vga\<close>: the screen, \<open>memmove\<close>.  \<open>Klibc\<close>:
    strings, \<open>itoa\<close>, \<open>printk\<close>.  \<open>Cpu\<close>: guards, \<open>gdt.c\<close>, \<open>idt.c\<close>, \<open>cpu_traps.c\<close>, \<open>pic.c\<close>.  \<open>Pci\<close>: \<open>pci.c\<close>.
    \<open>Nic\<close>: the driver and the packets.  \<open>Kernel\<close>: \<open>init_phymm\<close>, \<open>init_virtmm\<close>, the choice of drivers,
    \<open>kernel_init\<close>.
  \<^item> \<open>Layouts\<close>: the structures of the headers as records with their bytes in memory.

  \<^bold>\<open>Specifications and proofs.\<close>
  \<^item> Memory: the locale \<open>byte_store\<close> (theory \<open>Machine\<close>) is what programs rely on when they load and
    store; \<open>PageTables\<close> says what one store into a table does to the walk, \<open>vm_wf\<close> (\<open>VirtMM\<close>) is the
    invariant of paging and allocator together.  A byte can have two addresses: \<open>fill_loop\<close> of \<open>boot.s\<close> maps
    all of 0xc0100000-0xc03fffff, so the frames the allocator hands out are seen at 0xc0000000 plus
    their physical address as well.  The part of this window after the allocator's page is the
    \<open>shadow\<close>.  A \<open>data\<close> address lies outside it and is the only address outside it of its byte;
    a store there may change what is read in the shadow, and nothing is said about reading there.
    The invariants ask that free frames are seen in the shadow only and that the whole
    shadow stays mapped, so that no mapping is ever made in it.
  \<^item> Frames: \<open>alloc_spec\<close> (\<open>PhyMM\<close>) is the abstract allocator on sets of frame numbers; \<open>FrameProps\<close>
    has its properties.  \<open>PagingProps\<close> has those of single mapping operations; \<open>PagingTrace\<close> lets
    mappings, requests, stores and the processor's own use of its cache follow each other in any
    order and proves that walk and cache stay coherent and no frame is granted twice (\<open>vm_log\<close> records
    for each step the frames it has \<open>taken\<close>, read off the code's results, page tables included).
  \<^item> Heap: an abstract heap is the list of its blocks (\<open>KHeap\<close>); \<open>alloc_abs\<close> is first fit with a cut and
    growth at the end, \<open>release_abs\<close> joins neighbours (\<open>KHeapOps\<close>, \<open>KHeapFree\<close>, \<open>KHeapGrow\<close>,
    \<open>KHeapAlloc\<close>).  The locale \<open>heap_contract\<close> and its extension \<open>heap_client\<close> (\<open>KHeapClient\<close>) are what
    the users of the heap build on; both are interpreted on the code's \<open>kmalloc\<close> and \<open>kfree\<close>, and the
    library functions, the descriptor tables and the packets use the interpretation.  \<open>HeapProps\<close>
    states the operations one by one, \<open>HeapTrace\<close> sequences of calls against a ledger of the bytes
    in use, \<open>Ranges\<close> sequences of stores into one range.
  \<^item> Screen: \<open>Terminal\<close> has an abstract terminal of 25 lines, \<open>ScreenProps\<close> proves that \<open>vga_putchar\<close>
    implements it through the heap, \<open>Early\<close> that printing without scrolling needs no heap.  \<open>LibProps\<close>
    and \<open>ItoaProps\<close> have the library functions; \<open>PrintNum\<close> has the conversions of \<open>printk\<close>, with the
    function \<open>numbers_heap\<close> that computes what printed numbers do to the block list, and \<open>PrintProps\<close> has
    \<open>printk\<close> itself; \<open>TrapProps\<close> has the reports of the trap handlers.
  \<^item> Tables and devices: \<open>TableProps\<close> (both descriptor tables), \<open>IoProps\<close> (serial port, interrupt
    controllers, configuration addresses), \<open>BusProps\<close> (transmit ring, ARP frame), \<open>PciProps\<close> (a device that answers, from
    the questions to it to its record and its entry in the table; a bus without devices; bus mastering), \<open>TransmitProps\<close> (the
    descriptor handed to the card).  Every record of \<open>Layouts\<close> interprets the locale \<open>layout\<close>.
  \<^item> Start: \<open>FrameInit\<close>, \<open>Startup\<close> and \<open>BootStart\<close> follow \<open>kernel_init\<close> from the state that \<open>boot.s\<close> leaves,
    where nothing is set up, to the state in which all the invariants hold.  What they ask of that state
    is \<open>loaded\<close> (\<open>Startup\<close>).
  \<^item> Witnesses are stated on \<open>Boot\<close> and \<open>BootNic\<close> and on the state \<open>loader\<close> of \<open>BootStart\<close>.  Both have the image,
    the page tables and the full window of \<open>boot.s\<close> and \<open>linker.ld\<close>; \<open>loader\<close> is the state before \<open>kernel_init\<close>,
    with the memory map that QEMU gives for 128 MiB and 128 frames, \<open>boot\<close> the state after \<open>init_phymm\<close> on a
    region that leaves eight frames, so that they can be counted through.

  \<^bold>\<open>Loops, bounds.\<close>  A loop of the source that may not end is a \<open>partial_function (option)\<close> (the polls of
  the serial port, the EEPROM and the transmit descriptor, the pop loop of \<open>hwpalloc\<close>, the walks along
  the block list, \<open>strlen\<close>, the memory map); each theorem about such an operation proves that it
  returns.  No definition takes fuel.  Integers have the width of the source and wrap; addresses
  are 32-bit words.  The hypotheses on sizes in the theorems (at most 65535 characters of a format,
  200 bytes of output, requests up to \<open>0xfffffff0\<close>) are where the code's own counters or roundings
  end.

  \<^bold>\<open>Parameters.\<close>  The answers of the ports are a function of the machine (\<open>io_dev\<close>); the network card is a
  function \<open>hw\<close> that may change the state before each load from it; the link addresses of the trap
  handlers and of the transmit function, the end of the kernel and the memory map of the boot loader
  are arguments or fields of the state.

  \<^bold>\<open>Not modelled.\<close>  \<open>boot.s\<close> and \<open>linker.ld\<close> (assembly and linker script).  The hypothesis \<open>loaded\<close> of the
  start-up theorems describes the state they leave, and more: that the frames after the kernel hold
  zeros (\<open>mapfr\<close> relies on it and nothing clears them), that the first usable region is page aligned, that the
  frames taken from it are 128 or a smaller multiple of 8, and a serial port that works.  The
  stack of the C code is not part of the modelled memory, the
  processor's accessed and dirty bits are not set in the table entries, and the stores that the event
  sequences allow are to data addresses, so not through the shadow.  Not modelled either: the makefile, the self tests under \<open>#if 0\<close>, the
  builds with \<open>LINUX_MALLOC\<close> or \<open>DEBUG_MALLOC\<close>, prototypes, and constants and macros no code uses
  (\<open>ble32\<close>, \<open>_mindword\<close>, most colours).  Modelled but without a theorem of their own: the loops of
  \<open>pci_findall\<close> around \<open>pci_add_dev\<close> and the part of \<open>kernel_init\<close> that loads the card's driver.  A \<open>printk\<close>
  with a number marks the tail of the heap as used (\<open>printk_prints\<close>, \<open>itoa_marks_next_block\<close>) and the
  device's record then takes the block of its buffer, so the loops only run while the heap can grow by
  a page for every device.  There is no theorem that the polls of the EEPROM and of a busy descriptor end: they
  print an empty text, which uses the heap, in every round, and wait for the card.
\<close>

end
